(* ===== verification/Prelude.thy ===== *)
theory Prelude
  imports Main "HOL-Library.Word"
begin

text \<open>
  Shared vocabulary of the development: machine integers and byte strings, the saturating
  arithmetic of the Rust standard library, big-endian integer encodings, the sorted association
  lists that stand for \<^verbatim>\<open>BTreeMap\<close> and \<^verbatim>\<open>HashMap\<close> values, runs of a step function, and the
  generic lemmas about them that the component theories share.

  Plain \<^verbatim>\<open>+\<close>, \<^verbatim>\<open>-\<close>, \<^verbatim>\<open>*\<close> on Rust integers are the wrapping word operations of a release build;
  \<^verbatim>\<open>usize\<close> lengths of in-memory buffers are natural numbers.
\<close>

named_theorems core_defs \<open>definitions of the protocol state machine\<close>
named_theorems sat_simps \<open>natural-number readings of saturating word arithmetic\<close>

section \<open>Types\<close>

type_synonym u8 = "8 word"
type_synonym u16 = "16 word"
type_synonym u32 = "32 word"
type_synonym u64 = "64 word"
type_synonym u128 = "128 word"
type_synonym bytes = "u8 list"

section \<open>Saturating arithmetic\<close>

definition saturating_add :: "'a::len word \<Rightarrow> 'a word \<Rightarrow> 'a word" where
  "saturating_add a b = (if unat a + unat b < 2 ^ LENGTH('a) then a + b else - 1)"

definition saturating_mul :: "'a::len word \<Rightarrow> 'a word \<Rightarrow> 'a word" where
  "saturating_mul a b = (if unat a * unat b < 2 ^ LENGTH('a) then a * b else - 1)"

definition saturating_sub :: "'a::len word \<Rightarrow> 'a word \<Rightarrow> 'a word" where
  "saturating_sub a b = (if b \<le> a then a - b else 0)"

section \<open>Big-endian integers\<close>

text \<open>\<open>to_be_bytes n w\<close> is \<^verbatim>\<open>w.to_be_bytes()\<close> for an integer of \<open>n\<close> bytes and
  \<open>from_be_bytes\<close> its inverse \<^verbatim>\<open>uN::from_be_bytes\<close>.\<close>

definition to_be_bytes :: "nat \<Rightarrow> 'a::len word \<Rightarrow> bytes" where
  "to_be_bytes n w = map (\<lambda>i. word_of_nat (unat w div 256 ^ i)) (rev [0..<n])"

definition be_value :: "bytes \<Rightarrow> nat" where
  "be_value bs = foldl (\<lambda>a b. a * 256 + unat b) 0 bs"

definition from_be_bytes :: "bytes \<Rightarrow> 'a::len word" where
  "from_be_bytes bs = word_of_nat (be_value bs)"

section \<open>Ordered maps\<close>

text \<open>A \<^verbatim>\<open>BTreeMap\<close> is its list of key/value pairs in ascending key order; a \<^verbatim>\<open>HashMap\<close> is
  represented the same way (a canonical form of its contents), and wherever the source iterates
  over a \<^verbatim>\<open>HashMap\<close> the iteration order is an explicit argument.\<close>

type_synonym ('k, 'v) bmap = "('k \<times> 'v) list"

definition bmap_get :: "('k, 'v) bmap \<Rightarrow> 'k \<Rightarrow> 'v option" where
  "bmap_get m k = map_of m k"

fun bmap_insert :: "'k::linorder \<Rightarrow> 'v \<Rightarrow> ('k, 'v) bmap \<Rightarrow> ('k, 'v) bmap" where
  "bmap_insert k v [] = [(k, v)]"
| "bmap_insert k v ((k', v') # m) =
     (if k < k' then (k, v) # (k', v') # m
      else if k = k' then (k, v) # m
      else (k', v') # bmap_insert k v m)"

definition bmap_remove :: "'k \<Rightarrow> ('k, 'v) bmap \<Rightarrow> ('k, 'v) bmap" where
  "bmap_remove k m = filter (\<lambda>p. fst p \<noteq> k) m"

definition bmap_contains :: "('k, 'v) bmap \<Rightarrow> 'k \<Rightarrow> bool" where
  "bmap_contains m k = (bmap_get m k \<noteq> None)"

definition bmap_keys :: "('k, 'v) bmap \<Rightarrow> 'k list" where
  "bmap_keys m = map fst m"

definition bmap_ok :: "('k::linorder, 'v) bmap \<Rightarrow> bool" where
  "bmap_ok m = sorted_wrt (<) (bmap_keys m)"

section \<open>Results\<close>

text \<open>A \<^verbatim>\<open>Result<T, E>\<close> is a value of \<open>'e + 't\<close>, errors on the left; \<open>result_ok\<close> is
  \<^verbatim>\<open>Result::ok\<close>.\<close>

fun result_ok :: "'e + 'a \<Rightarrow> 'a option" where
  "result_ok (Inl e) = None"
| "result_ok (Inr x) = Some x"

text \<open>A method that takes \<^verbatim>\<open>&mut self\<close> and returns a \<^verbatim>\<open>Result\<close> yields the new state and the
  result: what it has written before an error stays written.  \<open>and_then\<close> sequences two such
  steps as \<^verbatim>\<open>?\<close> does.\<close>

definition and_then :: "'s \<times> ('e + 'a) \<Rightarrow> ('s \<Rightarrow> 'a \<Rightarrow> 's \<times> ('e + 'b)) \<Rightarrow> 's \<times> ('e + 'b)" where
  "and_then r f = (case r of (s, Inl e) \<Rightarrow> (s, Inl e) | (s, Inr x) \<Rightarrow> f s x)"

section \<open>Slices and ranges\<close>

text \<open>\<^verbatim>\<open>slice::chunks\<close> and the inclusive range \<^verbatim>\<open>a..=b\<close>.\<close>

function chunks :: "nat \<Rightarrow> 'a list \<Rightarrow> 'a list list" where
  "chunks n xs = (if n = 0 \<or> xs = [] then [] else take n xs # chunks n (drop n xs))"
  by pat_completeness auto
termination
  by (relation "measure (length \<circ> snd)") auto

definition range_inclusive :: "'a::len word \<Rightarrow> 'a word \<Rightarrow> 'a word list" where
  "range_inclusive a b = map word_of_nat [unat a..<Suc (unat b)]"

section \<open>Text\<close>

text \<open>A \<^verbatim>\<open>String\<close> or \<^verbatim>\<open>&str\<close> is the \<open>string\<close> of its UTF-8 bytes.\<close>

definition string_bytes :: "string \<Rightarrow> bytes" where
  "string_bytes cs = map (\<lambda>c. word_of_nat (of_char c)) cs"

definition bytes_string :: "bytes \<Rightarrow> string" where
  "bytes_string bs = map (\<lambda>b. char_of (unat b)) bs"

definition cont :: "u8 \<Rightarrow> bool" where
  "cont b \<longleftrightarrow> 0x80 \<le> b \<and> b \<le> 0xBF"

text \<open>The check of \<^verbatim>\<open>str::from_utf8\<close>.\<close>

fun valid_utf8 :: "bytes \<Rightarrow> bool" where
  "valid_utf8 [] = True"
| "valid_utf8 (a # bs) =
     (if a < 0x80 then valid_utf8 bs
      else if 0xC2 \<le> a \<and> a \<le> 0xDF then (case bs of b # r \<Rightarrow> cont b \<and> valid_utf8 r | _ \<Rightarrow> False)
      else if 0xE0 \<le> a \<and> a \<le> 0xEF then
        (case bs of b # c # r \<Rightarrow> (if a = 0xE0 then 0xA0 \<le> b \<and> b \<le> 0xBF
             else if a = 0xED then 0x80 \<le> b \<and> b \<le> 0x9F else cont b) \<and> cont c \<and> valid_utf8 r | _ \<Rightarrow> False)
      else if 0xF0 \<le> a \<and> a \<le> 0xF4 then
        (case bs of b # c # d # r \<Rightarrow> (if a = 0xF0 then 0x90 \<le> b \<and> b \<le> 0xBF
             else if a = 0xF4 then 0x80 \<le> b \<and> b \<le> 0x8F else cont b) \<and> cont c \<and> cont d \<and> valid_utf8 r | _ \<Rightarrow> False)
      else False)"

text \<open>\<^verbatim>\<open>line.trim().is_empty()\<close>: every character is Unicode white space.\<close>

fun blank_line :: "bytes \<Rightarrow> bool" where
  "blank_line [] = True"
| "blank_line (a # bs) =
     (if 9 \<le> a \<and> a \<le> 13 \<or> a = 32 then blank_line bs
      else if a = 0xC2 then (case bs of b # r \<Rightarrow> b \<in> {0x85, 0xA0} \<and> blank_line r | _ \<Rightarrow> False)
      else (case bs of
          b # c # r \<Rightarrow> (a = 0xE1 \<and> b = 0x9A \<and> c = 0x80
            \<or> a = 0xE2 \<and> b = 0x80 \<and> (0x80 \<le> c \<and> c \<le> 0x8A \<or> c \<in> {0xA8, 0xA9, 0xAF})
            \<or> a = 0xE2 \<and> b = 0x81 \<and> c = 0x9F \<or> a = 0xE3 \<and> b = 0x80 \<and> c = 0x80) \<and> blank_line r
        | _ \<Rightarrow> False))"

text \<open>\<^verbatim>\<open>str::find\<close> followed by a split at the match: \<^verbatim>\<open>split_once\<close>.\<close>

fun split_once :: "'a list \<Rightarrow> 'a list \<Rightarrow> ('a list \<times> 'a list) option" where
  "split_once pat [] = (if pat = [] then Some ([], []) else None)"
| "split_once pat (x # xs) =
     (if take (length pat) (x # xs) = pat then Some ([], drop (length pat) (x # xs))
      else map_option (\<lambda>(a, b). (x # a, b)) (split_once pat xs))"

text \<open>Decimal digits, as \<^verbatim>\<open>{}\<close> prints an unsigned integer, and \<^verbatim>\<open>to_ascii_lowercase\<close>.\<close>

fun decimal :: "nat \<Rightarrow> string" where
  "decimal n = (if n < 10 then [char_of (48 + n)] else decimal (n div 10) @ [char_of (48 + n mod 10)])"

definition ascii_lower :: "char \<Rightarrow> char" where
  "ascii_lower c = (let n = (of_char c :: nat) in if 65 \<le> n \<and> n \<le> 90 then char_of (n + 32) else c)"

definition to_ascii_lowercase :: "string \<Rightarrow> string" where
  "to_ascii_lowercase s = map ascii_lower s"

section \<open>Runs of a step function\<close>

fun run :: "('s \<Rightarrow> 'i \<Rightarrow> 's \<times> 'o) \<Rightarrow> 's \<Rightarrow> 'i list \<Rightarrow> 's \<times> 'o list" where
  "run step s [] = (s, [])"
| "run step s (i # is) =
     (let (s', o1) = step s i; (s'', os) = run step s' is in (s'', o1 # os))"

section \<open>Lemmas on saturating arithmetic\<close>

lemma unat_word_less: "unat w < 2 ^ LENGTH('a)" for w :: "'a::len word"
  by (rule unsigned_less)

lemma unat_byte_less: "unat b < 256" for b :: u8
  using unat_word_less [of b] by simp

lemma unat_max_word: "unat (- 1 :: 'a::len word) = 2 ^ LENGTH('a) - 1"
  by (simp add: unsigned_minus_1_eq_mask mask_eq_exp_minus_1)

lemma unat_saturating_add [sat_simps]:
  "unat (saturating_add a b) = min (unat a + unat b) (2 ^ LENGTH('a) - 1)"
  for a b :: "'a::len word"
proof (cases "unat a + unat b < 2 ^ LENGTH('a)")
  case True
  then have "unat (a + b) = unat a + unat b"
    by (simp add: unat_add_lem [THEN iffD1])
  with True show ?thesis by (simp add: saturating_add_def)
next
  case False
  then show ?thesis by (simp add: saturating_add_def unat_max_word)
qed

lemma unat_saturating_mul [sat_simps]:
  "unat (saturating_mul a b) = min (unat a * unat b) (2 ^ LENGTH('a) - 1)"
  for a b :: "'a::len word"
proof (cases "unat a * unat b < 2 ^ LENGTH('a)")
  case True
  then have "unat (a * b) = unat a * unat b"
    by (simp add: unat_mult_lem [THEN iffD1])
  with True show ?thesis by (simp add: saturating_mul_def)
next
  case False
  then show ?thesis by (simp add: saturating_mul_def unat_max_word)
qed

lemma unat_saturating_sub [sat_simps]:
  "unat (saturating_sub a b) = unat a - unat b"
  by (auto simp: saturating_sub_def unat_sub word_le_nat_alt)

lemma saturating_add_neq: "w \<noteq> - 1 \<Longrightarrow> saturating_add w 1 \<noteq> w" for w :: "'a::len word"
proof
  assume w: "w \<noteq> - 1" and "saturating_add w 1 = w"
  then have "min (unat w + unat (1 :: 'a word)) (2 ^ LENGTH('a) - 1) = unat w"
    by (metis unat_saturating_add)
  moreover have "unat w \<noteq> 2 ^ LENGTH('a) - 1"
    using w unat_max_word [where 'a = 'a] by (metis word_unat_eq_iff)
  ultimately show False using unat_word_less [of w] by (simp add: min_def split: if_splits)
qed

section \<open>Lemmas on lists\<close>

text \<open>Reading a buffer field by field.\<close>

lemma take_drop_chain: "m = n + k \<Longrightarrow> take k (drop n xs) @ drop m xs = drop n xs"
  by (metis append_take_drop_id drop_drop add.commute)

section \<open>Lemmas on big-endian integers\<close>

lemma length_to_be_bytes [simp]: "length (to_be_bytes n w) = n"
  by (simp add: to_be_bytes_def)

lemma be_value_Nil [simp]: "be_value [] = 0"
  by (simp add: be_value_def)

lemma be_value_snoc [simp]: "be_value (bs @ [b]) = be_value bs * 256 + unat b"
  by (simp add: be_value_def)

lemma be_value_less: "be_value bs < 256 ^ length bs"
proof (induction bs rule: rev_induct)
  case Nil
  show ?case by simp
next
  case (snoc b bs)
  have "unat b < 256" by (rule unat_byte_less)
  with snoc show ?case by simp
qed

lemma to_be_bytes_Suc:
  "to_be_bytes (Suc n) w =
     map (\<lambda>i. word_of_nat (unat w div 256 div 256 ^ i)) (rev [0..<n]) @ [word_of_nat (unat w)]"
proof -
  have "rev [0..<Suc n] = map Suc (rev [0..<n]) @ [0]"
    by (metis map_Suc_upt rev_map rev.simps(2) upt_conv_Cons zero_less_Suc)
  then show ?thesis
    by (simp add: to_be_bytes_def div_mult2_eq)
qed

lemma be_value_digits:
  "be_value (map (\<lambda>i. word_of_nat (v div 256 ^ i)) (rev [0..<n])) = v mod 256 ^ n"
proof (induction n arbitrary: v)
  case 0
  show ?case by simp
next
  case (Suc n)
  have "rev [0..<Suc n] = map Suc (rev [0..<n]) @ [0]"
    by (metis map_Suc_upt rev_map rev.simps(2) upt_conv_Cons zero_less_Suc)
  then have "be_value (map (\<lambda>i. word_of_nat (v div 256 ^ i)) (rev [0..<Suc n]))
      = be_value (map (\<lambda>i. word_of_nat (v div 256 div 256 ^ i)) (rev [0..<n])) * 256 + v mod 256"
    by (simp add: comp_def div_mult2_eq unat_of_nat)
  also have "\<dots> = (v div 256) mod 256 ^ n * 256 + v mod 256"
    by (simp add: Suc.IH)
  also have "\<dots> = v mod 256 ^ Suc n"
    by (simp add: mod_mult2_eq mult.commute)
  finally show ?case .
qed

lemma be_value_to_be_bytes: "be_value (to_be_bytes n w) = unat w mod 256 ^ n"
  by (simp add: to_be_bytes_def be_value_digits)

lemma from_to_be_bytes:
  assumes "LENGTH('a) \<le> 8 * n"
  shows "from_be_bytes (to_be_bytes n w) = (w :: 'a::len word)"
proof -
  have "(2::nat) ^ LENGTH('a) \<le> 2 ^ (8 * n)"
    using assms by (simp add: power_increasing)
  with unat_word_less [of w] have "unat w < 2 ^ (8 * n)"
    by (rule less_le_trans)
  then have "unat w < 256 ^ n"
    by (simp add: power_mult)
  then show ?thesis
    by (simp add: from_be_bytes_def be_value_to_be_bytes)
qed

lemma digits_be_value:
  "n = length bs \<Longrightarrow> map (\<lambda>i. word_of_nat (be_value bs div 256 ^ i)) (rev [0..<n]) = bs"
proof (induction bs arbitrary: n rule: rev_induct)
  case Nil
  then show ?case by simp
next
  case (snoc b bs)
  have b: "unat b < 256" by (rule unat_byte_less)
  have r: "rev [0..<Suc (length bs)] = map Suc (rev [0..<length bs]) @ [0]"
    by (metis map_Suc_upt rev_map rev.simps(2) upt_conv_Cons zero_less_Suc)
  have d: "(be_value bs * 256 + unat b) div 256 = be_value bs"
    using b by simp
  have z: "(256 :: u8) = 0" by simp
  have "word_of_nat (be_value bs * 256 + unat b) = b" by (simp add: z)
  with snoc d r show ?case
    by (simp add: comp_def div_mult2_eq)
qed

lemma to_from_be_bytes:
  assumes "length bs = n" and "8 * n \<le> LENGTH('a::len)"
  shows "to_be_bytes n (from_be_bytes bs :: 'a word) = bs"
proof -
  have "(2::nat) ^ (8 * n) \<le> 2 ^ LENGTH('a)"
    using assms(2) by (simp add: power_increasing)
  moreover have "be_value bs < 2 ^ (8 * n)"
    using be_value_less [of bs] assms(1) by (simp add: power_mult)
  ultimately have "be_value bs < 2 ^ LENGTH('a)"
    by (rule less_le_trans [rotated])
  then have "unat (from_be_bytes bs :: 'a word) = be_value bs"
    by (simp add: from_be_bytes_def unat_of_nat)
  then show ?thesis
    using digits_be_value [of n bs] assms(1) by (simp add: to_be_bytes_def)
qed

section \<open>Lemmas on ordered maps\<close>

lemma bmap_get_empty [simp]: "bmap_get [] k = None"
  by (simp add: bmap_get_def)

lemma bmap_get_insert [simp]:
  "bmap_get (bmap_insert k v m) k' = (if k' = k then Some v else bmap_get m k')"
  by (induction m) (auto simp: bmap_get_def)

lemma bmap_get_remove [simp]:
  "bmap_get (bmap_remove k m) k' = (if k' = k then None else bmap_get m k')"
  by (induction m) (auto simp: bmap_get_def bmap_remove_def)

lemma set_bmap_keys: "set (bmap_keys m) = dom (bmap_get m)"
  by (simp add: bmap_keys_def dom_map_of_conv_image_fst bmap_get_def [abs_def])

lemma bmap_get_Some_keys: "bmap_get m k = Some v \<Longrightarrow> k \<in> set (bmap_keys m)"
  by (auto simp: set_bmap_keys)

lemma set_keys_insert [simp]:
  "set (bmap_keys (bmap_insert k v m)) = insert k (set (bmap_keys m))"
  by (auto simp: set_bmap_keys split: if_splits)

lemma set_keys_remove [simp]:
  "set (bmap_keys (bmap_remove k m)) = set (bmap_keys m) - {k}"
  by (auto simp: set_bmap_keys split: if_splits)

lemma bmap_ok_empty [simp]: "bmap_ok []"
  by (simp add: bmap_ok_def bmap_keys_def)

lemma bmap_ok_Cons:
  "bmap_ok ((k, v) # m) \<longleftrightarrow> (\<forall>k' \<in> set (bmap_keys m). k < k') \<and> bmap_ok m"
  by (simp add: bmap_ok_def bmap_keys_def)

lemma bmap_ok_insert [simp]: "bmap_ok m \<Longrightarrow> bmap_ok (bmap_insert k v m)"
proof (induction m)
  case Nil
  show ?case by (simp add: bmap_ok_Cons bmap_keys_def)
next
  case (Cons p m)
  obtain k' v' where p: "p = (k', v')" by (cases p)
  have keys: "set (bmap_keys ((a, b) # m')) = insert a (set (bmap_keys m'))" for a b m'
    by (simp add: bmap_keys_def)
  from Cons show ?case
    by (auto simp: p bmap_ok_Cons keys)
qed

lemma bmap_ok_remove [simp]: "bmap_ok m \<Longrightarrow> bmap_ok (bmap_remove k m)"
  by (induction m) (auto simp: bmap_ok_def bmap_keys_def bmap_remove_def)

lemma bmap_ok_distinct: "bmap_ok m \<Longrightarrow> distinct (bmap_keys m)"
  by (simp add: bmap_ok_def strict_sorted_iff)

lemma bmap_length_card: "bmap_ok m \<Longrightarrow> length m = card (set (bmap_keys m))"
  using distinct_card [OF bmap_ok_distinct, of m] by (simp add: bmap_keys_def)

lemma bmap_ext:
  "bmap_ok m \<Longrightarrow> bmap_ok m' \<Longrightarrow> (\<And>k. bmap_get m k = bmap_get m' k) \<Longrightarrow> m = m'"
proof (induction m m' rule: list_induct2')
  case 1
  show ?case by simp
next
  case (2 x xs)
  from "2.prems"(3) [of "fst x"] show ?case by (cases x) (simp add: bmap_get_def)
next
  case (3 y ys)
  from "3.prems"(3) [of "fst y"] show ?case by (cases y) (simp add: bmap_get_def)
next
  case (4 x xs y ys)
  obtain k v where x: "x = (k, v)" by (cases x)
  obtain k' v' where y: "y = (k', v')" by (cases y)
  have xs: "\<forall>j \<in> set (bmap_keys xs). k < j" "bmap_ok xs"
    and ys: "\<forall>j \<in> set (bmap_keys ys). k' < j" "bmap_ok ys"
    using "4.prems"(1,2) by (simp_all add: x y bmap_ok_Cons)
  have gx: "bmap_get (x # xs) j = (if j = k then Some v else bmap_get xs j)"
    and gy: "bmap_get (y # ys) j = (if j = k' then Some v' else bmap_get ys j)" for j
    by (simp_all add: x y bmap_get_def)
  have nx: "j \<le> k \<Longrightarrow> bmap_get xs j = None" for j
    using xs(1) bmap_get_Some_keys [of xs j] by (cases "bmap_get xs j") auto
  have ny: "j \<le> k' \<Longrightarrow> bmap_get ys j = None" for j
    using ys(1) bmap_get_Some_keys [of ys j] by (cases "bmap_get ys j") auto
  have kk: "k = k'"
    using "4.prems"(3) [of k] "4.prems"(3) [of k'] nx [of k'] ny [of k]
    by (cases k k' rule: linorder_cases) (simp_all add: gx gy split: if_splits)
  moreover have "v = v'"
    using "4.prems"(3) [of k] by (simp add: gx gy kk)
  moreover have "bmap_get xs j = bmap_get ys j" for j
    using "4.prems"(3) [of j] nx [of j] ny [of j] by (auto simp: gx gy kk split: if_splits)
  then have "xs = ys"
    using "4.IH" xs(2) ys(2) by blast
  ultimately show ?case by (simp add: x y)
qed

lemma bmap_remove_shrinks: "bmap_get m k = Some v \<Longrightarrow> length (bmap_remove k m) < length m"
  using length_filter_less [of "(k, v)" m "\<lambda>p. fst p \<noteq> k"]
  by (auto simp: bmap_get_def bmap_remove_def dest: map_of_SomeD)

section \<open>Lemmas on sequencing, chunks and ranges\<close>

lemma and_then_simps [simp]:
  "and_then (s, Inl e) f = (s, Inl e)"
  "and_then (s, Inr x) f = f s x"
  by (simp_all add: and_then_def)

lemma and_then_split:
  "P (and_then r f) \<longleftrightarrow>
     (\<forall>s e. r = (s, Inl e) \<longrightarrow> P (s, Inl e)) \<and> (\<forall>s x. r = (s, Inr x) \<longrightarrow> P (f s x))"
  by (cases r; cases "snd r") (auto simp: and_then_def)

declare chunks.simps [simp del]

lemma chunks_Nil [simp]: "chunks n [] = []"
  by (simp add: chunks.simps)

lemma chunks_step: "0 < n \<Longrightarrow> xs \<noteq> [] \<Longrightarrow> chunks n xs = take n xs # chunks n (drop n xs)"
  by (simp add: chunks.simps [of n xs])

lemma concat_chunks: "0 < n \<Longrightarrow> concat (chunks n xs) = xs"
proof (induction n xs rule: chunks.induct)
  case (1 n xs)
  then show ?case by (cases "xs = []") (simp_all add: chunks_step)
qed

lemma length_chunks: "0 < n \<Longrightarrow> length (chunks n xs) = (length xs + n - 1) div n"
proof (induction n xs rule: chunks.induct)
  case (1 n xs)
  show ?case
  proof (cases "xs = []")
    case True
    with "1.prems" show ?thesis by simp
  next
    case False
    with "1" have "length (chunks n xs) = Suc ((length xs - n + n - 1) div n)"
      by (simp add: chunks_step)
    also have "\<dots> = (length xs + n - 1) div n"
    proof (cases "n \<le> length xs")
      case True
      then have e: "length xs + n - 1 = length xs - 1 + n" "length xs - n + n - 1 = length xs - 1"
        using "1.prems" by auto
      show ?thesis using "1.prems" by (simp only: e div_add_self2)
    next
      case small: False
      obtain k where k: "length xs = Suc k" using False by (cases xs) auto
      have "(length xs + n - 1) div n = 1"
        using small "1.prems" by (intro div_nat_eqI) (simp_all add: k)
      then show ?thesis using small "1.prems" by simp
    qed
    finally show ?thesis .
  qed
qed

lemma chunk_size: "c \<in> set (chunks n xs) \<Longrightarrow> length c \<le> n"
proof (induction n xs rule: chunks.induct)
  case (1 n xs)
  show ?case
  proof (cases "n = 0 \<or> xs = []")
    case True
    with "1.prems" show ?thesis by (simp add: chunks.simps [of n xs])
  next
    case False
    then have "c = take n xs \<or> c \<in> set (chunks n (drop n xs))"
      using "1.prems" by (simp add: chunks_step)
    then show ?thesis using "1.IH" [OF False] by auto
  qed
qed

lemma unat_word_of_nat: "word_of_nat k = w \<Longrightarrow> k < 2 ^ LENGTH('a) \<Longrightarrow> unat w = k"
  for w :: "'a::len word"
  by (auto simp: unat_of_nat)

lemma inj_on_word_of_nat:
  assumes "\<And>k. k \<in> A \<Longrightarrow> k < 2 ^ LENGTH('a)"
  shows "inj_on (word_of_nat :: nat \<Rightarrow> 'a::len word) A"
proof (rule inj_onI)
  fix x y assume "x \<in> A" "y \<in> A" and e: "word_of_nat x = (word_of_nat y :: 'a word)"
  with assms have xy: "x < 2 ^ LENGTH('a)" "y < 2 ^ LENGTH('a)" by auto
  have "x = unat (word_of_nat y :: 'a word)" by (rule unat_word_of_nat [OF e xy(1), symmetric])
  also have "\<dots> = y" by (rule unat_word_of_nat [OF refl xy(2)])
  finally show "x = y" .
qed

lemma set_range_inclusive [simp]: "set (range_inclusive a b) = {a..b}"
  for a b :: "'a::len word"
proof -
  have "word_of_nat ` {unat a..unat b} = {a..b}"
  proof (intro equalityI subsetI)
    fix w :: "'a word"
    assume "w \<in> word_of_nat ` {unat a..unat b}"
    then obtain k where k: "word_of_nat k = w" "unat a \<le> k" "k \<le> unat b" by auto
    then have "unat w = k"
      by (intro unat_word_of_nat) (auto intro: le_less_trans [OF _ unat_word_less [of b]])
    with k show "w \<in> {a..b}" by (simp add: word_le_nat_alt)
  next
    fix w assume "w \<in> {a..b}"
    then have "unat w \<in> {unat a..unat b}" by (simp add: word_le_nat_alt)
    then show "w \<in> word_of_nat ` {unat a..unat b}" by (rule rev_image_eqI) simp
  qed
  then show ?thesis
    by (simp only: range_inclusive_def set_map set_upt atLeastLessThanSuc_atLeastAtMost)
qed

lemma unat_succ: "b \<noteq> - 1 \<Longrightarrow> unat (b + 1) = Suc (unat b)" for b :: "'a::len word"
  by (metis add.commute unatSuc add_eq_0_iff)

lemma length_range_inclusive [simp]:
  "length (range_inclusive a b) = Suc (unat b) - unat a"
  by (auto simp: range_inclusive_def)

lemma range_inclusive_empty: "b < a \<Longrightarrow> range_inclusive a b = []"
  by (simp add: range_inclusive_def word_less_nat_alt)

lemma range_inclusive_snoc:
  "b \<noteq> - 1 \<Longrightarrow> a \<le> b + 1 \<Longrightarrow> range_inclusive a (b + 1) = range_inclusive a b @ [b + 1]"
  by (simp add: range_inclusive_def unat_succ word_le_nat_alt)

lemma distinct_range_inclusive [simp]: "distinct (range_inclusive a b)" for a b :: "'a::len word"
proof -
  have "inj_on (word_of_nat :: nat \<Rightarrow> 'a word) {unat a..<Suc (unat b)}"
    by (rule inj_on_word_of_nat) (auto simp: less_Suc_eq_le intro: le_less_trans [OF _ unat_word_less [of b]])
  then show ?thesis by (simp only: range_inclusive_def distinct_map distinct_upt set_upt)
qed

lemma card_word_interval: "card {a..b} = Suc (unat b) - unat a" for a b :: "'a::len word"
  using distinct_card [OF distinct_range_inclusive, of a b] by simp

section \<open>Lemmas on text\<close>

declare decimal.simps [simp del]

lemma string_round_trip [simp]: "bytes_string (string_bytes cs) = cs"
  by (induction cs) (simp_all add: bytes_string_def string_bytes_def unat_of_nat)

lemma ascii_valid: "(\<And>b. b \<in> set bs \<Longrightarrow> unat b < 128) \<Longrightarrow> valid_utf8 bs"
  by (induction bs) (auto simp: word_less_nat_alt)

section \<open>Codecs\<close>

lemma result_ok_Some [simp]: "result_ok r = Some x \<longleftrightarrow> r = Inr x"
  by (cases r) simp_all

text \<open>The contract between an encoder and the decoder of its peer: every value the format can
  carry survives the trip.  An exact codec moreover accepts nothing but encodings, so that
  a datagram has at most one reading and a value at most one datagram.\<close>

locale codec =
  fixes enc :: "'a \<Rightarrow> 'b option"
    and dec :: "'b \<Rightarrow> 'a option"
    and carries :: "'a \<Rightarrow> bool"
  assumes enc_defined: "carries x \<Longrightarrow> enc x \<noteq> None"
    and dec_enc: "carries x \<Longrightarrow> enc x = Some b \<Longrightarrow> dec b = Some x"
begin

lemma enc_inj: "carries x \<Longrightarrow> carries y \<Longrightarrow> enc x = enc y \<Longrightarrow> x = y"
  using enc_defined [of x] dec_enc [of x] dec_enc [of y] by (cases "enc x") auto

lemma round_trip: "carries x \<Longrightarrow> \<exists>b. enc x = Some b \<and> dec b = Some x"
  using enc_defined [of x] dec_enc [of x] by (cases "enc x") auto

end

locale exact_codec = codec +
  assumes dec_carries: "dec b = Some x \<Longrightarrow> carries x"
    and enc_dec: "dec b = Some x \<Longrightarrow> enc x = Some b"
begin

lemma dec_inj: "dec b = Some x \<Longrightarrow> dec b' = Some x \<Longrightarrow> b = b'"
  using enc_dec [of b x] enc_dec [of b' x] by simp

lemma dec_iff: "dec b = Some x \<longleftrightarrow> carries x \<and> enc x = Some b"
  using dec_carries [of b x] enc_dec [of b x] dec_enc [of x b] by blast

end

section \<open>Invariants of runs\<close>

text \<open>The interface between a component and the facts that hold along all its executions: an
  invariant every step keeps holds after every run, and a relation between the state and the
  outputs so far that every step extends holds of the whole output trace.\<close>

locale step_invariant =
  fixes step :: "'s \<Rightarrow> 'i \<Rightarrow> 's \<times> 'o"
    and inv :: "'s \<Rightarrow> bool"
  assumes step_inv: "inv s \<Longrightarrow> inv (fst (step s i))"
begin

lemma run_inv: "inv s \<Longrightarrow> inv (fst (run step s is))"
proof (induction "is" arbitrary: s)
  case Nil
  then show ?case by simp
next
  case (Cons i "is")
  have "inv (fst (run step (fst (step s i)) is))"
    by (rule Cons.IH) (rule step_inv [OF Cons.prems])
  then show ?case by (simp add: case_prod_unfold Let_def)
qed

end

text \<open>An invariant may also speak of the number of steps and of the outputs so far, and need
  the inputs to be good and the run not to be astronomically long.\<close>

locale trace_invariant =
  fixes step :: "'s \<Rightarrow> 'i \<Rightarrow> 's \<times> 'o"
    and good :: "'i \<Rightarrow> bool"
    and tinv :: "nat \<Rightarrow> 's \<Rightarrow> 'o list \<Rightarrow> bool"
    and bound :: nat
  assumes step_trace: "good i \<Longrightarrow> tinv n s os \<Longrightarrow> n < bound \<Longrightarrow>
    tinv (Suc n) (fst (step s i)) (os @ [snd (step s i)])"
begin

lemma run_trace:
  "tinv n s os \<Longrightarrow> (\<And>i. i \<in> set is \<Longrightarrow> good i) \<Longrightarrow> n + length is \<le> bound \<Longrightarrow>
     tinv (n + length is) (fst (run step s is)) (os @ snd (run step s is))"
proof (induction "is" arbitrary: n s os)
  case Nil
  then show ?case by simp
next
  case (Cons i "is")
  have "tinv (Suc n) (fst (step s i)) (os @ [snd (step s i)])"
    by (rule step_trace) (use Cons.prems in auto)
  from Cons.IH [OF this] Cons.prems show ?case by (simp add: case_prod_unfold Let_def)
qed

end

lemma length_run [simp]: "length (snd (run step s is)) = length is"
  by (induction "is" arbitrary: s) (simp_all add: case_prod_unfold Let_def)

lemma run_append:
  "run step s (is @ js) =
     (let (s', os) = run step s is; (s'', os') = run step s' js in (s'', os @ os'))"
  by (induction "is" arbitrary: s) (simp_all add: case_prod_unfold Let_def)

lemma run_snoc:
  "run step s (is @ [i]) =
     (let (s', os) = run step s is; (s'', o1) = step s' i in (s'', os @ [o1]))"
  by (simp add: run_append case_prod_unfold Let_def)

end
