(* ===== verification/Wire.thy ===== *)
theory Wire
  imports Prelude
begin

text \<open>
  The datagram format of \<^verbatim>\<open>v3-wire/src/lib.rs\<close>: message types, TLVs and frames, the encoder,
  the decoder (twice: \<open>decode\<close> is the total reading every other theory uses, \<open>decode_checked\<close>
  reads the buffer through the panicking \<^verbatim>\<open>bytes::Buf\<close> operations), the errors, and the
  round-trip, canonicity, acceptance and no-panic theorems.
\<close>

section \<open>Constants and data\<close>

definition WIRE_VERSION_V3 :: u8 where
  "WIRE_VERSION_V3 = 3"

definition HEADER_LEN :: nat where
  "HEADER_LEN = 1 + 1 + 1 + 8 + 2 + 2"

definition MAX_TLV_COUNT :: nat where
  "MAX_TLV_COUNT = 64"

definition MAX_TLV_VALUE_LEN :: nat where
  "MAX_TLV_VALUE_LEN = 2048"

definition MAX_PAYLOAD_LEN :: nat where
  "MAX_PAYLOAD_LEN = 64 * 1024"

datatype message_type =
    ClientHello | ServerHello | HelloAck | Msr | RequestRange | Data | Fragment | Error | Close

datatype wire_error =
    Truncated
  | UnsupportedVersion u8
  | UnknownMessageType u8
  | PayloadTooLarge nat
  | TooManyTlvs nat
  | TlvTooLarge nat
  | TlvBlockTooLarge nat
  | MalformedTlv
  | LengthMismatch nat nat

text \<open>\<open>as_u8\<close> is the cast \<^verbatim>\<open>message_type as u8\<close> of the \<^verbatim>\<open>#[repr(u8)]\<close> enum.\<close>

fun as_u8 :: "message_type \<Rightarrow> u8" where
  "as_u8 ClientHello = 0x01"
| "as_u8 ServerHello = 0x02"
| "as_u8 HelloAck = 0x03"
| "as_u8 Msr = 0x10"
| "as_u8 RequestRange = 0x11"
| "as_u8 Data = 0x12"
| "as_u8 Fragment = 0x13"
| "as_u8 Error = 0x7e"
| "as_u8 Close = 0x7f"

definition from_u8 :: "u8 \<Rightarrow> wire_error + message_type" where
  "from_u8 value =
     (if value = 0x01 then Inr ClientHello
      else if value = 0x02 then Inr ServerHello
      else if value = 0x03 then Inr HelloAck
      else if value = 0x10 then Inr Msr
      else if value = 0x11 then Inr RequestRange
      else if value = 0x12 then Inr Data
      else if value = 0x13 then Inr Fragment
      else if value = 0x7e then Inr Error
      else if value = 0x7f then Inr Close
      else Inl (UnknownMessageType value))"

record tlv =
  tlv_kind :: u8
  tlv_value :: bytes

record wire_frame =
  frame_version :: u8
  frame_type :: message_type
  frame_flags :: u8
  frame_cid :: u64
  frame_payload :: bytes
  frame_tlvs :: "tlv list"

definition new_frame :: "message_type \<Rightarrow> u8 \<Rightarrow> u64 \<Rightarrow> bytes \<Rightarrow> tlv list \<Rightarrow> wire_frame" where
  "new_frame message_type flags cid payload tlvs =
     \<lparr>frame_version = WIRE_VERSION_V3, frame_type = message_type, frame_flags = flags,
      frame_cid = cid, frame_payload = payload, frame_tlvs = tlvs\<rparr>"

section \<open>Encoding\<close>

definition validate_frame :: "wire_frame \<Rightarrow> wire_error + unit" where
  "validate_frame frame =
     (if frame_version frame \<noteq> WIRE_VERSION_V3 then Inl (UnsupportedVersion (frame_version frame))
      else if length (frame_payload frame) > MAX_PAYLOAD_LEN
        then Inl (PayloadTooLarge (length (frame_payload frame)))
      else if length (frame_tlvs frame) > MAX_TLV_COUNT
        then Inl (TooManyTlvs (length (frame_tlvs frame)))
      else Inr ())"

fun encode_tlv_block :: "tlv list \<Rightarrow> bytes \<Rightarrow> wire_error + bytes" where
  "encode_tlv_block [] tlv_block = Inr tlv_block"
| "encode_tlv_block (tlv # tlvs) tlv_block =
     (if length (tlv_value tlv) > MAX_TLV_VALUE_LEN then Inl (TlvTooLarge (length (tlv_value tlv)))
      else encode_tlv_block tlvs
        (tlv_block @ [tlv_kind tlv] @ to_be_bytes 2 (word_of_nat (length (tlv_value tlv)) :: u16)
          @ tlv_value tlv))"

definition encode :: "wire_frame \<Rightarrow> wire_error + bytes" where
  "encode self =
     (case validate_frame self of
        Inl e \<Rightarrow> Inl e
      | Inr _ \<Rightarrow>
         (let payload_len = (word_of_nat (length (frame_payload self)) :: u16) in
          case encode_tlv_block (frame_tlvs self) [] of
            Inl e \<Rightarrow> Inl e
          | Inr tlv_block \<Rightarrow>
             (let tlv_len = length tlv_block in
              if tlv_len > 65535 then Inl (TlvBlockTooLarge tlv_len)
              else Inr ([frame_version self] @ [as_u8 (frame_type self)] @ [frame_flags self]
                @ to_be_bytes 8 (frame_cid self) @ to_be_bytes 2 payload_len
                @ to_be_bytes 2 (word_of_nat tlv_len :: u16) @ frame_payload self @ tlv_block))))"

section \<open>Decoding\<close>

function decode_tlvs_loop :: "bytes \<Rightarrow> tlv list \<Rightarrow> wire_error + tlv list" where
  "decode_tlvs_loop input out =
     (if input = [] then Inr out
      else if length input < 3 then Inl MalformedTlv
      else if length out \<ge> MAX_TLV_COUNT then Inl (TooManyTlvs (length out))
      else
        let kind = hd input;
            len = unat (from_be_bytes (take 2 (drop 1 input)) :: u16);
            rest = drop 3 input
        in if len > MAX_TLV_VALUE_LEN then Inl (TlvTooLarge len)
           else if length rest < len then Inl MalformedTlv
           else decode_tlvs_loop (drop len rest)
             (out @ [\<lparr>tlv_kind = kind, tlv_value = take len rest\<rparr>]))"
  by pat_completeness auto
termination
  by (relation "measure (length \<circ> fst)") auto

definition decode_tlvs :: "bytes \<Rightarrow> wire_error + tlv list" where
  "decode_tlvs input = decode_tlvs_loop input []"

definition decode :: "bytes \<Rightarrow> wire_error + wire_frame" where
  "decode input =
     (if length input < HEADER_LEN then Inl Truncated
      else
        let version = hd input in
        if version \<noteq> WIRE_VERSION_V3 then Inl (UnsupportedVersion version)
        else case from_u8 (input ! 1) of
          Inl e \<Rightarrow> Inl e
        | Inr message_type \<Rightarrow>
           (let flags = input ! 2;
                cid = from_be_bytes (take 8 (drop 3 input));
                payload_len = unat (from_be_bytes (take 2 (drop 11 input)) :: u16);
                tlv_len = unat (from_be_bytes (take 2 (drop 13 input)) :: u16);
                buf = drop 15 input
            in if payload_len > MAX_PAYLOAD_LEN then Inl (PayloadTooLarge payload_len)
               else if length buf \<noteq> payload_len + tlv_len
                 then Inl (LengthMismatch (length buf) (payload_len + tlv_len))
               else case decode_tlvs (take tlv_len (drop payload_len buf)) of
                 Inl e \<Rightarrow> Inl e
               | Inr tlvs \<Rightarrow>
                   Inr \<lparr>frame_version = version, frame_type = message_type, frame_flags = flags,
                     frame_cid = cid, frame_payload = take payload_len buf, frame_tlvs = tlvs\<rparr>))"

section \<open>Decoding through panicking buffer reads\<close>

text \<open>The \<^verbatim>\<open>bytes::Buf\<close> accessors panic when the buffer is too short; \<open>None\<close> is the panic.\<close>

definition get_be :: "nat \<Rightarrow> bytes \<Rightarrow> ('a::len word \<times> bytes) option" where
  "get_be n buf = (if length buf < n then None else Some (from_be_bytes (take n buf), drop n buf))"

definition copy_to_slice :: "nat \<Rightarrow> bytes \<Rightarrow> (bytes \<times> bytes) option" where
  "copy_to_slice n buf = (if length buf < n then None else Some (take n buf, drop n buf))"

function decode_tlvs_checked :: "bytes \<Rightarrow> tlv list \<Rightarrow> (wire_error + tlv list) option" where
  "decode_tlvs_checked input out =
     (if input = [] then Some (Inr out)
      else if length input < 3 then Some (Inl MalformedTlv)
      else if length out \<ge> MAX_TLV_COUNT then Some (Inl (TooManyTlvs (length out)))
      else case get_be 1 input of
        None \<Rightarrow> None
      | Some (kind, input1) \<Rightarrow>
        (case get_be 2 input1 of
          None \<Rightarrow> None
        | Some (len16, input2) \<Rightarrow>
          (let len = unat (len16 :: u16) in
           if len > MAX_TLV_VALUE_LEN then Some (Inl (TlvTooLarge len))
           else if length input2 < len then Some (Inl MalformedTlv)
           else case copy_to_slice len input2 of
             None \<Rightarrow> None
           | Some (value, input3) \<Rightarrow>
               decode_tlvs_checked input3 (out @ [\<lparr>tlv_kind = kind, tlv_value = value\<rparr>]))))"
  by pat_completeness auto
termination
  by (relation "measure (length \<circ> fst)") (auto simp: get_be_def copy_to_slice_def split: if_splits)

definition decode_checked :: "bytes \<Rightarrow> (wire_error + wire_frame) option" where
  "decode_checked input =
     (if length input < HEADER_LEN then Some (Inl Truncated)
      else case get_be 1 input of None \<Rightarrow> None | Some (version, buf1) \<Rightarrow>
        if version \<noteq> WIRE_VERSION_V3 then Some (Inl (UnsupportedVersion version))
        else case get_be 1 buf1 of None \<Rightarrow> None | Some (mt, buf2) \<Rightarrow>
       (case from_u8 mt of
          Inl e \<Rightarrow> Some (Inl e)
        | Inr message_type \<Rightarrow>
          (case get_be 1 buf2 of None \<Rightarrow> None | Some (flags, buf3) \<Rightarrow>
           case get_be 8 buf3 of None \<Rightarrow> None | Some (cid, buf4) \<Rightarrow>
           case get_be 2 buf4 of None \<Rightarrow> None | Some (payload_len16, buf5) \<Rightarrow>
           case get_be 2 buf5 of None \<Rightarrow> None | Some (tlv_len16, buf6) \<Rightarrow>
          (let payload_len = unat (payload_len16 :: u16); tlv_len = unat (tlv_len16 :: u16) in
           if payload_len > MAX_PAYLOAD_LEN then Some (Inl (PayloadTooLarge payload_len))
           else if length buf6 \<noteq> payload_len + tlv_len
             then Some (Inl (LengthMismatch (length buf6) (payload_len + tlv_len)))
           else case copy_to_slice payload_len buf6 of None \<Rightarrow> None | Some (payload, buf7) \<Rightarrow>
             if tlv_len > length buf7 then None
             else case decode_tlvs_checked (take tlv_len buf7) [] of
               None \<Rightarrow> None
             | Some (Inl e) \<Rightarrow> Some (Inl e)
             | Some (Inr tlvs) \<Rightarrow>
                 Some (Inr \<lparr>frame_version = version, frame_type = message_type,
                   frame_flags = flags, frame_cid = cid, frame_payload = payload,
                   frame_tlvs = tlvs\<rparr>)))))"

definition fuzz_decode :: "bytes \<Rightarrow> unit option" where
  "fuzz_decode input = map_option (\<lambda>_. ()) (decode_checked input)"

section \<open>Well-formed frames\<close>

definition tlv_bytes :: "tlv \<Rightarrow> bytes" where
  "tlv_bytes t = [tlv_kind t] @ to_be_bytes 2 (word_of_nat (length (tlv_value t)) :: u16) @ tlv_value t"

definition tlv_block_len :: "tlv list \<Rightarrow> nat" where
  "tlv_block_len ts = sum_list (map (\<lambda>t. 3 + length (tlv_value t)) ts)"

definition encodable :: "wire_frame \<Rightarrow> bool" where
  "encodable f \<longleftrightarrow> frame_version f = WIRE_VERSION_V3 \<and> length (frame_payload f) \<le> MAX_PAYLOAD_LEN
     \<and> length (frame_tlvs f) \<le> MAX_TLV_COUNT
     \<and> list_all (\<lambda>t. length (tlv_value t) \<le> MAX_TLV_VALUE_LEN) (frame_tlvs f)
     \<and> tlv_block_len (frame_tlvs f) \<le> 65535"

definition frame_ok :: "wire_frame \<Rightarrow> bool" where
  "frame_ok f \<longleftrightarrow> encodable f \<and> length (frame_payload f) < 65536"


lemmas wire_consts = WIRE_VERSION_V3_def HEADER_LEN_def MAX_TLV_COUNT_def MAX_TLV_VALUE_LEN_def
  MAX_PAYLOAD_LEN_def

declare decode_tlvs_loop.simps [simp del]
declare decode_tlvs_checked.simps [simp del]

section \<open>Lemmas on the message type and the TLV block\<close>

lemma from_u8_as_u8 [simp]: "from_u8 (as_u8 t) = Inr t"
  by (cases t) (simp_all add: from_u8_def)

lemma as_u8_from_u8: "from_u8 v = Inr t \<Longrightarrow> as_u8 t = v"
  by (auto simp: from_u8_def split: if_splits)

lemma u16_round_trip [simp]: "n < 65536 \<Longrightarrow> unat (word_of_nat n :: u16) = n"
  by (simp add: unat_of_nat)

lemma be16_round_trip [simp]: "from_be_bytes (to_be_bytes 2 w) = (w :: u16)"
  by (simp add: from_to_be_bytes)

lemma be64_round_trip [simp]: "from_be_bytes (to_be_bytes 8 w) = (w :: u64)"
  by (simp add: from_to_be_bytes)

lemma be16_length:
  "length bs = 2 \<Longrightarrow> to_be_bytes 2 (from_be_bytes bs :: u16) = bs"
  by (rule to_from_be_bytes) simp_all

lemma be64_length:
  "length bs = 8 \<Longrightarrow> to_be_bytes 8 (from_be_bytes bs :: u64) = bs"
  by (rule to_from_be_bytes) simp_all

lemma tlv_eta: "\<lparr>tlv_kind = tlv_kind t, tlv_value = tlv_value t\<rparr> = t"
  by (cases t) simp

lemma length_tlv_bytes [simp]: "length (tlv_bytes t) = 3 + length (tlv_value t)"
  by (simp add: tlv_bytes_def)

lemma tlv_bytes_not_Nil [simp]: "tlv_bytes t \<noteq> []"
  by (simp add: tlv_bytes_def)

lemma tlv_block_len_simps [simp]:
  "tlv_block_len [] = 0"
  "tlv_block_len (t # ts) = 3 + length (tlv_value t) + tlv_block_len ts"
  by (simp_all add: tlv_block_len_def)

lemma length_concat_tlv_bytes: "length (concat (map tlv_bytes ts)) = tlv_block_len ts"
  by (induction ts) simp_all

text \<open>The encoder's loop appends the encodings in order, and stops at the first oversized TLV.\<close>

lemma encode_tlv_block_ok:
  "list_all (\<lambda>t. length (tlv_value t) \<le> MAX_TLV_VALUE_LEN) ts \<Longrightarrow>
     encode_tlv_block ts block = Inr (block @ concat (map tlv_bytes ts))"
  by (induction ts arbitrary: block) (auto simp: tlv_bytes_def)

lemma encode_tlv_block_error:
  "\<not> list_all (\<lambda>t. length (tlv_value t) \<le> MAX_TLV_VALUE_LEN) ts \<Longrightarrow>
     encode_tlv_block ts block = Inl (TlvTooLarge (length (tlv_value
       (hd (filter (\<lambda>t. length (tlv_value t) > MAX_TLV_VALUE_LEN) ts)))))"
  by (induction ts arbitrary: block) auto

text \<open>One iteration of the decoder's loop on an encoded TLV.\<close>

lemma decode_tlvs_loop_step:
  assumes "length (tlv_value t) \<le> MAX_TLV_VALUE_LEN" and "length out < MAX_TLV_COUNT"
  shows "decode_tlvs_loop (tlv_bytes t @ rest) out = decode_tlvs_loop rest (out @ [t])"
proof -
  have len: "length (tlv_value t) < 65536"
    using assms(1) by (simp add: wire_consts)
  have split: "tlv_bytes t @ rest
      = tlv_kind t # to_be_bytes 2 (word_of_nat (length (tlv_value t)) :: u16) @ tlv_value t @ rest"
    by (simp add: tlv_bytes_def)
  have "drop 3 (tlv_bytes t @ rest) = tlv_value t @ rest"
    by (simp add: split numeral_3_eq_3)
  then show ?thesis
    using assms len
    by (subst decode_tlvs_loop.simps) (simp add: split Let_def tlv_eta)
qed

lemma decode_tlvs_loop_encoded:
  "list_all (\<lambda>t. length (tlv_value t) \<le> MAX_TLV_VALUE_LEN) ts \<Longrightarrow>
   length out + length ts \<le> MAX_TLV_COUNT \<Longrightarrow>
     decode_tlvs_loop (concat (map tlv_bytes ts)) out = Inr (out @ ts)"
proof (induction ts arbitrary: out)
  case Nil
  show ?case by (simp add: decode_tlvs_loop.simps)
next
  case (Cons t ts)
  then show ?case by (simp add: decode_tlvs_loop_step)
qed

text \<open>Conversely the loop accepts nothing but a sequence of encoded TLVs within the limits.\<close>

lemma decode_tlvs_loop_sound:
  assumes "decode_tlvs_loop input out = Inr res" and "length out \<le> MAX_TLV_COUNT"
  shows "\<exists>ts. res = out @ ts \<and> input = concat (map tlv_bytes ts) \<and> length res \<le> MAX_TLV_COUNT
     \<and> list_all (\<lambda>t. length (tlv_value t) \<le> MAX_TLV_VALUE_LEN) ts"
  using assms
proof (induction input out rule: decode_tlvs_loop.induct)
  case (1 input out)
  define len where "len = unat (from_be_bytes (take 2 (drop 1 input)) :: u16)"
  define t where "t = \<lparr>tlv_kind = hd input, tlv_value = take len (drop 3 input)\<rparr>"
  show ?case
  proof (cases "input = []")
    case True
    with "1.prems" show ?thesis by (simp add: decode_tlvs_loop.simps [of "[]"])
  next
    case False
    note step = "1.prems"(1) [unfolded decode_tlvs_loop.simps [of input out], folded len_def]
    from step False have g: "\<not> length input < 3" "\<not> length out \<ge> MAX_TLV_COUNT"
        "\<not> len > MAX_TLV_VALUE_LEN" "\<not> length (drop 3 input) < len"
      and r: "decode_tlvs_loop (drop len (drop 3 input)) (out @ [t]) = Inr res"
      by (auto simp: Let_def len_def t_def split: if_splits)
    have "\<exists>ts. res = (out @ [t]) @ ts \<and> drop len (drop 3 input) = concat (map tlv_bytes ts)
        \<and> length res \<le> MAX_TLV_COUNT \<and> list_all (\<lambda>t. length (tlv_value t) \<le> MAX_TLV_VALUE_LEN) ts"
      using "1.IH" False g r by (simp add: len_def t_def)
    then obtain ts where ts: "res = (out @ [t]) @ ts" "drop len (drop 3 input) = concat (map tlv_bytes ts)"
        "length res \<le> MAX_TLV_COUNT" "list_all (\<lambda>t. length (tlv_value t) \<le> MAX_TLV_VALUE_LEN) ts"
      by blast
    have "len < 65536"
      using unat_word_less [of "from_be_bytes (take 2 (drop 1 input)) :: u16"] by (simp add: len_def)
    have two: "length (take 2 (drop 1 input)) = 2"
      using g(1) by simp
    have lenv: "length (tlv_value t) = len"
      using g(4) by (simp add: t_def)
    have "to_be_bytes 2 (word_of_nat len :: u16) = take 2 (drop 1 input)"
      using be16_length [OF two] by (simp add: len_def)
    then have "tlv_bytes t = take 1 input @ take 2 (drop 1 input) @ take len (drop 3 input)"
      using False g(4) by (simp add: tlv_bytes_def t_def min_def take_Suc)
    then have "tlv_bytes t @ concat (map tlv_bytes ts) = take 1 input @ take 2 (drop 1 input) @ drop 3 input"
      using append_take_drop_id [of len "drop 3 input"] by (simp add: ts(2) [symmetric] del: drop_drop)
    also have "\<dots> = input"
      using take_drop_chain [of 3 1 2 input] take_drop_chain [of 1 0 1 input] by simp
    finally have "input = concat (map tlv_bytes (t # ts))" by simp
    moreover have "list_all (\<lambda>t. length (tlv_value t) \<le> MAX_TLV_VALUE_LEN) (t # ts)"
      using ts(4) g(3) lenv by simp
    ultimately show ?thesis using ts(1,3) by (intro exI [of _ "t # ts"]) simp
  qed
qed


section \<open>The header\<close>

definition header :: "wire_frame \<Rightarrow> u16 \<Rightarrow> u16 \<Rightarrow> bytes" where
  "header f payload_len tlv_len = [frame_version f, as_u8 (frame_type f), frame_flags f]
     @ to_be_bytes 8 (frame_cid f) @ to_be_bytes 2 payload_len @ to_be_bytes 2 tlv_len"

lemma length_header [simp]: "length (header f p t) = 15"
  by (simp add: header_def)

lemma header_fields:
  "hd (header f p t @ body) = frame_version f"
  "(header f p t @ body) ! 1 = as_u8 (frame_type f)"
  "(header f p t @ body) ! 2 = frame_flags f"
  "take 8 (drop 3 (header f p t @ body)) = to_be_bytes 8 (frame_cid f)"
  "take 2 (drop 11 (header f p t @ body)) = to_be_bytes 2 p"
  "take 2 (drop 13 (header f p t @ body)) = to_be_bytes 2 t"
  "drop 15 (header f p t @ body) = body"
  by (simp_all add: header_def numeral_3_eq_3 drop_Cons')

lemma encode_Inr:
  "encode f = Inr bs \<longleftrightarrow> encodable f \<and>
     bs = header f (word_of_nat (length (frame_payload f))) (word_of_nat (tlv_block_len (frame_tlvs f)))
       @ frame_payload f @ concat (map tlv_bytes (frame_tlvs f))"
proof (cases "list_all (\<lambda>t. length (tlv_value t) \<le> MAX_TLV_VALUE_LEN) (frame_tlvs f)")
  case True
  then show ?thesis
    by (auto simp: encode_def encodable_def validate_frame_def header_def encode_tlv_block_ok
        length_concat_tlv_bytes Let_def split: if_splits)
next
  case False
  then show ?thesis
    by (auto simp: encode_def encodable_def validate_frame_def encode_tlv_block_error)
qed

text \<open>Reading a header followed by a body of the announced length.\<close>

lemma decode_header:
  assumes "frame_version f = WIRE_VERSION_V3"
  shows "decode (header f p t @ body) =
     (if length body \<noteq> unat p + unat t then Inl (LengthMismatch (length body) (unat p + unat t))
      else case decode_tlvs (take (unat t) (drop (unat p) body)) of
        Inl e \<Rightarrow> Inl e
      | Inr ts \<Rightarrow> Inr (f\<lparr>frame_payload := take (unat p) body, frame_tlvs := ts\<rparr>))"
proof -
  have "\<not> unat p > MAX_PAYLOAD_LEN"
    using unat_word_less [of p] by (simp add: MAX_PAYLOAD_LEN_def)
  moreover have "\<not> length (header f p t @ body) < HEADER_LEN"
    by (simp add: HEADER_LEN_def)
  ultimately show ?thesis
    using assms by (cases f) (simp only: decode_def header_fields Let_def if_False from_u8_as_u8
      sum.case be16_round_trip be64_round_trip wire_frame.simps simp_thms if_True split: sum.split)
qed

lemma decode_encode:
  assumes "encode f = Inr bs" and "length (frame_payload f) < 65536"
  shows "decode bs = Inr f"
proof -
  let ?p = "length (frame_payload f)" and ?t = "tlv_block_len (frame_tlvs f)"
  from assms(1) have ok: "encodable f"
    and bs: "bs = header f (word_of_nat ?p) (word_of_nat ?t)
      @ frame_payload f @ concat (map tlv_bytes (frame_tlvs f))"
    by (simp_all add: encode_Inr)
  have "decode_tlvs (concat (map tlv_bytes (frame_tlvs f))) = Inr (frame_tlvs f)"
    using ok by (simp add: decode_tlvs_def encodable_def decode_tlvs_loop_encoded)
  moreover have "?t < 65536" and "frame_version f = WIRE_VERSION_V3"
    using ok by (simp_all add: encodable_def)
  ultimately show ?thesis
    using assms(2) by (simp add: bs decode_header length_concat_tlv_bytes)
qed

lemma decode_shape:
  assumes "decode bs = Inr f"
  shows "\<exists>p t body. bs = header f p t @ body \<and> frame_version f = WIRE_VERSION_V3"
proof -
  define p where "p = (from_be_bytes (take 2 (drop 11 bs)) :: u16)"
  define t where "t = (from_be_bytes (take 2 (drop 13 bs)) :: u16)"
  from assms have len: "15 \<le> length bs" and v: "frame_version f = WIRE_VERSION_V3"
    and f0: "frame_version f = hd bs" and ty: "from_u8 (bs ! 1) = Inr (frame_type f)"
    and fl: "frame_flags f = bs ! 2" and c: "frame_cid f = from_be_bytes (take 8 (drop 3 bs))"
    by (auto simp: decode_def Let_def HEADER_LEN_def split: if_splits sum.splits)
  have "take 3 bs = [bs ! 0, bs ! 1, bs ! 2]"
    using len by (intro nth_equalityI) (auto simp: less_Suc_eq numeral_3_eq_3 numeral_2_eq_2)
  then have h3: "[frame_version f, as_u8 (frame_type f), frame_flags f] = take 3 bs"
    using f0 fl as_u8_from_u8 [OF ty] len by (cases bs) simp_all
  have h8: "to_be_bytes 8 (frame_cid f) = take 8 (drop 3 bs)"
    using len by (simp add: c be64_length)
  have hp: "to_be_bytes 2 p = take 2 (drop 11 bs)" and ht: "to_be_bytes 2 t = take 2 (drop 13 bs)"
    using len by (simp_all add: p_def t_def be16_length)
  have "bs = take 3 bs @ take 8 (drop 3 bs) @ take 2 (drop 11 bs) @ take 2 (drop 13 bs) @ drop 15 bs"
    using take_drop_chain [of 15 13 2 bs] take_drop_chain [of 13 11 2 bs]
      take_drop_chain [of 11 3 8 bs] take_drop_chain [of 3 0 3 bs] by simp
  then have "bs = header f p t @ drop 15 bs"
    by (simp add: header_def h3 [simplified] h8 hp ht)
  with v show ?thesis by blast
qed

lemma decode_sound:
  assumes "decode bs = Inr f"
  shows "frame_ok f \<and> encode f = Inr bs"
proof -
  obtain p t body where bs: "bs = header f p t @ body" and v: "frame_version f = WIRE_VERSION_V3"
    using decode_shape [OF assms] by blast
  from assms [unfolded bs decode_header [OF v]] obtain ts
    where len: "length body = unat p + unat t"
      and ts: "decode_tlvs (take (unat t) (drop (unat p) body)) = Inr ts"
      and f: "f = f\<lparr>frame_payload := take (unat p) body, frame_tlvs := ts\<rparr>"
    by (auto split: if_splits sum.splits)
  have pl: "frame_payload f = take (unat p) body" and tl: "frame_tlvs f = ts"
    by (subst f, simp)+
  from decode_tlvs_loop_sound [OF ts [unfolded decode_tlvs_def]]
  have blk: "take (unat t) (drop (unat p) body) = concat (map tlv_bytes ts)"
    and lim: "length ts \<le> MAX_TLV_COUNT" "list_all (\<lambda>t. length (tlv_value t) \<le> MAX_TLV_VALUE_LEN) ts"
    by auto
  have tlen: "tlv_block_len ts = unat t"
    using arg_cong [OF blk, of length] len by (simp add: length_concat_tlv_bytes)
  have plen: "length (frame_payload f) = unat p"
    using len by (simp add: pl)
  have "unat p < 65536" "unat t < 65536"
    using unat_word_less [of p] unat_word_less [of t] by simp_all
  with v lim tlen plen tl have ok: "frame_ok f"
    by (simp add: frame_ok_def encodable_def MAX_PAYLOAD_LEN_def)
  moreover have "frame_payload f @ concat (map tlv_bytes (frame_tlvs f)) = body"
    using blk len by (simp add: pl tl) (metis append_take_drop_id length_drop add_diff_cancel_left' take_all order_refl)
  then have "encode f = Inr bs"
    using ok by (simp add: encode_Inr frame_ok_def bs plen tlen tl)
  ultimately show ?thesis by blast
qed

section \<open>The checked decoder\<close>

lemma from_be_bytes_byte: "from_be_bytes [b] = (b :: u8)"
  by (simp add: from_be_bytes_def be_value_def)

lemma take_1_hd: "xs \<noteq> [] \<Longrightarrow> take 1 xs = [hd xs]"
  by (cases xs) simp_all

lemma decode_tlvs_checked_total:
  "decode_tlvs_checked input out = Some (decode_tlvs_loop input out)"
proof (induction input out rule: decode_tlvs_loop.induct)
  case (1 input out)
  show ?case
  proof (cases "input = [] \<or> length input < 3 \<or> length out \<ge> MAX_TLV_COUNT")
    case True
    then show ?thesis
      by (auto simp: decode_tlvs_loop.simps [of input out] decode_tlvs_checked.simps [of input out])
  next
    case False
    then have ne: "input \<noteq> []" and g: "\<not> length input < 3" "\<not> length out \<ge> MAX_TLV_COUNT"
      by auto
    define len where "len = unat (from_be_bytes (take 2 (drop 1 input)) :: u16)"
    have k: "get_be 1 input = Some (hd input, drop 1 input)"
      using ne take_1_hd [OF ne] by (simp add: get_be_def from_be_bytes_byte Suc_le_eq)
    have l: "get_be 2 (drop 1 input) = Some (from_be_bytes (take 2 (drop 1 input)) :: u16, drop 3 input)"
      using g by (auto simp: get_be_def numeral_3_eq_3)
    show ?thesis
      using "1.IH" ne g
      by (simp add: decode_tlvs_loop.simps [of input out] decode_tlvs_checked.simps [of input out]
          k [unfolded One_nat_def] l [unfolded One_nat_def] copy_to_slice_def Let_def add.commute)
  qed
qed


lemma get_be_drop:
  "n + k \<le> length bs \<Longrightarrow> get_be k (drop n bs) = Some (from_be_bytes (take k (drop n bs)), drop (n + k) bs)"
  by (simp add: get_be_def add.commute)

lemma get_byte_drop:
  "n < length bs \<Longrightarrow> get_be 1 (drop n bs) = Some (bs ! n, drop (Suc n) bs)"
  by (simp add: get_be_def take_Suc_conv_app_nth hd_drop_conv_nth take_1_hd [unfolded One_nat_def] from_be_bytes_byte)

lemma decode_checked_total: "decode_checked input = Some (decode input)"
proof (cases "length input < HEADER_LEN")
  case True
  then show ?thesis by (simp add: decode_checked_def decode_def)
next
  case False
  then have len: "15 \<le> length input" by (simp add: HEADER_LEN_def)
  then have ne: "input \<noteq> []" by auto
  have b0: "get_be 1 input = Some (hd input, drop 1 input)"
    using get_byte_drop [of 0 input] ne by (simp add: hd_conv_nth)
  have b1: "get_be 1 (drop 1 input) = Some (input ! 1, drop 2 input)"
    and b2: "get_be 1 (drop 2 input) = Some (input ! 2, drop 3 input)"
    using len get_byte_drop [of 1 input] get_byte_drop [of 2 input] by (simp_all add: numeral_2_eq_2 numeral_3_eq_3)
  have b3: "get_be 8 (drop 3 input) = Some (from_be_bytes (take 8 (drop 3 input)), drop 11 input)"
    and b11: "get_be 2 (drop 11 input) = Some (from_be_bytes (take 2 (drop 11 input)), drop 13 input)"
    and b13: "get_be 2 (drop 13 input) = Some (from_be_bytes (take 2 (drop 13 input)), drop 15 input)"
    using len get_be_drop [of 3 8 input] get_be_drop [of 11 2 input] get_be_drop [of 13 2 input] by simp_all
  show ?thesis
    using False
    by (auto simp: decode_checked_def decode_def decode_tlvs_def b0 [unfolded One_nat_def]
        b1 [unfolded One_nat_def] b2 [unfolded One_nat_def] b3 b11 b13 copy_to_slice_def
        decode_tlvs_checked_total Let_def split: sum.splits)
qed

section \<open>The wire format as a codec\<close>

lemma encode_encodable: "(\<exists>bs. encode f = Inr bs) \<longleftrightarrow> encodable f"
  by (simp add: encode_Inr)

interpretation wire: exact_codec "\<lambda>f. result_ok (encode f)" "\<lambda>bs. result_ok (decode bs)" frame_ok
proof unfold_locales
  fix f assume "frame_ok f"
  then show "result_ok (encode f) \<noteq> None"
    using encode_encodable [of f] by (auto simp: frame_ok_def)
next
  fix f bs assume "frame_ok f" and "result_ok (encode f) = Some bs"
  then show "result_ok (decode bs) = Some f"
    by (simp add: decode_encode frame_ok_def)
next
  fix bs f assume "result_ok (decode bs) = Some f"
  then show "frame_ok f" and "result_ok (encode f) = Some bs"
    using decode_sound [of bs f] by simp_all
qed

section \<open>Properties of the wire format\<close>

text \<open>C8: A datagram decodes to a frame exactly when the frame is well formed (version 3, at most
  65535 payload bytes, at most 64 TLVs of at most 2048 bytes, a TLV block of at most 65535 bytes)
  and the datagram is what the encoder produces for it: encoding then decoding is the identity,
  and the decoder accepts canonical encodings only.\<close>

theorem wire_exact: "decode bs = Inr f \<longleftrightarrow> frame_ok f \<and> encode f = Inr bs"
  using wire.dec_iff [of bs f] by simp

text \<open>C9: The decoder never reads outside the datagram: run on panicking buffer accesses it
  returns on every input, with the result of \<open>decode\<close>, so the fuzz entry point never panics.\<close>

theorem decode_never_panics:
  "decode_checked input = Some (decode input) \<and> fuzz_decode input = Some ()"
  by (simp add: decode_checked_total fuzz_decode_def)

text \<open>What the encoder returns on every frame: the errors in the order of the checks, otherwise
  a datagram whose length is the header plus the payload plus the TLV block.\<close>

theorem encode_outcome:
  "(case encode f of
      Inl e \<Rightarrow> e =
        (if frame_version f \<noteq> WIRE_VERSION_V3 then UnsupportedVersion (frame_version f)
         else if length (frame_payload f) > 65536 then PayloadTooLarge (length (frame_payload f))
         else if length (frame_tlvs f) > 64 then TooManyTlvs (length (frame_tlvs f))
         else if list_all (\<lambda>t. length (tlv_value t) \<le> 2048) (frame_tlvs f)
           then TlvBlockTooLarge (tlv_block_len (frame_tlvs f))
         else TlvTooLarge (length (tlv_value
           (hd (filter (\<lambda>t. length (tlv_value t) > 2048) (frame_tlvs f))))))
        \<and> \<not> encodable f
    | Inr bs \<Rightarrow> encodable f \<and>
        length bs = 15 + length (frame_payload f) + tlv_block_len (frame_tlvs f))"
proof (cases "encodable f")
  case True
  then obtain bs where e: "encode f = Inr bs" using encode_encodable [of f] by blast
  then have "length bs = 15 + length (frame_payload f) + tlv_block_len (frame_tlvs f)"
    by (simp add: encode_Inr length_concat_tlv_bytes)
  with e True show ?thesis by simp
next
  case False
  then show ?thesis
    using encode_tlv_block_error [of "frame_tlvs f" "[]"]
    by (cases "list_all (\<lambda>t. length (tlv_value t) \<le> 2048) (frame_tlvs f)")
      (auto simp: encode_def encodable_def validate_frame_def encode_tlv_block_ok wire_consts
        length_concat_tlv_bytes Let_def)
qed

text \<open>A frame with a payload of exactly \<open>MAX_PAYLOAD_LEN\<close> bytes passes validation, but its
  length field is truncated to 0, so the peer rejects every such datagram with a length
  mismatch.\<close>

theorem max_payload_is_not_decodable:
  assumes "encodable f" and "length (frame_payload f) = MAX_PAYLOAD_LEN"
  shows "\<exists>bs. encode f = Inr bs \<and> decode bs =
     Inl (LengthMismatch (65536 + tlv_block_len (frame_tlvs f)) (tlv_block_len (frame_tlvs f)))"
proof -
  let ?t = "tlv_block_len (frame_tlvs f)"
  have p: "(word_of_nat (length (frame_payload f)) :: u16) = 0" and t: "?t < 65536"
    and v: "frame_version f = WIRE_VERSION_V3"
    using assms by (simp_all add: MAX_PAYLOAD_LEN_def encodable_def)
  have "encode f = Inr (header f 0 (word_of_nat ?t)
      @ frame_payload f @ concat (map tlv_bytes (frame_tlvs f)))"
    using assms(1) by (simp add: encode_Inr p)
  moreover have "decode (header f 0 (word_of_nat ?t)
      @ frame_payload f @ concat (map tlv_bytes (frame_tlvs f))) = Inl (LengthMismatch (65536 + ?t) ?t)"
    using v t assms(2) by (simp add: decode_header length_concat_tlv_bytes MAX_PAYLOAD_LEN_def)
  ultimately show ?thesis by blast
qed

theorem max_payload_is_not_decodable_witness:
  "\<exists>bs. encode (new_frame Data 0 7 (replicate 65536 0) []) = Inr bs
     \<and> decode bs = Inl (LengthMismatch 65536 0)"
proof -
  have "encodable (new_frame Data 0 7 (replicate 65536 0) [])"
    and "length (frame_payload (new_frame Data 0 7 (replicate 65536 0) [])) = MAX_PAYLOAD_LEN"
    by (simp_all add: encodable_def new_frame_def wire_consts)
  from max_payload_is_not_decodable [OF this] show ?thesis
    by (simp add: new_frame_def)
qed

end
