(* ===== verification/Core_Codec.thy ===== *)
theory Core_Codec
  imports Wire
begin

text \<open>
  The pure part of \<^verbatim>\<open>v3-core/src/lib.rs\<close>: configuration and timer proposals, the errors of the
  protocol state machine, the payload and TLV codecs, the validation of timer proposals, and their
  round-trip and bound lemmas.
\<close>

section \<open>Data\<close>

definition TLV_TIMER_PROPOSAL :: u8 where
  "TLV_TIMER_PROPOSAL = 0x30"

definition TLV_TIMER_ACK :: u8 where
  "TLV_TIMER_ACK = 0x31"

definition TLV_MSR_SIGNAL :: u8 where
  "TLV_MSR_SIGNAL = 0x32"

record core_config =
  msr_interval_ms :: u64
  miss_window_count :: u64
  disconnect_window_ms :: u64

record timer_proposal =
  proposal_msr_interval_ms :: u64
  proposal_miss_window_count :: u64
  proposal_disconnect_window_ms :: u64

definition to_config :: "timer_proposal \<Rightarrow> core_config" where
  "to_config self =
     \<lparr>msr_interval_ms = proposal_msr_interval_ms self,
      miss_window_count = proposal_miss_window_count self,
      disconnect_window_ms = proposal_disconnect_window_ms self\<rparr>"

definition default_config :: core_config where
  "default_config =
     \<lparr>msr_interval_ms = 15000, miss_window_count = 3, disconnect_window_ms = 180000\<rparr>"

datatype core_error =
    CoreWire wire_error
  | CidMismatch u64 u64
  | MalformedMsr
  | MalformedRequestRange
  | MalformedData
  | InvalidStateForRenegotiation
  | InvalidTimerProposal string
  | MalformedTimerProposal
  | MalformedTimerAck

section \<open>Frames and payloads\<close>

definition encode_frame_with_tlvs ::
    "message_type \<Rightarrow> u64 \<Rightarrow> bytes \<Rightarrow> tlv list \<Rightarrow> core_error + bytes" where
  "encode_frame_with_tlvs message_type cid payload tlvs =
     (case encode (new_frame message_type 0 cid payload tlvs) of
        Inl e \<Rightarrow> Inl (CoreWire e)
      | Inr bs \<Rightarrow> Inr bs)"

definition encode_frame :: "message_type \<Rightarrow> u64 \<Rightarrow> bytes \<Rightarrow> core_error + bytes" where
  "encode_frame message_type cid payload =
     (case encode (new_frame message_type 0 cid payload []) of
        Inl e \<Rightarrow> Inl (CoreWire e)
      | Inr bs \<Rightarrow> Inr bs)"

definition encode_msr_payload :: "u64 \<Rightarrow> u64 \<Rightarrow> bytes" where
  "encode_msr_payload acked next_pending = to_be_bytes 8 acked @ to_be_bytes 8 next_pending"

definition decode_msr_payload :: "bytes \<Rightarrow> (u64 \<times> u64) option" where
  "decode_msr_payload payload =
     (if length payload < 16 then None
      else Some (from_be_bytes (take 8 payload), from_be_bytes (take 8 (drop 8 payload))))"

definition encode_msr_signal_tlv :: "u64 \<Rightarrow> u64 \<Rightarrow> tlv" where
  "encode_msr_signal_tlv acked next_pending =
     \<lparr>tlv_kind = TLV_MSR_SIGNAL, tlv_value = encode_msr_payload acked next_pending\<rparr>"

definition find_msr_signal_tlv :: "tlv list \<Rightarrow> (u64 \<times> u64) option" where
  "find_msr_signal_tlv tlvs =
     Option.bind (find (\<lambda>tlv. tlv_kind tlv = TLV_MSR_SIGNAL) tlvs)
       (\<lambda>tlv. decode_msr_payload (tlv_value tlv))"

definition encode_range :: "u64 \<Rightarrow> u64 \<Rightarrow> bytes" where
  "encode_range start end_id = to_be_bytes 8 start @ to_be_bytes 8 end_id"

definition decode_range :: "bytes \<Rightarrow> (u64 \<times> u64) option" where
  "decode_range payload =
     (if length payload < 16 then None
      else Some (from_be_bytes (take 8 payload), from_be_bytes (take 8 (drop 8 payload))))"

definition encode_timer_proposal_tlv :: "u32 \<Rightarrow> timer_proposal \<Rightarrow> tlv" where
  "encode_timer_proposal_tlv proposal_id proposal =
     \<lparr>tlv_kind = TLV_TIMER_PROPOSAL,
      tlv_value = to_be_bytes 4 proposal_id
        @ to_be_bytes 8 (proposal_msr_interval_ms proposal)
        @ to_be_bytes 8 (proposal_miss_window_count proposal)
        @ to_be_bytes 8 (proposal_disconnect_window_ms proposal)\<rparr>"

definition decode_timer_proposal_tlv :: "tlv \<Rightarrow> (u32 \<times> timer_proposal) option" where
  "decode_timer_proposal_tlv tlv =
     (if tlv_kind tlv \<noteq> TLV_TIMER_PROPOSAL \<or> length (tlv_value tlv) \<noteq> 28 then None
      else Some (from_be_bytes (take 4 (tlv_value tlv)),
        \<lparr>proposal_msr_interval_ms = from_be_bytes (take 8 (drop 4 (tlv_value tlv))),
         proposal_miss_window_count = from_be_bytes (take 8 (drop 12 (tlv_value tlv))),
         proposal_disconnect_window_ms = from_be_bytes (take 8 (drop 20 (tlv_value tlv)))\<rparr>))"

definition encode_timer_ack_tlv :: "u32 \<Rightarrow> bool \<Rightarrow> tlv" where
  "encode_timer_ack_tlv proposal_id accepted =
     \<lparr>tlv_kind = TLV_TIMER_ACK,
      tlv_value = to_be_bytes 4 proposal_id @ [if accepted then 1 else 0]\<rparr>"

definition decode_timer_ack_tlv :: "tlv \<Rightarrow> (u32 \<times> bool) option" where
  "decode_timer_ack_tlv tlv =
     (if tlv_kind tlv \<noteq> TLV_TIMER_ACK \<or> length (tlv_value tlv) \<noteq> 5 then None
      else if tlv_value tlv ! 4 = 0 then Some (from_be_bytes (take 4 (tlv_value tlv)), False)
      else if tlv_value tlv ! 4 = 1 then Some (from_be_bytes (take 4 (tlv_value tlv)), True)
      else None)"

section \<open>Timer proposals\<close>

definition validate_timer_proposal :: "core_config \<Rightarrow> timer_proposal \<Rightarrow> core_error + unit" where
  "validate_timer_proposal current proposal =
     (if \<not> (1000 \<le> proposal_msr_interval_ms proposal \<and> proposal_msr_interval_ms proposal \<le> 120000)
        then Inl (InvalidTimerProposal ''msr_interval_ms out of bounds'')
      else if \<not> (1 \<le> proposal_miss_window_count proposal \<and> proposal_miss_window_count proposal \<le> 64)
        then Inl (InvalidTimerProposal ''miss_window_count out of bounds'')
      else if proposal_miss_window_count proposal > saturating_add (miss_window_count current) 2
        then Inl (InvalidTimerProposal ''miss_window_count step too large'')
      else if \<not> (5000 \<le> proposal_disconnect_window_ms proposal
          \<and> proposal_disconnect_window_ms proposal \<le> 900000)
        then Inl (InvalidTimerProposal ''disconnect_window_ms out of bounds'')
      else if proposal_disconnect_window_ms proposal
          < saturating_mul (proposal_msr_interval_ms proposal) (proposal_miss_window_count proposal)
        then Inl (InvalidTimerProposal ''disconnect_window_ms smaller than probe window'')
      else Inr ())"

text \<open>The bounds a negotiated configuration satisfies, over natural numbers.\<close>

definition config_in_bounds :: "core_config \<Rightarrow> bool" where
  "config_in_bounds c \<longleftrightarrow>
     1000 \<le> unat (msr_interval_ms c) \<and> unat (msr_interval_ms c) \<le> 120000
     \<and> 1 \<le> unat (miss_window_count c) \<and> unat (miss_window_count c) \<le> 64
     \<and> 5000 \<le> unat (disconnect_window_ms c) \<and> unat (disconnect_window_ms c) \<le> 900000
     \<and> unat (msr_interval_ms c) * unat (miss_window_count c) \<le> unat (disconnect_window_ms c)"

section \<open>Codec lemmas\<close>

lemma be32_round_trip [simp]: "from_be_bytes (to_be_bytes 4 w) = (w :: u32)"
  by (simp add: from_to_be_bytes)

lemma length_msr_payload [simp]: "length (encode_msr_payload a n) = 16"
  by (simp add: encode_msr_payload_def)

lemma decode_encode_msr_payload [simp]: "decode_msr_payload (encode_msr_payload a n) = Some (a, n)"
  by (simp add: decode_msr_payload_def encode_msr_payload_def)

lemma decode_encode_range [simp]: "decode_range (encode_range s e) = Some (s, e)"
  by (simp add: decode_range_def encode_range_def)

lemma length_encode_range [simp]: "length (encode_range s e) = 16"
  by (simp add: encode_range_def)

lemma length_proposal_tlv [simp]: "length (tlv_value (encode_timer_proposal_tlv i p)) = 28"
  by (simp add: encode_timer_proposal_tlv_def)

lemma length_ack_tlv [simp]: "length (tlv_value (encode_timer_ack_tlv i a)) = 5"
  by (simp add: encode_timer_ack_tlv_def)

lemma length_signal_tlv [simp]: "length (tlv_value (encode_msr_signal_tlv a n)) = 16"
  by (simp add: encode_msr_signal_tlv_def)

lemma decode_encode_proposal_tlv [simp]:
  "decode_timer_proposal_tlv (encode_timer_proposal_tlv i p) = Some (i, p)"
  by (cases p) (simp add: decode_timer_proposal_tlv_def encode_timer_proposal_tlv_def)

lemma decode_encode_ack_tlv [simp]:
  "decode_timer_ack_tlv (encode_timer_ack_tlv i a) = Some (i, a)"
  by (simp add: decode_timer_ack_tlv_def encode_timer_ack_tlv_def nth_append)

lemma find_encode_signal_tlv [simp]:
  "find_msr_signal_tlv [encode_msr_signal_tlv a n] = Some (a, n)"
  by (simp add: find_msr_signal_tlv_def encode_msr_signal_tlv_def)

interpretation msr_codec: codec "\<lambda>(a, n). Some (encode_msr_payload a n)" decode_msr_payload "\<lambda>_. True"
  by unfold_locales auto

interpretation range_codec: codec "\<lambda>(s, e). Some (encode_range s e)" decode_range "\<lambda>_. True"
  by unfold_locales auto

interpretation proposal_codec: codec "\<lambda>(i, p). Some (encode_timer_proposal_tlv i p)"
    decode_timer_proposal_tlv "\<lambda>_. True"
  by unfold_locales auto

interpretation ack_codec: codec "\<lambda>(i, a). Some (encode_timer_ack_tlv i a)"
    decode_timer_ack_tlv "\<lambda>_. True"
  by unfold_locales auto

lemma encode_frame_alt: "encode_frame t c p = encode_frame_with_tlvs t c p []"
  by (simp add: encode_frame_def encode_frame_with_tlvs_def)

text \<open>Every frame the state machine builds is small, so encoding it cannot fail.\<close>

lemma encode_frame_with_tlvs_ok:
  assumes "length p \<le> 1000" and "ts = [] \<or> (\<exists>t. ts = [t] \<and> length (tlv_value t) \<le> 28)"
  shows "\<exists>bs. encode_frame_with_tlvs t c p ts = Inr bs \<and> decode bs = Inr (new_frame t 0 c p ts)"
proof -
  have "frame_ok (new_frame t 0 c p ts)"
    using assms by (auto simp: frame_ok_def encodable_def new_frame_def wire_consts)
  then obtain bs where "encode (new_frame t 0 c p ts) = Inr bs"
      and "decode bs = Inr (new_frame t 0 c p ts)"
    using wire.round_trip [of "new_frame t 0 c p ts"] by auto
  then show ?thesis by (simp add: encode_frame_with_tlvs_def)
qed

lemma validate_timer_proposal_bounds:
  assumes "validate_timer_proposal c p = Inr ()"
  shows "config_in_bounds (to_config p)"
proof -
  have "unat (saturating_mul (proposal_msr_interval_ms p) (proposal_miss_window_count p))
      \<le> unat (proposal_disconnect_window_ms p)" and dw: "unat (proposal_disconnect_window_ms p) \<le> 900000"
    using assms by (auto simp: validate_timer_proposal_def word_le_nat_alt not_less split: if_splits)
  then have "unat (proposal_msr_interval_ms p) * unat (proposal_miss_window_count p)
      \<le> unat (proposal_disconnect_window_ms p)"
    by (simp add: sat_simps min_def split: if_splits)
  then show ?thesis
    using assms by (auto simp: validate_timer_proposal_def config_in_bounds_def to_config_def
        word_le_nat_alt split: if_splits)
qed

lemma validate_timer_proposal_cases:
  "validate_timer_proposal c p = Inr () \<longleftrightarrow> config_in_bounds (to_config p)
     \<and> unat (proposal_miss_window_count p) \<le> unat (miss_window_count c) + 2"
proof
  assume v: "validate_timer_proposal c p = Inr ()"
  have "unat (proposal_miss_window_count p) \<le> unat (saturating_add (miss_window_count c) 2)"
    using v by (auto simp: validate_timer_proposal_def word_le_nat_alt not_less split: if_splits)
  with validate_timer_proposal_bounds [OF v]
  show "config_in_bounds (to_config p) \<and> unat (proposal_miss_window_count p) \<le> unat (miss_window_count c) + 2"
    by (simp add: sat_simps)
next
  assume b: "config_in_bounds (to_config p)
    \<and> unat (proposal_miss_window_count p) \<le> unat (miss_window_count c) + 2"
  have "unat (proposal_miss_window_count p) \<le> unat (saturating_add (miss_window_count c) 2)"
    using b by (auto simp: sat_simps config_in_bounds_def to_config_def min_def)
  moreover have "unat (saturating_mul (proposal_msr_interval_ms p) (proposal_miss_window_count p))
      \<le> unat (proposal_disconnect_window_ms p)"
    using b by (simp add: sat_simps config_in_bounds_def to_config_def)
  ultimately show "validate_timer_proposal c p = Inr ()"
    using b by (simp add: validate_timer_proposal_def config_in_bounds_def to_config_def
        word_le_nat_alt not_less)
qed

end
