(* ===== verification/Core.thy ===== *)
theory Core
  imports Core_Codec
begin

text \<open>
  The protocol state machine of \<^verbatim>\<open>v3-core/src/lib.rs\<close>: \<^verbatim>\<open>CoreMachine\<close> as a record, its public
  methods (\<^verbatim>\<open>begin_handshake\<close>, \<^verbatim>\<open>on_datagram\<close>, \<^verbatim>\<open>on_timer\<close>, \<^verbatim>\<open>on_api_send\<close>, \<^verbatim>\<open>on_api_close\<close>,
  \<^verbatim>\<open>on_api_propose_timers\<close>, \<^verbatim>\<open>on_path_event\<close>) and every private handler, each returning the new
  machine together with the error or the output.  Writes made before an error persist, as they do
  through \<^verbatim>\<open>&mut self\<close>; the output collected so far is dropped by an error, as the callers' \<^verbatim>\<open>?\<close> drops
  the local \<^verbatim>\<open>CoreOutput\<close>.
\<close>

section \<open>Data\<close>

definition CLIENT_KEEPALIVE_EVERY_SERVER_MSR :: u32 where
  "CLIENT_KEEPALIVE_EVERY_SERVER_MSR = 4"

definition SERVER_MAX_CONSECUTIVE_SERVER_MSR_WITHOUT_CLIENT_MSR :: u32 where
  "SERVER_MAX_CONSECUTIVE_SERVER_MSR_WITHOUT_CLIENT_MSR = 8"

definition MAX_DATA_PAYLOAD_PER_FRAME :: nat where
  "MAX_DATA_PAYLOAD_PER_FRAME = 1000"

definition FRAGMENT_HEADER_LEN :: nat where
  "FRAGMENT_HEADER_LEN = 12"

datatype role = Client | Server

datatype lifecycle_state = PreHandshake | Established | Reactivating | Lost

datatype timer_id = ServerMsr | ClientProbe | Disconnect | RenegotiationTimeout

datatype path_event = PathChanged u32

record outbound_datagram =
  dgram_path_id :: u32
  dgram_bytes :: bytes

datatype event =
    HandshakeStarted
  | HandshakeEstablished
  | ReactivationProbeSent
  | Reactivated
  | Disconnected
  | QueueAdvertised u64
  | RequestRangeSent u64 u64
  | MessageDelivered u64
  | MessageReceived u64 bytes
  | TimerRenegotiationProposed u32
  | TimerRenegotiationCommitted u32
  | TimerRenegotiationRejected u32
  | TimerRenegotiationRolledBack u32
  | ParseError

datatype timer_action = Schedule timer_id u64

record core_output =
  outbound_datagrams :: "outbound_datagram list"
  events :: "event list"
  timer_actions :: "timer_action list"

record pending_renegotiation =
  pending_proposal_id :: u32
  pending_proposal :: timer_proposal
  pending_expires_at_ms :: u64

record fragment_accumulator =
  frag_total :: u16
  frag_chunks :: "(u16, bytes) bmap"

datatype msr_source = ControlMsrFrame | PiggybackTlv

record core_machine =
  core_role :: role
  core_cid :: u64
  lifecycle :: lifecycle_state
  core_cfg :: core_config
  current_path_id :: u32
  next_outbound_id :: u64
  outbound_messages :: "(u64, bytes) bmap"
  received_ids :: "u64 set"
  received_buffer :: "(u64, bytes) bmap"
  received_fragments :: "(u64, fragment_accumulator) bmap"
  last_ordered_rx :: u64
  last_requested_end :: u64
  last_server_msr_at_ms :: "u64 option"
  disconnect_deadline_ms :: "u64 option"
  client_msr_rx :: u32
  server_msr_unanswered :: u32
  next_proposal_id :: u32
  pending_local_proposal :: "pending_renegotiation option"

type_synonym core_result = "core_machine \<times> (core_error + core_output)"

definition new_machine :: "role \<Rightarrow> u64 \<Rightarrow> core_config \<Rightarrow> core_machine" where
  "new_machine role cid cfg =
     \<lparr>core_role = role, core_cid = cid, lifecycle = PreHandshake, core_cfg = cfg,
      current_path_id = 0, next_outbound_id = 1, outbound_messages = [], received_ids = {},
      received_buffer = [], received_fragments = [], last_ordered_rx = 0, last_requested_end = 0,
      last_server_msr_at_ms = None, disconnect_deadline_ms = None, client_msr_rx = 0,
      server_msr_unanswered = 0, next_proposal_id = 1, pending_local_proposal = None\<rparr>"

section \<open>Output\<close>

definition empty_output :: core_output where
  "empty_output = \<lparr>outbound_datagrams = [], events = [], timer_actions = []\<rparr>"

definition push_event :: "event \<Rightarrow> core_output \<Rightarrow> core_output" where
  "push_event e out = out\<lparr>events := events out @ [e]\<rparr>"

definition push_datagram :: "u32 \<Rightarrow> bytes \<Rightarrow> core_output \<Rightarrow> core_output" where
  "push_datagram path bs out =
     out\<lparr>outbound_datagrams := outbound_datagrams out @ [\<lparr>dgram_path_id = path, dgram_bytes = bs\<rparr>]\<rparr>"

definition push_timer :: "timer_id \<Rightarrow> u64 \<Rightarrow> core_output \<Rightarrow> core_output" where
  "push_timer t deadline out = out\<lparr>timer_actions := timer_actions out @ [Schedule t deadline]\<rparr>"

text \<open>\<^verbatim>\<open>out.outbound_datagrams.push(OutboundDatagram { path_id, bytes: encode_frame(..)? })\<close>\<close>

definition send :: "core_machine \<Rightarrow> u32 \<Rightarrow> core_error + bytes \<Rightarrow> core_output \<Rightarrow> core_result" where
  "send m path r out =
     (case r of Inl e \<Rightarrow> (m, Inl e) | Inr bs \<Rightarrow> (m, Inr (push_datagram path bs out)))"

section \<open>Helpers\<close>

definition max_pending_id :: "core_machine \<Rightarrow> u64" where
  "max_pending_id m =
     (if outbound_messages m = [] then 0 else last (bmap_keys (outbound_messages m)))"

definition touch_disconnect_deadline :: "u64 \<Rightarrow> core_machine \<Rightarrow> core_machine" where
  "touch_disconnect_deadline now_ms m =
     m\<lparr>disconnect_deadline_ms := Some (now_ms + disconnect_window_ms (core_cfg m))\<rparr>"

definition schedule_server_timers ::
    "u64 \<Rightarrow> core_machine \<Rightarrow> core_output \<Rightarrow> core_machine \<times> core_output" where
  "schedule_server_timers now_ms m out =
     (touch_disconnect_deadline now_ms m,
      push_timer Disconnect (now_ms + disconnect_window_ms (core_cfg m))
        (push_timer ServerMsr (now_ms + msr_interval_ms (core_cfg m)) out))"

definition schedule_client_timers ::
    "u64 \<Rightarrow> core_machine \<Rightarrow> core_output \<Rightarrow> core_machine \<times> core_output" where
  "schedule_client_timers now_ms m out =
     (touch_disconnect_deadline now_ms (m\<lparr>last_server_msr_at_ms := Some now_ms, client_msr_rx := 0\<rparr>),
      push_timer Disconnect (now_ms + disconnect_window_ms (core_cfg m))
        (push_timer ClientProbe (now_ms + msr_interval_ms (core_cfg m)) out))"

definition on_valid_peer_datagram :: "u64 \<Rightarrow> core_machine \<Rightarrow> core_machine" where
  "on_valid_peer_datagram now_ms m =
     (if lifecycle m \<noteq> Established then m
      else if core_role m = Client then m\<lparr>last_server_msr_at_ms := Some now_ms\<rparr>
      else m\<lparr>server_msr_unanswered := 0\<rparr>)"

section \<open>Receiving data\<close>

function flush_ordered :: "core_machine \<Rightarrow> core_output \<Rightarrow> core_machine \<times> core_output" where
  "flush_ordered m out =
     (case bmap_get (received_buffer m) (last_ordered_rx m + 1) of
        None \<Rightarrow> (m, out)
      | Some ordered_payload \<Rightarrow>
          flush_ordered
            (m\<lparr>received_buffer := bmap_remove (last_ordered_rx m + 1) (received_buffer m),
               last_ordered_rx := last_ordered_rx m + 1\<rparr>)
            (push_event (MessageReceived (last_ordered_rx m + 1) ordered_payload)
              (push_event (MessageDelivered (last_ordered_rx m + 1)) out)))"
  by pat_completeness auto
termination
  by (relation "measure (\<lambda>(m, out). length (received_buffer m))") (auto simp: bmap_remove_shrinks)

declare flush_ordered.simps [simp del]

definition handle_data :: "core_machine \<Rightarrow> bytes \<Rightarrow> core_output \<Rightarrow> core_result" where
  "handle_data m payload out =
     (if length payload < 8 then (m, Inl MalformedData)
      else
        let msg_id = (from_be_bytes (take 8 payload) :: u64) in
        if msg_id \<in> received_ids m then (m, Inr out)
        else
          let (m', out') = flush_ordered
            (m\<lparr>received_ids := insert msg_id (received_ids m),
               received_buffer := bmap_insert msg_id (drop 8 payload) (received_buffer m),
               received_fragments := bmap_remove msg_id (received_fragments m)\<rparr>) out
          in (m', Inr out'))"

text \<open>The merge loop \<^verbatim>\<open>for i in 0..total\<close>: \<open>None\<close> is a missing chunk.\<close>

fun merge_chunks :: "(u16, bytes) bmap \<Rightarrow> u16 list \<Rightarrow> bytes option" where
  "merge_chunks chs [] = Some []"
| "merge_chunks chs (i # is) =
     (case bmap_get chs i of
        None \<Rightarrow> None
      | Some chunk \<Rightarrow> map_option (\<lambda>rest. chunk @ rest) (merge_chunks chs is))"

definition handle_fragment :: "core_machine \<Rightarrow> bytes \<Rightarrow> core_output \<Rightarrow> core_result" where
  "handle_fragment m payload out =
     (if length payload < FRAGMENT_HEADER_LEN then (m, Inl MalformedData)
      else
        let msg_id = (from_be_bytes (take 8 payload) :: u64) in
        if msg_id \<in> received_ids m then (m, Inr out)
        else
          let idx = (from_be_bytes (take 2 (drop 8 payload)) :: u16);
              total = (from_be_bytes (take 2 (drop 10 payload)) :: u16)
          in if total = 0 \<or> idx \<ge> total then (m, Inl MalformedData)
          else
            let acc0 = (case bmap_get (received_fragments m) msg_id of
                          None \<Rightarrow> \<lparr>frag_total = 0, frag_chunks = []\<rparr> | Some a \<Rightarrow> a);
                acc1 = (if frag_total acc0 = 0 then acc0\<lparr>frag_total := total\<rparr> else acc0);
                m1 = m\<lparr>received_fragments := bmap_insert msg_id acc1 (received_fragments m)\<rparr>
            in if frag_total acc1 \<noteq> total then (m1, Inl MalformedData)
            else
              let acc2 = (if bmap_contains (frag_chunks acc1) idx then acc1
                          else acc1\<lparr>frag_chunks :=
                            bmap_insert idx (drop FRAGMENT_HEADER_LEN payload) (frag_chunks acc1)\<rparr>);
                  m2 = m\<lparr>received_fragments := bmap_insert msg_id acc2 (received_fragments m)\<rparr>
              in if length (frag_chunks acc2) = unat (frag_total acc2)
                 then case merge_chunks (frag_chunks acc2)
                     (map word_of_nat [0..<unat (frag_total acc2)]) of
                   None \<Rightarrow> (m2, Inl MalformedData)
                 | Some merged \<Rightarrow>
                    (let (m', out') = flush_ordered
                       (m2\<lparr>received_fragments := bmap_remove msg_id (received_fragments m2),
                          received_ids := insert msg_id (received_ids m2),
                          received_buffer := bmap_insert msg_id merged (received_buffer m2)\<rparr>) out
                     in (m', Inr out'))
                 else (m2, Inr out))"

section \<open>Sending data\<close>

definition data_payload :: "u64 \<Rightarrow> bytes \<Rightarrow> bytes" where
  "data_payload msg_id msg = to_be_bytes 8 msg_id @ msg"

definition fragment_payload :: "u64 \<Rightarrow> u16 \<Rightarrow> u16 \<Rightarrow> bytes \<Rightarrow> bytes" where
  "fragment_payload msg_id idx total_frags chunk =
     to_be_bytes 8 msg_id @ to_be_bytes 2 idx @ to_be_bytes 2 total_frags @ chunk"

fun send_fragments ::
    "core_machine \<Rightarrow> u32 \<Rightarrow> u64 \<Rightarrow> u16 \<Rightarrow> nat \<Rightarrow> bytes list \<Rightarrow> core_output \<Rightarrow> core_result" where
  "send_fragments m path msg_id total_frags idx [] out = (m, Inr out)"
| "send_fragments m path msg_id total_frags idx (chunk # chs) out =
     (if idx > 65535 then (m, Inl MalformedData)
      else and_then
        (send m path (encode_frame_with_tlvs Fragment (core_cid m)
            (fragment_payload msg_id (word_of_nat idx) total_frags chunk)
            [encode_msr_signal_tlv (last_ordered_rx m) (max_pending_id m)]) out)
        (\<lambda>m out. send_fragments m path msg_id total_frags (Suc idx) chs out))"

definition send_one_message :: "core_machine \<Rightarrow> u32 \<Rightarrow> u64 \<Rightarrow> bytes \<Rightarrow> core_output \<Rightarrow> core_result" where
  "send_one_message m path msg_id msg out =
     (if 8 + length msg \<le> MAX_DATA_PAYLOAD_PER_FRAME
      then send m path (encode_frame_with_tlvs Data (core_cid m) (data_payload msg_id msg)
             [encode_msr_signal_tlv (last_ordered_rx m) (max_pending_id m)]) out
      else
        let chunk_size = MAX_DATA_PAYLOAD_PER_FRAME - FRAGMENT_HEADER_LEN in
        if chunk_size = 0 then (m, Inl MalformedData)
        else
          let total_frags = (length msg + chunk_size - 1) div chunk_size in
          if total_frags > 65535 then (m, Inl MalformedData)
          else send_fragments m path msg_id (word_of_nat total_frags) 0 (chunks chunk_size msg) out)"

fun send_range :: "core_machine \<Rightarrow> u32 \<Rightarrow> u64 list \<Rightarrow> core_output \<Rightarrow> core_result" where
  "send_range m path [] out = (m, Inr out)"
| "send_range m path (msg_id # ids) out =
     (case bmap_get (outbound_messages m) msg_id of
        None \<Rightarrow> send_range m path ids out
      | Some msg \<Rightarrow> and_then (send_one_message m path msg_id msg out)
          (\<lambda>m out. send_range m path ids out))"

definition handle_request_range :: "core_machine \<Rightarrow> u32 \<Rightarrow> bytes \<Rightarrow> core_output \<Rightarrow> core_result" where
  "handle_request_range m path payload out =
     (case decode_range payload of
        None \<Rightarrow> (m, Inl MalformedRequestRange)
      | Some (start, end_id) \<Rightarrow> send_range m path (range_inclusive start end_id) out)"

section \<open>MSR signalling and timer renegotiation\<close>

definition handle_msr_signal ::
    "core_machine \<Rightarrow> u64 \<Rightarrow> u32 \<Rightarrow> u64 \<Rightarrow> msr_source \<Rightarrow> core_output \<Rightarrow> core_result" where
  "handle_msr_signal m now_ms path next_pending source out =
     and_then
       (if core_role m = Client then
          let m1 = m\<lparr>last_server_msr_at_ms := Some now_ms\<rparr> in
          and_then
            (if source = ControlMsrFrame then
               let m2 = m1\<lparr>client_msr_rx := saturating_add (client_msr_rx m1) 1\<rparr> in
               if client_msr_rx m2 \<ge> CLIENT_KEEPALIVE_EVERY_SERVER_MSR then
                 let m3 = m2\<lparr>client_msr_rx := 0\<rparr> in
                 send m3 path (encode_frame Msr (core_cid m3)
                   (encode_msr_payload (last_ordered_rx m3) (max_pending_id m3))) out
               else (m2, Inr out)
             else (m1, Inr out))
            (\<lambda>m out. if lifecycle m = Reactivating
               then (m\<lparr>lifecycle := Established\<rparr>, Inr (push_event Reactivated out))
               else (m, Inr out))
        else (m, Inr out))
       (\<lambda>m out.
          let m4 = (if core_role m = Server then m\<lparr>server_msr_unanswered := 0\<rparr> else m) in
          if lifecycle m4 = Established \<and> next_pending > last_requested_end m4 then
            let start = last_requested_end m4 + 1; end_id = next_pending;
                m5 = m4\<lparr>last_requested_end := end_id\<rparr>
            in and_then
              (send m5 path (encode_frame_with_tlvs RequestRange (core_cid m5) (encode_range start end_id)
                 [encode_msr_signal_tlv (last_ordered_rx m5) (max_pending_id m5)]) out)
              (\<lambda>m out. (m, Inr (push_event (RequestRangeSent start end_id) out)))
          else (m4, Inr out))"

definition handle_proposal_tlv :: "core_machine \<Rightarrow> u32 \<Rightarrow> tlv \<Rightarrow> core_output \<Rightarrow> core_result" where
  "handle_proposal_tlv m path tlv out =
     (case decode_timer_proposal_tlv tlv of
        None \<Rightarrow> (m, Inl MalformedTimerProposal)
      | Some (proposal_id, proposal) \<Rightarrow>
          let accepted = (validate_timer_proposal (core_cfg m) proposal = Inr ()) in
          and_then
            (send m path (encode_frame_with_tlvs Msr (core_cid m)
               (encode_msr_payload (last_ordered_rx m) (max_pending_id m))
               [encode_timer_ack_tlv proposal_id accepted]) out)
            (\<lambda>m out. if accepted
               then (m\<lparr>core_cfg := to_config proposal\<rparr>,
                     Inr (push_event (TimerRenegotiationCommitted proposal_id) out))
               else (m, Inr (push_event (TimerRenegotiationRejected proposal_id) out))))"

definition handle_ack_tlv :: "core_machine \<Rightarrow> tlv \<Rightarrow> core_output \<Rightarrow> core_result" where
  "handle_ack_tlv m tlv out =
     (case decode_timer_ack_tlv tlv of
        None \<Rightarrow> (m, Inl MalformedTimerAck)
      | Some (proposal_id, accepted) \<Rightarrow>
         (case pending_local_proposal m of
            None \<Rightarrow> (m, Inr out)
          | Some pending \<Rightarrow>
              if pending_proposal_id pending = proposal_id then
                if accepted
                then (m\<lparr>core_cfg := to_config (pending_proposal pending), pending_local_proposal := None\<rparr>,
                      Inr (push_event (TimerRenegotiationCommitted proposal_id) out))
                else (m\<lparr>pending_local_proposal := None\<rparr>,
                      Inr (push_event (TimerRenegotiationRejected proposal_id) out))
              else (m, Inr out)))"

fun handle_msr_tlvs :: "core_machine \<Rightarrow> u32 \<Rightarrow> tlv list \<Rightarrow> core_output \<Rightarrow> core_result" where
  "handle_msr_tlvs m path [] out = (m, Inr out)"
| "handle_msr_tlvs m path (tlv # tlvs) out =
     and_then
       (if tlv_kind tlv = TLV_TIMER_PROPOSAL then handle_proposal_tlv m path tlv out
        else if tlv_kind tlv = TLV_TIMER_ACK then handle_ack_tlv m tlv out
        else (m, Inr out))
       (\<lambda>m out. handle_msr_tlvs m path tlvs out)"

definition handle_msr :: "core_machine \<Rightarrow> u64 \<Rightarrow> u32 \<Rightarrow> wire_frame \<Rightarrow> core_output \<Rightarrow> core_result" where
  "handle_msr m now_ms path frame out =
     (case decode_msr_payload (frame_payload frame) of
        None \<Rightarrow> (m, Inl MalformedMsr)
      | Some (acked, next_pending) \<Rightarrow>
          and_then (handle_msr_tlvs m path (frame_tlvs frame) out)
            (\<lambda>m out. handle_msr_signal m now_ms path next_pending ControlMsrFrame out))"

section \<open>The public interface\<close>

definition begin_handshake :: "core_machine \<Rightarrow> u64 \<Rightarrow> core_result" where
  "begin_handshake m now_ms =
     (if core_role m = Client then
        and_then (send m (current_path_id m) (encode_frame ClientHello (core_cid m) []) empty_output)
          (\<lambda>m out. (m, Inr (push_event HandshakeStarted out)))
      else (m, Inr empty_output))"

text \<open>The \<^verbatim>\<open>match frame.message_type\<close> of \<^verbatim>\<open>on_datagram\<close>.\<close>

definition dispatch_frame :: "core_machine \<Rightarrow> u64 \<Rightarrow> u32 \<Rightarrow> wire_frame \<Rightarrow> core_output \<Rightarrow> core_result" where
  "dispatch_frame m now_ms path frame out =
     (case frame_type frame of
        ClientHello \<Rightarrow>
          if core_role m = Server \<and> lifecycle m = PreHandshake then
            and_then
              (send (m\<lparr>lifecycle := Established\<rparr>) path (encode_frame ServerHello (core_cid m) [])
                (push_event HandshakeEstablished out))
              (\<lambda>m out. let (m', out') = schedule_server_timers now_ms m out in (m', Inr out'))
          else (m, Inr out)
      | ServerHello \<Rightarrow>
          if core_role m = Client \<and> (lifecycle m = PreHandshake \<or> lifecycle m = Reactivating) then
            let was_reactivating = (lifecycle m = Reactivating) in
            and_then
              (send (m\<lparr>lifecycle := Established, last_server_msr_at_ms := Some now_ms\<rparr>) path
                (encode_frame HelloAck (core_cid m) []) out)
              (\<lambda>m out.
                 let (m', out') = schedule_client_timers now_ms m
                   (push_event (if was_reactivating then Reactivated else HandshakeEstablished) out)
                 in (m', Inr out'))
          else (m, Inr out)
      | HelloAck \<Rightarrow>
          if core_role m = Server \<and> lifecycle m = PreHandshake then
            let (m', out') = schedule_server_timers now_ms (m\<lparr>lifecycle := Established\<rparr>)
              (push_event HandshakeEstablished out)
            in (m', Inr out')
          else (m, Inr out)
      | Msr \<Rightarrow> handle_msr m now_ms path frame out
      | RequestRange \<Rightarrow>
          if lifecycle m = Established then handle_request_range m path (frame_payload frame) out
          else (m, Inr out)
      | Data \<Rightarrow>
          if lifecycle m = Established then handle_data m (frame_payload frame) out
          else (m, Inr out)
      | Fragment \<Rightarrow>
          if lifecycle m = Established then handle_fragment m (frame_payload frame) out
          else (m, Inr out)
      | Close \<Rightarrow> (m\<lparr>lifecycle := Lost\<rparr>, Inr (push_event Disconnected out))
      | Error \<Rightarrow> (m\<lparr>lifecycle := Lost\<rparr>, Inr (push_event Disconnected out)))"

definition on_datagram :: "core_machine \<Rightarrow> u64 \<Rightarrow> u32 \<Rightarrow> bytes \<Rightarrow> core_result" where
  "on_datagram m now_ms src_path_id bs =
     (case decode bs of
        Inl _ \<Rightarrow> (m, Inr (push_event ParseError empty_output))
      | Inr frame \<Rightarrow>
          if core_cid m \<noteq> 0 \<and> frame_cid frame \<noteq> core_cid m
          then (m, Inl (CidMismatch (core_cid m) (frame_cid frame)))
          else
            let m1 = on_valid_peer_datagram now_ms
              (touch_disconnect_deadline now_ms (m\<lparr>current_path_id := src_path_id\<rparr>))
            in and_then (dispatch_frame m1 now_ms src_path_id frame empty_output)
              (\<lambda>m out.
                 if frame_type frame \<noteq> Msr then
                   case find_msr_signal_tlv (frame_tlvs frame) of
                     Some (acked, next_pending) \<Rightarrow>
                       handle_msr_signal m now_ms src_path_id next_pending PiggybackTlv out
                   | None \<Rightarrow> (m, Inr out)
                 else (m, Inr out)))"

definition on_timer_server_msr :: "core_machine \<Rightarrow> u64 \<Rightarrow> core_result" where
  "on_timer_server_msr m now_ms =
     (let m1 = m\<lparr>server_msr_unanswered := saturating_add (server_msr_unanswered m) 1\<rparr> in
      if server_msr_unanswered m1 > SERVER_MAX_CONSECUTIVE_SERVER_MSR_WITHOUT_CLIENT_MSR
      then (m1\<lparr>lifecycle := Lost\<rparr>, Inr (push_event Disconnected empty_output))
      else and_then
        (send m1 (current_path_id m1) (encode_frame Msr (core_cid m1)
           (encode_msr_payload (last_ordered_rx m1) 0)) empty_output)
        (\<lambda>m out. (touch_disconnect_deadline now_ms m,
           Inr (push_timer Disconnect (now_ms + disconnect_window_ms (core_cfg m))
             (push_timer ServerMsr (now_ms + msr_interval_ms (core_cfg m)) out)))))"

definition on_timer_client_probe :: "core_machine \<Rightarrow> u64 \<Rightarrow> core_result" where
  "on_timer_client_probe m now_ms =
     (if lifecycle m = Established \<or> lifecycle m = Reactivating then
        let since_last = saturating_sub now_ms (case last_server_msr_at_ms m of None \<Rightarrow> 0 | Some t \<Rightarrow> t);
            miss_window = saturating_mul (msr_interval_ms (core_cfg m)) (miss_window_count (core_cfg m))
        in and_then
          (if since_last > miss_window then
             let m1 = m\<lparr>lifecycle := Reactivating\<rparr> in
             and_then (send m1 (current_path_id m1) (encode_frame Msr (core_cid m1)
                 (encode_msr_payload 0 (max_pending_id m1))) empty_output)
               (\<lambda>m out. (m, Inr (push_event ReactivationProbeSent out)))
           else (m, Inr empty_output))
          (\<lambda>m out. (m, Inr (push_timer ClientProbe (now_ms + msr_interval_ms (core_cfg m)) out)))
      else (m, Inr empty_output))"

definition on_timer_disconnect :: "core_machine \<Rightarrow> u64 \<Rightarrow> core_result" where
  "on_timer_disconnect m now_ms =
     (case disconnect_deadline_ms m of
        None \<Rightarrow> (m, Inr empty_output)
      | Some deadline \<Rightarrow>
          if now_ms \<ge> deadline \<and> lifecycle m \<noteq> Lost
          then (m\<lparr>lifecycle := Lost\<rparr>, Inr (push_event Disconnected empty_output))
          else (m, Inr (push_timer Disconnect deadline empty_output)))"

definition on_timer_renegotiation :: "core_machine \<Rightarrow> u64 \<Rightarrow> core_result" where
  "on_timer_renegotiation m now_ms =
     (case pending_local_proposal m of
        None \<Rightarrow> (m, Inr empty_output)
      | Some pending \<Rightarrow>
          if now_ms \<ge> pending_expires_at_ms pending
          then (m\<lparr>pending_local_proposal := None\<rparr>,
                Inr (push_event (TimerRenegotiationRolledBack (pending_proposal_id pending)) empty_output))
          else (m, Inr empty_output))"

definition on_timer :: "core_machine \<Rightarrow> u64 \<Rightarrow> timer_id \<Rightarrow> core_result" where
  "on_timer m now_ms timer_id =
     (case timer_id of
        ServerMsr \<Rightarrow>
          if core_role m = Server \<and> lifecycle m = Established then on_timer_server_msr m now_ms
          else (m, Inr empty_output)
      | ClientProbe \<Rightarrow>
          if core_role m = Client then on_timer_client_probe m now_ms else (m, Inr empty_output)
      | Disconnect \<Rightarrow> on_timer_disconnect m now_ms
      | RenegotiationTimeout \<Rightarrow> on_timer_renegotiation m now_ms)"

definition on_api_send :: "core_machine \<Rightarrow> bytes \<Rightarrow> core_result" where
  "on_api_send m payload =
     (let msg_id = next_outbound_id m;
          m1 = m\<lparr>next_outbound_id := next_outbound_id m + 1,
                 outbound_messages := bmap_insert msg_id payload (outbound_messages m)\<rparr>
      in if lifecycle m1 = Established then
           if core_role m1 = Client then
             let pending = max_pending_id m1 in
             and_then (send m1 (current_path_id m1)
                 (encode_frame Msr (core_cid m1) (encode_msr_payload 0 pending)) empty_output)
               (\<lambda>m out. (m, Inr (push_event (QueueAdvertised pending) out)))
           else send m1 (current_path_id m1) (encode_frame Msr (core_cid m1)
                  (encode_msr_payload (last_ordered_rx m1) (max_pending_id m1))) empty_output
         else (m1, Inr empty_output))"

definition on_api_close :: "core_machine \<Rightarrow> core_result" where
  "on_api_close m =
     (if lifecycle m = Lost then (m, Inr empty_output)
      else and_then
        (send m (current_path_id m) (encode_frame Close (core_cid m) []) empty_output)
        (\<lambda>m out. (m\<lparr>lifecycle := Lost\<rparr>, Inr (push_event Disconnected out))))"

definition on_api_propose_timers :: "core_machine \<Rightarrow> u64 \<Rightarrow> timer_proposal \<Rightarrow> core_result" where
  "on_api_propose_timers m now_ms proposal =
     (if lifecycle m \<noteq> Established then (m, Inl InvalidStateForRenegotiation)
      else case validate_timer_proposal (core_cfg m) proposal of
        Inl e \<Rightarrow> (m, Inl e)
      | Inr _ \<Rightarrow>
          let proposal_id = next_proposal_id m;
              expires_at_ms = saturating_add now_ms (saturating_mul (msr_interval_ms (core_cfg m)) 2);
              m1 = m\<lparr>next_proposal_id := saturating_add (next_proposal_id m) 1,
                     pending_local_proposal := Some \<lparr>pending_proposal_id = proposal_id,
                       pending_proposal = proposal, pending_expires_at_ms = expires_at_ms\<rparr>\<rparr>
          in and_then
            (send m1 (current_path_id m1) (encode_frame_with_tlvs Msr (core_cid m1)
               (encode_msr_payload 0 (max_pending_id m1))
               [encode_timer_proposal_tlv proposal_id proposal]) empty_output)
            (\<lambda>m out. (m, Inr (push_timer RenegotiationTimeout expires_at_ms
               (push_event (TimerRenegotiationProposed proposal_id) out)))))"

definition on_path_event :: "core_machine \<Rightarrow> path_event \<Rightarrow> core_result" where
  "on_path_event m event =
     (case event of PathChanged path_id \<Rightarrow> (m\<lparr>current_path_id := path_id\<rparr>, Inr empty_output))"

section \<open>Sequences of calls\<close>

datatype core_input =
    BeginHandshake u64
  | OnDatagram u64 u32 bytes
  | OnTimer u64 timer_id
  | ApiSend bytes
  | ApiClose
  | ApiProposeTimers u64 timer_proposal
  | OnPathEvent path_event

fun core_step :: "core_machine \<Rightarrow> core_input \<Rightarrow> core_result" where
  "core_step m (BeginHandshake now) = begin_handshake m now"
| "core_step m (OnDatagram now path bs) = on_datagram m now path bs"
| "core_step m (OnTimer now t) = on_timer m now t"
| "core_step m (ApiSend p) = on_api_send m p"
| "core_step m ApiClose = on_api_close m"
| "core_step m (ApiProposeTimers now p) = on_api_propose_timers m now p"
| "core_step m (OnPathEvent e) = on_path_event m e"

text \<open>The events a caller sees: those of the calls that returned \<^verbatim>\<open>Ok\<close>.\<close>

definition result_events :: "core_error + core_output \<Rightarrow> event list" where
  "result_events r = (case r of Inl _ \<Rightarrow> [] | Inr out \<Rightarrow> events out)"

definition trace_events :: "(core_error + core_output) list \<Rightarrow> event list" where
  "trace_events rs = concat (map result_events rs)"

end
