(* ===== verification/Core_Lemmas.thy ===== *)
theory Core_Lemmas
  imports Core
begin

text \<open>
  The facts about the protocol state machine that the property theories share: every frame it
  builds is encodable, so the \<^verbatim>\<open>?\<close> after an encoder never fires; what each handler leaves unchanged;
  and the decomposition of a call into its effect on the receive buffers and the rest.
\<close>

section \<open>Definitions\<close>

text \<open>The bytes of a frame built by the state machine.\<close>

definition frame_bytes :: "message_type \<Rightarrow> u64 \<Rightarrow> bytes \<Rightarrow> tlv list \<Rightarrow> bytes" where
  "frame_bytes t c p ts = (case encode (new_frame t 0 c p ts) of Inl _ \<Rightarrow> [] | Inr bs \<Rightarrow> bs)"

definition small_tlvs :: "tlv list \<Rightarrow> bool" where
  "small_tlvs ts \<longleftrightarrow> ts = [] \<or> (\<exists>t. ts = [t] \<and> length (tlv_value t) \<le> 28)"

text \<open>The receive side of a machine.\<close>

definition rx_part :: "core_machine \<Rightarrow> u64 set \<times> (u64, bytes) bmap \<times> (u64, fragment_accumulator) bmap \<times> u64" where
  "rx_part m = (received_ids m, received_buffer m, received_fragments m, last_ordered_rx m)"

text \<open>The events that hand messages to the application, and a call that neither touches the receive
  side nor hands over a message.\<close>

fun is_delivery :: "event \<Rightarrow> bool" where
  "is_delivery (MessageDelivered i) = True"
| "is_delivery (MessageReceived i p) = True"
| "is_delivery _ = False"

abbreviation delivery_events :: "event list \<Rightarrow> event list" where
  "delivery_events \<equiv> filter is_delivery"

definition quiet :: "core_machine \<Rightarrow> core_output \<Rightarrow> core_result \<Rightarrow> bool" where
  "quiet m out r \<longleftrightarrow>
     rx_part (fst r) = rx_part m
     \<and> (\<forall>out'. snd r = Inr out' \<longrightarrow> delivery_events (events out') = delivery_events (events out))"

text \<open>What an MSR signal does to a machine and the events it adds.\<close>

definition after_signal :: "core_machine \<Rightarrow> u64 \<Rightarrow> u64 \<Rightarrow> msr_source \<Rightarrow> core_machine" where
  "after_signal m now np src =
     (let l = (if core_role m = Client \<and> lifecycle m = Reactivating then Established else lifecycle m);
          n = saturating_add (client_msr_rx m) 1
      in m\<lparr>lifecycle := l,
          last_server_msr_at_ms := (if core_role m = Client then Some now else last_server_msr_at_ms m),
          client_msr_rx := (if core_role m = Client \<and> src = ControlMsrFrame
            then (if n \<ge> CLIENT_KEEPALIVE_EVERY_SERVER_MSR then 0 else n) else client_msr_rx m),
          server_msr_unanswered := (if core_role m = Server then 0 else server_msr_unanswered m),
          last_requested_end := (if l = Established \<and> np > last_requested_end m then np
            else last_requested_end m)\<rparr>)"

definition signal_events :: "core_machine \<Rightarrow> u64 \<Rightarrow> event list" where
  "signal_events m np =
     (if core_role m = Client \<and> lifecycle m = Reactivating then [Reactivated] else [])
     @ (if (lifecycle m = Established \<or> core_role m = Client \<and> lifecycle m = Reactivating)
          \<and> np > last_requested_end m
        then [RequestRangeSent (last_requested_end m + 1) np] else [])"

text \<open>The accumulator of a message when a fragment announcing \<open>t\<close> fragments arrives, and what it is
  after the fragment has been stored.\<close>

definition fragment_slot :: "core_machine \<Rightarrow> u64 \<Rightarrow> u16 \<Rightarrow> fragment_accumulator" where
  "fragment_slot m i t =
     (let acc0 = (case bmap_get (received_fragments m) i of
                    None \<Rightarrow> \<lparr>frag_total = 0, frag_chunks = []\<rparr> | Some a \<Rightarrow> a)
      in if frag_total acc0 = 0 then acc0\<lparr>frag_total := t\<rparr> else acc0)"

definition store_fragment :: "u16 \<Rightarrow> bytes \<Rightarrow> fragment_accumulator \<Rightarrow> fragment_accumulator" where
  "store_fragment k c a =
     (if bmap_contains (frag_chunks a) k then a
      else a\<lparr>frag_chunks := bmap_insert k c (frag_chunks a)\<rparr>)"

definition fragment_complete :: "fragment_accumulator \<Rightarrow> bool" where
  "fragment_complete a \<longleftrightarrow> length (frag_chunks a) = unat (frag_total a)"

abbreviation indices :: "u16 \<Rightarrow> u16 list" where
  "indices n \<equiv> map word_of_nat [0..<unat n]"

text \<open>The machine with which an accepted datagram is dispatched.\<close>

definition accept_datagram :: "core_machine \<Rightarrow> u64 \<Rightarrow> u32 \<Rightarrow> core_machine" where
  "accept_datagram m now path =
     on_valid_peer_datagram now (touch_disconnect_deadline now (m\<lparr>current_path_id := path\<rparr>))"

text \<open>A pending local proposal has been validated when it was made.\<close>

definition pending_ok :: "core_machine \<Rightarrow> bool" where
  "pending_ok m \<longleftrightarrow>
     (\<forall>q. pending_local_proposal m = Some q \<longrightarrow> config_in_bounds (to_config (pending_proposal q)))"

text \<open>The effect of the renegotiation TLVs: only the configuration and the pending proposal change,
  a new configuration is within the bounds, and only renegotiation events are emitted.\<close>

abbreviation renegotiation_events :: "event set" where
  "renegotiation_events \<equiv> range TimerRenegotiationCommitted \<union> range TimerRenegotiationRejected"

definition renegotiates :: "core_machine \<Rightarrow> core_output \<Rightarrow> core_result \<Rightarrow> bool" where
  "renegotiates m out r \<longleftrightarrow>
     fst r = m\<lparr>core_cfg := core_cfg (fst r), pending_local_proposal := pending_local_proposal (fst r)\<rparr>
     \<and> pending_local_proposal (fst r) \<in> {pending_local_proposal m, None}
     \<and> (pending_ok m \<longrightarrow> core_cfg (fst r) = core_cfg m \<or> config_in_bounds (core_cfg (fst r)))
     \<and> (\<forall>out'. snd r = Inr out' \<longrightarrow> timer_actions out' = timer_actions out
          \<and> (\<exists>es. events out' = events out @ es \<and> set es \<subseteq> renegotiation_events))"

section \<open>Frames\<close>

lemma small_tlvs_simps [simp]:
  "small_tlvs []"
  "small_tlvs [encode_msr_signal_tlv a n]"
  "small_tlvs [encode_timer_ack_tlv i b]"
  "small_tlvs [encode_timer_proposal_tlv i p]"
  by (simp_all add: small_tlvs_def)

lemma frame_bytes_ok:
  assumes "length p \<le> 1000" and "small_tlvs ts"
  shows "encode_frame_with_tlvs t c p ts = Inr (frame_bytes t c p ts)"
    and "decode (frame_bytes t c p ts) = Inr (new_frame t 0 c p ts)"
  using encode_frame_with_tlvs_ok [OF assms(1) assms(2) [unfolded small_tlvs_def], of t c]
  by (auto simp: encode_frame_with_tlvs_def frame_bytes_def split: sum.splits)

lemma send_frame [simp]:
  "length p \<le> 1000 \<Longrightarrow> small_tlvs ts \<Longrightarrow>
     send m path (encode_frame_with_tlvs t c p ts) out = (m, Inr (push_datagram path (frame_bytes t c p ts) out))"
  "length p \<le> 1000 \<Longrightarrow>
     send m path (encode_frame t c p) out = (m, Inr (push_datagram path (frame_bytes t c p []) out))"
  by (simp_all add: send_def frame_bytes_ok encode_frame_alt)

lemma output_simps [simp]:
  "events (push_event e out) = events out @ [e]"
  "events (push_datagram p bs out) = events out"
  "events (push_timer t d out) = events out"
  "outbound_datagrams (push_event e out) = outbound_datagrams out"
  "outbound_datagrams (push_datagram p bs out) =
     outbound_datagrams out @ [\<lparr>dgram_path_id = p, dgram_bytes = bs\<rparr>]"
  "outbound_datagrams (push_timer t d out) = outbound_datagrams out"
  "timer_actions (push_event e out) = timer_actions out"
  "timer_actions (push_datagram p bs out) = timer_actions out"
  "timer_actions (push_timer t d out) = timer_actions out @ [Schedule t d]"
  "events empty_output = []" "outbound_datagrams empty_output = []" "timer_actions empty_output = []"
  by (simp_all add: push_event_def push_datagram_def push_timer_def empty_output_def)

lemma length_data_payload [simp]: "length (data_payload i msg) = 8 + length msg"
  by (simp add: data_payload_def)

lemma length_fragment_payload [simp]: "length (fragment_payload i k n c) = 12 + length c"
  by (simp add: fragment_payload_def)

lemma send_fragments_result:
  assumes "\<forall>c \<in> set cs. length c \<le> 988"
  shows "fst (send_fragments m path i n k cs out) = m
    \<and> (k + length cs \<le> 65536 \<longrightarrow> (\<exists>out'. snd (send_fragments m path i n k cs out) = Inr out'
        \<and> events out' = events out \<and> timer_actions out' = timer_actions out
        \<and> outbound_datagrams out' = outbound_datagrams out @
            map (\<lambda>(j, c). \<lparr>dgram_path_id = path, dgram_bytes = frame_bytes Fragment (core_cid m)
              (fragment_payload i (word_of_nat j) n c)
              [encode_msr_signal_tlv (last_ordered_rx m) (max_pending_id m)]\<rparr>) (enumerate k cs)))"
  using assms
proof (induction cs arbitrary: k out)
  case Nil
  then show ?case by simp
next
  case (Cons c cs)
  then have c: "length (fragment_payload i (word_of_nat k) n c) \<le> 1000" by simp
  show ?case
  proof (cases "k > 65535")
    case True
    then show ?thesis by simp
  next
    case False
    then show ?thesis
      using Cons.IH [of "Suc k"] Cons.prems c by fastforce
  qed
qed

lemma send_one_message_alt:
  "send_one_message m path i msg out =
     (if length msg \<le> 992
      then (m, Inr (push_datagram path (frame_bytes Data (core_cid m) (data_payload i msg)
              [encode_msr_signal_tlv (last_ordered_rx m) (max_pending_id m)]) out))
      else if length (chunks 988 msg) > 65535 then (m, Inl MalformedData)
      else send_fragments m path i (word_of_nat (length (chunks 988 msg))) 0 (chunks 988 msg) out)"
proof -
  have "(length msg + 988 - 1) div 988 = length (chunks 988 msg)" by (simp add: length_chunks)
  moreover have "8 + length msg \<le> 1000 \<longleftrightarrow> length msg \<le> 992" by simp
  ultimately show ?thesis
    by (simp only: send_one_message_def MAX_DATA_PAYLOAD_PER_FRAME_def FRAGMENT_HEADER_LEN_def Let_def)
      (simp del: of_nat_add)
qed

lemma send_one_message_frame:
  "fst (send_one_message m path i msg out) = m
    \<and> (\<forall>out'. snd (send_one_message m path i msg out) = Inr out' \<longrightarrow>
        events out' = events out \<and> timer_actions out' = timer_actions out)"
proof -
  have "\<forall>c \<in> set (chunks 988 msg). length c \<le> 988" using chunk_size by blast
  from send_fragments_result [OF this, of m path i "word_of_nat (length (chunks 988 msg))" 0 out]
  show ?thesis by (auto simp: send_one_message_alt)
qed

lemma send_range_frame:
  "fst (send_range m path ids out) = m
    \<and> (\<forall>out'. snd (send_range m path ids out) = Inr out' \<longrightarrow>
        events out' = events out \<and> timer_actions out' = timer_actions out)"
proof (induction ids arbitrary: out)
  case Nil
  then show ?case by simp
next
  case (Cons i ids)
  show ?case
  proof (cases "bmap_get (outbound_messages m) i")
    case None
    with Cons show ?thesis by simp
  next
    case (Some msg)
    with Cons send_one_message_frame [of m path i msg out] show ?thesis
      by (cases "send_one_message m path i msg out"; cases "snd (send_one_message m path i msg out)") auto
  qed
qed

lemma handle_request_range_frame:
  "fst (handle_request_range m path p out) = m
    \<and> (\<forall>out'. snd (handle_request_range m path p out) = Inr out' \<longrightarrow>
        events out' = events out \<and> timer_actions out' = timer_actions out)"
  using send_range_frame by (auto simp: handle_request_range_def split: option.splits)

section \<open>Fragments\<close>

text \<open>The fragment handler with its accumulators named.\<close>

lemma handle_fragment_alt:
  fixes p :: bytes and m :: core_machine
  defines "i \<equiv> from_be_bytes (take 8 p)" and "k \<equiv> from_be_bytes (take 2 (drop 8 p))"
    and "t \<equiv> from_be_bytes (take 2 (drop 10 p))"
  defines "a \<equiv> store_fragment k (drop 12 p) (fragment_slot m i t)"
  shows "handle_fragment m p out =
    (if length p < 12 then (m, Inl MalformedData)
     else if i \<in> received_ids m then (m, Inr out)
     else if t = 0 \<or> t \<le> k then (m, Inl MalformedData)
     else if frag_total (fragment_slot m i t) \<noteq> t
       then (m\<lparr>received_fragments := bmap_insert i (fragment_slot m i t) (received_fragments m)\<rparr>, Inl MalformedData)
     else if fragment_complete a
       then case merge_chunks (frag_chunks a) (indices (frag_total a)) of
         None \<Rightarrow> (m\<lparr>received_fragments := bmap_insert i a (received_fragments m)\<rparr>, Inl MalformedData)
       | Some merged \<Rightarrow>
          (let (m', out') = flush_ordered
             (m\<lparr>received_ids := insert i (received_ids m),
                received_buffer := bmap_insert i merged (received_buffer m),
                received_fragments := bmap_remove i (bmap_insert i a (received_fragments m))\<rparr>) out
           in (m', Inr out'))
     else (m\<lparr>received_fragments := bmap_insert i a (received_fragments m)\<rparr>, Inr out))"
  unfolding handle_fragment_def FRAGMENT_HEADER_LEN_def Let_def
    fragment_slot_def [unfolded Let_def, symmetric] store_fragment_def [symmetric]
    fragment_complete_def [symmetric] i_def [symmetric] k_def [symmetric] t_def [symmetric] a_def [symmetric]
  by (cases m) (simp split: option.split)

section \<open>MSR handling\<close>

lemma handle_msr_signal_result:
  "\<exists>out'. handle_msr_signal m now path np src out = (after_signal m now np src, Inr out')
     \<and> events out' = events out @ signal_events m np \<and> timer_actions out' = timer_actions out"
proof (cases "core_role m")
  case Client
  then show ?thesis
    by (cases m) (auto simp: handle_msr_signal_def after_signal_def signal_events_def Let_def)
next
  case Server
  then show ?thesis
    by (cases m) (auto simp: handle_msr_signal_def after_signal_def signal_events_def Let_def)
qed

lemma delivery_signal [simp]: "delivery_events (signal_events m np) = []"
  by (simp add: signal_events_def)

lemma rx_part_after_signal [simp]: "rx_part (after_signal m now np src) = rx_part m"
  by (cases m) (simp add: rx_part_def after_signal_def Let_def)

lemma renegotiates_refl: "renegotiates m out (m, Inr out)"
  by (cases m) (simp add: renegotiates_def)

lemma renegotiates_and_then:
  assumes r: "renegotiates m out r"
    and f: "\<And>m1 out1. r = (m1, Inr out1) \<Longrightarrow> renegotiates m1 out1 (f m1 out1)"
  shows "renegotiates m out (and_then r f)"
proof (cases r)
  case (Pair m1 res)
  show ?thesis
  proof (cases res)
    case (Inl e)
    with Pair r show ?thesis by simp
  next
    case (Inr out1)
    have pk: "pending_ok m \<Longrightarrow> pending_ok m1"
      using r by (auto simp: Pair renegotiates_def pending_ok_def)
    obtain es1 where es1: "events out1 = events out @ es1" "set es1 \<subseteq> renegotiation_events"
      using r by (auto simp: Pair Inr renegotiates_def)
    have g: "renegotiates m1 out1 (f m1 out1)" by (rule f) (simp add: Pair Inr)
    have "\<exists>es. events out' = events out @ es \<and> set es \<subseteq> renegotiation_events"
      if "snd (f m1 out1) = Inr out'" for out'
    proof -
      from g that have "\<exists>es. events out' = events out1 @ es \<and> set es \<subseteq> renegotiation_events"
        unfolding renegotiates_def by blast
      then obtain es2 where "events out' = events out1 @ es2" "set es2 \<subseteq> renegotiation_events"
        by blast
      with es1 show ?thesis by (intro exI [of _ "es1 @ es2"]) simp
    qed
    moreover have "fst (f m1 out1) = m\<lparr>core_cfg := core_cfg (fst (f m1 out1)),
        pending_local_proposal := pending_local_proposal (fst (f m1 out1))\<rparr>"
      using r g by (cases m; cases m1; cases "fst (f m1 out1)") (simp add: Pair renegotiates_def)
    ultimately show ?thesis
      using r g pk by (auto simp: Pair Inr renegotiates_def)
  qed
qed

lemma handle_proposal_tlv_renegotiates: "renegotiates m out (handle_proposal_tlv m path t out)"
  by (cases m) (auto simp: handle_proposal_tlv_def renegotiates_def Let_def
      dest: validate_timer_proposal_bounds split: option.splits)

lemma handle_ack_tlv_renegotiates: "renegotiates m out (handle_ack_tlv m t out)"
  by (cases m) (auto simp: handle_ack_tlv_def renegotiates_def pending_ok_def split: option.splits)

lemma handle_msr_tlvs_renegotiates: "renegotiates m out (handle_msr_tlvs m path ts out)"
proof (induction ts arbitrary: m out)
  case Nil
  show ?case by (simp add: renegotiates_refl)
next
  case (Cons t ts)
  show ?case unfolding handle_msr_tlvs.simps
    by (rule renegotiates_and_then)
      (auto simp: Cons.IH handle_proposal_tlv_renegotiates handle_ack_tlv_renegotiates renegotiates_refl)
qed

lemma delivery_renegotiation: "set es \<subseteq> renegotiation_events \<Longrightarrow> delivery_events es = []"
  by (induction es) auto

section \<open>Quiet calls\<close>

lemma quiet_same [simp]: "rx_part m' = rx_part m \<Longrightarrow> quiet m out (m', Inl e)"
  by (simp add: quiet_def)

lemma quiet_ok [simp]:
  "quiet m out (m', Inr out') \<longleftrightarrow>
     rx_part m' = rx_part m \<and> delivery_events (events out') = delivery_events (events out)"
  by (simp add: quiet_def)

lemma quiet_and_then:
  assumes "quiet m out r" and "\<And>m1 out1. r = (m1, Inr out1) \<Longrightarrow> quiet m1 out1 (f m1 out1)"
  shows "quiet m out (and_then r f)"
proof (cases r)
  case (Pair m1 res)
  show ?thesis
  proof (cases res)
    case (Inl e)
    with Pair assms(1) show ?thesis by simp
  next
    case (Inr out1)
    with Pair assms(2) [of m1 out1] assms(1) show ?thesis by (auto simp: quiet_def)
  qed
qed

lemma handle_msr_signal_quiet [simp]: "quiet m out (handle_msr_signal m now path np src out)"
  using handle_msr_signal_result [of m now path np src out] by (auto simp: quiet_def)

lemma handle_msr_tlvs_quiet [simp]: "quiet m out (handle_msr_tlvs m path ts out)"
proof -
  let ?r = "handle_msr_tlvs m path ts out"
  have r: "renegotiates m out ?r" by (rule handle_msr_tlvs_renegotiates)
  then have "rx_part (fst ?r) = rx_part m"
    by (cases m; cases "fst ?r") (simp add: renegotiates_def rx_part_def)
  moreover have "delivery_events (events out') = delivery_events (events out)" if "snd ?r = Inr out'" for out'
  proof -
    from r that have "\<exists>es. events out' = events out @ es \<and> set es \<subseteq> renegotiation_events"
      unfolding renegotiates_def by blast
    then show ?thesis using delivery_renegotiation by auto
  qed
  ultimately show ?thesis by (simp add: quiet_def)
qed

lemma handle_msr_quiet [simp]: "quiet m out (handle_msr m now path fr out)"
  by (auto simp: handle_msr_def intro!: quiet_and_then split: option.split)

lemma handle_request_range_quiet [simp]: "quiet m out (handle_request_range m path p out)"
  using handle_request_range_frame [of m path p out] by (auto simp: quiet_def)

lemmas schedule_defs = schedule_server_timers_def schedule_client_timers_def touch_disconnect_deadline_def

lemma dispatch_frame_quiet:
  assumes "frame_type fr \<notin> {Data, Fragment} \<or> lifecycle m \<noteq> Established"
  shows "quiet m out (dispatch_frame m now path fr out)"
  using assms by (cases "frame_type fr")
    (auto simp: dispatch_frame_def Let_def rx_part_def schedule_defs)

lemma rx_part_accept [simp]: "rx_part (accept_datagram m now path) = rx_part m"
  by (simp add: accept_datagram_def on_valid_peer_datagram_def touch_disconnect_deadline_def rx_part_def)

lemma lifecycle_accept [simp]:
  "lifecycle (accept_datagram m now path) = lifecycle m"
  "core_role (accept_datagram m now path) = core_role m"
  "core_cfg (accept_datagram m now path) = core_cfg m"
  "core_cid (accept_datagram m now path) = core_cid m"
  by (simp_all add: accept_datagram_def on_valid_peer_datagram_def touch_disconnect_deadline_def)

text \<open>A call other than \<^verbatim>\<open>on_datagram\<close> is quiet.\<close>

lemma other_step_quiet:
  assumes "\<forall>now path bs. i \<noteq> OnDatagram now path bs"
  shows "quiet m empty_output (core_step m i)"
proof (cases i)
  case (OnTimer now t)
  then show ?thesis
    by (cases t) (auto simp: on_timer_def on_timer_server_msr_def on_timer_client_probe_def
        on_timer_disconnect_def on_timer_renegotiation_def Let_def rx_part_def schedule_defs
        split: option.split)
next
  case (ApiProposeTimers now p)
  then show ?thesis
    by (auto simp: on_api_propose_timers_def Let_def rx_part_def split: sum.split)
qed (use assms in \<open>auto simp: begin_handshake_def on_api_send_def on_api_close_def on_path_event_def
    Let_def rx_part_def split: path_event.split\<close>)

section \<open>Datagrams\<close>

text \<open>Two results that agree on the receive side and on the messages handed over.\<close>

definition same_delivery :: "core_result \<Rightarrow> core_result \<Rightarrow> bool" where
  "same_delivery r h \<longleftrightarrow>
     rx_part (fst r) = rx_part (fst h)
     \<and> delivery_events (result_events (snd r)) = delivery_events (result_events (snd h))"

lemma result_events_simps [simp]:
  "result_events (Inl e) = []" "result_events (Inr out) = events out"
  by (simp_all add: result_events_def)

lemma trace_events_simps [simp]:
  "trace_events [] = []"
  "trace_events (r # rs) = result_events r @ trace_events rs"
  "trace_events (rs @ rs') = trace_events rs @ trace_events rs'"
  by (simp_all add: trace_events_def)

lemma quiet_same_delivery: "quiet m empty_output r \<Longrightarrow> same_delivery r (m, Inr empty_output)"
  by (cases "snd r") (auto simp: quiet_def same_delivery_def)

lemma and_then_signal_same_delivery:
  assumes "\<And>m1 out1. r = (m1, Inr out1) \<Longrightarrow>
      f m1 out1 = (m1, Inr out1) \<or> (\<exists>now path np src. f m1 out1 = handle_msr_signal m1 now path np src out1)"
  shows "same_delivery (and_then r f) r"
proof (cases r)
  case (Pair m1 res)
  show ?thesis
  proof (cases res)
    case (Inl e)
    with Pair show ?thesis by (simp add: same_delivery_def)
  next
    case (Inr out1)
    from assms [of m1 out1] Pair Inr
    consider "f m1 out1 = (m1, Inr out1)"
      | now path np src where "f m1 out1 = handle_msr_signal m1 now path np src out1" by auto
    then show ?thesis
    proof cases
      case 1
      with Pair Inr show ?thesis by (simp add: same_delivery_def)
    next
      case 2
      with handle_msr_signal_result [of m1 now path np src out1] Pair Inr show ?thesis
        by (auto simp: same_delivery_def)
    qed
  qed
qed

text \<open>A datagram changes the receive side exactly as the handler of the message it carries does; the
  piggybacked MSR signal that follows neither fails nor delivers, so no delivery is lost.\<close>

lemma on_datagram_same_delivery:
  assumes d: "decode bs = Inr fr" and c: "core_cid m = 0 \<or> frame_cid fr = core_cid m"
  shows "same_delivery (on_datagram m now path bs)
    (dispatch_frame (accept_datagram m now path) now path fr empty_output)"
  using c by (auto simp: on_datagram_def d accept_datagram_def Let_def
      intro!: and_then_signal_same_delivery split: option.split) blast+

lemma same_delivery_trans: "same_delivery a b \<Longrightarrow> same_delivery b c \<Longrightarrow> same_delivery a c"
  by (simp add: same_delivery_def)

lemma on_datagram_rejected:
  "decode bs = Inl e \<Longrightarrow> on_datagram m now path bs = (m, Inr (push_event ParseError empty_output))"
  "decode bs = Inr fr \<Longrightarrow> core_cid m \<noteq> 0 \<Longrightarrow> frame_cid fr \<noteq> core_cid m \<Longrightarrow>
     on_datagram m now path bs = (m, Inl (CidMismatch (core_cid m) (frame_cid fr)))"
  by (simp_all add: on_datagram_def)

lemma on_datagram_same_delivery_cases:
  obtains (quiet) "same_delivery (on_datagram m now path bs) (m, Inr empty_output)"
  | (data) fr where "decode bs = Inr fr" "frame_type fr = Data" "lifecycle m = Established"
      "same_delivery (on_datagram m now path bs)
        (handle_data (accept_datagram m now path) (frame_payload fr) empty_output)"
  | (fragment) fr where "decode bs = Inr fr" "frame_type fr = Fragment" "lifecycle m = Established"
      "same_delivery (on_datagram m now path bs)
        (handle_fragment (accept_datagram m now path) (frame_payload fr) empty_output)"
proof (cases "decode bs")
  case (Inl e)
  then show ?thesis using quiet by (simp add: on_datagram_rejected same_delivery_def)
next
  case (Inr fr)
  let ?m = "accept_datagram m now path"
  show ?thesis
  proof (cases "core_cid m = 0 \<or> frame_cid fr = core_cid m")
    case False
    with Inr show ?thesis using quiet by (simp add: on_datagram_rejected same_delivery_def)
  next
    case True
    note s = on_datagram_same_delivery [OF Inr True, of now path]
    show ?thesis
    proof (cases "frame_type fr \<in> {Data, Fragment} \<and> lifecycle m = Established")
      case True
      with s Inr show ?thesis using data fragment by (auto simp: dispatch_frame_def)
    next
      case False
      then have "quiet ?m empty_output (dispatch_frame ?m now path fr empty_output)"
        by (intro dispatch_frame_quiet) auto
      then have "same_delivery (dispatch_frame ?m now path fr empty_output) (?m, Inr empty_output)"
        by (rule quiet_same_delivery)
      with s show ?thesis using quiet by (simp add: same_delivery_def)
    qed
  qed
qed

section \<open>Evaluating a call on a frame of a peer\<close>

lemma new_frame_fields [simp]:
  "frame_type (new_frame t f c p ts) = t" "frame_cid (new_frame t f c p ts) = c"
  "frame_payload (new_frame t f c p ts) = p" "frame_tlvs (new_frame t f c p ts) = ts"
  by (simp_all add: new_frame_def)

lemma find_msr_signal_tlv_Nil [simp]: "find_msr_signal_tlv [] = None"
  by (simp add: find_msr_signal_tlv_def)

lemma data_payload_fields [simp]:
  "from_be_bytes (take 8 (data_payload i msg)) = i" "drop 8 (data_payload i msg) = msg"
  by (simp_all add: data_payload_def)

lemma fragment_payload_fields [simp]:
  "from_be_bytes (take 8 (fragment_payload i k n c)) = i"
  "from_be_bytes (take 2 (drop 8 (fragment_payload i k n c))) = k"
  "from_be_bytes (take 2 (drop 10 (fragment_payload i k n c))) = n"
  "drop 12 (fragment_payload i k n c) = c"
  by (simp_all add: fragment_payload_def from_to_be_bytes)

lemma on_datagram_frame [core_defs]:
  "length p \<le> 1000 \<Longrightarrow> small_tlvs ts \<Longrightarrow> on_datagram m now path (frame_bytes t c p ts) =
    (if core_cid m \<noteq> 0 \<and> c \<noteq> core_cid m then (m, Inl (CidMismatch (core_cid m) c))
     else and_then (dispatch_frame (accept_datagram m now path) now path (new_frame t 0 c p ts) empty_output)
       (\<lambda>m out. if t \<noteq> Msr then case find_msr_signal_tlv ts of
           Some (acked, np) \<Rightarrow> handle_msr_signal m now path np PiggybackTlv out | None \<Rightarrow> (m, Inr out)
         else (m, Inr out)))"
  by (simp only: on_datagram_def frame_bytes_ok accept_datagram_def Let_def new_frame_fields sum.case)

lemmas [core_defs] = dispatch_frame_def new_machine_def accept_datagram_def handle_data_def
  on_valid_peer_datagram_def schedule_defs flush_ordered.simps bmap_get_def bmap_remove_def
  push_event_def empty_output_def push_datagram_def push_timer_def

end
