(* ===== verification/Core_Receive.thy ===== *)
theory Core_Receive
  imports Core_Lemmas
begin

text \<open>
  The receiving half of the protocol state machine: reordering, duplicate suppression and
  reassembly.  The receive invariant ties the three receive structures (\<^verbatim>\<open>received_ids\<close>,
  \<^verbatim>\<open>received_buffer\<close>, \<^verbatim>\<open>received_fragments\<close>) to the delivery watermark \<^verbatim>\<open>last_ordered_rx\<close> and to the
  events emitted so far; it holds after every sequence of calls, for every input.
\<close>

section \<open>Definitions\<close>

text \<open>The events that hand over the messages \<open>ps\<close>, in order.\<close>

definition delivery_log :: "(u64 \<times> bytes) list \<Rightarrow> event list" where
  "delivery_log ps = concat (map (\<lambda>(i, p). [MessageDelivered i, MessageReceived i p]) ps)"

text \<open>The messages handed over are exactly \<open>1, \<dots>, l\<close>, each once and in order, each with a payload
  that satisfies \<open>C\<close>.\<close>

definition handed_over :: "(u64 \<Rightarrow> bytes \<Rightarrow> bool) \<Rightarrow> event list \<Rightarrow> u64 \<Rightarrow> bool" where
  "handed_over C es l \<longleftrightarrow>
     (\<exists>ps. delivery_events es = delivery_log ps \<and> map fst ps = range_inclusive 1 l
        \<and> (\<forall>(i, p) \<in> set ps. C i p))"

definition buffer_ok :: "(u64 \<Rightarrow> bytes \<Rightarrow> bool) \<Rightarrow> core_machine \<Rightarrow> bool" where
  "buffer_ok C m \<longleftrightarrow>
     {1..last_ordered_rx m} \<subseteq> received_ids m
     \<and> set (bmap_keys (received_buffer m)) = received_ids m - {1..last_ordered_rx m}
     \<and> (\<forall>i p. bmap_get (received_buffer m) i = Some p \<longrightarrow> C i p)"

text \<open>An accumulator in the map is incomplete, its indices are below its total.\<close>

definition accumulator_ok ::
    "(u64 \<Rightarrow> u16 \<Rightarrow> u16 \<Rightarrow> bytes \<Rightarrow> bool) \<Rightarrow> u64 \<Rightarrow> fragment_accumulator \<Rightarrow> bool" where
  "accumulator_ok D i a \<longleftrightarrow>
     frag_total a \<noteq> 0 \<and> bmap_ok (frag_chunks a)
     \<and> (\<forall>k c. bmap_get (frag_chunks a) k = Some c \<longrightarrow> k < frag_total a \<and> D i (frag_total a) k c)"

definition fragments_ok :: "(u64 \<Rightarrow> u16 \<Rightarrow> u16 \<Rightarrow> bytes \<Rightarrow> bool) \<Rightarrow> core_machine \<Rightarrow> bool" where
  "fragments_ok D m \<longleftrightarrow>
     (\<forall>i a. bmap_get (received_fragments m) i = Some a \<longrightarrow>
        i \<notin> received_ids m \<and> accumulator_ok D i a \<and> length (frag_chunks a) < unat (frag_total a))"

text \<open>The receive invariant after \<open>n\<close> calls: \<open>C\<close> holds of every complete message and \<open>D\<close> of every
  fragment received.\<close>

definition receive_ok ::
    "(u64 \<Rightarrow> bytes \<Rightarrow> bool) \<Rightarrow> (u64 \<Rightarrow> u16 \<Rightarrow> u16 \<Rightarrow> bytes \<Rightarrow> bool) \<Rightarrow> nat \<Rightarrow> core_machine \<Rightarrow> bool" where
  "receive_ok C D n m \<longleftrightarrow>
     buffer_ok C m \<and> fragments_ok D m \<and> card (received_ids m) \<le> n
     \<and> bmap_get (received_buffer m) (last_ordered_rx m + 1) = None"

definition receive_inv ::
    "(u64 \<Rightarrow> bytes \<Rightarrow> bool) \<Rightarrow> (u64 \<Rightarrow> u16 \<Rightarrow> u16 \<Rightarrow> bytes \<Rightarrow> bool) \<Rightarrow> nat \<Rightarrow> core_machine
      \<Rightarrow> (core_error + core_output) list \<Rightarrow> bool" where
  "receive_inv C D n m os \<longleftrightarrow>
     receive_ok C D n m \<and> handed_over C (trace_events os) (last_ordered_rx m)"

text \<open>A datagram whose message or fragment, if it carries one, satisfies \<open>C\<close> or \<open>D\<close>.\<close>

definition carries_data :: "(u64 \<Rightarrow> bytes \<Rightarrow> bool) \<Rightarrow> bytes \<Rightarrow> bool" where
  "carries_data C p \<longleftrightarrow> 8 \<le> length p \<longrightarrow> C (from_be_bytes (take 8 p)) (drop 8 p)"

definition carries_fragment :: "(u64 \<Rightarrow> u16 \<Rightarrow> u16 \<Rightarrow> bytes \<Rightarrow> bool) \<Rightarrow> bytes \<Rightarrow> bool" where
  "carries_fragment D p \<longleftrightarrow>
     12 \<le> length p \<longrightarrow>
       D (from_be_bytes (take 8 p)) (from_be_bytes (take 2 (drop 10 p)))
         (from_be_bytes (take 2 (drop 8 p))) (drop 12 p)"

fun input_carries ::
    "(u64 \<Rightarrow> bytes \<Rightarrow> bool) \<Rightarrow> (u64 \<Rightarrow> u16 \<Rightarrow> u16 \<Rightarrow> bytes \<Rightarrow> bool) \<Rightarrow> core_input \<Rightarrow> bool" where
  "input_carries C D (OnDatagram now path bs) =
     (case decode bs of
        Inl _ \<Rightarrow> True
      | Inr fr \<Rightarrow> (frame_type fr = Data \<longrightarrow> carries_data C (frame_payload fr))
          \<and> (frame_type fr = Fragment \<longrightarrow> carries_fragment D (frame_payload fr)))"
| "input_carries C D _ = True"

section \<open>The flush loop\<close>

lemma delivery_log_simps [simp]:
  "delivery_log [] = []" "delivery_log (ps @ qs) = delivery_log ps @ delivery_log qs"
  "delivery_log ((i, p) # ps) = MessageDelivered i # MessageReceived i p # delivery_log ps"
  by (simp_all add: delivery_log_def)

lemma handed_over_0 [simp]: "handed_over C [] 0"
  by (simp add: handed_over_def range_inclusive_def)

lemma handed_over_cong:
  "delivery_events es = delivery_events es' \<Longrightarrow> handed_over C es l = handed_over C es' l"
  by (simp add: handed_over_def)

lemma handed_over_next:
  assumes "handed_over C es l" and "C (l + 1) p" and "l \<noteq> - 1"
  shows "handed_over C (es @ [MessageDelivered (l + 1), MessageReceived (l + 1) p]) (l + 1)"
proof -
  obtain ps where ps: "delivery_events es = delivery_log ps" "map fst ps = range_inclusive 1 l"
      "\<forall>(i, p) \<in> set ps. C i p"
    using assms(1) by (auto simp: handed_over_def)
  have "range_inclusive 1 (l + 1) = range_inclusive 1 l @ [l + 1]"
    using assms(3) by (intro range_inclusive_snoc) (auto simp: word_le_nat_alt unat_succ)
  with ps assms(2) show ?thesis
    unfolding handed_over_def by (intro exI [of _ "ps @ [(l + 1, p)]"]) auto
qed

lemma word_interval_Suc: "l \<noteq> - 1 \<Longrightarrow> {1..l + 1} = insert (l + 1) {1..l}" for l :: u64
  by (auto simp: word_le_nat_alt unat_succ word_unat_eq_iff le_Suc_eq)

lemma watermark_below:
  assumes "buffer_ok C m" and "card (received_ids m) < 2 ^ 64 - 1"
  shows "last_ordered_rx m \<noteq> - 1"
proof
  assume l: "last_ordered_rx m = - 1"
  have "card {1..last_ordered_rx m} \<le> card (received_ids m)"
    using assms(1) by (intro card_mono) (auto simp: buffer_ok_def)
  with assms(2) show False by (simp add: l card_word_interval unat_max_word)
qed

lemma flush_ordered_delivers:
  assumes "buffer_ok C m" and "card (received_ids m) < 2 ^ 64 - 1"
    and "handed_over C (pre @ events out) (last_ordered_rx m)"
    and "flush_ordered m out = (m', out')"
  shows "buffer_ok C m' \<and> bmap_get (received_buffer m') (last_ordered_rx m' + 1) = None
    \<and> handed_over C (pre @ events out') (last_ordered_rx m')
    \<and> received_ids m' = received_ids m \<and> received_fragments m' = received_fragments m"
  using assms
proof (induction m out rule: flush_ordered.induct)
  case (1 m out)
  show ?case
  proof (cases "bmap_get (received_buffer m) (last_ordered_rx m + 1)")
    case None
    with "1.prems" show ?thesis by (simp add: flush_ordered.simps [of m out])
  next
    case (Some p)
    let ?l = "last_ordered_rx m"
    let ?m = "m\<lparr>received_buffer := bmap_remove (?l + 1) (received_buffer m), last_ordered_rx := ?l + 1\<rparr>"
    let ?out = "push_event (MessageReceived (?l + 1) p) (push_event (MessageDelivered (?l + 1)) out)"
    have l: "?l \<noteq> - 1" by (rule watermark_below [OF "1.prems"(1,2)])
    have C: "C (?l + 1) p" and R: "?l + 1 \<in> received_ids m"
      using "1.prems"(1) Some bmap_get_Some_keys [OF Some] by (auto simp: buffer_ok_def)
    have "buffer_ok C ?m"
      using "1.prems"(1) R by (auto simp: buffer_ok_def word_interval_Suc [OF l])
    moreover have "handed_over C (pre @ events ?out) (last_ordered_rx ?m)"
      using handed_over_next [OF "1.prems"(3) C l] by simp
    moreover have "flush_ordered ?m ?out = (m', out')"
      using "1.prems"(4) Some by (simp add: flush_ordered.simps [of m out])
    ultimately show ?thesis
      using "1.IH" [OF Some] "1.prems"(2) by simp
  qed
qed

section \<open>Reassembly\<close>

lemma set_indices: "set (indices n) = {k. k < n}"
proof (intro equalityI subsetI)
  fix k assume "k \<in> set (indices n)"
  then obtain j where j: "word_of_nat j = k" "j < unat n" by auto
  have "unat k = j" by (rule unat_word_of_nat [OF j(1)]) (use j(2) unat_word_less [of n] in simp)
  with j(2) show "k \<in> {k. k < n}" by (simp add: word_less_nat_alt)
next
  fix k assume "k \<in> {k. k < n}"
  then have "unat k \<in> {0..<unat n}" by (simp add: word_less_nat_alt)
  then show "k \<in> set (indices n)" by (auto intro: rev_image_eqI)
qed

lemma card_below: "card {k. k < n} = unat n" for n :: u16
proof -
  have "inj_on (word_of_nat :: nat \<Rightarrow> u16) {0..<unat n}"
    by (rule inj_on_word_of_nat) (use unat_word_less [of n] in simp)
  then have "distinct (indices n)" by (simp add: distinct_map)
  from distinct_card [OF this] show ?thesis by (simp only: set_indices) simp
qed

lemma merge_chunks_Some:
  "(\<And>k. k \<in> set ks \<Longrightarrow> bmap_get chs k \<noteq> None) \<Longrightarrow>
     merge_chunks chs ks = Some (concat (map (\<lambda>k. the (bmap_get chs k)) ks))"
  by (induction ks) force+

lemma accumulator_keys: "accumulator_ok D i a \<Longrightarrow> set (bmap_keys (frag_chunks a)) \<subseteq> {k. k < frag_total a}"
  by (auto simp: accumulator_ok_def set_bmap_keys)

lemma accumulator_length: "accumulator_ok D i a \<Longrightarrow> length (frag_chunks a) \<le> unat (frag_total a)"
  using card_mono [OF finite accumulator_keys, of D i a]
  by (simp add: accumulator_ok_def bmap_length_card card_below)

lemma accumulator_insert:
  "accumulator_ok D i a \<Longrightarrow> k < frag_total a \<Longrightarrow> D i (frag_total a) k c \<Longrightarrow>
     accumulator_ok D i (a\<lparr>frag_chunks := bmap_insert k c (frag_chunks a)\<rparr>)"
  by (auto simp: accumulator_ok_def)

text \<open>A full accumulator has every chunk: the missing-chunk error of the merge loop cannot occur.\<close>

lemma merge_full:
  assumes "accumulator_ok D i a" and "length (frag_chunks a) = unat (frag_total a)"
  shows "\<exists>f. merge_chunks (frag_chunks a) (indices (frag_total a))
      = Some (concat (map f (indices (frag_total a))))
    \<and> (\<forall>k < frag_total a. D i (frag_total a) k (f k))"
proof -
  note accumulator_keys [OF assms(1)]
  moreover have "card (set (bmap_keys (frag_chunks a))) = card {k. k < frag_total a}"
    using assms by (simp add: accumulator_ok_def card_below flip: bmap_length_card)
  ultimately have keys: "dom (bmap_get (frag_chunks a)) = {k. k < frag_total a}"
    by (simp add: card_subset_eq flip: set_bmap_keys)
  let ?f = "\<lambda>k. the (bmap_get (frag_chunks a) k)"
  have "merge_chunks (frag_chunks a) (indices (frag_total a)) = Some (concat (map ?f (indices (frag_total a))))"
    by (rule merge_chunks_Some) (use keys set_indices in blast)
  moreover have "\<forall>k < frag_total a. D i (frag_total a) k (?f k)"
  proof (intro allI impI)
    fix k assume "k < frag_total a"
    with keys have "k \<in> dom (bmap_get (frag_chunks a))" by simp
    with assms(1) show "D i (frag_total a) k (?f k)" by (auto simp: accumulator_ok_def)
  qed
  ultimately show ?thesis by blast
qed

section \<open>The receive invariant\<close>

text \<open>What the receiver needs of the origin of its data: a message all of whose fragments are
  acceptable is acceptable.\<close>

locale message_origin =
  fixes C :: "u64 \<Rightarrow> bytes \<Rightarrow> bool"
    and D :: "u64 \<Rightarrow> u16 \<Rightarrow> u16 \<Rightarrow> bytes \<Rightarrow> bool"
  assumes merge: "n \<noteq> 0 \<Longrightarrow> (\<And>k. k < n \<Longrightarrow> D i n k (f k)) \<Longrightarrow> C i (concat (map f (indices n)))"
begin

lemma accept_message:
  assumes ok: "receive_ok C D n m" and n: "n < 2 ^ 64 - 2" and new: "i \<notin> received_ids m"
    and C: "C i p" and h: "handed_over C pre (last_ordered_rx m)"
    and f: "flush_ordered (m\<lparr>received_ids := insert i (received_ids m),
        received_buffer := bmap_insert i p (received_buffer m),
        received_fragments := bmap_remove i fs\<rparr>) empty_output = (m', out')"
    and fs: "\<And>j. j \<noteq> i \<Longrightarrow> bmap_get fs j = bmap_get (received_fragments m) j"
  shows "receive_ok C D (Suc n) m' \<and> handed_over C (pre @ events out') (last_ordered_rx m')"
proof -
  let ?m = "m\<lparr>received_ids := insert i (received_ids m),
    received_buffer := bmap_insert i p (received_buffer m), received_fragments := bmap_remove i fs\<rparr>"
  have ok': "buffer_ok C m" "fragments_ok D m" "card (received_ids m) \<le> n"
    using ok by (simp_all add: receive_ok_def)
  have "buffer_ok C ?m" using ok'(1) C new by (auto simp: buffer_ok_def)
  moreover have c: "card (received_ids ?m) \<le> Suc n" using ok'(3) new by simp
  moreover have "fragments_ok D ?m" using ok'(2) by (auto simp: fragments_ok_def fs)
  moreover have "card (received_ids ?m) < 2 ^ 64 - 1" using c n by simp
  ultimately show ?thesis
    using flush_ordered_delivers [of C ?m pre empty_output, OF _ _ _ f] h
    by (auto simp: receive_ok_def fragments_ok_def)
qed

lemma receive_ok_Suc: "receive_ok C D n m \<Longrightarrow> receive_ok C D (Suc n) m"
  by (auto simp: receive_ok_def)

lemma handle_data_receives:
  assumes ok: "receive_ok C D n m" and n: "n < 2 ^ 64 - 2"
    and h: "handed_over C pre (last_ordered_rx m)" and p: "carries_data C p"
    and r: "handle_data m p empty_output = r"
  shows "receive_ok C D (Suc n) (fst r) \<and> handed_over C (pre @ result_events (snd r)) (last_ordered_rx (fst r))"
proof (cases "length p < 8 \<or> from_be_bytes (take 8 p) \<in> received_ids m")
  case True
  then show ?thesis using r h receive_ok_Suc [OF ok] by (auto simp: handle_data_def)
next
  case False
  then have "C (from_be_bytes (take 8 p)) (drop 8 p)" using p by (simp add: carries_data_def)
  then show ?thesis
    using r False accept_message [OF ok n _ _ h, of "from_be_bytes (take 8 p)" "drop 8 p" "received_fragments m"]
    by (auto simp: handle_data_def Let_def split: prod.splits)
qed

lemma delivered_flush:
  assumes "r = (let (m', out') = flush_ordered m out in (m', Inr out'))"
    and "\<And>m' out'. flush_ordered m out = (m', out') \<Longrightarrow>
      receive_ok C D n m' \<and> handed_over C (pre @ events out') (last_ordered_rx m')"
  shows "receive_ok C D n (fst r) \<and> handed_over C (pre @ result_events (snd r)) (last_ordered_rx (fst r))"
  using assms by (cases "flush_ordered m out") auto

text \<open>The accumulator a fragment is stored in, and the machine that holds it.\<close>

lemma fragment_slot_ok:
  assumes "fragments_ok D m" and "t \<noteq> 0"
  shows "accumulator_ok D i (fragment_slot m i t)"
    and "frag_total (fragment_slot m i t) \<noteq> t \<Longrightarrow>
      length (frag_chunks (fragment_slot m i t)) < unat (frag_total (fragment_slot m i t))"
  using assms by (auto simp: fragment_slot_def Let_def fragments_ok_def accumulator_ok_def split: option.splits)

lemma keep_accumulator:
  assumes ok: "receive_ok C D n m" and new: "i \<notin> received_ids m"
    and a: "accumulator_ok D i a" "length (frag_chunks a) < unat (frag_total a)"
  shows "receive_ok C D (Suc n) (m\<lparr>received_fragments := bmap_insert i a (received_fragments m)\<rparr>)"
  using assms by (auto simp: receive_ok_def buffer_ok_def fragments_ok_def)

lemma handle_fragment_receives:
  assumes ok: "receive_ok C D n m" and n: "n < 2 ^ 64 - 2"
    and h: "handed_over C pre (last_ordered_rx m)" and p: "carries_fragment D p"
    and r: "handle_fragment m p empty_output = r"
  shows "receive_ok C D (Suc n) (fst r) \<and> handed_over C (pre @ result_events (snd r)) (last_ordered_rx (fst r))"
proof -
  define i where "i = (from_be_bytes (take 8 p) :: u64)"
  define k where "k = (from_be_bytes (take 2 (drop 8 p)) :: u16)"
  define t where "t = (from_be_bytes (take 2 (drop 10 p)) :: u16)"
  define s where "s = fragment_slot m i t"
  define a where "a = store_fragment k (drop 12 p) s"
  note alt = handle_fragment_alt [of m p empty_output, folded i_def k_def t_def, folded s_def, folded a_def]
  show ?thesis
  proof (cases "length p < 12 \<or> i \<in> received_ids m \<or> t = 0 \<or> t \<le> k")
    case True
    then show ?thesis using r h receive_ok_Suc [OF ok] by (auto simp: alt)
  next
    case False
    then have g: "12 \<le> length p" "i \<notin> received_ids m" "t \<noteq> 0" "k < t" by auto
    have s: "accumulator_ok D i s" "frag_total s \<noteq> t \<Longrightarrow> length (frag_chunks s) < unat (frag_total s)"
      using ok g(3) unfolding s_def by (auto intro: fragment_slot_ok simp: receive_ok_def)
    show ?thesis
    proof (cases "frag_total s = t")
      case mismatch: False
      then show ?thesis using r h g keep_accumulator [OF ok g(2) s(1)] s(2) by (auto simp: alt)
    next
      case True
      have D: "D i t k (drop 12 p)" using p g by (simp add: carries_fragment_def i_def k_def t_def)
      then have a: "accumulator_ok D i a" "frag_total a = t"
        using accumulator_insert [OF s(1)] s(1) g True by (auto simp: a_def store_fragment_def)
      show ?thesis
      proof (cases "fragment_complete a")
        case incomplete: False
        then have "length (frag_chunks a) < unat (frag_total a)"
          using accumulator_length [OF a(1)] by (simp add: fragment_complete_def)
        from keep_accumulator [OF ok g(2) a(1) this] show ?thesis
          using r h g True incomplete by (auto simp: alt)
      next
        case full: True
        obtain f where f: "merge_chunks (frag_chunks a) (indices (frag_total a)) = Some (concat (map f (indices t)))"
            "\<forall>k < t. D i t k (f k)"
          using merge_full [OF a(1)] full a(2) by (auto simp: fragment_complete_def)
        then have "C i (concat (map f (indices t)))" using g by (intro merge) auto
        note accept = accept_message [OF ok n g(2) this h, of "bmap_insert i a (received_fragments m)"]
        show ?thesis
        proof (rule delivered_flush)
          show "r = (let (m', out') = flush_ordered (m\<lparr>received_ids := insert i (received_ids m),
              received_buffer := bmap_insert i (concat (map f (indices t))) (received_buffer m),
              received_fragments := bmap_remove i (bmap_insert i a (received_fragments m))\<rparr>) empty_output
            in (m', Inr out'))"
            using r True full \<open>\<not> (length p < 12 \<or> i \<in> received_ids m \<or> t = 0 \<or> t \<le> k)\<close>
            by (simp add: alt f(1))
        qed (rule accept, simp_all)
      qed
    qed
  qed
qed

lemma receive_ok_cong: "rx_part m = rx_part m' \<Longrightarrow> receive_ok C D n m = receive_ok C D n m'"
  by (simp add: rx_part_def receive_ok_def buffer_ok_def fragments_ok_def)

lemma receive_inv_extend:
  assumes "same_delivery r h"
    and "receive_ok C D n (fst h) \<and> handed_over C (trace_events os @ result_events (snd h)) (last_ordered_rx (fst h))"
  shows "receive_inv C D n (fst r) (os @ [snd r])"
proof -
  have "rx_part (fst r) = rx_part (fst h)" using assms(1) by (simp add: same_delivery_def)
  moreover from this have "last_ordered_rx (fst r) = last_ordered_rx (fst h)" by (simp add: rx_part_def)
  moreover have "handed_over C (trace_events (os @ [snd r])) l
      = handed_over C (trace_events os @ result_events (snd h)) l" for l
    by (rule handed_over_cong) (use assms(1) in \<open>simp add: same_delivery_def\<close>)
  ultimately show ?thesis using assms(2) receive_ok_cong [of "fst r" "fst h"] by (simp add: receive_inv_def)
qed

lemma core_step_receives:
  assumes g: "input_carries C D i" and inv: "receive_inv C D n m os" and n: "n < 2 ^ 64 - 2"
  shows "receive_inv C D (Suc n) (fst (core_step m i)) (os @ [snd (core_step m i)])"
proof -
  have that_quiet: ?thesis if "same_delivery (core_step m i) (m, Inr empty_output)"
    using receive_inv_extend [OF that, of "Suc n" os] inv receive_ok_Suc by (simp add: receive_inv_def)
  show ?thesis
  proof (cases "\<exists>now path bs. i = OnDatagram now path bs")
    case False
    then show ?thesis using that_quiet quiet_same_delivery [OF other_step_quiet] by blast
  next
    case True
    then obtain now path bs where i: "i = OnDatagram now path bs" by blast
    let ?m = "accept_datagram m now path"
    have rx: "rx_part ?m = rx_part m" by simp
    then have l: "last_ordered_rx ?m = last_ordered_rx m" by (simp add: rx_part_def)
    have ok: "receive_ok C D n ?m" and h: "handed_over C (trace_events os) (last_ordered_rx ?m)"
      using inv receive_ok_cong [OF rx] l by (simp_all add: receive_inv_def)
    show ?thesis
    proof (cases rule: on_datagram_same_delivery_cases [of m now path bs])
      case quiet
      with that_quiet i show ?thesis by simp
    next
      case (data fr)
      with g i have "carries_data C (frame_payload fr)" by simp
      from handle_data_receives [OF ok n h this refl] show ?thesis
        using receive_inv_extend [OF data(4)] i by simp
    next
      case (fragment fr)
      with g i have "carries_fragment D (frame_payload fr)" by simp
      from handle_fragment_receives [OF ok n h this refl] show ?thesis
        using receive_inv_extend [OF fragment(4)] i by simp
    qed
  qed
qed

lemma new_machine_receives: "receive_inv C D 0 (new_machine role cid cfg) []"
  by (simp add: receive_inv_def receive_ok_def buffer_ok_def fragments_ok_def new_machine_def
      bmap_keys_def)

end

sublocale message_origin \<subseteq> receiver: trace_invariant core_step "input_carries C D" "receive_inv C D" "2 ^ 64 - 2"
  by unfold_locales (rule core_step_receives)

interpretation any_origin: message_origin "\<lambda>_ _. True" "\<lambda>_ _ _ _. True"
  by unfold_locales simp

section \<open>Reachable machines\<close>

lemma input_carries_any [simp]: "input_carries (\<lambda>_ _. True) (\<lambda>_ _ _ _. True) i"
  by (cases i) (auto simp: carries_data_def carries_fragment_def split: sum.split)

lemma any_run_receives:
  assumes "length is \<le> 2 ^ 64 - 2"
  shows "receive_inv (\<lambda>_ _. True) (\<lambda>_ _ _ _. True) (length is)
    (fst (run core_step (new_machine role cid cfg) is)) (snd (run core_step (new_machine role cid cfg) is))"
  using any_origin.receiver.run_trace [OF any_origin.new_machine_receives, of "is"] assms by simp

lemma watermark_next:
  assumes "receive_ok C D n m" and "n \<le> 2 ^ 64 - 2"
  shows "last_ordered_rx m + 1 \<notin> received_ids m" and "last_ordered_rx m \<noteq> - 1"
proof -
  have b: "buffer_ok C m" "card (received_ids m) \<le> n"
      "bmap_get (received_buffer m) (last_ordered_rx m + 1) = None"
    using assms(1) by (simp_all add: receive_ok_def)
  then show l: "last_ordered_rx m \<noteq> - 1"
    using assms(2) by (intro watermark_below) auto
  have "last_ordered_rx m + 1 \<notin> {1..last_ordered_rx m}"
    using l by (auto simp: word_le_nat_alt unat_succ)
  moreover have "last_ordered_rx m + 1 \<notin> set (bmap_keys (received_buffer m))"
    using b(3) by (auto simp: set_bmap_keys)
  ultimately show "last_ordered_rx m + 1 \<notin> received_ids m"
    using b(1) by (auto simp: buffer_ok_def)
qed

section \<open>Properties\<close>

text \<open>C4: Exactly-once, in-order delivery.  Whatever sequence of calls is made on a fresh machine --
  datagrams of any content in any order, duplicated or forged, timers, application calls -- the
  message events it has emitted are exactly \<^verbatim>\<open>MessageDelivered\<close> and \<^verbatim>\<open>MessageReceived\<close> for the
  identifiers \<open>1, 2, \<dots>, last_ordered_rx\<close>, each once and in ascending order.\<close>

theorem deliveries_in_order:
  assumes "length is \<le> 2 ^ 64 - 2"
    and "run core_step (new_machine role cid cfg) is = (m, os)"
  shows "\<exists>ps. delivery_events (trace_events os) = delivery_log ps
    \<and> map fst ps = range_inclusive 1 (last_ordered_rx m)"
  using any_run_receives [OF assms(1), of role cid cfg] assms(2)
  by (auto simp: receive_inv_def handed_over_def)

definition reordered_run :: "core_input list" where
  "reordered_run =
     [OnDatagram 0 3 (frame_bytes ClientHello 7 [] []),
      OnDatagram 1 3 (frame_bytes Data 7 (data_payload 2 [5]) []),
      OnDatagram 2 3 (frame_bytes Data 7 (data_payload 1 [4]) [])]"

lemma reordered_run_result:
  "last_ordered_rx (fst (run core_step (new_machine Server 7 default_config) reordered_run)) = 2"
  by (simp add: reordered_run_def core_defs)

theorem deliveries_in_order_witness:
  "\<exists>ps. delivery_events (trace_events (snd (run core_step (new_machine Server 7 default_config) reordered_run)))
      = delivery_log ps \<and> map fst ps = range_inclusive 1 2"
proof -
  have "length reordered_run \<le> 2 ^ 64 - 2" by (simp add: reordered_run_def)
  from deliveries_in_order [OF this surjective_pairing, of Server 7 default_config] show ?thesis
    using reordered_run_result by simp
qed

text \<open>C5: The delivery watermark is maximal: after any sequence of calls, \<open>last_ordered_rx\<close> is the
  largest \<open>k\<close> such that all of \<open>1, \<dots>, k\<close> have been received, so a message is never withheld once its
  predecessors are there.\<close>

theorem watermark_maximal:
  assumes "length is \<le> 2 ^ 64 - 2"
    and "run core_step (new_machine role cid cfg) is = (m, os)"
  shows "{1..k} \<subseteq> received_ids m \<longleftrightarrow> k \<le> last_ordered_rx m"
proof -
  have ok: "receive_ok (\<lambda>_ _. True) (\<lambda>_ _ _ _. True) (length is) m"
    using any_run_receives [OF assms(1), of role cid cfg] assms(2) by (simp add: receive_inv_def)
  then have sub: "{1..last_ordered_rx m} \<subseteq> received_ids m"
    by (simp add: receive_ok_def buffer_ok_def)
  note nxt = watermark_next [OF ok assms(1)]
  show ?thesis
  proof
    assume k: "{1..k} \<subseteq> received_ids m"
    show "k \<le> last_ordered_rx m"
    proof (rule ccontr)
      assume "\<not> k \<le> last_ordered_rx m"
      then have "last_ordered_rx m + 1 \<in> {1..k}"
        using nxt(2) by (simp add: word_le_nat_alt unat_succ)
      with k nxt(1) show False by blast
    qed
  next
    assume "k \<le> last_ordered_rx m"
    then have "{1..k} \<subseteq> {1..last_ordered_rx m}" by auto
    with sub show "{1..k} \<subseteq> received_ids m" by blast
  qed
qed

theorem watermark_maximal_witness:
  "{1..2} \<subseteq> received_ids (fst (run core_step (new_machine Server 7 default_config) reordered_run))"
proof -
  have "length reordered_run \<le> 2 ^ 64 - 2" by (simp add: reordered_run_def)
  from watermark_maximal [OF this surjective_pairing, of 2 Server 7 default_config] show ?thesis
    using reordered_run_result by simp
qed

text \<open>The errors of the fragment handler.  On a reachable machine a fragment is refused exactly
  when it is truncated, its index is not below its total, or it contradicts the total announced by
  an earlier fragment of the same message; a complete set of fragments always merges, so the
  missing-chunk branch of the merge loop is never taken.\<close>

theorem handle_fragment_errors:
  assumes "length is \<le> 2 ^ 64 - 2"
    and "run core_step (new_machine role cid cfg) is = (m, os)"
  shows "snd (handle_fragment m p out) = Inl e \<longleftrightarrow> e = MalformedData \<and>
    (length p < 12 \<or> from_be_bytes (take 8 p) \<notin> received_ids m \<and>
      (let t = from_be_bytes (take 2 (drop 10 p)) in
        t = 0 \<or> t \<le> from_be_bytes (take 2 (drop 8 p))
        \<or> (\<exists>a. bmap_get (received_fragments m) (from_be_bytes (take 8 p)) = Some a \<and> frag_total a \<noteq> t)))"
proof -
  define i where "i = (from_be_bytes (take 8 p) :: u64)"
  define k where "k = (from_be_bytes (take 2 (drop 8 p)) :: u16)"
  define t where "t = (from_be_bytes (take 2 (drop 10 p)) :: u16)"
  have fr: "fragments_ok (\<lambda>_ _ _ _. True) m"
    using any_run_receives [OF assms(1), of role cid cfg] assms(2)
    by (simp add: receive_inv_def receive_ok_def)
  have slot: "frag_total (fragment_slot m i t) \<noteq> t \<longleftrightarrow>
      (\<exists>a. bmap_get (received_fragments m) i = Some a \<and> frag_total a \<noteq> t)"
    using fr by (auto simp: fragment_slot_def Let_def fragments_ok_def accumulator_ok_def split: option.split)
  define a where "a = store_fragment k (drop 12 p) (fragment_slot m i t)"
  have merged: "merge_chunks (frag_chunks a) (indices (frag_total a)) \<noteq> None"
    if "fragment_complete a" "t \<noteq> 0" "\<not> t \<le> k" "frag_total (fragment_slot m i t) = t"
  proof -
    have "accumulator_ok (\<lambda>_ _ _ _. True) i a"
      using any_origin.fragment_slot_ok(1) [OF fr, of t i] that
        accumulator_insert [of "\<lambda>_ _ _ _. True" i "fragment_slot m i t" k "drop 12 p"]
      by (auto simp: a_def store_fragment_def)
    from merge_full [OF this] that(1) show ?thesis by (auto simp: fragment_complete_def)
  qed
  show ?thesis
    unfolding handle_fragment_alt [of m p out, folded i_def k_def t_def, folded a_def]
      i_def [symmetric] k_def [symmetric] t_def [symmetric] Let_def slot [symmetric]
    using merged by (auto split: option.splits prod.splits)
qed

theorem handle_fragment_errors_witness:
  "snd (handle_fragment (fst (run core_step (new_machine Server 7 default_config) reordered_run))
      (fragment_payload 9 3 2 [1]) empty_output) = Inl MalformedData"
proof -
  have "length reordered_run \<le> 2 ^ 64 - 2" by (simp add: reordered_run_def)
  note err = handle_fragment_errors [OF this surjective_pairing, of Server 7 default_config
      "fragment_payload 9 3 2 [1]" empty_output MalformedData]
  have "received_ids (fst (run core_step (new_machine Server 7 default_config) reordered_run)) = {1, 2}"
    by (simp add: reordered_run_def core_defs)
  then show ?thesis unfolding err by (simp add: Let_def)
qed

section \<open>The flush loop ends\<close>

text \<open>The loop \<^verbatim>\<open>while let Some(payload) = received_buffer.remove(&(last_ordered_rx + 1))\<close> with a bound on its
  turns: \<open>None\<close> when the bound is reached before the loop has ended.\<close>

fun flush_loop :: "nat \<Rightarrow> core_machine \<Rightarrow> core_output \<Rightarrow> (core_machine \<times> core_output) option" where
  "flush_loop 0 m out = None"
| "flush_loop (Suc n) m out =
     (case bmap_get (received_buffer m) (last_ordered_rx m + 1) of
        None \<Rightarrow> Some (m, out)
      | Some payload \<Rightarrow>
          flush_loop n
            (m\<lparr>received_buffer := bmap_remove (last_ordered_rx m + 1) (received_buffer m),
               last_ordered_rx := last_ordered_rx m + 1\<rparr>)
            (push_event (MessageReceived (last_ordered_rx m + 1) payload)
              (push_event (MessageDelivered (last_ordered_rx m + 1)) out)))"

text \<open>C30: the flush loop ends, whatever the buffer holds, even with the watermark at the last identifier.  It makes
  exactly as many turns as it hands messages over, no more than there are messages in the buffer, and it stops
  only when the next message in order is not there.\<close>

theorem flush_loop_ends:
  "\<exists>k \<le> length (received_buffer m). flush_loop (Suc k) m out = Some (flush_ordered m out) \<and> flush_loop k m out = None
    \<and> length (events (snd (flush_ordered m out))) = length (events out) + 2 * k
    \<and> bmap_get (received_buffer (fst (flush_ordered m out))) (last_ordered_rx (fst (flush_ordered m out)) + 1) = None"
proof (induction m out rule: flush_ordered.induct)
  case (1 m out)
  show ?case
  proof (cases "bmap_get (received_buffer m) (last_ordered_rx m + 1)")
    case None
    then show ?thesis by (intro exI [of _ 0]) (simp add: flush_ordered.simps [of m])
  next
    case (Some payload)
    let ?m = "m\<lparr>received_buffer := bmap_remove (last_ordered_rx m + 1) (received_buffer m),
      last_ordered_rx := last_ordered_rx m + 1\<rparr>"
    let ?out = "push_event (MessageReceived (last_ordered_rx m + 1) payload)
      (push_event (MessageDelivered (last_ordered_rx m + 1)) out)"
    have eq: "flush_ordered m out = flush_ordered ?m ?out" by (subst flush_ordered.simps) (simp add: Some)
    obtain k where k: "k \<le> length (received_buffer ?m)" "flush_loop (Suc k) ?m ?out = Some (flush_ordered ?m ?out)"
        "flush_loop k ?m ?out = None" "length (events (snd (flush_ordered ?m ?out))) = length (events ?out) + 2 * k"
        "bmap_get (received_buffer (fst (flush_ordered ?m ?out))) (last_ordered_rx (fst (flush_ordered ?m ?out)) + 1) = None"
      using "1.IH" [OF Some] by blast
    have "length (received_buffer ?m) < length (received_buffer m)"
      using bmap_remove_shrinks [OF Some] by simp
    then show ?thesis
      unfolding eq using k Some by (intro exI [of _ "Suc k"]) (auto simp del: flush_loop.simps(2) simp: flush_loop.simps(2) [of _ m])
  qed
qed

end
