(* ===== verification/Core_Effects.thy ===== *)
theory Core_Effects
  imports Core_Lemmas
begin

text \<open>
  The elementary effects of the protocol state machine: a step relation whose rules are the
  individual state changes the handlers of \<^verbatim>\<open>v3-core/src/lib.rs\<close> make, each with its guard and the
  events it emits.  Every call on the machine is a sequence of elementary effects, and the events
  of the sequence are the events of the call (a call that returns an error has dropped only
  renegotiation events).  Invariants are then proved once per elementary effect, by rule induction.
\<close>

section \<open>Elementary effects\<close>

inductive core_effect :: "core_machine \<Rightarrow> event list \<Rightarrow> core_machine \<Rightarrow> bool" where
  note_event: "e \<in> {HandshakeStarted, ParseError} \<union> range QueueAdvertised \<Longrightarrow> core_effect m [e] m"
| move_path: "core_effect m [] (m\<lparr>current_path_id := p\<rparr>)"
| arm_deadline: "core_effect m [] (m\<lparr>disconnect_deadline_ms := Some d\<rparr>)"
| heard: "core_role m = Client \<Longrightarrow> core_effect m [] (m\<lparr>last_server_msr_at_ms := Some t\<rparr>)"
| answered: "core_role m = Server \<Longrightarrow> core_effect m [] (m\<lparr>server_msr_unanswered := 0\<rparr>)"
| unanswered: "core_role m = Server \<Longrightarrow> lifecycle m = Established \<Longrightarrow>
    n = saturating_add (server_msr_unanswered m) 1 \<Longrightarrow> n \<le> 8 \<Longrightarrow>
    core_effect m [] (m\<lparr>server_msr_unanswered := n\<rparr>)"
| give_up: "core_role m = Server \<Longrightarrow> lifecycle m = Established \<Longrightarrow>
    n = saturating_add (server_msr_unanswered m) 1 \<Longrightarrow> n > 8 \<Longrightarrow>
    core_effect m [Disconnected] (m\<lparr>server_msr_unanswered := n, lifecycle := Lost\<rparr>)"
| establish: "lifecycle m = PreHandshake \<Longrightarrow> core_effect m [HandshakeEstablished] (m\<lparr>lifecycle := Established\<rparr>)"
| probe: "core_role m = Client \<Longrightarrow> lifecycle m \<in> {Established, Reactivating} \<Longrightarrow>
    core_effect m [ReactivationProbeSent] (m\<lparr>lifecycle := Reactivating\<rparr>)"
| reactivate: "core_role m = Client \<Longrightarrow> lifecycle m = Reactivating \<Longrightarrow>
    core_effect m [Reactivated] (m\<lparr>lifecycle := Established\<rparr>)"
| lose: "core_effect m [Disconnected] (m\<lparr>lifecycle := Lost\<rparr>)"
| count_msr: "core_role m = Client \<Longrightarrow> n = saturating_add (client_msr_rx m) 1 \<Longrightarrow> n < 4 \<Longrightarrow>
    core_effect m [] (m\<lparr>client_msr_rx := n\<rparr>)"
| keepalive: "core_role m = Client \<Longrightarrow> core_effect m [] (m\<lparr>client_msr_rx := 0\<rparr>)"
| propose: "lifecycle m = Established \<Longrightarrow> validate_timer_proposal (core_cfg m) p = Inr () \<Longrightarrow>
    i = next_proposal_id m \<Longrightarrow>
    core_effect m [TimerRenegotiationProposed i]
      (m\<lparr>next_proposal_id := saturating_add i 1, pending_local_proposal :=
         Some \<lparr>pending_proposal_id = i, pending_proposal = p, pending_expires_at_ms = t\<rparr>\<rparr>)"
| adopt: "validate_timer_proposal (core_cfg m) p = Inr () \<Longrightarrow>
    core_effect m [TimerRenegotiationCommitted i] (m\<lparr>core_cfg := to_config p\<rparr>)"
| refuse: "core_effect m [TimerRenegotiationRejected i] m"
| commit: "pending_local_proposal m = Some q \<Longrightarrow>
    core_effect m [TimerRenegotiationCommitted (pending_proposal_id q)]
      (m\<lparr>core_cfg := to_config (pending_proposal q), pending_local_proposal := None\<rparr>)"
| withdraw: "pending_local_proposal m = Some q \<Longrightarrow>
    core_effect m [TimerRenegotiationRejected (pending_proposal_id q)] (m\<lparr>pending_local_proposal := None\<rparr>)"
| roll_back: "pending_local_proposal m = Some q \<Longrightarrow>
    core_effect m [TimerRenegotiationRolledBack (pending_proposal_id q)] (m\<lparr>pending_local_proposal := None\<rparr>)"
| request: "lifecycle m = Established \<Longrightarrow> last_requested_end m < n \<Longrightarrow>
    core_effect m [RequestRangeSent (last_requested_end m + 1) n] (m\<lparr>last_requested_end := n\<rparr>)"
| receive: "lifecycle m = Established \<Longrightarrow> \<forall>e \<in> set es. is_delivery e \<Longrightarrow>
    core_effect m es (m\<lparr>received_ids := ids, received_buffer := buf, received_fragments := frs,
      last_ordered_rx := l\<rparr>)"
| queue: "core_effect m [] (m\<lparr>next_outbound_id := next_outbound_id m + 1,
    outbound_messages := bmap_insert (next_outbound_id m) p (outbound_messages m)\<rparr>)"

inductive core_effects :: "core_machine \<Rightarrow> event list \<Rightarrow> core_machine \<Rightarrow> bool" where
  stop: "core_effects m [] m"
| more: "core_effect m es m' \<Longrightarrow> core_effects m' es' m'' \<Longrightarrow> core_effects m (es @ es') m''"

text \<open>A result that is reached from \<open>m\<close> by elementary effects.\<close>

definition performs :: "core_machine \<Rightarrow> core_output \<Rightarrow> core_result \<Rightarrow> bool" where
  "performs m out r \<longleftrightarrow>
     (\<exists>es. core_effects m es (fst r)
       \<and> (case snd r of Inr out' \<Rightarrow> events out' = events out @ es | Inl _ \<Rightarrow> set es \<subseteq> renegotiation_events))"

section \<open>Composing effects\<close>

declare core_effects.stop [simp]

lemma effects_one: "core_effect m es m' \<Longrightarrow> core_effects m es m'"
  using core_effects.more [OF _ core_effects.stop, of m es m'] by simp

lemma effects_trans: "core_effects m es m' \<Longrightarrow> core_effects m' es' m'' \<Longrightarrow> core_effects m (es @ es') m''"
  by (induction rule: core_effects.induct) (auto intro: core_effects.more)

lemma effects_silent: "core_effects m [] m' \<Longrightarrow> core_effects m' es m'' \<Longrightarrow> core_effects m es m''"
  using effects_trans [of m "[]"] by simp

lemma performs_ok:
  "performs m out (m', Inr out') \<longleftrightarrow> (\<exists>es. core_effects m es m' \<and> events out' = events out @ es)"
  by (simp add: performs_def)

lemma performs_refl [simp]: "events out' = events out \<Longrightarrow> performs m out (m, Inr out')"
  by (auto simp: performs_ok intro: core_effects.stop)

lemma performs_fail [simp]: "performs m out (m, Inl e)"
  by (auto simp: performs_def intro: exI [of _ "[]"] core_effects.stop)

lemma performs_one: "core_effect m es m' \<Longrightarrow> events out' = events out @ es \<Longrightarrow> performs m out (m', Inr out')"
  by (auto simp: performs_ok intro: effects_one)

text \<open>A first effect that emits nothing, then the rest.\<close>

lemma performs_silent:
  assumes "core_effects m [] m'" and "performs m' out r"
  shows "performs m out r"
  using assms effects_trans [OF assms(1)] by (fastforce simp: performs_def)

lemma performs_after_event:
  assumes "core_effects m es m'" and "performs m' out' r" and "events out' = events out @ es"
    and "\<exists>out''. snd r = Inr out''"
  shows "performs m out r"
  using assms effects_trans [OF assms(1)] by (fastforce simp: performs_def)

text \<open>Two calls in sequence: an error of the second only loses renegotiation events of the first.\<close>

lemma performs_and_then:
  assumes r: "performs m out r"
    and f: "\<And>m1 out1. r = (m1, Inr out1) \<Longrightarrow> performs m1 out1 (f m1 out1)
      \<and> ((\<exists>out'. snd (f m1 out1) = Inr out') \<or> (\<exists>es. events out1 = events out @ es \<and> set es \<subseteq> renegotiation_events))"
  shows "performs m out (and_then r f)"
proof (cases r)
  case (Pair m1 res)
  show ?thesis
  proof (cases res)
    case (Inl e)
    with Pair r show ?thesis by simp
  next
    case (Inr out1)
    then have r1: "r = (m1, Inr out1)" using Pair by simp
    obtain es where es: "core_effects m es m1" "events out1 = events out @ es"
      using r r1 by (auto simp: performs_ok)
    obtain es' where es': "core_effects m1 es' (fst (f m1 out1))"
        "case snd (f m1 out1) of Inr out' \<Rightarrow> events out' = events out1 @ es' | Inl _ \<Rightarrow> set es' \<subseteq> renegotiation_events"
      using f [OF r1] by (auto simp: performs_def)
    have "core_effects m (es @ es') (fst (f m1 out1))" by (rule effects_trans [OF es(1) es'(1)])
    moreover have "set es \<subseteq> renegotiation_events" if "snd (f m1 out1) = Inl e" for e
      using f [OF r1] that es(2) by auto
    ultimately show ?thesis
      using es(2) es'(2) unfolding performs_def
      by (intro exI [of _ "es @ es'"]) (auto simp: r1 split: sum.splits)
  qed
qed

section \<open>The handlers\<close>

lemma effects_if:
  "(b \<Longrightarrow> core_effect m es m') \<Longrightarrow> core_effects m (if b then es else []) (if b then m' else m)"
  by (auto intro: effects_one core_effects.stop)

lemma effects_pair:
  "core_effects m es m' \<Longrightarrow> core_effects m' es' m'' \<Longrightarrow> fs = es @ es' \<Longrightarrow> m3 = m'' \<Longrightarrow> core_effects m fs m3"
  using effects_trans by simp

lemma count_effects:
  assumes "core_role m = Client"
  shows "core_effects m [] (m\<lparr>client_msr_rx := (if src = ControlMsrFrame
      then (if saturating_add (client_msr_rx m) 1 \<ge> CLIENT_KEEPALIVE_EVERY_SERVER_MSR then 0
            else saturating_add (client_msr_rx m) 1) else client_msr_rx m)\<rparr>)"
  using assms core_effect.count_msr [OF assms refl] core_effect.keepalive [OF assms]
  by (auto simp: CLIENT_KEEPALIVE_EVERY_SERVER_MSR_def not_le intro: effects_one core_effects.stop)

lemma request_effects:
  "core_effects m (if lifecycle m = Established \<and> last_requested_end m < np
      then [RequestRangeSent (last_requested_end m + 1) np] else [])
    (m\<lparr>last_requested_end := (if lifecycle m = Established \<and> last_requested_end m < np then np
       else last_requested_end m)\<rparr>)"
  by (auto intro: effects_one core_effect.request core_effects.stop)

lemma after_signal_effects: "core_effects m (signal_events m np) (after_signal m now np src)"
proof (cases "core_role m")
  case Client
  let ?r = "lifecycle m = Reactivating"
  let ?m1 = "m\<lparr>last_server_msr_at_ms := Some now\<rparr>"
  let ?m2 = "?m1\<lparr>client_msr_rx := (if src = ControlMsrFrame
      then (if saturating_add (client_msr_rx ?m1) 1 \<ge> CLIENT_KEEPALIVE_EVERY_SERVER_MSR then 0
            else saturating_add (client_msr_rx ?m1) 1) else client_msr_rx ?m1)\<rparr>"
  let ?m3 = "if ?r then ?m2\<lparr>lifecycle := Established\<rparr> else ?m2"
  have 1: "core_effects m [] ?m1" by (rule effects_one, rule core_effect.heard) (rule Client)
  have 2: "core_effects ?m1 [] ?m2" by (rule count_effects) (simp add: Client)
  have 3: "core_effects ?m2 (if ?r then [Reactivated] else []) ?m3"
    by (rule effects_if, rule core_effect.reactivate) (simp_all add: Client)
  from effects_silent [OF 1 effects_silent [OF 2 3]] show ?thesis
    by (rule effects_pair [OF _ request_effects [of _ np]])
      (cases m; use Client in \<open>auto simp: signal_events_def after_signal_def Let_def\<close>)+
next
  case Server
  let ?m1 = "m\<lparr>server_msr_unanswered := 0\<rparr>"
  have "core_effects m [] ?m1" by (rule effects_one, rule core_effect.answered) (rule Server)
  then show ?thesis
    by (rule effects_pair [OF _ request_effects [of _ np]])
      (cases m; use Server in \<open>auto simp: signal_events_def after_signal_def Let_def\<close>)+
qed

lemma handle_msr_signal_performs [simp]: "performs m out (handle_msr_signal m now path np src out)"
  using handle_msr_signal_result [of m now path np src out] after_signal_effects [of m np now src]
  by (auto simp: performs_ok)

lemma handle_proposal_tlv_performs: "performs m out (handle_proposal_tlv m path t out)"
  by (auto simp: handle_proposal_tlv_def Let_def split: option.split
      intro!: performs_one core_effect.refuse core_effect.adopt)

lemma handle_ack_tlv_performs: "performs m out (handle_ack_tlv m t out)"
  by (auto simp: handle_ack_tlv_def split: option.split
      intro!: performs_one core_effect.commit core_effect.withdraw)

lemma handle_msr_tlvs_performs [simp]: "performs m out (handle_msr_tlvs m path ts out)"
proof (induction ts arbitrary: m out)
  case Nil
  show ?case by simp
next
  case (Cons t ts)
  let ?r = "if tlv_kind t = TLV_TIMER_PROPOSAL then handle_proposal_tlv m path t out
        else if tlv_kind t = TLV_TIMER_ACK then handle_ack_tlv m t out else (m, Inr out)"
  have ren: "renegotiates m out ?r"
    by (simp add: handle_proposal_tlv_renegotiates handle_ack_tlv_renegotiates renegotiates_refl)
  have "\<exists>es. events out1 = events out @ es \<and> set es \<subseteq> renegotiation_events" if "?r = (m1, Inr out1)" for m1 out1
    using ren unfolding that renegotiates_def by simp
  then show ?case
    unfolding handle_msr_tlvs.simps
    by (intro performs_and_then) (auto simp: Cons.IH handle_proposal_tlv_performs handle_ack_tlv_performs)
qed

lemma handle_msr_signal_ok: "\<exists>out'. snd (handle_msr_signal m now path np src out) = Inr out'"
  using handle_msr_signal_result [of m now path np src out] by auto

lemma handle_msr_performs [simp]: "performs m out (handle_msr m now path fr out)"
  by (auto simp: handle_msr_def handle_msr_signal_ok intro!: performs_and_then split: option.split)

lemma handle_request_range_performs [simp]: "performs m out (handle_request_range m path p out)"
  using handle_request_range_frame [of m path p out]
  by (cases "handle_request_range m path p out"; cases "snd (handle_request_range m path p out)") auto

section \<open>Receiving\<close>

text \<open>Only the receive side changes and only deliveries are emitted.\<close>

definition rx_only :: "core_machine \<Rightarrow> core_machine \<Rightarrow> bool" where
  "rx_only m m' \<longleftrightarrow> m' = m\<lparr>received_ids := received_ids m', received_buffer := received_buffer m',
     received_fragments := received_fragments m', last_ordered_rx := last_ordered_rx m'\<rparr>"

lemma rx_onlyI [simp]:
  "rx_only m m" "rx_only m (m\<lparr>received_ids := a, received_buffer := b, received_fragments := c\<rparr>)"
  "rx_only m (m\<lparr>received_fragments := c\<rparr>)"
  by (cases m; simp add: rx_only_def)+

lemma flush_ordered_frame:
  "rx_only m0 m \<Longrightarrow> flush_ordered m out = (m', out') \<Longrightarrow> rx_only m0 m'
     \<and> (\<exists>es. events out' = events out @ es \<and> (\<forall>e \<in> set es. is_delivery e))
     \<and> outbound_datagrams out' = outbound_datagrams out \<and> timer_actions out' = timer_actions out"
proof (induction m out rule: flush_ordered.induct)
  case (1 m out)
  show ?case
  proof (cases "bmap_get (received_buffer m) (last_ordered_rx m + 1)")
    case None
    with "1.prems" show ?thesis by (auto simp: flush_ordered.simps [of m out])
  next
    case (Some p)
    let ?m = "m\<lparr>received_buffer := bmap_remove (last_ordered_rx m + 1) (received_buffer m),
      last_ordered_rx := last_ordered_rx m + 1\<rparr>"
    have "rx_only m0 ?m" using "1.prems"(1) by (cases m; cases m0) (simp add: rx_only_def)
    from "1.IH" [OF Some this] "1.prems"(2) Some show ?thesis
      by (auto simp: flush_ordered.simps [of m out])
  qed
qed

lemma rx_only_effects:
  assumes "rx_only m m'" and "lifecycle m = Established" and "\<forall>e \<in> set es. is_delivery e"
  shows "core_effects m es m'"
  using effects_one [OF core_effect.receive [OF assms(2,3)]] assms(1) unfolding rx_only_def by metis

text \<open>The result of a data handler: an error leaves the delivery events alone.\<close>

definition receives :: "core_machine \<Rightarrow> core_output \<Rightarrow> core_result \<Rightarrow> bool" where
  "receives m out r \<longleftrightarrow> rx_only m (fst r)
     \<and> (\<forall>out'. snd r = Inr out' \<longrightarrow>
          (\<exists>es. events out' = events out @ es \<and> (\<forall>e \<in> set es. is_delivery e))
          \<and> outbound_datagrams out' = outbound_datagrams out \<and> timer_actions out' = timer_actions out)"

lemma receives_flush:
  "rx_only m m0 \<Longrightarrow> receives m out (let (m', out') = flush_ordered m0 out in (m', Inr out'))"
  using flush_ordered_frame [of m m0 out] by (cases "flush_ordered m0 out") (simp add: receives_def)

lemma receives_same [simp]:
  "rx_only m m' \<Longrightarrow> receives m out (m', Inl e)" "rx_only m m' \<Longrightarrow> receives m out (m', Inr out)"
  by (auto simp: receives_def)

lemma handle_data_receives_only: "receives m out (handle_data m p out)"
  unfolding handle_data_def Let_def
  by (auto intro!: receives_flush [unfolded Let_def] receives_same rx_onlyI)

lemma handle_fragment_receives_only: "receives m out (handle_fragment m p out)"
  unfolding handle_fragment_alt
  by (auto simp only: split: if_split option.split intro!: receives_flush receives_same rx_onlyI)

lemma receives_performs: "lifecycle m = Established \<Longrightarrow> receives m out r \<Longrightarrow> performs m out r"
  using rx_only_effects [of m "fst r" "[]"] rx_only_effects [of m "fst r"]
  by (cases r; cases "snd r") (fastforce simp: receives_def performs_def)+

section \<open>Calls\<close>

lemma schedule_server_effects: "core_effects m [] (touch_disconnect_deadline now m)"
  by (auto simp: touch_disconnect_deadline_def intro: effects_one core_effect.arm_deadline)

lemma hello_client_effects:
  assumes "core_role m = Client" and "lifecycle m \<in> {PreHandshake, Reactivating}"
  shows "core_effects m [if lifecycle m = Reactivating then Reactivated else HandshakeEstablished]
    (touch_disconnect_deadline now (m\<lparr>lifecycle := Established, last_server_msr_at_ms := Some now,
      client_msr_rx := 0\<rparr>))"
proof -
  let ?m1 = "m\<lparr>lifecycle := Established\<rparr>"
  let ?m2 = "?m1\<lparr>last_server_msr_at_ms := Some now\<rparr>"
  let ?m3 = "?m2\<lparr>client_msr_rx := 0\<rparr>"
  have 1: "core_effects m [if lifecycle m = Reactivating then Reactivated else HandshakeEstablished] ?m1"
    using assms by (auto intro!: effects_one core_effect.reactivate core_effect.establish)
  have 2: "core_effects ?m1 [] ?m2" by (rule effects_one, rule core_effect.heard) (simp add: assms)
  have 3: "core_effects ?m2 [] ?m3" by (rule effects_one, rule core_effect.keepalive) (simp add: assms)
  from effects_trans [OF 1 effects_silent [OF 2 effects_silent [OF 3 schedule_server_effects]]]
  show ?thesis by simp
qed

lemma hello_server_effects:
  assumes "lifecycle m = PreHandshake"
  shows "core_effects m [HandshakeEstablished] (touch_disconnect_deadline now (m\<lparr>lifecycle := Established\<rparr>))"
  using effects_trans [OF effects_one [OF core_effect.establish [OF assms]] schedule_server_effects] by simp

lemma dispatch_frame_performs: "performs m out (dispatch_frame m now path fr out)"
proof (cases "frame_type fr")
  case ClientHello
  then show ?thesis
    using hello_server_effects [of m now]
    by (auto simp: dispatch_frame_def schedule_server_timers_def performs_ok)
next
  case ServerHello
  then show ?thesis
    using hello_client_effects [of m now]
    by (auto simp: dispatch_frame_def schedule_client_timers_def performs_ok Let_def)
next
  case HelloAck
  then show ?thesis
    using hello_server_effects [of m now]
    by (auto simp: dispatch_frame_def schedule_server_timers_def performs_ok)
qed (auto simp: dispatch_frame_def intro!: performs_one [OF core_effect.lose]
    receives_performs handle_data_receives_only handle_fragment_receives_only)

lemma accept_effects: "core_effects m [] (accept_datagram m now path)"
proof -
  let ?m1 = "m\<lparr>current_path_id := path\<rparr>"
  let ?m2 = "touch_disconnect_deadline now ?m1"
  have 1: "core_effects m [] ?m1" by (rule effects_one, rule core_effect.move_path)
  have 2: "core_effects ?m1 [] ?m2" by (rule schedule_server_effects)
  have r: "core_role m = Client \<or> core_role m = Server" by (cases "core_role m") auto
  have 3: "core_effects ?m2 [] (on_valid_peer_datagram now ?m2)"
    using r by (auto simp: on_valid_peer_datagram_def touch_disconnect_deadline_def
        intro!: effects_one [OF core_effect.heard] effects_one [OF core_effect.answered] core_effects.stop)
  from effects_silent [OF 1 effects_silent [OF 2 3]] show ?thesis by (simp add: accept_datagram_def)
qed

lemma on_datagram_performs: "performs m empty_output (on_datagram m now path bs)"
proof (cases "decode bs")
  case (Inl e)
  then show ?thesis
    by (auto simp: on_datagram_rejected intro!: performs_one [OF core_effect.note_event [of ParseError]])
next
  case (Inr fr)
  show ?thesis
  proof (cases "core_cid m = 0 \<or> frame_cid fr = core_cid m")
    case False
    with Inr show ?thesis by (simp add: on_datagram_rejected)
  next
    case True
    have "performs (accept_datagram m now path) empty_output (on_datagram m now path bs)"
      using True by (auto simp: on_datagram_def Inr accept_datagram_def [symmetric] Let_def
          handle_msr_signal_ok intro!: performs_and_then dispatch_frame_performs split: option.split)
    then show ?thesis by (rule performs_silent [OF accept_effects])
  qed
qed

lemma on_timer_performs: "performs m empty_output (on_timer m now t)"
proof (cases t)
  case ServerMsr
  have "core_effects m [] (touch_disconnect_deadline now (m\<lparr>server_msr_unanswered :=
      saturating_add (server_msr_unanswered m) 1\<rparr>))"
    if "core_role m = Server" "lifecycle m = Established" "saturating_add (server_msr_unanswered m) 1 \<le> 8"
    by (rule effects_silent [OF effects_one [OF core_effect.unanswered [OF that(1,2) refl that(3)]]
          schedule_server_effects])
  then show ?thesis using ServerMsr
    by (auto simp: on_timer_def on_timer_server_msr_def Let_def performs_ok not_less
        SERVER_MAX_CONSECUTIVE_SERVER_MSR_WITHOUT_CLIENT_MSR_def
        intro!: effects_one [OF core_effect.give_up])
next
  case ClientProbe
  then show ?thesis
    by (auto simp: on_timer_def on_timer_client_probe_def Let_def intro!: performs_one [OF core_effect.probe])
next
  case Disconnect
  then show ?thesis
    by (auto simp: on_timer_def on_timer_disconnect_def
        intro!: performs_one [OF core_effect.lose] split: option.split)
next
  case RenegotiationTimeout
  then show ?thesis
    by (auto simp: on_timer_def on_timer_renegotiation_def
        intro!: performs_one [OF core_effect.roll_back] split: option.split)
qed

lemma on_api_send_performs: "performs m empty_output (on_api_send m p)"
proof -
  let ?m = "m\<lparr>next_outbound_id := next_outbound_id m + 1,
    outbound_messages := bmap_insert (next_outbound_id m) p (outbound_messages m)\<rparr>"
  have q: "core_effects m [] ?m" by (rule effects_one, rule core_effect.queue)
  have "performs ?m empty_output (on_api_send m p)"
    by (auto simp: on_api_send_def Let_def
        intro!: performs_one [OF core_effect.note_event [of "QueueAdvertised (max_pending_id ?m)"]])
  then show ?thesis by (rule performs_silent [OF q])
qed

text \<open>Every call is a sequence of elementary effects.\<close>

lemma core_step_performs: "performs m empty_output (core_step m i)"
proof (cases i)
  case (ApiProposeTimers now p)
  then show ?thesis
    by (auto simp: on_api_propose_timers_def Let_def split: sum.split
        intro!: performs_one [OF core_effect.propose])
next
  case (OnPathEvent e)
  then show ?thesis
    by (cases e) (auto simp: on_path_event_def intro!: performs_one [OF core_effect.move_path])
qed (auto simp: on_datagram_performs on_timer_performs on_api_send_performs begin_handshake_def
    on_api_close_def intro!: performs_one [OF core_effect.note_event [of HandshakeStarted]] performs_one [OF core_effect.lose])

lemma core_step_effects:
  obtains es where "core_effects m es (fst (core_step m i))"
    and "result_events (snd (core_step m i)) = es
      \<or> result_events (snd (core_step m i)) = [] \<and> set es \<subseteq> renegotiation_events"
proof -
  obtain es where es: "core_effects m es (fst (core_step m i))"
      "case snd (core_step m i) of Inr out' \<Rightarrow> events out' = events empty_output @ es | Inl _ \<Rightarrow> set es \<subseteq> renegotiation_events"
    using core_step_performs [of m i] unfolding performs_def by blast
  then show thesis using that [of es] by (cases "snd (core_step m i)") auto
qed

end
