(* ===== verification/Core_Transfer.thy ===== *)
theory Core_Transfer
  imports Core_Receive Core_Effects
begin

text \<open>
  The sending half of the protocol state machine and the transfer of messages between two machines:
  what a sender puts on the wire, and what a receiver hands over when the data frames it is fed are
  frames of that sender, lost, duplicated and reordered at will.
\<close>

section \<open>Definitions\<close>

text \<open>The payloads the application has sent, in order; message \<open>i\<close> is the \<open>i\<close>-th of them, from 1.\<close>

fun sent_payloads :: "core_input list \<Rightarrow> bytes list" where
  "sent_payloads [] = []"
| "sent_payloads (ApiSend p # is) = p # sent_payloads is"
| "sent_payloads (_ # is) = sent_payloads is"

definition message_at :: "bytes list \<Rightarrow> u64 \<Rightarrow> bytes option" where
  "message_at ms i = (if 1 \<le> unat i \<and> unat i \<le> length ms then Some (ms ! (unat i - 1)) else None)"

text \<open>The send side of a machine is the list of sent payloads.\<close>

definition tx_part :: "core_machine \<Rightarrow> u64 \<times> (u64, bytes) bmap" where
  "tx_part m = (next_outbound_id m, outbound_messages m)"

definition send_ok :: "bytes list \<Rightarrow> core_machine \<Rightarrow> bool" where
  "send_ok ms m \<longleftrightarrow>
     next_outbound_id m = word_of_nat (length ms + 1) \<and> bmap_ok (outbound_messages m)
     \<and> (\<forall>i. bmap_get (outbound_messages m) i = message_at ms i)"

text \<open>The data a frame may carry when it comes from a sender of the messages \<open>G\<close>.\<close>

definition message_chunks :: "bytes \<Rightarrow> bytes list" where
  "message_chunks msg = chunks 988 msg"

definition genuine_data :: "(u64 \<Rightarrow> bytes option) \<Rightarrow> u64 \<Rightarrow> bytes \<Rightarrow> bool" where
  "genuine_data G i p \<longleftrightarrow> G i = Some p"

definition genuine_fragment :: "(u64 \<Rightarrow> bytes option) \<Rightarrow> u64 \<Rightarrow> u16 \<Rightarrow> u16 \<Rightarrow> bytes \<Rightarrow> bool" where
  "genuine_fragment G i n k c \<longleftrightarrow>
     (\<exists>msg. G i = Some msg \<and> length (message_chunks msg) \<le> 65535
        \<and> n = word_of_nat (length (message_chunks msg))
        \<and> unat k < length (message_chunks msg) \<and> c = message_chunks msg ! unat k)"

definition genuine_datagram :: "(u64 \<Rightarrow> bytes option) \<Rightarrow> bytes \<Rightarrow> bool" where
  "genuine_datagram G bs \<longleftrightarrow> input_carries (genuine_data G) (genuine_fragment G) (OnDatagram 0 0 bs)"

text \<open>The datagrams a list of results puts on the wire.\<close>

definition emitted :: "(core_error + core_output) list \<Rightarrow> bytes list" where
  "emitted os = concat (map (\<lambda>r. case r of Inl _ \<Rightarrow> [] | Inr out \<Rightarrow> map dgram_bytes (outbound_datagrams out)) os)"

section \<open>Genuine messages\<close>

interpretation genuine: message_origin "genuine_data G" "genuine_fragment G" for G
proof (unfold_locales, goal_cases)
  case (1 n i f)
  then have "genuine_fragment G i n 0 (f 0)" by (metis word_gt_0)
  then obtain msg where msg: "G i = Some msg" "length (message_chunks msg) \<le> 65535"
      "n = word_of_nat (length (message_chunks msg))"
    by (auto simp: genuine_fragment_def)
  let ?cs = "message_chunks msg"
  have n: "unat n = length ?cs" by (rule unat_word_of_nat [OF msg(3) [symmetric]]) (use msg(2) in simp)
  have "f (word_of_nat k) = ?cs ! k" if "k < length ?cs" for k
  proof -
    have k: "unat (word_of_nat k :: u16) = k"
      by (rule unat_word_of_nat [OF refl]) (use msg(2) that in simp)
    with n that have "(word_of_nat k :: u16) < n" by (simp add: word_less_nat_alt)
    from 1(2) [OF this] k msg(1) show ?thesis by (auto simp: genuine_fragment_def)
  qed
  then have "map f (indices n) = map ((!) ?cs) [0..<length ?cs]" by (simp add: n)
  also have "\<dots> = ?cs" by (rule map_nth)
  finally have "concat (map f (indices n)) = msg" by (simp add: message_chunks_def concat_chunks)
  with msg(1) show ?case by (simp add: genuine_data_def)
qed

lemma genuine_mono:
  "genuine_datagram G bs \<Longrightarrow> (\<And>i p. G i = Some p \<Longrightarrow> H i = Some p) \<Longrightarrow> genuine_datagram H bs"
  by (fastforce simp: genuine_datagram_def carries_data_def carries_fragment_def genuine_data_def
      genuine_fragment_def split: sum.splits)

lemma genuine_control:
  "length p \<le> 1000 \<Longrightarrow> small_tlvs ts \<Longrightarrow> t \<noteq> Data \<Longrightarrow> t \<noteq> Fragment \<Longrightarrow> genuine_datagram G (frame_bytes t c p ts)"
  by (simp add: genuine_datagram_def frame_bytes_ok)

lemma genuine_data_frame:
  "length msg \<le> 992 \<Longrightarrow> small_tlvs ts \<Longrightarrow> G i = Some msg \<Longrightarrow>
     genuine_datagram G (frame_bytes Data c (data_payload i msg) ts)"
  by (simp add: genuine_datagram_def frame_bytes_ok carries_data_def genuine_data_def)

lemma genuine_fragment_frame:
  assumes "G i = Some msg" and "length (message_chunks msg) \<le> 65535" and "k < length (message_chunks msg)"
    and "small_tlvs ts"
  shows "genuine_datagram G (frame_bytes Fragment c (fragment_payload i (word_of_nat k)
    (word_of_nat (length (message_chunks msg))) (message_chunks msg ! k)) ts)"
proof -
  have "length (message_chunks msg ! k) \<le> 988"
    using assms(3) chunk_size [of _ 988 msg] by (auto simp: message_chunks_def)
  moreover have "unat (word_of_nat k :: u16) = k"
    by (rule unat_word_of_nat [OF refl]) (use assms in simp)
  ultimately show ?thesis
    using assms by (simp add: genuine_datagram_def frame_bytes_ok carries_fragment_def genuine_fragment_def)
qed

section \<open>What a machine sends\<close>

text \<open>A result that leaves the send side alone and whose new datagrams are genuine.\<close>

definition transmits :: "core_machine \<Rightarrow> core_output \<Rightarrow> core_result \<Rightarrow> bool" where
  "transmits m out r \<longleftrightarrow> tx_part (fst r) = tx_part m
     \<and> (\<forall>out'. snd r = Inr out' \<longrightarrow> (\<forall>d \<in> set (outbound_datagrams out').
          d \<in> set (outbound_datagrams out) \<or> genuine_datagram (bmap_get (outbound_messages m)) (dgram_bytes d)))"

lemma transmits_same [simp]:
  "transmits m out (m', Inl e) \<longleftrightarrow> tx_part m' = tx_part m"
  "transmits m out (m', Inr out') \<longleftrightarrow> tx_part m' = tx_part m
     \<and> (\<forall>d \<in> set (outbound_datagrams out'). d \<in> set (outbound_datagrams out)
          \<or> genuine_datagram (bmap_get (outbound_messages m)) (dgram_bytes d))"
  by (simp_all add: transmits_def)

lemma transmits_and_then:
  assumes "transmits m out r" and "\<And>m1 out1. r = (m1, Inr out1) \<Longrightarrow> transmits m1 out1 (f m1 out1)"
  shows "transmits m out (and_then r f)"
proof (cases r)
  case (Pair m1 res)
  show ?thesis
  proof (cases res)
    case (Inl e)
    with Pair assms(1) show ?thesis by simp
  next
    case (Inr out1)
    with Pair assms(2) [of m1 out1] assms(1) show ?thesis
      by (fastforce simp: transmits_def tx_part_def)
  qed
qed

lemma send_fragments_transmits:
  assumes "bmap_get (outbound_messages m) i = Some msg" and "length (message_chunks msg) \<le> 65535"
  shows "transmits m out (send_fragments m path i (word_of_nat (length (message_chunks msg))) 0 (message_chunks msg) out)"
proof -
  let ?r = "send_fragments m path i (word_of_nat (length (message_chunks msg))) 0 (message_chunks msg) out"
  have "\<forall>c \<in> set (message_chunks msg). length c \<le> 988" using chunk_size by (auto simp: message_chunks_def)
  note res = send_fragments_result [OF this, of m path i "word_of_nat (length (message_chunks msg))" 0 out]
  obtain out' where out': "?r = (m, Inr out')" "outbound_datagrams out' = outbound_datagrams out @
      map (\<lambda>(j, c). \<lparr>dgram_path_id = path, dgram_bytes = frame_bytes Fragment (core_cid m)
        (fragment_payload i (word_of_nat j) (word_of_nat (length (message_chunks msg))) c)
        [encode_msr_signal_tlv (last_ordered_rx m) (max_pending_id m)]\<rparr>) (enumerate 0 (message_chunks msg))"
    using res assms(2) by (cases ?r) auto
  have "genuine_datagram (bmap_get (outbound_messages m)) (dgram_bytes d)"
    if d: "d \<in> set (outbound_datagrams out')" "d \<notin> set (outbound_datagrams out)" for d
  proof -
    from d out'(2) obtain k where k: "k < length (message_chunks msg)"
      and "dgram_bytes d = frame_bytes Fragment (core_cid m) (fragment_payload i (word_of_nat k)
          (word_of_nat (length (message_chunks msg))) (message_chunks msg ! k))
          [encode_msr_signal_tlv (last_ordered_rx m) (max_pending_id m)]"
      by (auto simp: in_set_enumerate_eq)
    with genuine_fragment_frame [of "bmap_get (outbound_messages m)" i msg k, OF assms k]
    show ?thesis by simp
  qed
  with out'(1) show ?thesis by auto
qed

lemma send_one_message_transmits:
  assumes "bmap_get (outbound_messages m) i = Some msg"
  shows "transmits m out (send_one_message m path i msg out)"
  using assms send_fragments_transmits [OF assms, of out path]
  by (auto simp: send_one_message_alt message_chunks_def intro: genuine_data_frame)

lemma send_range_transmits: "transmits m out (send_range m path ids out)"
proof (induction ids arbitrary: m out)
  case Nil
  show ?case by simp
next
  case (Cons i ids)
  then show ?case
    by (auto intro!: transmits_and_then send_one_message_transmits split: option.split)
qed

lemma handle_msr_signal_transmits: "transmits m out (handle_msr_signal m now path np src out)"
  by (auto simp: handle_msr_signal_def Let_def tx_part_def intro: genuine_control)

lemma handle_tlv_transmits:
  "transmits m out (handle_proposal_tlv m path t out)" "transmits m out (handle_ack_tlv m t out)"
  by (auto simp: handle_proposal_tlv_def handle_ack_tlv_def Let_def tx_part_def
      intro!: genuine_control split: option.split)

lemma handle_msr_tlvs_transmits: "transmits m out (handle_msr_tlvs m path ts out)"
proof (induction ts arbitrary: m out)
  case Nil
  show ?case by simp
next
  case (Cons t ts)
  show ?case unfolding handle_msr_tlvs.simps
    by (rule transmits_and_then) (auto simp: handle_tlv_transmits Cons.IH)
qed

lemma rx_only_tx: "rx_only m m' \<Longrightarrow> tx_part m' = tx_part m"
  unfolding rx_only_def by (drule arg_cong [where f = tx_part]) (simp add: tx_part_def)

lemma receives_transmits: "receives m out r \<Longrightarrow> transmits m out r"
  using rx_only_tx [of m "fst r"] by (cases r; cases "snd r") (simp_all add: receives_def)

lemma handle_msr_transmits: "transmits m out (handle_msr m now path fr out)"
  by (auto simp: handle_msr_def intro!: transmits_and_then handle_msr_tlvs_transmits
      handle_msr_signal_transmits split: option.split)

lemma handle_request_range_transmits: "transmits m out (handle_request_range m path p out)"
  by (auto simp: handle_request_range_def send_range_transmits split: option.split)

lemmas handler_transmits = handle_msr_transmits handle_request_range_transmits
  receives_transmits [OF handle_data_receives_only] receives_transmits [OF handle_fragment_receives_only]

lemma dispatch_frame_transmits: "transmits m out (dispatch_frame m now path fr out)"
  by (cases "frame_type fr")
    (auto simp: dispatch_frame_def handler_transmits schedule_defs tx_part_def Let_def intro!: genuine_control)

lemma tx_part_accept: "tx_part (accept_datagram m now path) = tx_part m"
  by (simp add: accept_datagram_def on_valid_peer_datagram_def touch_disconnect_deadline_def tx_part_def)

lemma transmits_accepted: "transmits (accept_datagram m now path) out r \<Longrightarrow> transmits m out r"
  using tx_part_accept [of m now path] by (simp add: transmits_def tx_part_def)

lemma on_datagram_transmits: "transmits m empty_output (on_datagram m now path bs)"
  by (auto simp: on_datagram_def accept_datagram_def [symmetric] Let_def
      intro!: transmits_and_then transmits_accepted [OF dispatch_frame_transmits] handle_msr_signal_transmits
      split: sum.split option.split)

lemma core_step_transmits:
  assumes "\<forall>p. i \<noteq> ApiSend p"
  shows "transmits m empty_output (core_step m i)"
proof (cases i)
  case (OnTimer now t)
  then show ?thesis
    by (cases t) (auto simp: on_timer_def on_timer_server_msr_def on_timer_client_probe_def
        on_timer_disconnect_def on_timer_renegotiation_def Let_def schedule_defs tx_part_def
        intro!: genuine_control split: option.split)
next
  case (ApiProposeTimers now p)
  then show ?thesis
    by (auto simp: on_api_propose_timers_def Let_def tx_part_def intro!: genuine_control split: sum.split)
qed (use assms in \<open>auto simp: on_datagram_transmits begin_handshake_def on_api_close_def on_path_event_def
    tx_part_def intro!: genuine_control split: path_event.split\<close>)

section \<open>The sender\<close>

lemma sent_payloads_snoc: "sent_payloads (is @ [i]) = sent_payloads is @ sent_payloads [i]"
  by (induction "is" rule: sent_payloads.induct) simp_all

lemma message_at_mono: "message_at ms i = Some p \<Longrightarrow> message_at (ms @ ns) i = Some p"
  by (auto simp: message_at_def nth_append split: if_splits)

lemma message_at_snoc:
  assumes "length ms + 1 < 2 ^ 64"
  shows "message_at (ms @ [p]) i = (if i = word_of_nat (length ms + 1) then Some p else message_at ms i)"
proof -
  have "i = word_of_nat (length ms + 1) \<longleftrightarrow> unat i = length ms + 1"
  proof
    assume "i = word_of_nat (length ms + 1)"
    then show "unat i = length ms + 1" using assms by (intro unat_word_of_nat) simp_all
  next
    assume "unat i = length ms + 1"
    then show "i = word_of_nat (length ms + 1)" by (metis word_nat_cases unat_word_of_nat)
  qed
  then show ?thesis by (auto simp: message_at_def nth_append)
qed

lemma emitted_simps [simp]:
  "emitted [] = []" "emitted (os @ [Inl e]) = emitted os"
  "emitted (os @ [Inr out]) = emitted os @ map dgram_bytes (outbound_datagrams out)"
  by (simp_all add: emitted_def)

definition sender_inv :: "bytes list \<Rightarrow> core_machine \<Rightarrow> (core_error + core_output) list \<Rightarrow> bool" where
  "sender_inv ms m os \<longleftrightarrow> send_ok ms m \<and> (\<forall>bs \<in> set (emitted os). genuine_datagram (message_at ms) bs)"

lemma sender_transmits:
  assumes inv: "sender_inv ms m os" and r: "transmits m empty_output r"
  shows "sender_inv ms (fst r) (os @ [snd r])"
proof -
  have "send_ok ms (fst r)"
    using assms by (simp add: sender_inv_def send_ok_def transmits_def tx_part_def)
  moreover have "bmap_get (outbound_messages m) = message_at ms"
    using inv by (auto simp: sender_inv_def send_ok_def)
  ultimately show ?thesis
    using assms by (cases "snd r") (auto simp: sender_inv_def transmits_def)
qed

lemma sender_queues:
  assumes inv: "sender_inv ms m os" and n: "length ms + 1 < 2 ^ 64"
  shows "sender_inv (ms @ [p]) (fst (on_api_send m p)) (os @ [snd (on_api_send m p)])"
proof -
  let ?m = "m\<lparr>next_outbound_id := next_outbound_id m + 1,
    outbound_messages := bmap_insert (next_outbound_id m) p (outbound_messages m)\<rparr>"
  have "send_ok (ms @ [p]) ?m"
    using inv n by (auto simp: sender_inv_def send_ok_def message_at_snoc algebra_simps)
  moreover have "genuine_datagram (message_at (ms @ [p])) bs" if "bs \<in> set (emitted os)" for bs
    using genuine_mono [of "message_at ms"] message_at_mono inv that by (auto simp: sender_inv_def)
  ultimately have "sender_inv (ms @ [p]) ?m os" by (simp add: sender_inv_def)
  moreover have "transmits ?m empty_output (on_api_send m p)"
    by (auto simp: on_api_send_def Let_def tx_part_def intro!: genuine_control)
  ultimately show ?thesis by (rule sender_transmits)
qed

lemma sender_run:
  "length (sent_payloads is) < 2 ^ 64 - 1 \<Longrightarrow>
     sender_inv (sent_payloads is) (fst (run core_step (new_machine role cid cfg) is))
       (snd (run core_step (new_machine role cid cfg) is))"
proof (induction "is" rule: rev_induct)
  case Nil
  show ?case by (simp add: sender_inv_def send_ok_def new_machine_def message_at_def)
next
  case (snoc i "is")
  let ?r = "run core_step (new_machine role cid cfg) is"
  have inv: "sender_inv (sent_payloads is) (fst ?r) (snd ?r)"
    using snoc by (simp add: sent_payloads_snoc)
  have "sender_inv (sent_payloads (is @ [i])) (fst (core_step (fst ?r) i)) (snd ?r @ [snd (core_step (fst ?r) i)])"
  proof (cases "\<exists>p. i = ApiSend p")
    case True
    with snoc.prems sender_queues [OF inv] show ?thesis by (auto simp: sent_payloads_snoc)
  next
    case False
    then have "sent_payloads [i] = []" by (cases i) auto
    with False sender_transmits [OF inv core_step_transmits] show ?thesis by (simp add: sent_payloads_snoc)
  qed
  then show ?case by (simp add: run_snoc case_prod_unfold Let_def)
qed

section \<open>Properties\<close>

text \<open>C1: Reliable, ordered transfer.  Take any run of a sending machine and any run of a receiving machine whose
  incoming data and fragment frames are frames the sender has put on the wire -- lost, duplicated,
  reordered at will, mixed with arbitrary other datagrams.  Then the receiver has handed over exactly
  a prefix of the payloads the sender's application sent, in order, each once and unaltered.\<close>

theorem transfer_is_a_prefix:
  assumes sender: "run core_step (new_machine r1 c1 cfg1) is = (s, os)" "length (sent_payloads is) < 2 ^ 64 - 1"
    and receiver: "run core_step (new_machine r2 c2 cfg2) js = (m, os')" "length js \<le> 2 ^ 64 - 2"
    and network: "\<forall>now path bs fr. OnDatagram now path bs \<in> set js \<longrightarrow> decode bs = Inr fr \<longrightarrow>
      frame_type fr \<in> {Data, Fragment} \<longrightarrow> bs \<in> set (emitted os)"
  shows "unat (last_ordered_rx m) \<le> length (sent_payloads is)
    \<and> delivery_events (trace_events os') =
        delivery_log (map (\<lambda>i. (i, sent_payloads is ! (unat i - 1))) (range_inclusive 1 (last_ordered_rx m)))"
proof -
  let ?ms = "sent_payloads is" and ?l = "last_ordered_rx m"
  let ?C = "genuine_data (message_at ?ms)" and ?D = "genuine_fragment (message_at ?ms)"
  have gen: "genuine_datagram (message_at ?ms) bs" if "bs \<in> set (emitted os)" for bs
    using sender_run [OF sender(2), of r1 c1 cfg1] sender(1) that by (simp add: sender_inv_def)
  have "input_carries ?C ?D j" if "j \<in> set js" for j
  proof (cases j)
    case (OnDatagram now path bs)
    with network that gen [of bs] show ?thesis
      by (cases "decode bs") (auto simp: genuine_datagram_def)
  qed simp_all
  then have "receive_inv ?C ?D (0 + length js) (fst (run core_step (new_machine r2 c2 cfg2) js))
      ([] @ snd (run core_step (new_machine r2 c2 cfg2) js))"
    by (intro genuine.receiver.run_trace genuine.new_machine_receives) (use receiver(2) in simp_all)
  then have "handed_over ?C (trace_events os') ?l"
    using receiver(1) by (simp add: receive_inv_def)
  then obtain ps where ps: "delivery_events (trace_events os') = delivery_log ps"
      "map fst ps = range_inclusive 1 ?l" "\<forall>(i, p) \<in> set ps. message_at ?ms i = Some p"
    by (auto simp: handed_over_def genuine_data_def)
  have "map (\<lambda>x. (fst x, ?ms ! (unat (fst x) - 1))) ps = ps"
    by (rule map_idI) (use ps(3) in \<open>auto simp: message_at_def split: if_splits\<close>)
  then have "ps = map (\<lambda>i. (i, ?ms ! (unat i - 1))) (map fst ps)" by (simp add: comp_def)
  moreover have "unat ?l \<le> length ?ms"
  proof (cases "?l = 0")
    case False
    then have "?l \<in> set (map fst ps)" by (simp add: ps(2) word_le_nat_alt Suc_le_eq unat_gt_0)
    with ps(3) show ?thesis by (auto simp: message_at_def split: if_splits)
  qed simp
  ultimately show ?thesis using ps(1,2) by simp
qed

definition sending_run :: "core_input list" where
  "sending_run =
     [OnDatagram 1 0 (frame_bytes ServerHello 7 [] []), ApiSend [42],
      OnDatagram 2 0 (frame_bytes RequestRange 7 (encode_range 1 1) [])]"

definition receiving_run :: "core_input list" where
  "receiving_run =
     [OnDatagram 0 0 (frame_bytes ClientHello 7 [] []),
      OnDatagram 3 0 (frame_bytes Data 7 (data_payload 1 [42]) [encode_msr_signal_tlv 0 1])]"

lemma sending_run_emits:
  "frame_bytes Data 7 (data_payload 1 [42]) [encode_msr_signal_tlv 0 1]
     \<in> set (emitted (snd (run core_step (new_machine Client 7 default_config) sending_run)))"
  by (simp add: sending_run_def core_defs emitted_def on_api_send_def Let_def handle_request_range_def
      range_inclusive_def send_one_message_alt max_pending_id_def bmap_keys_def)

lemma receiving_run_result:
  "last_ordered_rx (fst (run core_step (new_machine Server 7 default_config) receiving_run)) = 1"
  by (simp add: receiving_run_def core_defs handle_msr_signal_def Let_def)

theorem transfer_is_a_prefix_witness:
  "delivery_events (trace_events (snd (run core_step (new_machine Server 7 default_config) receiving_run)))
     = delivery_log [(1, [42])]"
proof -
  let ?s = "run core_step (new_machine Client 7 default_config) sending_run"
  let ?r = "run core_step (new_machine Server 7 default_config) receiving_run"
  have s: "length (sent_payloads sending_run) < 2 ^ 64 - 1" "sent_payloads sending_run = [[42]]"
    by (simp_all add: sending_run_def)
  have r: "length receiving_run \<le> 2 ^ 64 - 2" by (simp add: receiving_run_def)
  have "\<forall>now path bs fr. OnDatagram now path bs \<in> set receiving_run \<longrightarrow> decode bs = Inr fr \<longrightarrow>
      frame_type fr \<in> {Data, Fragment} \<longrightarrow> bs \<in> set (emitted (snd ?s))"
    using sending_run_emits by (auto simp: receiving_run_def frame_bytes_ok)
  from transfer_is_a_prefix [OF surjective_pairing s(1) surjective_pairing r this]
  show ?thesis by (simp add: receiving_run_result s(2) range_inclusive_def)
qed

section \<open>Completeness of the transfer\<close>

text \<open>The machine has message \<open>i\<close> with payload \<open>msg\<close>: it has handed it over in the events \<open>es\<close>, or it holds it back
  because an earlier message is missing.  A message it had before (\<open>old\<close>) it need not hand over again.\<close>

definition obtained :: "bool \<Rightarrow> u64 \<Rightarrow> bytes \<Rightarrow> core_machine \<Rightarrow> event list \<Rightarrow> bool" where
  "obtained old i msg m es \<longleftrightarrow> i \<in> received_ids m
     \<and> (old \<or> MessageReceived i msg \<in> set es
        \<or> bmap_get (received_buffer m) i = Some msg \<and> i \<noteq> last_ordered_rx m + 1)"

text \<open>An accumulator of some, not all, of the fragments \<open>cs\<close> of message \<open>i\<close>.\<close>

definition genuine_chunk :: "bytes list \<Rightarrow> u64 \<Rightarrow> u16 \<Rightarrow> u16 \<Rightarrow> bytes \<Rightarrow> bool" where
  "genuine_chunk cs i n k ch \<longleftrightarrow> ch = cs ! unat k"

definition partly :: "u64 \<Rightarrow> bytes list \<Rightarrow> fragment_accumulator \<Rightarrow> bool" where
  "partly i cs a \<longleftrightarrow> frag_total a = word_of_nat (length cs) \<and> accumulator_ok (genuine_chunk cs) i a
     \<and> length (frag_chunks a) < length cs"

definition holds_only :: "u64 \<Rightarrow> bytes list \<Rightarrow> core_machine \<Rightarrow> bool" where
  "holds_only i cs m \<longleftrightarrow> (case bmap_get (received_fragments m) i of None \<Rightarrow> True | Some a \<Rightarrow> partly i cs a)"

text \<open>The receiver has message \<open>i\<close>, or it holds some of its fragments, those numbered \<open>S\<close> among them.\<close>

definition progress :: "bool \<Rightarrow> u64 \<Rightarrow> u64 \<Rightarrow> bytes list \<Rightarrow> u16 set \<Rightarrow> core_machine \<Rightarrow> event list \<Rightarrow> bool" where
  "progress old c i cs S m es \<longleftrightarrow> lifecycle m = Established \<and> core_cid m = c
     \<and> (obtained old i (concat cs) m es
        \<or> i \<notin> received_ids m \<and> holds_only i cs m
          \<and> S \<subseteq> (case bmap_get (received_fragments m) i of None \<Rightarrow> {} | Some a \<Rightarrow> set (bmap_keys (frag_chunks a))))"

lemma rx_only_session: "rx_only m m' \<Longrightarrow> lifecycle m' = lifecycle m \<and> core_cid m' = core_cid m"
  unfolding rx_only_def by (drule arg_cong [where f = "\<lambda>m. (lifecycle m, core_cid m)"]) simp

lemma handle_msr_signal_fst: "fst (handle_msr_signal m now path np src out) = after_signal m now np src"
  using handle_msr_signal_result [of m now path np src out] by auto

lemma handle_msr_signal_events:
  "set (events out) \<subseteq> set (result_events (snd (handle_msr_signal m now path np src out)))"
  using handle_msr_signal_result [of m now path np src out] by auto

text \<open>A data or fragment frame of the session: its handler runs, the session stays established.\<close>

lemma session_datagram:
  assumes est: "lifecycle m = Established" "core_cid m = c" and p: "length p \<le> 1000" "small_tlvs ts"
    and t: "t = Data \<and> h = handle_data \<or> t = Fragment \<and> h = handle_fragment"
  shows "let r = on_datagram m now path (frame_bytes t c p ts); r' = h (accept_datagram m now path) p empty_output in
    lifecycle (fst r) = Established \<and> core_cid (fst r) = c \<and> rx_part (fst r) = rx_part (fst r')
    \<and> set (result_events (snd r')) \<subseteq> set (result_events (snd r))"
proof -
  let ?m = "accept_datagram m now path"
  let ?r = "h ?m p empty_output"
  have d: "dispatch_frame ?m now path (new_frame t 0 c p ts) empty_output = ?r"
    using t est by (auto simp: dispatch_frame_def)
  have "receives ?m empty_output ?r"
    using t handle_data_receives_only handle_fragment_receives_only by blast
  then have l: "lifecycle (fst ?r) = Established" "core_cid (fst ?r) = c"
    using rx_only_session [of ?m "fst ?r"] est by (auto simp: receives_def)
  have as: "lifecycle (after_signal m1 now np PiggybackTlv) = Established"
      "core_cid (after_signal m1 now np PiggybackTlv) = core_cid m1" if "lifecycle m1 = Established" for m1 np
    using that by (simp_all add: after_signal_def Let_def)
  obtain m1 res where r: "?r = (m1, res)" by (cases ?r)
  then have l1: "lifecycle m1 = Established" "core_cid m1 = c" using l by simp_all
  show ?thesis
    using est t handle_msr_signal_events
    by (cases res) (auto simp: on_datagram_frame [OF p] d r l1 as [OF l1(1)]
        handle_msr_signal_fst Let_def split: option.split)
qed

text \<open>The flush hands a buffered message over or leaves it waiting for an earlier one.\<close>

lemma flush_obtains:
  assumes "bmap_get (received_buffer m) i = Some p" and "flush_ordered m out = (m', out')"
  shows "MessageReceived i p \<in> set (events out')
    \<or> bmap_get (received_buffer m') i = Some p \<and> i \<noteq> last_ordered_rx m' + 1"
  using assms
proof (induction m out rule: flush_ordered.induct)
  case (1 m out)
  show ?case
  proof (cases "bmap_get (received_buffer m) (last_ordered_rx m + 1)")
    case None
    with "1.prems" show ?thesis by (auto simp: flush_ordered.simps [of m out])
  next
    case (Some q)
    let ?l = "last_ordered_rx m"
    let ?m = "m\<lparr>received_buffer := bmap_remove (?l + 1) (received_buffer m), last_ordered_rx := ?l + 1\<rparr>"
    let ?out = "push_event (MessageReceived (?l + 1) q) (push_event (MessageDelivered (?l + 1)) out)"
    have f: "flush_ordered ?m ?out = (m', out')"
      using "1.prems"(2) Some by (simp add: flush_ordered.simps [of m out])
    show ?thesis
    proof (cases "i = ?l + 1")
      case True
      have "\<exists>es. events out' = events ?out @ es" using flush_ordered_frame [OF rx_onlyI(1) f] by auto
      then show ?thesis using True Some "1.prems"(1) by auto
    next
      case False
      from "1.IH" [OF Some _ f] False "1.prems"(1) show ?thesis by simp
    qed
  qed
qed

lemma flush_received_ids: "received_ids (fst (flush_ordered m out)) = received_ids m"
proof (induction m out rule: flush_ordered.induct)
  case (1 m out)
  then show ?case by (subst flush_ordered.simps) (simp split: option.split)
qed

lemma flush_obtained:
  assumes "flush_ordered m empty_output = (m', out')" and "bmap_get (received_buffer m) i = Some p"
    and "i \<in> received_ids m"
  shows "obtained old i p m' (es @ events out')"
  using flush_obtains [OF assms(2,1)] assms(3) flush_received_ids [of m empty_output] assms(1)
  by (auto simp: obtained_def)

lemma obtained_rx:
  "obtained old i p m es \<Longrightarrow> rx_part m' = rx_part m \<Longrightarrow> set es \<subseteq> set es' \<Longrightarrow> obtained old i p m' es'"
  by (auto simp: obtained_def rx_part_def)

lemma progress_rx:
  "rx_part m' = rx_part m1 \<Longrightarrow> lifecycle m' = Established \<Longrightarrow> core_cid m' = c \<Longrightarrow> set es \<subseteq> set es' \<Longrightarrow>
     progress old c i cs S m1 es \<Longrightarrow> progress old c i cs S m' es'"
  using obtained_rx [of old i "concat cs" m1 es m' es']
  by (auto simp: progress_def rx_part_def holds_only_def)

lemma store_fragment_keys:
  "set (bmap_keys (frag_chunks (store_fragment k ch a))) = insert k (set (bmap_keys (frag_chunks a)))"
  by (auto simp: store_fragment_def bmap_contains_def set_bmap_keys split: if_splits)

text \<open>A full accumulator of genuine fragments merges to the message.\<close>

lemma merged_chunks:
  assumes a: "accumulator_ok (genuine_chunk cs) i a" "frag_total a = word_of_nat (length cs)" "length (frag_chunks a) = length cs"
    and cs: "length cs \<le> 65535"
  shows "merge_chunks (frag_chunks a) (indices (frag_total a)) = Some (concat cs)"
proof -
  have n: "unat (frag_total a) = length cs" unfolding a(2) by (rule unat_word_of_nat [OF refl]) (use cs in simp)
  obtain f where f: "merge_chunks (frag_chunks a) (indices (frag_total a)) = Some (concat (map f (indices (frag_total a))))"
      "\<forall>k < frag_total a. f k = cs ! unat k"
    using merge_full [OF a(1)] a(3) n by (auto simp: genuine_chunk_def)
  have "map f (indices (frag_total a)) = cs"
  proof (rule nth_equalityI)
    fix k assume "k < length (map f (indices (frag_total a)))"
    then have k: "k < length cs" by (simp add: n)
    then have "unat (word_of_nat k :: u16) = k" by (intro unat_word_of_nat [OF refl]) (use cs in simp)
    then show "map f (indices (frag_total a)) ! k = cs ! k" using f(2) k n by (simp add: word_less_nat_alt)
  qed (simp add: n)
  with f(1) show ?thesis by simp
qed

text \<open>The fragments of one message: \<open>cs\<close>, at most 65535 of them, numbered by 16-bit words.\<close>

lemma fragment_index:
  assumes "length cs \<le> 65535" and "j < length cs"
  shows "unat (word_of_nat j :: u16) = j" and "unat (word_of_nat (length cs) :: u16) = length cs"
    and "(word_of_nat j :: u16) < word_of_nat (length cs)" and "(word_of_nat (length cs) :: u16) \<noteq> 0"
proof -
  show j: "unat (word_of_nat j :: u16) = j" "unat (word_of_nat (length cs) :: u16) = length cs"
    using assms by (auto intro!: unat_word_of_nat [OF refl])
  then show "(word_of_nat j :: u16) < word_of_nat (length cs)" using assms(2) by (simp only: word_less_nat_alt)
  then show "(word_of_nat (length cs) :: u16) \<noteq> 0" by auto
qed

lemma holds_slot:
  assumes h: "holds_only i cs m" and cs: "length cs \<le> 65535" "j < length cs"
  defines "n \<equiv> word_of_nat (length cs) :: u16"
  defines "s \<equiv> fragment_slot m i n"
  defines "a \<equiv> store_fragment (word_of_nat j) (cs ! j) s"
  shows "frag_total s = n" and "frag_total a = n" and "accumulator_ok (genuine_chunk cs) i a"
    and "set (bmap_keys (frag_chunks a)) = insert (word_of_nat j)
      (case bmap_get (received_fragments m) i of None \<Rightarrow> {} | Some b \<Rightarrow> set (bmap_keys (frag_chunks b)))"
proof -
  note idx = fragment_index [OF cs, folded n_def]
  have s: "frag_total s = n" "accumulator_ok (genuine_chunk cs) i s"
      "set (bmap_keys (frag_chunks s))
        = (case bmap_get (received_fragments m) i of None \<Rightarrow> {} | Some b \<Rightarrow> set (bmap_keys (frag_chunks b)))"
    using h idx(4)
    by (auto simp: s_def n_def holds_only_def partly_def fragment_slot_def accumulator_ok_def bmap_keys_def Let_def
        split: option.splits)
  then show "frag_total s = n" by simp
  then show "frag_total a = n" by (simp add: a_def store_fragment_def)
  have "genuine_chunk cs i n (word_of_nat j) (cs ! j)" using idx(1) by (simp add: genuine_chunk_def)
  then show "accumulator_ok (genuine_chunk cs) i a"
    using accumulator_insert [OF s(2)] s(1,2) idx(3) by (simp add: a_def store_fragment_def)
  show "set (bmap_keys (frag_chunks a)) = insert (word_of_nat j)
      (case bmap_get (received_fragments m) i of None \<Rightarrow> {} | Some b \<Rightarrow> set (bmap_keys (frag_chunks b)))"
    unfolding a_def store_fragment_keys s(3) ..
qed

lemma handle_fragment_progress:
  assumes pr: "progress old c i cs S m es" and cs: "length cs \<le> 65535" "j < length cs"
  defines "r \<equiv> handle_fragment m (fragment_payload i (word_of_nat j) (word_of_nat (length cs)) (cs ! j)) empty_output"
  shows "progress old c i cs (insert (word_of_nat j) S) (fst r) (es @ result_events (snd r))"
proof (cases "i \<in> received_ids m")
  case True
  with pr show ?thesis by (auto simp: r_def handle_fragment_alt progress_def empty_output_def)
next
  case False
  let ?n = "word_of_nat (length cs) :: u16" and ?w = "word_of_nat j :: u16"
  let ?a = "store_fragment ?w (cs ! j) (fragment_slot m i ?n)"
  have est: "lifecycle m = Established" "core_cid m = c" and h: "holds_only i cs m"
    and S: "S \<subseteq> (case bmap_get (received_fragments m) i of None \<Rightarrow> {} | Some a \<Rightarrow> set (bmap_keys (frag_chunks a)))"
    using pr False by (auto simp: progress_def obtained_def)
  note slot = holds_slot [OF h cs] and idx = fragment_index [OF cs]
  note alt = handle_fragment_alt [of m "fragment_payload i ?w ?n (cs ! j)" empty_output, unfolded fragment_payload_fields]
  have n: "?n \<noteq> 0" "\<not> ?n \<le> ?w" using idx(3,4) by auto
  show ?thesis
  proof (cases "fragment_complete ?a")
    case True
    then have "length (frag_chunks ?a) = length cs" using slot(2) idx(2) by (simp add: fragment_complete_def)
    note msg = merged_chunks [OF slot(3,2) this cs(1)]
    let ?m = "m\<lparr>received_ids := insert i (received_ids m),
      received_buffer := bmap_insert i (concat cs) (received_buffer m),
      received_fragments := bmap_remove i (bmap_insert i ?a (received_fragments m))\<rparr>"
    obtain m' out' where f: "flush_ordered ?m empty_output = (m', out')" by (cases "flush_ordered ?m empty_output")
    then have "r = (m', Inr out')" using False n slot(1) True msg by (simp add: r_def alt)
    moreover have "obtained old i (concat cs) m' (es @ events out')" by (rule flush_obtained [OF f]) simp_all
    moreover have "rx_only m m'" using flush_ordered_frame [OF rx_onlyI(2) f] by simp
    ultimately show ?thesis using est rx_only_session [of m m'] by (simp add: progress_def)
  next
    case incomplete: False
    have r: "r = (m\<lparr>received_fragments := bmap_insert i ?a (received_fragments m)\<rparr>, Inr empty_output)"
      using False n slot(1) incomplete by (simp add: r_def alt)
    have "length (frag_chunks ?a) < length cs"
      using incomplete accumulator_length [OF slot(3)] slot(2) idx(2) by (simp add: fragment_complete_def)
    then have "partly i cs ?a" using slot(2,3) by (simp add: partly_def)
    then show ?thesis
      using False est S slot(4) by (auto simp: r progress_def holds_only_def split: option.splits)
  qed
qed

lemma fragment_datagram_progress:
  assumes pr: "progress old c i cs S m es" and cs: "length cs \<le> 65535" "j < length cs" and ch: "length (cs ! j) \<le> 988"
    and ts: "small_tlvs ts"
  fixes now path
  defines "r \<equiv> on_datagram m now path (frame_bytes Fragment c
    (fragment_payload i (word_of_nat j) (word_of_nat (length cs)) (cs ! j)) ts)"
  shows "progress old c i cs (insert (word_of_nat j) S) (fst r) (es @ result_events (snd r))"
proof -
  let ?m = "accept_datagram m now path"
  let ?h = "handle_fragment ?m (fragment_payload i (word_of_nat j) (word_of_nat (length cs)) (cs ! j)) empty_output"
  have est: "lifecycle m = Established" "core_cid m = c" using pr by (simp_all add: progress_def)
  have "progress old c i cs S ?m es" by (rule progress_rx [OF rx_part_accept _ _ _ pr]) (simp_all add: est)
  note pr' = handle_fragment_progress [OF this cs]
  have "length (fragment_payload i (word_of_nat j) (word_of_nat (length cs)) (cs ! j)) \<le> 1000" using ch by simp
  from session_datagram [OF est this ts, of Fragment handle_fragment now path]
  show ?thesis by (intro progress_rx [OF _ _ _ _ pr']) (auto simp: r_def Let_def)
qed

lemma data_datagram_progress:
  assumes est: "lifecycle m = Established" "core_cid m = c" and new: "i \<in> received_ids m \<Longrightarrow> obtained old i msg m es"
    and msg: "length msg \<le> 992" and ts: "small_tlvs ts"
  fixes now path
  defines "r \<equiv> on_datagram m now path (frame_bytes Data c (data_payload i msg) ts)"
  shows "lifecycle (fst r) = Established" and "core_cid (fst r) = c"
    and "obtained old i msg (fst r) (es @ result_events (snd r))"
proof -
  let ?m = "accept_datagram m now path"
  let ?h = "handle_data ?m (data_payload i msg) empty_output"
  have h: "obtained old i msg (fst ?h) (es @ result_events (snd ?h))"
  proof (cases "i \<in> received_ids m")
    case True
    then have "?h = (?m, Inr empty_output)"
      using rx_part_accept [of m now path] by (simp add: handle_data_def rx_part_def)
    then show ?thesis using obtained_rx [OF new [OF True] rx_part_accept] by simp
  next
    case False
    let ?m' = "?m\<lparr>received_ids := insert i (received_ids ?m), received_buffer := bmap_insert i msg (received_buffer ?m),
      received_fragments := bmap_remove i (received_fragments ?m)\<rparr>"
    obtain m' out' where f: "flush_ordered ?m' empty_output = (m', out')" by (cases "flush_ordered ?m' empty_output")
    then have "?h = (m', Inr out')"
      using False rx_part_accept [of m now path] by (simp add: handle_data_def rx_part_def)
    then show ?thesis using flush_obtained [OF f, of i msg] by simp
  qed
  have "length (data_payload i msg) \<le> 1000" using msg by simp
  from session_datagram [OF est this ts, of Data handle_data now path]
  have d: "lifecycle (fst r) = Established \<and> core_cid (fst r) = c \<and> rx_part (fst r) = rx_part (fst ?h)
      \<and> set (result_events (snd ?h)) \<subseteq> set (result_events (snd r))"
    by (simp add: r_def Let_def)
  then show "lifecycle (fst r) = Established" "core_cid (fst r) = c" by simp_all
  show "obtained old i msg (fst r) (es @ result_events (snd r))" by (rule obtained_rx [OF h]) (use d in auto)
qed

text \<open>Feeding datagrams with their arrival times and paths.\<close>

definition feed :: "(u64 \<times> u32 \<times> bytes) list \<Rightarrow> core_input list" where
  "feed ds = map (\<lambda>(now, path, bs). OnDatagram now path bs) ds"

definition fed :: "core_machine \<Rightarrow> event list \<Rightarrow> (u64 \<times> u32 \<times> bytes) list \<Rightarrow> core_machine \<times> event list" where
  "fed m es ds = (let (m', os) = run core_step m (feed ds) in (m', es @ trace_events os))"

lemma fed_Nil [simp]: "fed m es [] = (m, es)"
  by (simp add: fed_def feed_def)

lemma fed_Cons: "fed m es ((now, path, bs) # ds)
    = fed (fst (on_datagram m now path bs)) (es @ result_events (snd (on_datagram m now path bs))) ds"
  by (simp add: fed_def feed_def case_prod_unfold Let_def)

lemma feed_data:
  assumes "lifecycle m = Established" "core_cid m = c" and "length msg \<le> 992" "small_tlvs ts"
    and "\<forall>d \<in> set ds. snd (snd d) = frame_bytes Data c (data_payload i msg) ts"
    and "i \<in> received_ids m \<Longrightarrow> obtained old i msg m es" and "ds = [] \<Longrightarrow> obtained old i msg m es"
  shows "obtained old i msg (fst (fed m es ds)) (snd (fed m es ds))"
  using assms
proof (induction ds arbitrary: m es)
  case Nil
  then show ?case by simp
next
  case (Cons d ds)
  obtain now path bs where d: "d = (now, path, bs)" by (cases d)
  note pr = data_datagram_progress [OF Cons.prems(1,2,6,3,4), of now path]
  have bs: "bs = frame_bytes Data c (data_payload i msg) ts" using Cons.prems(5) d by simp
  show ?case unfolding d fed_Cons bs
    by (rule Cons.IH [OF pr(1,2) Cons.prems(3,4)]) (use Cons.prems(5) pr(3) in simp_all)
qed

definition fragment_frame :: "u64 \<Rightarrow> u64 \<Rightarrow> bytes list \<Rightarrow> tlv list \<Rightarrow> nat \<Rightarrow> bytes" where
  "fragment_frame c i cs ts k =
     frame_bytes Fragment c (fragment_payload i (word_of_nat k) (word_of_nat (length cs)) (cs ! k)) ts"

lemma feed_fragments:
  assumes "progress old c i cs S m es" and "small_tlvs ts" and "length cs \<le> 65535" "\<forall>ch \<in> set cs. length ch \<le> 988"
    and "\<forall>d \<in> set ds. kf d < length cs \<and> snd (snd d) = fragment_frame c i cs ts (kf d)"
  shows "progress old c i cs (S \<union> (\<lambda>d. word_of_nat (kf d)) ` set ds) (fst (fed m es ds)) (snd (fed m es ds))"
  using assms
proof (induction ds arbitrary: m es S)
  case Nil
  then show ?case by simp
next
  case (Cons d ds)
  obtain now path bs where d: "d = (now, path, bs)" by (cases d)
  have k: "kf d < length cs" and bs: "bs = fragment_frame c i cs ts (kf d)" using Cons.prems(5) d by auto
  have "length (cs ! kf d) \<le> 988" using Cons.prems(4) k by simp
  note fragment_datagram_progress [OF Cons.prems(1,3) k this Cons.prems(2), of now path, folded fragment_frame_def, folded bs]
  from Cons.IH [OF this Cons.prems(2-4)] Cons.prems(5)
  show ?case unfolding d fed_Cons by (simp add: d)
qed

lemma fragment_frame_index:
  assumes "\<forall>ch \<in> set cs. length ch \<le> 988" and "small_tlvs ts" and "k < length cs" "k' < length cs"
    and "fragment_frame c i cs ts k = fragment_frame c i cs ts k'"
  shows "word_of_nat k = (word_of_nat k' :: u16)"
proof -
  have "length (cs ! k) \<le> 988" "length (cs ! k') \<le> 988" using assms by auto
  then have "decode (fragment_frame c i cs ts j) = Inr (new_frame Fragment 0 c
      (fragment_payload i (word_of_nat j) (word_of_nat (length cs)) (cs ! j)) ts)" if "j \<in> {k, k'}" for j
    using assms(2) that by (auto simp: fragment_frame_def frame_bytes_ok)
  then have "frame_payload (new_frame Fragment 0 c (fragment_payload i (word_of_nat k) (word_of_nat (length cs)) (cs ! k)) ts)
      = frame_payload (new_frame Fragment 0 c (fragment_payload i (word_of_nat k') (word_of_nat (length cs)) (cs ! k')) ts)"
    using assms(5) by (metis Inr_inject insertCI)
  then show ?thesis using fragment_payload_fields(2) by (metis new_frame_fields(3))
qed

text \<open>All fragments stored: the accumulator cannot be incomplete, so the message has been obtained.\<close>

lemma progress_all:
  assumes pr: "progress old c i cs S m es" and cs: "length cs \<le> 65535" "cs \<noteq> []" and S: "word_of_nat ` {..<length cs} \<subseteq> S"
  shows "obtained old i (concat cs) m es"
proof (rule ccontr)
  assume "\<not> obtained old i (concat cs) m es"
  then have h: "holds_only i cs m" "word_of_nat ` {..<length cs}
      \<subseteq> (case bmap_get (received_fragments m) i of None \<Rightarrow> {} | Some a \<Rightarrow> set (bmap_keys (frag_chunks a)))"
    using pr S by (auto simp: progress_def)
  have "word_of_nat ` {..<length cs} \<noteq> ({} :: u16 set)" using cs(2) by (simp add: lessThan_empty_iff)
  with h obtain a where a: "partly i cs a" "word_of_nat ` {..<length cs} \<subseteq> set (bmap_keys (frag_chunks a))"
    by (auto simp: holds_only_def split: option.splits)
  have "inj_on (word_of_nat :: nat \<Rightarrow> u16) {..<length cs}" by (rule inj_on_word_of_nat) (use cs in simp)
  then have "length cs \<le> card (set (bmap_keys (frag_chunks a)))"
    using card_mono [OF _ a(2)] by (simp add: card_image)
  also have "\<dots> \<le> length (frag_chunks a)"
    using card_length [of "bmap_keys (frag_chunks a)"] by (simp add: bmap_keys_def)
  finally show False using a(1) by (simp add: partly_def)
qed

lemma feed_all_fragments:
  assumes receiver: "lifecycle m = Established" "core_cid m = c" "holds_only i cs m"
      "i \<in> received_ids m \<Longrightarrow> obtained old i (concat cs) m es"
    and cs: "cs \<noteq> []" "length cs \<le> 65535" "\<forall>ch \<in> set cs. length ch \<le> 988" and ts: "small_tlvs ts"
    and ds: "(\<lambda>d. snd (snd d)) ` set ds = fragment_frame c i cs ts ` {..<length cs}"
  shows "obtained old i (concat cs) (fst (fed m es ds)) (snd (fed m es ds))"
proof -
  let ?w = "word_of_nat :: nat \<Rightarrow> u16"
  have "\<forall>d \<in> set ds. \<exists>k. k < length cs \<and> snd (snd d) = fragment_frame c i cs ts k"
  proof
    fix d assume "d \<in> set ds"
    then have "snd (snd d) \<in> (\<lambda>d. snd (snd d)) ` set ds" by (rule imageI)
    then show "\<exists>k. k < length cs \<and> snd (snd d) = fragment_frame c i cs ts k" unfolding ds by blast
  qed
  then obtain g where g: "\<forall>d \<in> set ds. g d < length cs \<and> snd (snd d) = fragment_frame c i cs ts (g d)"
    by metis
  have start: "progress old c i cs {} m es" using receiver by (auto simp: progress_def)
  note pr = feed_fragments [OF start ts cs(2,3) g]
  have "?w ` {..<length cs} \<subseteq> {} \<union> (\<lambda>d. ?w (g d)) ` set ds"
  proof
    fix w assume "w \<in> ?w ` {..<length cs}"
    then obtain k where k: "w = ?w k" "k < length cs" by auto
    then have "fragment_frame c i cs ts k \<in> (\<lambda>d. snd (snd d)) ` set ds" unfolding ds by blast
    then obtain d where d: "d \<in> set ds" "snd (snd d) = fragment_frame c i cs ts k" by force
    with g have "g d < length cs" "fragment_frame c i cs ts (g d) = fragment_frame c i cs ts k" by metis+
    then have "?w (g d) = ?w k" using fragment_frame_index [OF cs(3) ts _ k(2)] by blast
    with k(1) d(1) show "w \<in> {} \<union> (\<lambda>d. ?w (g d)) ` set ds" by force
  qed
  from progress_all [OF pr cs(2,1) this] show ?thesis .
qed

text \<open>What a sender answers to the request for one message.\<close>

lemma request_answer:
  assumes est: "lifecycle s = Established" "core_cid s = c"
    and msg: "bmap_get (outbound_messages s) i = Some msg" "length (message_chunks msg) \<le> 65535"
  shows "\<exists>s' out ts. on_datagram s t path (frame_bytes RequestRange c (encode_range i i) []) = (s', Inr out)
    \<and> small_tlvs ts \<and> dgram_bytes ` set (outbound_datagrams out) =
      (if length msg \<le> 992 then {frame_bytes Data c (data_payload i msg) ts}
       else fragment_frame c i (message_chunks msg) ts ` {..<length (message_chunks msg)})"
proof -
  let ?s = "accept_datagram s t path" and ?cs = "message_chunks msg"
  let ?ts = "[encode_msr_signal_tlv (last_ordered_rx ?s) (max_pending_id ?s)]"
  have out: "outbound_messages ?s = outbound_messages s"
    using tx_part_accept [of s t path] by (simp add: tx_part_def)
  have r: "range_inclusive i i = [i]" by (simp add: range_inclusive_def)
  have "\<forall>ch \<in> set ?cs. length ch \<le> 988" using chunk_size by (auto simp: message_chunks_def)
  from send_fragments_result [OF this, of ?s path i "word_of_nat (length ?cs)" 0 empty_output] msg(2)
  obtain o1 where o1: "send_fragments ?s path i (word_of_nat (length ?cs)) 0 ?cs empty_output = (?s, Inr o1)"
    "outbound_datagrams o1 = map (\<lambda>(k, ch). \<lparr>dgram_path_id = path, dgram_bytes = frame_bytes Fragment c
        (fragment_payload i (word_of_nat k) (word_of_nat (length ?cs)) ch) ?ts\<rparr>) (enumerate 0 ?cs)"
    by (cases "send_fragments ?s path i (word_of_nat (length ?cs)) 0 ?cs empty_output") (auto simp: est)
  have "set (enumerate 0 ?cs) = (\<lambda>k. (k, ?cs ! k)) ` {..<length ?cs}"
    by (auto simp: in_set_enumerate_eq image_iff)
  then have "dgram_bytes ` set (outbound_datagrams o1) = fragment_frame c i ?cs ?ts ` {..<length ?cs}"
    unfolding o1(2) set_map by (simp add: image_image fragment_frame_def)
  then show ?thesis
    using est msg o1(1)
    by (auto simp: on_datagram_frame dispatch_frame_def handle_request_range_def r out send_one_message_alt
        message_chunks_def [symmetric] intro!: exI [of _ ?ts])
qed

text \<open>Which fragments a receiver can hold.  On a network as in the prefix theorem -- data and fragments are the sender's -- a
  receiver holds of a message nothing but fragments of it.\<close>

lemma network_holds_only:
  assumes ok: "receive_ok C (genuine_fragment G) n m" and G: "G i = Some msg"
  shows "case bmap_get (received_fragments m) i of None \<Rightarrow> True
    | Some a \<Rightarrow> frag_chunks a \<noteq> [] \<longrightarrow> partly i (message_chunks msg) a"
proof (cases "bmap_get (received_fragments m) i")
  case (Some a)
  have a: "accumulator_ok (genuine_fragment G) i a" "length (frag_chunks a) < unat (frag_total a)"
    using ok Some by (auto simp: receive_ok_def fragments_ok_def)
  have "partly i (message_chunks msg) a" if ne: "frag_chunks a \<noteq> []"
  proof -
    obtain k ch cs where "frag_chunks a = (k, ch) # cs" using ne by (cases "frag_chunks a") auto
    then have "bmap_get (frag_chunks a) k = Some ch" by (simp add: bmap_get_def)
    then have g: "genuine_fragment G i (frag_total a) k ch" using a(1) by (auto simp: accumulator_ok_def)
    then have n: "frag_total a = word_of_nat (length (message_chunks msg))" "length (message_chunks msg) \<le> 65535"
      using G by (auto simp: genuine_fragment_def)
    then have "unat (frag_total a) = length (message_chunks msg)" by (intro unat_word_of_nat) simp_all
    then show ?thesis using a n G
      by (auto simp: partly_def accumulator_ok_def genuine_fragment_def genuine_chunk_def)
  qed
  then show ?thesis by (simp add: Some)
qed simp

text \<open>C2: The transfer completes.  A sender answers the request for one message \<open>i\<close> of its queue, and all datagrams of the
  answer reach an established receiver of the same connection -- in any order, any number of times each,
  at any times and over any paths.  The receiver may already hold some of the fragments of this message,
  but no accumulator of another message or another number of fragments under its identifier: with one, every
  fragment would be refused.  Then, however many fragments the message was split into, the receiver hands over
  exactly its payload in one of these calls, or keeps exactly its payload because an earlier message is missing,
  unless it had the message before.\<close>

theorem transfer_completes:
  assumes sender: "lifecycle s = Established" "core_cid s = c"
      "bmap_get (outbound_messages s) i = Some msg" "length (message_chunks msg) \<le> 65535"
    and receiver: "lifecycle m = Established" "core_cid m = c" "holds_only i (message_chunks msg) m"
  shows "\<exists>s' out. on_datagram s t path (frame_bytes RequestRange c (encode_range i i) []) = (s', Inr out)
    \<and> (\<forall>ds m' os. (\<lambda>d. snd (snd d)) ` set ds = dgram_bytes ` set (outbound_datagrams out) \<longrightarrow>
         run core_step m (feed ds) = (m', os) \<longrightarrow>
         i \<in> received_ids m'
         \<and> (i \<in> received_ids m \<or> MessageReceived i msg \<in> set (trace_events os)
            \<or> bmap_get (received_buffer m') i = Some msg \<and> i \<noteq> last_ordered_rx m' + 1))"
proof -
  let ?cs = "message_chunks msg" and ?old = "i \<in> received_ids m"
  obtain s' out ts where ans: "on_datagram s t path (frame_bytes RequestRange c (encode_range i i) []) = (s', Inr out)"
      "small_tlvs ts" "dgram_bytes ` set (outbound_datagrams out) =
      (if length msg \<le> 992 then {frame_bytes Data c (data_payload i msg) ts}
       else fragment_frame c i ?cs ts ` {..<length ?cs})"
    using request_answer [OF sender, of t path] by blast
  have msg: "concat ?cs = msg" by (simp add: message_chunks_def concat_chunks)
  have "obtained ?old i msg m' (trace_events os)"
    if ds: "(\<lambda>d. snd (snd d)) ` set ds = dgram_bytes ` set (outbound_datagrams out)"
      and run: "run core_step m (feed ds) = (m', os)" for ds m' os
  proof -
    have known: "obtained ?old i msg m []" if ?old using that by (simp add: obtained_def)
    have "obtained ?old i msg (fst (fed m [] ds)) (snd (fed m [] ds))"
    proof (cases "length msg \<le> 992")
      case True
      with ds ans(3) have "\<forall>d \<in> set ds. snd (snd d) = frame_bytes Data c (data_payload i msg) ts" "ds \<noteq> []"
        by auto
      with feed_data [OF receiver(1,2) True ans(2)] known show ?thesis by blast
    next
      case False
      have "\<forall>ch \<in> set ?cs. length ch \<le> 988" using chunk_size by (auto simp: message_chunks_def)
      moreover have "?cs \<noteq> []" using False msg by auto
      ultimately show ?thesis
        using feed_all_fragments [OF receiver, of ?old "[]" ts ds] known sender(4) ans(2,3) ds False by (simp add: msg)
    qed
    then show ?thesis by (simp add: fed_def run)
  qed
  with ans(1) show ?thesis unfolding obtained_def by blast
qed

text \<open>A message of three fragments, of which the receiver holds the second.\<close>

theorem transfer_completes_witness:
  "\<exists>s' out. on_datagram ((new_machine Client 7 default_config)\<lparr>lifecycle := Established,
       outbound_messages := [(1, replicate 2000 5)]\<rparr>) 0 0 (frame_bytes RequestRange 7 (encode_range 1 1) []) = (s', Inr out)
    \<and> (\<forall>ds m' os. (\<lambda>d. snd (snd d)) ` set ds = dgram_bytes ` set (outbound_datagrams out) \<longrightarrow>
         run core_step ((new_machine Server 7 default_config)\<lparr>lifecycle := Established,
           received_fragments := [(1, \<lparr>frag_total = 3, frag_chunks = [(1, replicate 988 5)]\<rparr>)]\<rparr>) (feed ds) = (m', os) \<longrightarrow>
         1 \<in> received_ids m'
         \<and> (1 \<in> received_ids ((new_machine Server 7 default_config)\<lparr>lifecycle := Established,
           received_fragments := [(1, \<lparr>frag_total = 3, frag_chunks = [(1, replicate 988 5)]\<rparr>)]\<rparr>)
            \<or> MessageReceived 1 (replicate 2000 5) \<in> set (trace_events os)
            \<or> bmap_get (received_buffer m') 1 = Some (replicate 2000 5) \<and> 1 \<noteq> last_ordered_rx m' + 1))"
proof (rule transfer_completes)
  show "length (message_chunks (replicate 2000 5)) \<le> 65535"
    by (simp add: message_chunks_def length_chunks)
  have "message_chunks (replicate 2000 5) = [replicate 988 5, replicate 988 5, replicate 24 5]"
    by (simp add: message_chunks_def chunks.simps)
  then show "holds_only 1 (message_chunks (replicate 2000 5)) ((new_machine Server 7 default_config)\<lparr>lifecycle := Established,
      received_fragments := [(1, \<lparr>frag_total = 3, frag_chunks = [(1, replicate 988 5)]\<rparr>)]\<rparr>)"
    by (simp add: holds_only_def partly_def accumulator_ok_def genuine_chunk_def bmap_get_def bmap_ok_def bmap_keys_def)
qed (simp_all add: new_machine_def bmap_get_def)

end
