(* ===== verification/Core_Lifecycle.thy ===== *)
theory Core_Lifecycle
  imports Core_Effects
begin

text \<open>
  Session-level properties of the protocol state machine, each an invariant of the elementary
  effects: the lifecycle automaton, the bounds of negotiated timers, the keepalive counters, the
  ranges requested from the peer, and what a refused datagram may not do.
\<close>

section \<open>Invariants of effects\<close>

text \<open>An invariant that every elementary effect keeps is an invariant of the state machine.\<close>

locale effect_invariant =
  fixes inv :: "core_machine \<Rightarrow> bool"
  assumes effect_inv: "core_effect m es m' \<Longrightarrow> inv m \<Longrightarrow> inv m'"
begin

lemma effects_inv: "core_effects m es m' \<Longrightarrow> inv m \<Longrightarrow> inv m'"
  by (induction rule: core_effects.induct) (auto intro: effect_inv)

lemma core_step_inv: "inv m \<Longrightarrow> inv (fst (core_step m i))"
  by (rule core_step_effects [of m i]) (auto intro: effects_inv)

end

sublocale effect_invariant \<subseteq> calls: step_invariant core_step inv
  by unfold_locales (rule core_step_inv)

text \<open>A relation between the events so far and the state that every elementary effect extends, and
  that renegotiation events do not matter to.\<close>

locale effect_trace =
  fixes tr :: "event list \<Rightarrow> core_machine \<Rightarrow> bool"
  assumes effect_tr: "core_effect m es m' \<Longrightarrow> tr pre m \<Longrightarrow> tr (pre @ es) m'"
    and drop_renegotiation: "tr (pre @ es) m \<Longrightarrow> set es \<subseteq> renegotiation_events \<Longrightarrow> tr pre m"
begin

lemma effects_tr: "core_effects m es m' \<Longrightarrow> tr pre m \<Longrightarrow> tr (pre @ es) m'"
proof (induction arbitrary: pre rule: core_effects.induct)
  case (stop m)
  then show ?case by simp
next
  case (more m es m' es' m'')
  from more.IH [OF effect_tr [OF more.hyps(1) more.prems]] show ?case by simp
qed

lemma core_step_tr:
  assumes "tr (trace_events os) m"
  shows "tr (trace_events (os @ [snd (core_step m i)])) (fst (core_step m i))"
proof (rule core_step_effects [of m i])
  fix es
  assume e: "core_effects m es (fst (core_step m i))"
    and r: "result_events (snd (core_step m i)) = es
      \<or> result_events (snd (core_step m i)) = [] \<and> set es \<subseteq> renegotiation_events"
  have "tr (trace_events os @ es) (fst (core_step m i))" by (rule effects_tr [OF e assms])
  with r show ?thesis using drop_renegotiation by auto
qed

end

sublocale effect_trace \<subseteq> calls: trace_invariant core_step "\<lambda>_. True" "\<lambda>_ m os. tr (trace_events os) m" bound
  by unfold_locales (rule core_step_tr)

context effect_trace
begin

lemma run_tr: "tr [] m \<Longrightarrow> tr (trace_events (snd (run core_step m is))) (fst (run core_step m is))"
  using calls.run_trace [where os = "[]" and n = 0 and bound = "length is"] by simp

end

section \<open>Definitions\<close>

text \<open>The lifecycle automaton of a session: the events that name its transitions and the state each
  leads to; \<open>None\<close> marks an event that may not occur in a state.\<close>

fun lifecycle_next :: "lifecycle_state \<Rightarrow> event \<Rightarrow> lifecycle_state option" where
  "lifecycle_next s HandshakeEstablished = (if s = PreHandshake then Some Established else None)"
| "lifecycle_next s ReactivationProbeSent =
     (if s = Established \<or> s = Reactivating then Some Reactivating else None)"
| "lifecycle_next s Reactivated = (if s = Reactivating then Some Established else None)"
| "lifecycle_next s Disconnected = Some Lost"
| "lifecycle_next s _ = Some s"

fun lifecycle_run :: "lifecycle_state \<Rightarrow> event list \<Rightarrow> lifecycle_state option" where
  "lifecycle_run s [] = Some s"
| "lifecycle_run s (e # es) = Option.bind (lifecycle_next s e) (\<lambda>s'. lifecycle_run s' es)"

text \<open>The ranges of message identifiers requested from the peer, in order.\<close>

fun requested_ranges :: "event list \<Rightarrow> (u64 \<times> u64) list" where
  "requested_ranges [] = []"
| "requested_ranges (RequestRangeSent a b # es) = (a, b) # requested_ranges es"
| "requested_ranges (_ # es) = requested_ranges es"

definition requested_ids :: "event list \<Rightarrow> u64 list" where
  "requested_ids es = concat (map (\<lambda>(a, b). range_inclusive a b) (requested_ranges es))"

section \<open>Interpretations\<close>

lemma lifecycle_run_append:
  "lifecycle_run s (es @ fs) = Option.bind (lifecycle_run s es) (\<lambda>s'. lifecycle_run s' fs)"
  by (induction es arbitrary: s) (simp_all split: bind_split)

lemma lifecycle_run_neutral:
  "(\<And>e s. e \<in> set es \<Longrightarrow> lifecycle_next s e = Some s) \<Longrightarrow> lifecycle_run s es = Some s"
  by (induction es) simp_all

lemma lifecycle_run_deliveries [simp]: "\<forall>e \<in> set es. is_delivery e \<Longrightarrow> lifecycle_run s es = Some s"
proof (rule lifecycle_run_neutral)
  fix e s assume "\<forall>e \<in> set es. is_delivery e" "e \<in> set es"
  then show "lifecycle_next s e = Some s" by (cases e) auto
qed

interpretation lifecycle_trace: effect_trace "\<lambda>es m. lifecycle_run PreHandshake es = Some (lifecycle m)"
proof (unfold_locales, goal_cases)
  case (1 m es m' pre)
  then have "lifecycle_run (lifecycle m) es = Some (lifecycle m')"
    by (cases rule: core_effect.cases) auto
  with 1 show ?case by (simp add: lifecycle_run_append)
next
  case (2 pre es m)
  then have "lifecycle_run s es = Some s" for s by (intro lifecycle_run_neutral) auto
  with 2 show ?case by (cases "lifecycle_run PreHandshake pre") (simp_all add: lifecycle_run_append)
qed

lemma requested_ranges_append: "requested_ranges (es @ fs) = requested_ranges es @ requested_ranges fs"
  by (induction es rule: requested_ranges.induct) simp_all

lemma requested_ranges_none:
  "(\<And>a b. RequestRangeSent a b \<notin> set es) \<Longrightarrow> requested_ranges es = []"
  by (induction es rule: requested_ranges.induct) auto

lemma requested_ranges_deliveries [simp]: "\<forall>e \<in> set es. is_delivery e \<Longrightarrow> requested_ranges es = []"
  by (rule requested_ranges_none) fastforce

lemma requested_ids_append: "requested_ids (es @ fs) = requested_ids es @ requested_ids fs"
  by (simp add: requested_ids_def requested_ranges_append)

lemma range_inclusive_join:
  fixes l n :: u64
  assumes "l < n"
  shows "range_inclusive 1 l @ range_inclusive (l + 1) n = range_inclusive 1 n"
proof -
  have "l \<noteq> - 1" using assms unat_word_less [of n] by (auto simp: word_less_nat_alt unat_max_word)
  then have "unat (l + 1) = Suc (unat l)" by (rule unat_succ)
  moreover have "[1..<Suc (unat l)] @ [Suc (unat l)..<Suc (unat n)] = [1..<Suc (unat n)]"
    using assms upt_add_eq_append [of 1 "Suc (unat l)" "unat n - unat l"] by (simp add: word_less_nat_alt)
  ultimately show ?thesis
    by (simp only: range_inclusive_def unat_1 flip: map_append)
qed

interpretation request_trace: effect_trace
  "\<lambda>es m. requested_ids es = range_inclusive 1 (last_requested_end m)"
proof (unfold_locales, goal_cases)
  case (1 m es m' pre)
  from 1(1) have "requested_ids es = [] \<and> last_requested_end m' = last_requested_end m
      \<or> last_requested_end m < last_requested_end m'
        \<and> requested_ids es = range_inclusive (last_requested_end m + 1) (last_requested_end m')"
    by (cases rule: core_effect.cases)
      (auto simp: requested_ids_def requested_ranges_none)
  with 1(2) show ?case by (auto simp: requested_ids_append range_inclusive_join)
next
  case (2 pre es m)
  then have "requested_ranges es = []" by (intro requested_ranges_none) auto
  with 2 show ?case by (simp add: requested_ids_append) (simp add: requested_ids_def)
qed

interpretation timers: effect_invariant "\<lambda>m. (core_cfg m = c \<or> config_in_bounds (core_cfg m)) \<and> pending_ok m"
  for c
  by (unfold_locales, erule core_effect.cases)
    (auto simp: pending_ok_def dest: validate_timer_proposal_bounds)

interpretation counters: effect_invariant
  "\<lambda>m. client_msr_rx m < 4 \<and> server_msr_unanswered m \<le> 9 \<and> (server_msr_unanswered m \<le> 8 \<or> lifecycle m = Lost)"
  by (unfold_locales, erule core_effect.cases)
    (auto simp: word_less_nat_alt word_le_nat_alt sat_simps)

interpretation lost: effect_invariant
  "\<lambda>m. lifecycle m = Lost \<and> rx_part m = x \<and> last_requested_end m = l" for x l
  by (unfold_locales, erule core_effect.cases) (auto simp: rx_part_def)

interpretation identity: effect_invariant
  "\<lambda>m. core_role m = r \<and> core_cid m = c \<and> (r = Server \<longrightarrow> lifecycle m \<noteq> Reactivating)" for r c
  by (unfold_locales, erule core_effect.cases) auto

section \<open>Properties\<close>

text \<open>C6: The lifecycle automaton.  After any sequence of calls on a fresh machine, the events emitted so
  far are a path of the lifecycle automaton that ends in the machine's current state: a session is
  established at most once, a reactivation is always preceded by a probe, and the caller can
  reconstruct the state from the events alone.\<close>

theorem lifecycle_follows_events:
  "lifecycle_run PreHandshake (trace_events (snd (run core_step (new_machine role cid cfg) is)))
     = Some (lifecycle (fst (run core_step (new_machine role cid cfg) is)))"
  by (rule lifecycle_trace.run_tr) (simp add: new_machine_def)

text \<open>C36: No range is requested twice.  The identifiers of all \<^verbatim>\<open>RequestRangeSent\<close> events of a session, in
  order, are exactly \<open>1, 2, \<dots>, last_requested_end\<close>: the requests tile the identifier space, with no gap
  and no overlap.\<close>

theorem requests_tile:
  "requested_ids (trace_events (snd (run core_step (new_machine role cid cfg) is)))
     = range_inclusive 1 (last_requested_end (fst (run core_step (new_machine role cid cfg) is)))"
  by (rule request_trace.run_tr) (simp add: new_machine_def requested_ids_def range_inclusive_def)

text \<open>C7: Negotiated timers are sane.  After any sequence of calls, whatever the peer proposed, the
  configuration is the initial one or lies within the negotiation bounds, in particular its
  disconnect window is at least its miss window \<^verbatim>\<open>msr_interval_ms * miss_window_count\<close>; and a pending
  local proposal is within the bounds too.\<close>

theorem timers_in_bounds:
  "let m = fst (run core_step (new_machine role cid cfg) is) in
     (core_cfg m = cfg \<or> config_in_bounds (core_cfg m)) \<and> pending_ok m"
  unfolding Let_def by (rule timers.calls.run_inv) (simp add: new_machine_def pending_ok_def)

text \<open>The keepalive counters are bounded.  After any sequence of calls a client has counted fewer than four
  MSR frames since its last keepalive, and a server at most nine unanswered MSR rounds, the ninth
  only when the session is lost.\<close>

theorem keepalive_bounded:
  "let m = fst (run core_step (new_machine role cid cfg) is) in
     client_msr_rx m < CLIENT_KEEPALIVE_EVERY_SERVER_MSR \<and> server_msr_unanswered m \<le> 9
     \<and> (server_msr_unanswered m \<le> SERVER_MAX_CONSECUTIVE_SERVER_MSR_WITHOUT_CLIENT_MSR \<or> lifecycle m = Lost)"
  unfolding Let_def CLIENT_KEEPALIVE_EVERY_SERVER_MSR_def
    SERVER_MAX_CONSECUTIVE_SERVER_MSR_WITHOUT_CLIENT_MSR_def
  by (rule counters.calls.run_inv) (simp add: new_machine_def)

text \<open>Loss is final.  Once a session is lost, no sequence of calls brings it back, changes what has been
  received or requests anything from the peer.\<close>

theorem lost_is_final:
  assumes "lifecycle m = Lost"
  shows "let m' = fst (run core_step m is) in
    lifecycle m' = Lost \<and> rx_part m' = rx_part m \<and> last_requested_end m' = last_requested_end m"
  unfolding Let_def by (rule lost.calls.run_inv) (simp add: assms)

theorem lost_is_final_witness:
  "lifecycle (fst (run core_step ((new_machine Client 7 default_config)\<lparr>lifecycle := Lost\<rparr>)
      [OnDatagram 1 0 (frame_bytes ServerHello 7 [] []), ApiSend [1]])) = Lost"
  using lost_is_final [of "(new_machine Client 7 default_config)\<lparr>lifecycle := Lost\<rparr>"
      "[OnDatagram 1 0 (frame_bytes ServerHello 7 [] []), ApiSend [1]]"]
  by (simp add: Let_def)

text \<open>The role and the connection identifier never change, and a server never enters the
  reactivation state.\<close>

theorem role_and_cid_fixed:
  "let m = fst (run core_step (new_machine role cid cfg) is) in
     core_role m = role \<and> core_cid m = cid
     \<and> lifecycle m \<in> (case role of Client \<Rightarrow> UNIV | Server \<Rightarrow> {PreHandshake, Established, Lost})"
  using identity.calls.run_inv [of "new_machine role cid cfg" role cid "is"]
    lifecycle_state.exhaust [of "lifecycle (fst (run core_step (new_machine role cid cfg) is))"]
  by (cases role) (auto simp: Let_def new_machine_def)

section \<open>Timers\<close>

lemma server_tick:
  assumes "core_role m = Server" and "lifecycle m = Established" and "unat (server_msr_unanswered m) \<le> 8"
  shows "let m' = fst (core_step m (OnTimer t ServerMsr)) in core_role m' = Server
    \<and> unat (server_msr_unanswered m') = Suc (unat (server_msr_unanswered m))
    \<and> lifecycle m' = (if unat (server_msr_unanswered m) = 8 then Lost else Established)"
  using assms
  by (auto simp: on_timer_def on_timer_server_msr_def Let_def schedule_defs sat_simps word_less_nat_alt
      SERVER_MAX_CONSECUTIVE_SERVER_MSR_WITHOUT_CLIENT_MSR_def)

lemma lost_run: "lifecycle m = Lost \<Longrightarrow> lifecycle (fst (run core_step m is)) = Lost"
  using lost.calls.run_inv [of m "rx_part m" "last_requested_end m"] by simp

lemma run_Cons_fst: "fst (run step s (i # is)) = fst (run step (fst (step s i)) is)"
  by (simp add: case_prod_unfold Let_def)

text \<open>C37: A silent client is given up.  On an established server with \<open>k\<close> unanswered MSR rounds, a sequence of
  MSR timer expiries with no datagram in between loses the session exactly when it has more than
  \<open>8 - k\<close> expiries, whatever their times.\<close>

theorem server_gives_up:
  assumes "core_role m = Server" and "lifecycle m = Established" and "unat (server_msr_unanswered m) \<le> 8"
  shows "lifecycle (fst (run core_step m (map (\<lambda>t. OnTimer t ServerMsr) ts)))
    = (if unat (server_msr_unanswered m) + length ts > 8 then Lost else Established)"
  using assms
proof (induction ts arbitrary: m)
  case Nil
  then show ?case by simp
next
  case (Cons t ts)
  let ?m = "fst (core_step m (OnTimer t ServerMsr))"
  note tick = server_tick [OF Cons.prems, of t, unfolded Let_def]
  have "lifecycle (fst (run core_step ?m (map (\<lambda>t. OnTimer t ServerMsr) ts)))
      = (if unat (server_msr_unanswered m) + length (t # ts) > 8 then Lost else Established)"
  proof (cases "unat (server_msr_unanswered m) = 8")
    case True
    with tick lost_run [of ?m] show ?thesis by simp
  next
    case False
    with tick Cons.IH [of ?m] Cons.prems(3) show ?thesis by simp
  qed
  then show ?case unfolding list.map run_Cons_fst .
qed

theorem server_gives_up_witness:
  "lifecycle (fst (run core_step ((new_machine Server 7 default_config)\<lparr>lifecycle := Established\<rparr>)
      (map (\<lambda>t. OnTimer t ServerMsr) (replicate 9 0)))) = Lost"
  using server_gives_up [of "(new_machine Server 7 default_config)\<lparr>lifecycle := Established\<rparr>" "replicate 9 0"]
  by (simp add: new_machine_def)

text \<open>When a client probes.  With sane timers and the last sign of life of the server at \<open>t\<close>, the probe
  timer at \<open>now\<close> puts an established client into reactivation exactly when more than
  \<^verbatim>\<open>msr_interval_ms * miss_window_count\<close> milliseconds have passed, and re-arms itself in every case.\<close>

theorem client_probe_window:
  assumes "core_role m = Client" and "lifecycle m = Established" and "config_in_bounds (core_cfg m)"
    and "last_server_msr_at_ms m = Some t"
  shows "\<exists>m' out. on_timer m now ClientProbe = (m', Inr out)
    \<and> timer_actions out = [Schedule ClientProbe (now + msr_interval_ms (core_cfg m))]
    \<and> lifecycle m' = (if unat t + unat (msr_interval_ms (core_cfg m)) * unat (miss_window_count (core_cfg m))
        < unat now then Reactivating else Established)"
proof -
  have "unat (msr_interval_ms (core_cfg m)) * unat (miss_window_count (core_cfg m)) \<le> 900000"
    using assms(3) by (auto simp: config_in_bounds_def)
  then show ?thesis
    using assms by (auto simp: on_timer_def on_timer_client_probe_def Let_def word_less_nat_alt sat_simps min_def)
qed

theorem client_probe_window_witness:
  "\<exists>m' out. on_timer ((new_machine Client 7 default_config)\<lparr>lifecycle := Established,
        last_server_msr_at_ms := Some 1000\<rparr>) 46001 ClientProbe = (m', Inr out)
    \<and> lifecycle m' = Reactivating"
  using client_probe_window [of "(new_machine Client 7 default_config)\<lparr>lifecycle := Established,
        last_server_msr_at_ms := Some 1000\<rparr>" 1000 46001]
  by (auto simp: new_machine_def default_config_def config_in_bounds_def)

section \<open>Errors\<close>

text \<open>Results that are not an encoding error.\<close>

definition encodes :: "core_result \<Rightarrow> bool" where
  "encodes r \<longleftrightarrow> (\<forall>w. snd r \<noteq> Inl (CoreWire w))"

lemma encodes_simps [simp]:
  "encodes (m, Inr out)" "encodes (m, Inl e) \<longleftrightarrow> (\<forall>w. e \<noteq> CoreWire w)"
  by (simp_all add: encodes_def)

lemma encodes_and_then:
  "encodes r \<Longrightarrow> (\<And>m out. r = (m, Inr out) \<Longrightarrow> encodes (f m out)) \<Longrightarrow> encodes (and_then r f)"
  by (cases r; cases "snd r") auto

lemma send_fragments_encodes:
  "\<forall>c \<in> set cs. length c \<le> 988 \<Longrightarrow> encodes (send_fragments m path i n k cs out)"
  by (induction cs arbitrary: k out) (auto intro: encodes_and_then)

lemma send_one_message_encodes: "encodes (send_one_message m path i msg out)"
  using chunk_size [of _ 988 msg] by (auto simp: send_one_message_alt intro: send_fragments_encodes)

lemma send_range_encodes: "encodes (send_range m path ids out)"
  by (induction ids arbitrary: m out)
    (auto intro!: encodes_and_then send_one_message_encodes split: option.split)

lemma handle_msr_signal_encodes: "encodes (handle_msr_signal m now path np src out)"
  using handle_msr_signal_result [of m now path np src out] by auto

lemma handle_msr_tlvs_encodes: "encodes (handle_msr_tlvs m path ts out)"
  by (induction ts arbitrary: m out)
    (auto simp: handle_proposal_tlv_def handle_ack_tlv_def Let_def intro!: encodes_and_then split: option.split)

lemma dispatch_frame_encodes: "encodes (dispatch_frame m now path fr out)"
proof (cases "frame_type fr")
  case Data
  then show ?thesis by (auto simp: dispatch_frame_def handle_data_def Let_def case_prod_unfold)
next
  case Fragment
  then show ?thesis
    by (auto simp: dispatch_frame_def handle_fragment_alt Let_def case_prod_unfold split: option.split)
qed (auto simp: dispatch_frame_def handle_msr_def handle_request_range_def schedule_defs schedule_server_timers_def
    Let_def intro!: encodes_and_then handle_msr_tlvs_encodes handle_msr_signal_encodes send_range_encodes
    split: option.split)

text \<open>Which calls can fail.  Timers, handshake start, path changes, sends and close always return \<^verbatim>\<open>Ok\<close>; a
  datagram or a local proposal may be refused, but never because a frame could not be encoded: every
  frame the machine builds is within the wire format's limits.\<close>

theorem failing_calls:
  "case i of
     OnDatagram now path bs \<Rightarrow> \<forall>w. snd (core_step m i) \<noteq> Inl (CoreWire w)
   | ApiProposeTimers now p \<Rightarrow>
       (\<exists>out. snd (core_step m i) = Inr out) = (lifecycle m = Established \<and>
          config_in_bounds (to_config p) \<and> unat (proposal_miss_window_count p) \<le> unat (miss_window_count (core_cfg m)) + 2)
   | _ \<Rightarrow> \<exists>out. snd (core_step m i) = Inr out"
proof (cases i)
  case (OnDatagram now path bs)
  have "encodes (on_datagram m now path bs)"
    by (auto simp: on_datagram_def Let_def intro!: encodes_and_then dispatch_frame_encodes
        handle_msr_signal_encodes split: sum.split option.split)
  then show ?thesis by (simp add: OnDatagram encodes_def)
next
  case (OnTimer now t)
  then show ?thesis
    by (cases t) (auto simp: on_timer_def on_timer_server_msr_def on_timer_client_probe_def
        on_timer_disconnect_def on_timer_renegotiation_def Let_def split: option.split)
next
  case (ApiProposeTimers now p)
  have "validate_timer_proposal (core_cfg m) p = Inr () \<longleftrightarrow> (\<exists>u. validate_timer_proposal (core_cfg m) p = Inr u)"
    by auto
  then show ?thesis
    unfolding ApiProposeTimers core_input.case validate_timer_proposal_cases [symmetric]
    by (auto simp: on_api_propose_timers_def Let_def split: sum.split)
qed (auto simp: begin_handshake_def on_api_send_def on_api_close_def on_path_event_def Let_def
    split: path_event.split)

text \<open>A datagram that is not for this session changes nothing.  If a call with a datagram changes the
  machine at all, the datagram is the encoding of a well-formed frame that carries the machine's
  connection identifier.\<close>

theorem foreign_datagrams_ignored:
  assumes "core_cid m \<noteq> 0" and "fst (on_datagram m now path bs) \<noteq> m"
  shows "\<exists>fr. frame_ok fr \<and> encode fr = Inr bs \<and> frame_cid fr = core_cid m"
proof (cases "decode bs")
  case (Inl e)
  with assms show ?thesis by (simp add: on_datagram_rejected)
next
  case (Inr fr)
  then have "frame_cid fr = core_cid m"
    using assms by (cases "frame_cid fr = core_cid m") (simp_all add: on_datagram_rejected)
  moreover have "frame_ok fr \<and> encode fr = Inr bs"
    using wire.dec_iff [of bs fr] Inr by simp
  ultimately show ?thesis by blast
qed

theorem foreign_datagrams_ignored_witness:
  "\<exists>fr. frame_ok fr \<and> encode fr = Inr (frame_bytes ClientHello 7 [] []) \<and> frame_cid fr = 7"
  using foreign_datagrams_ignored [of "new_machine Server 7 default_config" 0 3 "frame_bytes ClientHello 7 [] []"]
  by (simp add: core_defs)

text \<open>A renegotiation can be committed by a call that fails.  When an MSR frame carries an acceptable timer
  proposal followed by a malformed acknowledgement, the call returns \<^verbatim>\<open>MalformedTimerAck\<close>, so neither the
  acknowledgement datagram nor the \<^verbatim>\<open>TimerRenegotiationCommitted\<close> event reaches the caller, but the new
  configuration is in force.\<close>

theorem commit_without_event:
  assumes "frame_tlvs fr = [encode_timer_proposal_tlv i p, t]"
    and "tlv_kind t = TLV_TIMER_ACK" and "decode_timer_ack_tlv t = None"
    and "decode_msr_payload (frame_payload fr) \<noteq> None"
    and "validate_timer_proposal (core_cfg m) p = Inr ()"
  shows "handle_msr m now path fr out = (m\<lparr>core_cfg := to_config p\<rparr>, Inl MalformedTimerAck)"
proof -
  have "tlv_kind (encode_timer_proposal_tlv i p) = TLV_TIMER_PROPOSAL" "TLV_TIMER_ACK \<noteq> TLV_TIMER_PROPOSAL"
    by (simp_all add: encode_timer_proposal_tlv_def TLV_TIMER_ACK_def TLV_TIMER_PROPOSAL_def)
  then show ?thesis
    using assms by (auto simp: handle_msr_def handle_proposal_tlv_def handle_ack_tlv_def Let_def)
qed

theorem commit_without_event_witness:
  "snd (handle_msr (new_machine Server 7 default_config) 0 0
      (new_frame Msr 0 7 (encode_msr_payload 0 0)
        [encode_timer_proposal_tlv 1 \<lparr>proposal_msr_interval_ms = 20000, proposal_miss_window_count = 3,
           proposal_disconnect_window_ms = 90000\<rparr>, \<lparr>tlv_kind = TLV_TIMER_ACK, tlv_value = []\<rparr>]) empty_output)
    = Inl MalformedTimerAck"
proof -
  have "validate_timer_proposal (core_cfg (new_machine Server 7 default_config))
      \<lparr>proposal_msr_interval_ms = 20000, proposal_miss_window_count = 3, proposal_disconnect_window_ms = 90000\<rparr>
    = Inr ()"
    by (subst validate_timer_proposal_cases)
      (simp add: new_machine_def default_config_def config_in_bounds_def to_config_def)
  from commit_without_event [OF _ _ _ _ this] show ?thesis
    by (simp add: decode_timer_ack_tlv_def)
qed

end
