(* ===== verification/Core_Timers.thy ===== *)
theory Core_Timers
  imports Core_Effects
begin

text \<open>
  The timers a protocol machine asks for: an established or reactivating machine has asked for its probe
  timer and its disconnect timer, and every one of them that fires is asked for again as long as the
  machine stays alive.  The two runtimes rest on these facts.
\<close>

definition alive :: "core_machine \<Rightarrow> bool" where
  "alive m \<longleftrightarrow> lifecycle m = Established \<or> lifecycle m = Reactivating"

definition timer_ids :: "core_output \<Rightarrow> timer_id set" where
  "timer_ids out = {t. \<exists>d. Schedule t d \<in> set (timer_actions out)}"

definition watches :: "role \<Rightarrow> timer_id set" where
  "watches r = (case r of Client \<Rightarrow> {ClientProbe, Disconnect} | Server \<Rightarrow> {ServerMsr, Disconnect})"

definition watched :: "core_machine \<Rightarrow> bool" where
  "watched m \<longleftrightarrow> (alive m \<longrightarrow> disconnect_deadline_ms m \<noteq> None) \<and> (core_role m = Server \<longrightarrow> lifecycle m \<noteq> Reactivating)"

lemma timer_ids_simps [simp]:
  "timer_ids empty_output = {}" "timer_ids (push_event e out) = timer_ids out"
  "timer_ids (push_datagram p bs out) = timer_ids out"
  "timer_ids (push_timer t d out) = insert t (timer_ids out)"
  by (auto simp: timer_ids_def empty_output_def push_event_def push_datagram_def push_timer_def)

lemma effect_watched: "core_effect m es m' \<Longrightarrow> core_role m' = core_role m \<and> (disconnect_deadline_ms m \<noteq> None \<longrightarrow> disconnect_deadline_ms m' \<noteq> None)
   \<and> (core_role m = Server \<and> lifecycle m \<noteq> Reactivating \<longrightarrow> lifecycle m' \<noteq> Reactivating)"
  by (induction rule: core_effect.induct) auto

lemma effects_watched:
  "core_effects m es m' \<Longrightarrow> core_role m' = core_role m \<and> (disconnect_deadline_ms m \<noteq> None \<longrightarrow> disconnect_deadline_ms m' \<noteq> None)
   \<and> (core_role m = Server \<and> lifecycle m \<noteq> Reactivating \<longrightarrow> lifecycle m' \<noteq> Reactivating)"
  by (induction rule: core_effects.induct) (auto dest: effect_watched)

lemma performs_watched:
  assumes "performs m out r"
  shows "core_role (fst r) = core_role m" "disconnect_deadline_ms m \<noteq> None \<Longrightarrow> disconnect_deadline_ms (fst r) \<noteq> None"
    "core_role m = Server \<Longrightarrow> lifecycle m \<noteq> Reactivating \<Longrightarrow> lifecycle (fst r) \<noteq> Reactivating"
  using assms effects_watched [of m _ "fst r"] by (auto simp: performs_def)

lemma effect_cid: "core_effect m es m' \<Longrightarrow> core_cid m' = core_cid m"
  by (induction rule: core_effect.induct) auto

lemma effects_cid: "core_effects m es m' \<Longrightarrow> core_cid m' = core_cid m"
  by (induction rule: core_effects.induct) (auto dest: effect_cid)

lemma core_step_cid: "core_cid (fst (core_step m i)) = core_cid m"
  using core_step_performs [of m i] effects_cid by (auto simp: performs_def)

lemma alive_after_signal [simp]: "alive (after_signal m now np src) = alive m"
  by (auto simp: alive_def after_signal_def Let_def)

lemma role_after_signal [simp]: "core_role (after_signal m now np src) = core_role m"
  by (auto simp: after_signal_def Let_def)

lemma signal_alive:
  "\<exists>m' out'. handle_msr_signal m now path np src out = (m', Inr out') \<and> alive m' = alive m
     \<and> timer_ids out' = timer_ids out"
  using handle_msr_signal_result [of m now path np src out] by (auto simp: timer_ids_def)

lemma signal_alive_fst [simp]: "alive (fst (handle_msr_signal m now path np src out)) = alive m"
  using signal_alive [of m now path np src out] by auto

lemma handle_msr_alive: "alive (fst (handle_msr m now path fr out)) = alive m"
proof -
  have tlvs: "alive (fst (handle_msr_tlvs m path (frame_tlvs fr) out)) = alive m"
  proof -
    have "lifecycle (fst (handle_msr_tlvs m path (frame_tlvs fr) out)) = lifecycle m"
      using handle_msr_tlvs_renegotiates [of m out path "frame_tlvs fr"] unfolding renegotiates_def
      by (elim conjE) (drule arg_cong [of _ _ lifecycle], simp)
    then show ?thesis by (simp add: alive_def)
  qed
  show ?thesis
    using tlvs by (auto simp: handle_msr_def and_then_def split: option.split prod.split sum.split)
qed

lemma dispatch_alive:
  assumes "alive (fst (dispatch_frame m now path fr out))"
  shows "alive m \<or> (\<exists>out'. snd (dispatch_frame m now path fr out) = Inr out' \<and> watches (core_role m) \<subseteq> timer_ids out')"
proof (cases "frame_type fr")
  case Msr
  then show ?thesis using assms handle_msr_alive by (simp add: dispatch_frame_def)
next
  case ClientHello
  then show ?thesis using assms
    by (auto simp: dispatch_frame_def schedule_server_timers_def watches_def split: if_splits)
next
  case HelloAck
  then show ?thesis using assms
    by (auto simp: dispatch_frame_def schedule_server_timers_def watches_def split: if_splits)
next
  case ServerHello
  then show ?thesis using assms
    by (auto simp: dispatch_frame_def schedule_client_timers_def watches_def Let_def split: if_splits)
qed (use assms in \<open>auto simp: dispatch_frame_def alive_def split: if_splits\<close>)

lemma accept_deadline: "disconnect_deadline_ms (accept_datagram m now path) \<noteq> None"
  by (simp add: accept_datagram_def on_valid_peer_datagram_def touch_disconnect_deadline_def)

lemma alive_accept [simp]: "alive (accept_datagram m now path) = alive m"
  by (simp add: alive_def)

text \<open>A call leaves the machine dead, or it was alive before, or the call asks for the timers; and the
  deadline of a living machine is set.\<close>

lemma on_datagram_revives:
  assumes "watched m"
  shows "watched (fst (on_datagram m now path bs)) \<and> (alive (fst (on_datagram m now path bs)) \<longrightarrow> alive m
    \<or> (\<exists>out. snd (on_datagram m now path bs) = Inr out \<and> watches (core_role m) \<subseteq> timer_ids out))"
proof (cases "decode bs")
  case (Inl e)
  then show ?thesis using assms by (simp add: on_datagram_def)
next
  case (Inr fr)
  show ?thesis
  proof (cases "core_cid m \<noteq> 0 \<and> frame_cid fr \<noteq> core_cid m")
    case True
    then show ?thesis using assms Inr by (simp add: on_datagram_def)
  next
    case False
    let ?m1 = "accept_datagram m now path"
    let ?d = "dispatch_frame ?m1 now path fr empty_output"
    let ?f = "\<lambda>m out. if frame_type fr \<noteq> Msr then case find_msr_signal_tlv (frame_tlvs fr) of
        Some (acked, np) \<Rightarrow> handle_msr_signal m now path np PiggybackTlv out | None \<Rightarrow> (m, Inr out)
      else (m, Inr out)"
    have eq: "on_datagram m now path bs = and_then ?d ?f"
      using False by (auto simp: on_datagram_def Inr accept_datagram_def Let_def)
    have f: "\<exists>m' out'. ?f m2 out2 = (m', Inr out') \<and> alive m' = alive m2 \<and> timer_ids out' = timer_ids out2" for m2 out2
      using signal_alive by (auto split: option.split)
    have alive: "alive (fst (and_then ?d ?f)) \<longrightarrow> alive m
      \<or> (\<exists>out. snd (and_then ?d ?f) = Inr out \<and> watches (core_role m) \<subseteq> timer_ids out)"
    proof (cases ?d)
      case (Pair m2 r)
      show ?thesis
      proof (cases r)
        case (Inl e)
        then show ?thesis using dispatch_alive [of ?m1 now path fr empty_output] Pair by auto
      next
        case (Inr out2)
        then show ?thesis using dispatch_alive [of ?m1 now path fr empty_output] Pair f [of m2 out2] by auto
      qed
    qed
    have p: "performs ?m1 empty_output (and_then ?d ?f)"
      by (auto simp: handle_msr_signal_ok intro!: performs_and_then dispatch_frame_performs split: option.split)
    have "watched (fst (and_then ?d ?f))"
      using performs_watched [OF p] accept_deadline assms by (auto simp: watched_def)
    then show ?thesis using alive unfolding eq by blast
  qed
qed

lemma other_revives:
  assumes "watched m" and "\<forall>now path bs. i \<noteq> OnDatagram now path bs"
  shows "watched (fst (core_step m i)) \<and> (alive (fst (core_step m i)) \<longrightarrow> alive m)"
proof -
  have "alive (fst (core_step m i)) \<longrightarrow> alive m"
    using assms(2)
    by (cases i) (auto simp: begin_handshake_def on_timer_def on_timer_server_msr_def on_timer_client_probe_def
        on_timer_disconnect_def on_timer_renegotiation_def on_api_send_def on_api_close_def
        on_api_propose_timers_def on_path_event_def alive_def touch_disconnect_deadline_def Let_def
        split: timer_id.splits option.splits sum.splits path_event.splits if_splits)
  then show ?thesis
    using performs_watched [OF core_step_performs [of m i]] assms(1) by (auto simp: watched_def)
qed

lemma core_step_revives:
  assumes "watched m"
  shows "watched (fst (core_step m i)) \<and> core_role (fst (core_step m i)) = core_role m
    \<and> (alive (fst (core_step m i)) \<longrightarrow> alive m
       \<or> (\<exists>out. snd (core_step m i) = Inr out \<and> watches (core_role m) \<subseteq> timer_ids out))"
proof (cases "\<exists>now path bs. i = OnDatagram now path bs")
  case True
  then obtain now path bs where i: "i = OnDatagram now path bs" by blast
  show ?thesis
    using on_datagram_revives [OF assms, of now path bs] performs_watched(1) [OF core_step_performs [of m i]]
    by (simp only: i core_step.simps) blast
next
  case False
  then show ?thesis
    using other_revives [OF assms, of i] performs_watched(1) [OF core_step_performs [of m i]] by auto
qed

lemma on_timer_ok: "\<exists>m' out. on_timer m now t = (m', Inr out)"
  by (auto simp: on_timer_def on_timer_server_msr_def on_timer_client_probe_def on_timer_disconnect_def
      on_timer_renegotiation_def Let_def split: timer_id.split option.split)

lemma on_timer_rearms:
  assumes "watched m" and "on_timer m now t = (m', Inr out)" and "alive m'" and "t \<in> watches (core_role m)"
  shows "t \<in> timer_ids out"
proof -
  have "alive m" using other_revives [OF assms(1), of "OnTimer now t"] assms(2,3) by auto
  then show ?thesis
    using assms by (auto simp: on_timer_def on_timer_server_msr_def on_timer_client_probe_def on_timer_disconnect_def
      watches_def watched_def alive_def Let_def split: role.splits if_splits)
qed

end
