(* ===== verification/Timers.thy ===== *)
theory Timers
  imports Prelude "HOL-Library.Multiset"
begin

text \<open>
  The timer table of the client and the server runtime: a \<^verbatim>\<open>BTreeMap\<close> from deadlines to lists of entries,
  with the insertions of \<^verbatim>\<open>ingest_timers\<close> (the client's leaves out duplicates), the collection of due
  entries and the removal of one entry in \<^verbatim>\<open>poll_timers\<close>.  The facts proved here relate the table to the
  multiset of its entries.
\<close>

section \<open>Operations\<close>

type_synonym 'a timers = "(u64, 'a list) bmap"

definition slot :: "'a timers \<Rightarrow> u64 \<Rightarrow> 'a list" where
  "slot t d = (case bmap_get t d of None \<Rightarrow> [] | Some xs \<Rightarrow> xs)"

definition timers_push :: "u64 \<Rightarrow> 'a \<Rightarrow> 'a timers \<Rightarrow> 'a timers" where
  "timers_push d x t = bmap_insert d (slot t d @ [x]) t"

definition timers_push_new :: "u64 \<Rightarrow> 'a \<Rightarrow> 'a timers \<Rightarrow> 'a timers" where
  "timers_push_new d x t = bmap_insert d (if x \<in> set (slot t d) then slot t d else slot t d @ [x]) t"

text \<open>\<^verbatim>\<open>list.remove(pos)\<close> at the first position, and the key once its list is empty.\<close>

definition timers_take :: "u64 \<Rightarrow> 'a \<Rightarrow> 'a timers \<Rightarrow> 'a timers" where
  "timers_take d x t =
     (case bmap_get t d of
        None \<Rightarrow> t
      | Some xs \<Rightarrow>
          let xs = remove1 x xs in if xs = [] then bmap_remove d t else bmap_insert d xs t)"

text \<open>The due entries, by deadline and then by age; \<open>left\<close> is \<^verbatim>\<open>limit - due.len()\<close>.\<close>

fun collect_due :: "u64 \<Rightarrow> nat \<Rightarrow> 'a timers \<Rightarrow> (u64 \<times> 'a) list" where
  "collect_due now left [] = []"
| "collect_due now left ((d, xs) # t) =
     (if d > now \<or> left = 0 then []
      else let due = take left xs in map (Pair d) due @ collect_due now (left - length due) t)"

section \<open>The table as a multiset of entries\<close>

definition armed :: "'a timers \<Rightarrow> (u64 \<times> 'a) multiset" where
  "armed t = mset (concat (map (\<lambda>(d, xs). map (Pair d) xs) t))"

definition pending :: "'a timers \<Rightarrow> 'a \<Rightarrow> bool" where
  "pending t x \<longleftrightarrow> (\<exists>d. (d, x) \<in># armed t)"

lemma armed_simps [simp]: "armed [] = {#}" "armed ((d, xs) # t) = mset (map (Pair d) xs) + armed t"
  by (simp_all add: armed_def)

lemma bmap_get_Cons: "bmap_get ((d, xs) # t) k = (if k = d then Some xs else bmap_get t k)"
  by (simp add: bmap_get_def)

declare bmap_ok_Cons [simp]

lemma armed_insert: "bmap_ok t \<Longrightarrow> armed (bmap_insert d xs t) + mset (map (Pair d) (slot t d)) = armed t + mset (map (Pair d) xs)"
proof (induction t)
  case Nil
  then show ?case by (simp add: slot_def)
next
  case (Cons p t)
  obtain k ys where p: "p = (k, ys)" by fastforce
  have "slot t d = []" if "d \<le> k"
    using Cons.prems that by (auto simp: p slot_def bmap_get_def bmap_keys_def split: option.splits dest!: map_of_SomeD)
  then show ?case
    using Cons p by (auto simp: slot_def bmap_get_Cons)
qed

lemma armed_remove: "bmap_ok t \<Longrightarrow> armed (bmap_remove d t) + mset (map (Pair d) (slot t d)) = armed t"
proof (induction t)
  case Nil
  then show ?case by (simp add: slot_def bmap_remove_def)
next
  case (Cons p t)
  obtain k ys where p: "p = (k, ys)" by fastforce
  have "bmap_remove k t = t"
    using Cons.prems by (auto simp: p bmap_remove_def bmap_keys_def filter_id_conv)
  moreover have "slot t k = []"
    using Cons.prems by (auto simp: p slot_def bmap_get_def bmap_keys_def split: option.splits dest!: map_of_SomeD)
  moreover have "bmap_remove d (p # t) = (if k = d then bmap_remove d t else p # bmap_remove d t)"
    by (simp add: bmap_remove_def p)
  ultimately show ?case
    using Cons p by (auto simp: slot_def bmap_get_Cons)
qed

lemma slot_armed: "bmap_ok t \<Longrightarrow> count (armed t) (d, x) = count (mset (slot t d)) x"
proof -
  assume ok: "bmap_ok t"
  have "count (mset (map (Pair d) xs)) (d, x) = count (mset xs) x" for xs
    by (induction xs) auto
  moreover have "count (armed (bmap_remove d t)) (d, x) = 0"
    by (auto simp: armed_def bmap_remove_def count_eq_zero_iff)
  moreover have "count (armed t) (d, x) = count (armed (bmap_remove d t)) (d, x) + count (mset (map (Pair d) (slot t d))) (d, x)"
    using armed_remove [OF ok, of d] by (metis count_union)
  ultimately show ?thesis by simp
qed

lemma slot_iff: "bmap_ok t \<Longrightarrow> x \<in> set (slot t d) \<longleftrightarrow> (d, x) \<in># armed t"
  using slot_armed [of t d x] by (metis count_greater_zero_iff set_mset_mset)

lemma armed_push [simp]: "bmap_ok t \<Longrightarrow> armed (timers_push d x t) = add_mset (d, x) (armed t)"
  using armed_insert [of t d "slot t d @ [x]"] by (simp add: timers_push_def)

lemma armed_push_new [simp]:
  "bmap_ok t \<Longrightarrow> armed (timers_push_new d x t) = (if (d, x) \<in># armed t then armed t else add_mset (d, x) (armed t))"
  using armed_insert [of t d "slot t d @ [x]"] armed_insert [of t d "slot t d"] slot_iff [of t x d]
  by (auto simp: timers_push_new_def)

lemma armed_take [simp]:
  assumes ok: "bmap_ok t"
  shows "armed (timers_take d x t) = armed t - {#(d, x)#}"
proof (cases "bmap_get t d")
  case None
  then have "(d, x) \<notin># armed t" using slot_iff [OF ok, of x d] by (simp add: slot_def)
  then show ?thesis using None by (simp add: timers_take_def diff_single_trivial)
next
  case (Some xs)
  then have s: "slot t d = xs" by (simp add: slot_def)
  let ?M = "mset (map (Pair d) xs)" and ?A = "armed (bmap_remove d t)"
  have split: "armed t = ?A + ?M" using armed_remove [OF ok, of d] s by simp
  have diff: "armed t - {#(d, x)#} = ?A + (?M - {#(d, x)#})"
  proof (cases "(d, x) \<in># ?M")
    case True
    then show ?thesis by (simp add: split)
  next
    case False
    then have "(d, x) \<notin># armed t" using slot_iff [OF ok, of x d] s by auto
    then show ?thesis using False split by (simp add: diff_single_trivial)
  qed
  have m: "mset (map (Pair d) (remove1 x xs)) = ?M - {#(d, x)#}"
    by (induction xs) auto
  show ?thesis
  proof (cases "remove1 x xs = []")
    case True
    then show ?thesis using Some diff m by (simp add: timers_take_def)
  next
    case False
    have "armed (bmap_insert d (remove1 x xs) t) + ?M = ?A + (?M - {#(d, x)#}) + ?M"
      using armed_insert [OF ok, of d "remove1 x xs"] s m split by (simp add: ac_simps)
    then show ?thesis using Some diff False by (simp add: timers_take_def)
  qed
qed

lemma timers_ok [simp]:
  "bmap_ok t \<Longrightarrow> bmap_ok (timers_push d x t)" "bmap_ok t \<Longrightarrow> bmap_ok (timers_push_new d x t)"
  "bmap_ok t \<Longrightarrow> bmap_ok (timers_take d x t)"
  by (simp_all add: timers_push_def timers_push_new_def timers_take_def Let_def split: option.split)

lemma collect_due_take:
  "bmap_ok t \<Longrightarrow> collect_due now n t = take n (filter (\<lambda>e. fst e \<le> now) (concat (map (\<lambda>(d, xs). map (Pair d) xs) t)))"
proof (induction t arbitrary: n)
  case Nil
  then show ?case by simp
next
  case (Cons p t)
  obtain d xs where p: "p = (d, xs)" by fastforce
  have none: "filter (\<lambda>e. fst e \<le> now) (concat (map (\<lambda>(d, xs). map (Pair d) xs) t)) = []" if "now < d"
    using Cons.prems that by (fastforce simp: p filter_empty_conv bmap_keys_def)
  have "filter (\<lambda>e. fst e \<le> now) (map (Pair d) xs) = (if d \<le> now then map (Pair d) xs else [])"
    by (simp add: filter_empty_conv)
  then show ?case using Cons none p by (auto simp: take_map not_less min_def)
qed

lemma pending_push_new [simp]:
  "bmap_ok t \<Longrightarrow> pending (timers_push_new d x t) y \<longleftrightarrow> pending t y \<or> y = x"
  by (auto simp: pending_def)

lemma pending_push [simp]:
  "bmap_ok t \<Longrightarrow> pending (timers_push d x t) y \<longleftrightarrow> pending t y \<or> y = x"
  by (auto simp: pending_def)

lemma pending_take:
  "bmap_ok t \<Longrightarrow> pending t y \<Longrightarrow> y \<noteq> x \<Longrightarrow> pending (timers_take d x t) y"
  by (auto simp: pending_def in_diff_count)

text \<open>How many entries of the table are for \<open>x\<close>.\<close>

definition entries_of :: "'a timers \<Rightarrow> 'a \<Rightarrow> nat" where
  "entries_of t x = size (filter_mset (\<lambda>e. snd e = x) (armed t))"

lemma entries_of_empty [simp]: "entries_of [] x = 0"
  by (simp add: entries_of_def)

lemma entries_of_push [simp]:
  "bmap_ok t \<Longrightarrow> entries_of (timers_push d x t) y = entries_of t y + (if y = x then 1 else 0)"
  by (simp add: entries_of_def)

lemma entries_of_take:
  "bmap_ok t \<Longrightarrow> (d, x) \<in># armed t \<Longrightarrow> entries_of t y = entries_of (timers_take d x t) y + (if y = x then 1 else 0)"
  by (auto simp: entries_of_def dest!: multi_member_split)

lemma entries_of_take_other [simp]:
  "bmap_ok t \<Longrightarrow> y \<noteq> x \<Longrightarrow> entries_of (timers_take d x t) y = entries_of t y"
  by (cases "(d, x) \<in># armed t") (auto simp: entries_of_def diff_single_trivial dest!: multi_member_split)

lemma entries_of_pending: "entries_of t x = 0 \<longleftrightarrow> \<not> pending t x"
proof -
  have "entries_of t x = 0 \<longleftrightarrow> set_mset (filter_mset (\<lambda>e. snd e = x) (armed t)) = {}"
    by (simp add: entries_of_def)
  also have "\<dots> \<longleftrightarrow> (\<forall>e \<in> set_mset (armed t). snd e \<noteq> x)"
    unfolding set_mset_filter by blast
  also have "\<dots> \<longleftrightarrow> \<not> pending t x"
    unfolding pending_def by (metis prod.collapse snd_conv)
  finally show ?thesis .
qed

lemma sorted_entries:
  assumes "bmap_ok t"
  shows "sorted (map fst (concat (map (\<lambda>(d, xs). map (Pair d) xs) t)))"
  using assms
proof (induction t)
  case (Cons p t)
  obtain d xs where p: "p = (d, xs)" by fastforce
  have "sorted (map fst (concat (map (\<lambda>(d, xs). map (Pair d) xs) t)))" using Cons p by simp
  moreover have "sorted (map (\<lambda>_. d) xs)" by (induction xs) auto
  moreover have "d \<le> a" if "(a, b) \<in> set t" for a b
    using Cons.prems that by (force simp: p bmap_keys_def)
  ultimately show ?case by (auto simp: p sorted_append comp_def)
qed simp

text \<open>The collected entries are the first of the due ones: at most \<open>n\<close>, in the order of their deadlines.\<close>

lemma collect_due_split:
  assumes "bmap_ok t"
  shows "\<exists>rest. filter_mset (\<lambda>e. fst e \<le> now) (armed t) = mset (collect_due now n t @ rest)
    \<and> sorted (map fst (collect_due now n t @ rest))
    \<and> length (collect_due now n t) = min n (length (collect_due now n t @ rest))"
proof -
  let ?due = "filter (\<lambda>e. fst e \<le> now) (concat (map (\<lambda>(d, xs). map (Pair d) xs) t))"
  have c: "collect_due now n t @ drop n ?due = ?due" by (simp add: collect_due_take [OF assms])
  show ?thesis
    by (rule exI [of _ "drop n ?due"], unfold c)
      (use sorted_entries [OF assms] in \<open>simp add: armed_def sorted_filter collect_due_take [OF assms] min.commute\<close>)
qed

end
