(* ===== verification/Ice.thy ===== *)
theory Ice
  imports Prelude "HOL-Library.Multiset"
begin

text \<open>
  The connectivity checks of \<^verbatim>\<open>v3-nat/src/lib.rs\<close>: candidates, the checklist of candidate pairs with its
  priorities, nomination, candidate gathering and selection, and the consent timer.  Sums that overflow
  wrap, as in a release build; \<open>priority_overflows\<close> says when the sum of \<^verbatim>\<open>pair_priority\<close> does.
\<close>

section \<open>Candidates\<close>

datatype candidate_type = Host | Srflx | Relay

datatype ip_addr = V4 u8 u8 u8 u8 | V6 bytes

record ice_candidate =
  ic_foundation :: string
  ic_component :: u16
  ic_transport :: string
  ic_priority :: u32
  ic_address :: ip_addr
  ic_port :: u16
  ic_typ :: candidate_type
  ic_related_address :: "ip_addr option"
  ic_related_port :: "u16 option"

datatype candidate_pair_state = Frozen | InProgress | Succeeded | FailedCheck

record candidate_pair =
  local_index :: nat
  remote_index :: nat
  pair_prio :: u64
  nominated :: bool
  pair_state :: candidate_pair_state

record ice_checklist =
  cl_local :: "ice_candidate list"
  cl_remote :: "ice_candidate list"
  cl_pairs :: "candidate_pair list"

section \<open>The checklist\<close>

definition pair_priority :: "u32 \<Rightarrow> u32 \<Rightarrow> u64" where
  "pair_priority l r =
     (let g = ucast (max l r); s = ucast (min l r)
      in push_bit 32 1 * s + 2 * g + (if l > r then 1 else 0))"

definition priority_overflows :: "u32 \<Rightarrow> u32 \<Rightarrow> bool" where
  "priority_overflows l r \<longleftrightarrow>
     2 ^ 32 * unat (min l r) + 2 * unat (max l r) + (if l > r then 1 else 0) \<ge> 2 ^ 64"

definition compatible :: "ice_candidate \<Rightarrow> ice_candidate \<Rightarrow> bool" where
  "compatible l r \<longleftrightarrow> ic_component l = ic_component r \<and> ic_transport l = ic_transport r"

definition pair_of :: "nat \<Rightarrow> ice_candidate \<Rightarrow> nat \<Rightarrow> ice_candidate \<Rightarrow> candidate_pair" where
  "pair_of li l ri r =
     \<lparr>local_index = li, remote_index = ri, pair_prio = pair_priority (ic_priority l) (ic_priority r),
      nominated = False, pair_state = Frozen\<rparr>"

definition form_pairs :: "ice_candidate list \<Rightarrow> ice_candidate list \<Rightarrow> candidate_pair list" where
  "form_pairs ls rs =
     concat (map (\<lambda>(li, l). concat (map (\<lambda>(ri, r). if compatible l r then [pair_of li l ri r] else [])
       (enumerate 0 rs))) (enumerate 0 ls))"

text \<open>The stable sort by descending priority.\<close>

definition checklist_new :: "ice_candidate list \<Rightarrow> ice_candidate list \<Rightarrow> ice_checklist" where
  "checklist_new ls rs =
     \<lparr>cl_local = ls, cl_remote = rs, cl_pairs = sort_key (\<lambda>p. - uint (pair_prio p)) (form_pairs ls rs)\<rparr>"

fun check_first :: "candidate_pair list \<Rightarrow> candidate_pair list \<times> (nat \<times> nat) option" where
  "check_first [] = ([], None)"
| "check_first (p # ps) =
     (if pair_state p = Frozen
      then (p\<lparr>pair_state := InProgress\<rparr> # ps, Some (local_index p, remote_index p))
      else let (ps', r) = check_first ps in (p # ps', r))"

definition next_check :: "ice_checklist \<Rightarrow> ice_checklist \<times> (nat \<times> nat) option" where
  "next_check c = (let (ps, r) = check_first (cl_pairs c) in (c\<lparr>cl_pairs := ps\<rparr>, r))"

fun mark_first :: "nat \<Rightarrow> nat \<Rightarrow> bool \<Rightarrow> candidate_pair list \<Rightarrow> candidate_pair list" where
  "mark_first li ri ok [] = []"
| "mark_first li ri ok (p # ps) =
     (if local_index p = li \<and> remote_index p = ri
      then p\<lparr>pair_state := if ok then Succeeded else FailedCheck\<rparr> # ps
      else p # mark_first li ri ok ps)"

definition mark_check_result :: "ice_checklist \<Rightarrow> nat \<Rightarrow> nat \<Rightarrow> bool \<Rightarrow> ice_checklist" where
  "mark_check_result c li ri ok = c\<lparr>cl_pairs := mark_first li ri ok (cl_pairs c)\<rparr>"

text \<open>\<^verbatim>\<open>max_by\<close> over the succeeded pairs: the index of the last one of the highest priority.\<close>

fun best_from :: "nat \<Rightarrow> (nat \<times> u64) option \<Rightarrow> candidate_pair list \<Rightarrow> nat option" where
  "best_from i best [] = map_option fst best"
| "best_from i best (p # ps) =
     best_from (Suc i)
       (if pair_state p = Succeeded \<and> (case best of None \<Rightarrow> True | Some (_, pr) \<Rightarrow> pr \<le> pair_prio p)
        then Some (i, pair_prio p) else best) ps"

definition nominate_best :: "ice_checklist \<Rightarrow> ice_checklist \<times> candidate_pair option" where
  "nominate_best c =
     (case best_from 0 None (cl_pairs c) of
        None \<Rightarrow> (c, None)
      | Some i \<Rightarrow>
          let p = (cl_pairs c ! i)\<lparr>nominated := True\<rparr> in (c\<lparr>cl_pairs := (cl_pairs c)[i := p]\<rparr>, Some p))"

section \<open>Gathering and selection\<close>

datatype relay_policy = PreferDirect | RelayOnly

fun relay_path_mtu :: "candidate_type \<Rightarrow> nat" where
  "relay_path_mtu Relay = 1200"
| "relay_path_mtu Srflx = 1232"
| "relay_path_mtu Host = 1400"

definition allowed :: "relay_policy \<Rightarrow> ice_candidate \<Rightarrow> bool" where
  "allowed policy c = (case policy of PreferDirect \<Rightarrow> True | RelayOnly \<Rightarrow> ic_typ c = Relay)"

definition select_path_candidates ::
    "ice_candidate list \<Rightarrow> ice_candidate list \<Rightarrow> relay_policy \<Rightarrow> ice_candidate list \<times> ice_candidate list" where
  "select_path_candidates ls rs policy = (filter (allowed policy) ls, filter (allowed policy) rs)"

definition gather_host_candidates :: "(ip_addr \<times> u16) list \<Rightarrow> u16 \<Rightarrow> string \<Rightarrow> ice_candidate list" where
  "gather_host_candidates sockets cid tr =
     map (\<lambda>(idx, (ip, pt)). \<lparr>ic_foundation = ''host-'' @ decimal idx, ic_component = cid, ic_transport = tr,
       ic_priority = saturating_add 100 (word_of_nat idx), ic_address = ip, ic_port = pt, ic_typ = Host,
       ic_related_address = None, ic_related_port = None\<rparr>) (enumerate 0 sockets)"

section \<open>Consent\<close>

record consent_config =
  interval_ms :: u64
  max_missed :: u8

definition consent_config_default :: consent_config where
  "consent_config_default = \<lparr>interval_ms = 15000, max_missed = 3\<rparr>"

record consent_state =
  next_deadline_ms :: u64
  missed_count :: u8

datatype consent_action = SendKeepalive | PathLost | ConsentNoop

record consent_manager =
  cm_cfg :: consent_config
  cm_state :: consent_state

definition consent_new :: "u64 \<Rightarrow> consent_config \<Rightarrow> consent_manager" where
  "consent_new start cfg =
     \<lparr>cm_cfg = cfg, cm_state = \<lparr>next_deadline_ms = saturating_add start (interval_ms cfg), missed_count = 0\<rparr>\<rparr>"

definition consent_on_tick :: "consent_manager \<Rightarrow> u64 \<Rightarrow> consent_manager \<times> consent_action" where
  "consent_on_tick m now =
     (if now < next_deadline_ms (cm_state m) then (m, ConsentNoop)
      else
        let missed = saturating_add (missed_count (cm_state m)) 1;
            m = m\<lparr>cm_state := \<lparr>next_deadline_ms = saturating_add now (interval_ms (cm_cfg m)), missed_count = missed\<rparr>\<rparr>
        in (m, if missed > max_missed (cm_cfg m) then PathLost else SendKeepalive))"

definition consent_on_response :: "consent_manager \<Rightarrow> u64 \<Rightarrow> consent_manager" where
  "consent_on_response m now =
     m\<lparr>cm_state := \<lparr>next_deadline_ms = saturating_add now (interval_ms (cm_cfg m)), missed_count = 0\<rparr>\<rparr>"

section \<open>The pairs of a new checklist\<close>

definition pair_index :: "candidate_pair \<Rightarrow> nat \<times> nat" where
  "pair_index p = (local_index p, remote_index p)"

lemma pair_index_update [simp]:
  "pair_index (p\<lparr>pair_state := st\<rparr>) = pair_index p" "pair_index (p\<lparr>nominated := b\<rparr>) = pair_index p"
  by (simp_all add: pair_index_def)

lemma unat_pair_priority:
  "unat (pair_priority l r) =
     (2 ^ 32 * unat (min l r) + 2 * unat (max l r) + (if l > r then 1 else 0)) mod 2 ^ 64"
proof -
  let ?n = "2 ^ 32 * unat (min l r) + 2 * unat (max l r) + (if l > r then 1 else 0)"
  have "pair_priority l r = word_of_nat ?n"
    by (simp add: pair_priority_def Let_def push_bit_eq_mult)
  then have "unat (pair_priority l r) = ?n mod 2 ^ LENGTH(64)" by (simp only: unat_of_nat)
  then show ?thesis by simp
qed

lemma unat_min_max:
  "unat (min x y) = min (unat x) (unat y)" "unat (max x y) = max (unat x) (unat y)" for x y :: "'a::len word"
  by (auto simp: min_def max_def word_le_nat_alt)

lemma priority_overflows_iff: "priority_overflows l r \<longleftrightarrow> l = - 1 \<and> r = - 1"
proof -
  have "unat l < 2 ^ 32" "unat r < 2 ^ 32" using unat_word_less [of l] unat_word_less [of r] by simp_all
  moreover have "x = - 1 \<longleftrightarrow> unat x = 2 ^ 32 - 1" for x :: u32
    by (simp add: word_unat_eq_iff unat_max_word)
  ultimately show ?thesis
    by (simp add: priority_overflows_def unat_min_max min_def max_def word_less_nat_alt word_le_nat_alt) arith
qed

lemma set_form_pairs:
  "p \<in> set (form_pairs ls rs) \<longleftrightarrow> (\<exists>i j. i < length ls \<and> j < length rs \<and> compatible (ls ! i) (rs ! j)
     \<and> p = pair_of i (ls ! i) j (rs ! j))"
  by (fastforce simp: form_pairs_def in_set_enumerate_eq)

lemma enumerate_concat_distinct:
  assumes "\<And>n i x y. distinct (map g (f n x)) \<and> (i \<noteq> n \<longrightarrow> set (map g (f n x)) \<inter> set (map g (f i y)) = {})"
  shows "distinct (map g (concat (map (\<lambda>(i, x). f i x) (enumerate n xs))))"
proof (induction xs arbitrary: n)
  case Nil
  then show ?case by simp
next
  case (Cons x xs)
  have "set (map g (f n x)) \<inter> set (map g (f i y)) = {}" if "(i, y) \<in> set (enumerate (Suc n) xs)" for i y
    using assms [of n x i y] that by (auto simp: in_set_enumerate_eq)
  then show ?case using assms [of n x] Cons [of "Suc n"] by fastforce
qed

lemma distinct_form_pairs: "distinct (map pair_index (form_pairs ls rs))"
  unfolding form_pairs_def
  by (rule enumerate_concat_distinct, intro conjI, rule enumerate_concat_distinct)
    (auto simp: pair_index_def pair_of_def)

text \<open>C34: the pairs of a new checklist are exactly the pairs of a local and a remote candidate with the same
  component and transport, each once, all frozen, with priority
  \<open>2 ^ 32 * min + 2 * max + (1 if the local one is higher)\<close> modulo \<open>2 ^ 64\<close>, and stand in
  descending order of priority; the sum overflows only when both candidates have the largest priority.\<close>

theorem checklist_exact:
  "let ps = cl_pairs (checklist_new ls rs) in
     sorted_wrt (\<lambda>p q. pair_prio q \<le> pair_prio p) ps \<and> distinct (map pair_index ps)
     \<and> set ps = {pair_of i (ls ! i) j (rs ! j) | i j. i < length ls \<and> j < length rs
         \<and> compatible (ls ! i) (rs ! j)}
     \<and> unat (pair_priority l r) =
         (2 ^ 32 * unat (min l r) + 2 * unat (max l r) + (if l > r then 1 else 0)) mod 2 ^ 64
     \<and> (priority_overflows l r \<longleftrightarrow> l = - 1 \<and> r = - 1)"
proof -
  let ?k = "\<lambda>p. - uint (pair_prio p)" and ?f = "form_pairs ls rs"
  have "sorted_wrt (\<lambda>p q. ?k p \<le> ?k q) (sort_key ?k ?f)"
    by (metis sorted_map sorted_sort_key)
  then have "sorted_wrt (\<lambda>p q. pair_prio q \<le> pair_prio p) (sort_key ?k ?f)"
    by (simp add: word_le_def)
  moreover have "distinct (map pair_index (sort_key ?k ?f))"
    using distinct_form_pairs [of ls rs] by (simp add: distinct_map distinct_sort)
  moreover have "set (sort_key ?k ?f) = {pair_of i (ls ! i) j (rs ! j) | i j. i < length ls \<and> j < length rs
      \<and> compatible (ls ! i) (rs ! j)}"
    unfolding set_sort using set_form_pairs [of _ ls rs] by blast
  ultimately show ?thesis
    by (simp only: checklist_new_def ice_checklist.simps Let_def unat_pair_priority priority_overflows_iff
        simp_thms)
qed

section \<open>Running the checks\<close>

datatype ice_op =
    NextCheck
  | MarkResult nat nat bool
  | Nominate

fun ice_step :: "ice_checklist \<Rightarrow> ice_op \<Rightarrow> ice_checklist \<times> (nat \<times> nat) option" where
  "ice_step c NextCheck = next_check c"
| "ice_step c (MarkResult li ri ok) = (mark_check_result c li ri ok, None)"
| "ice_step c Nominate = (fst (nominate_best c), None)"

fun emitted :: "'a option list \<Rightarrow> 'a list" where
  "emitted [] = []"
| "emitted (None # os) = emitted os"
| "emitted (Some x # os) = x # emitted os"

lemma emitted_append [simp]: "emitted (xs @ ys) = emitted xs @ emitted ys"
  by (induction xs rule: emitted.induct) simp_all

definition frozen_index :: "candidate_pair list \<Rightarrow> (nat \<times> nat) set" where
  "frozen_index ps = pair_index ` {p \<in> set ps. pair_state p = Frozen}"

lemma frozen_index_simps [simp]:
  "frozen_index [] = {}"
  "frozen_index (q # qs) =
     (if pair_state q = Frozen then insert (pair_index q) (frozen_index qs) else frozen_index qs)"
  by (auto simp: frozen_index_def)

lemma check_first_exact:
  "distinct (map pair_index ps) \<Longrightarrow>
   map pair_index (fst (check_first ps)) = map pair_index ps \<and>
   (case snd (check_first ps) of
      None \<Rightarrow> frozen_index ps = {} \<and> fst (check_first ps) = ps
    | Some ij \<Rightarrow> ij \<in> frozen_index ps \<and> frozen_index (fst (check_first ps)) = frozen_index ps - {ij})"
proof (induction ps)
  case Nil
  then show ?case by simp
next
  case (Cons p ps)
  have sub: "frozen_index ps \<subseteq> set (map pair_index ps)" by (auto simp: frozen_index_def)
  show ?case
  proof (cases "pair_state p = Frozen")
    case True
    then show ?thesis using Cons.prems sub by (auto simp: pair_index_def)
  next
    case False
    then show ?thesis using Cons by (auto simp: case_prod_unfold Let_def split: option.splits)
  qed
qed

lemma mark_first_index [simp]: "map pair_index (mark_first li ri ok ps) = map pair_index ps"
  by (induction ps) auto

lemma mark_first_frozen: "frozen_index (mark_first li ri ok ps) \<subseteq> frozen_index ps"
  by (induction ps) auto

lemma best_step:
  fixes x y pr :: "'a::linorder"
  assumes "best = Some (i0, pr)" and "x \<le> pr"
  shows "\<exists>i1 pr1. (if st \<and> (case best of None \<Rightarrow> True | Some (_, pr) \<Rightarrow> pr \<le> y) then Some (n, y) else best)
    = Some (i1, pr1) \<and> x \<le> pr1"
proof (cases "st \<and> pr \<le> y")
  case True
  then have "x \<le> y" using assms(2) order_trans by blast
  then show ?thesis using assms(1) True by simp
next
  case False
  then have "(if st \<and> (case best of None \<Rightarrow> True | Some (_, pr) \<Rightarrow> pr \<le> y) then Some (n, y) else best) = best"
    using assms(1) by auto
  then show ?thesis using assms by blast
qed

lemma nominate_some:
  assumes "best_from 0 None (cl_pairs c) = Some i"
  shows "nominate_best c = (c\<lparr>cl_pairs := (cl_pairs c)[i := (cl_pairs c ! i)\<lparr>nominated := True\<rparr>]\<rparr>,
      Some ((cl_pairs c ! i)\<lparr>nominated := True\<rparr>))"
  using assms by (simp add: nominate_best_def Let_def)

lemma best_from_exact:
  assumes "\<And>i0 pr. best = Some (i0, pr) \<Longrightarrow> i0 < length qs \<and> pair_state (qs ! i0) = Succeeded
      \<and> pair_prio (qs ! i0) = pr"
    and "\<And>q. q \<in> set qs \<Longrightarrow> pair_state q = Succeeded \<Longrightarrow> \<exists>i0 pr. best = Some (i0, pr) \<and> pair_prio q \<le> pr"
  shows "case best_from (length qs) best ps of
      None \<Rightarrow> \<forall>p \<in> set (qs @ ps). pair_state p \<noteq> Succeeded
    | Some i \<Rightarrow> i < length (qs @ ps) \<and> pair_state ((qs @ ps) ! i) = Succeeded
        \<and> (\<forall>p \<in> set (qs @ ps). pair_state p = Succeeded \<longrightarrow> pair_prio p \<le> pair_prio ((qs @ ps) ! i))"
  using assms
proof (induction ps arbitrary: qs best)
  case Nil
  then show ?case by (cases best) fastforce+
next
  case (Cons p ps)
  let ?best = "if pair_state p = Succeeded \<and> (case best of None \<Rightarrow> True | Some (_, pr) \<Rightarrow> pr \<le> pair_prio p)
        then Some (length qs, pair_prio p) else best"
  have a: "i0 < length (qs @ [p]) \<and> pair_state ((qs @ [p]) ! i0) = Succeeded \<and> pair_prio ((qs @ [p]) ! i0) = pr"
    if "?best = Some (i0, pr)" for i0 pr
    using that Cons.prems(1) by (auto simp: nth_append split: if_splits)
  have b: "\<exists>i0 pr. ?best = Some (i0, pr) \<and> pair_prio q \<le> pr"
    if q: "q \<in> set (qs @ [p])" "pair_state q = Succeeded" for q
  proof (cases "q = p")
    case True
    then show ?thesis using q(2) by (cases best) auto
  next
    case False
    then obtain i0 pr where "best = Some (i0, pr)" "pair_prio q \<le> pr" using q Cons.prems(2) [of q] by auto
    then show ?thesis by (rule best_step)
  qed
  from Cons.IH [where qs = "qs @ [p]" and best = ?best, OF a b] show ?case
    by (simp only: best_from.simps length_append_singleton append_assoc append_Cons append_Nil)
qed

lemma best_exact:
  "case best_from 0 None ps of
     None \<Rightarrow> \<forall>p \<in> set ps. pair_state p \<noteq> Succeeded
   | Some i \<Rightarrow> i < length ps \<and> pair_state (ps ! i) = Succeeded
       \<and> (\<forall>p \<in> set ps. pair_state p = Succeeded \<longrightarrow> pair_prio p \<le> pair_prio (ps ! i))"
  by (rule best_from_exact [where qs = "[]" and best = None and ps = ps, unfolded list.size append_Nil]) simp_all

text \<open>\<^verbatim>\<open>nominate_best\<close> fails only when no pair has succeeded; otherwise it marks and returns a succeeded
  pair of the highest priority among the succeeded ones, and changes no other pair, so a pair nominated
  earlier stays nominated.\<close>

theorem nominate_best_exact:
  "case nominate_best c of
     (c', None) \<Rightarrow> c' = c \<and> (\<forall>p \<in> set (cl_pairs c). pair_state p \<noteq> Succeeded)
   | (c', Some p) \<Rightarrow> \<exists>i < length (cl_pairs c). p = (cl_pairs c ! i)\<lparr>nominated := True\<rparr>
       \<and> cl_pairs c' = (cl_pairs c)[i := p] \<and> pair_state p = Succeeded
       \<and> (\<forall>q \<in> set (cl_pairs c). pair_state q = Succeeded \<longrightarrow> pair_prio q \<le> pair_prio p)"
proof (cases "best_from 0 None (cl_pairs c)")
  case None
  then show ?thesis using best_exact [of "cl_pairs c"] by (simp add: nominate_best_def)
next
  case (Some i)
  have best: "i < length (cl_pairs c) \<and> pair_state (cl_pairs c ! i) = Succeeded
    \<and> (\<forall>q \<in> set (cl_pairs c). pair_state q = Succeeded \<longrightarrow> pair_prio q \<le> pair_prio (cl_pairs c ! i))"
    using best_exact [of "cl_pairs c"] unfolding Some option.case .
  show ?thesis
    unfolding nominate_some [OF Some] prod.case option.case
    by (intro exI [of _ i] conjI) (use best in simp_all)
qed

lemma frozen_index_map:
  "frozen_index ps = fst ` {x \<in> set (map (\<lambda>p. (pair_index p, pair_state p)) ps). snd x = Frozen}"
  "map pair_index ps = map fst (map (\<lambda>p. (pair_index p, pair_state p)) ps)"
  by (force simp: frozen_index_def) simp

lemma frozen_index_cong:
  assumes "map (\<lambda>p. (pair_index p, pair_state p)) ps = map (\<lambda>p. (pair_index p, pair_state p)) qs"
  shows "frozen_index ps = frozen_index qs \<and> map pair_index ps = map pair_index qs"
  by (simp only: frozen_index_map [of ps] frozen_index_map [of qs] assms simp_thms)

lemma frozen_index_nominated:
  "frozen_index (cl_pairs (fst (nominate_best c))) = frozen_index (cl_pairs c)
   \<and> map pair_index (cl_pairs (fst (nominate_best c))) = map pair_index (cl_pairs c)"
proof (cases "best_from 0 None (cl_pairs c)")
  case None
  then show ?thesis by (simp add: nominate_best_def)
next
  case (Some i)
  let ?f = "\<lambda>p. (pair_index p, pair_state p)"
  have "?f ((cl_pairs c ! i)\<lparr>nominated := True\<rparr>) = ?f (cl_pairs c ! i)" by simp
  then have "map ?f ((cl_pairs c)[i := (cl_pairs c ! i)\<lparr>nominated := True\<rparr>])
      = map ?f ((cl_pairs c)[i := cl_pairs c ! i])"
    by (simp only: map_update)
  then have "map ?f ((cl_pairs c)[i := (cl_pairs c ! i)\<lparr>nominated := True\<rparr>]) = map ?f (cl_pairs c)"
    by (simp only: list_update_id)
  from frozen_index_cong [OF this] show ?thesis using Some by (simp add: nominate_best_def Let_def)
qed

text \<open>What has been checked so far is distinct and no longer frozen.\<close>

definition checks_ok :: "nat \<Rightarrow> ice_checklist \<Rightarrow> (nat \<times> nat) option list \<Rightarrow> bool" where
  "checks_ok n c os \<longleftrightarrow> distinct (map pair_index (cl_pairs c)) \<and> distinct (emitted os)
     \<and> set (emitted os) \<inter> frozen_index (cl_pairs c) = {}"

interpretation checks: trace_invariant ice_step "\<lambda>_. True" checks_ok bound for bound
proof
  fix op n c os
  assume ok: "checks_ok n c os"
  show "checks_ok (Suc n) (fst (ice_step c op)) (os @ [snd (ice_step c op)])"
  proof (cases op)
    case NextCheck
    then show ?thesis
      using ok check_first_exact [of "cl_pairs c"]
      by (auto simp: checks_ok_def next_check_def case_prod_unfold Let_def split: option.splits)
  next
    case (MarkResult li ri b)
    then show ?thesis
      using ok mark_first_frozen [of li ri b "cl_pairs c"]
      by (auto simp: checks_ok_def mark_check_result_def)
  next
    case Nominate
    then show ?thesis
      using ok frozen_index_nominated [of c] by (auto simp: checks_ok_def)
  qed
qed

lemma checks_run: "checks_ok n c [] \<Longrightarrow> checks_ok (n + length ops) (fst (run ice_step c ops)) (snd (run ice_step c ops))"
  using checks.run_trace [of n c "[]" ops "n + length ops"] by simp

lemma check_all:
  "distinct (map pair_index ps) \<Longrightarrow> \<forall>q \<in> set qs. pair_state q \<noteq> Frozen \<Longrightarrow> \<forall>p \<in> set ps. pair_state p = Frozen \<Longrightarrow>
   cl_pairs c = qs @ ps \<Longrightarrow>
   snd (run ice_step c (replicate (length ps) NextCheck)) = map (Some \<circ> pair_index) ps"
proof (induction ps arbitrary: qs c)
  case Nil
  then show ?case by simp
next
  case (Cons p ps)
  have first: "check_first (qs @ p # ps) = (qs @ p\<lparr>pair_state := InProgress\<rparr> # ps, Some (pair_index p))"
    using Cons.prems(2,3) by (induction qs) (auto simp: pair_index_def)
  have "snd (run ice_step (c\<lparr>cl_pairs := qs @ p\<lparr>pair_state := InProgress\<rparr> # ps\<rparr>) (replicate (length ps) NextCheck))
      = map (Some \<circ> pair_index) ps"
    by (rule Cons.IH [of "qs @ [p\<lparr>pair_state := InProgress\<rparr>]"]) (use Cons.prems in auto)
  then show ?case using first Cons.prems(4) by (simp add: next_check_def case_prod_unfold Let_def)
qed

text \<open>C35: over any interleaving of checks, reported results (also for pairs never checked) and nominations no
  pair is handed out for checking twice; and calling \<^verbatim>\<open>next_check\<close> as often as there are pairs hands out
  all of them, in the order of the list.\<close>

theorem checks_exact:
  "distinct (emitted (snd (run ice_step (checklist_new ls rs) ops)))
   \<and> (let ps = cl_pairs (checklist_new ls rs) in
      snd (run ice_step (checklist_new ls rs) (replicate (length ps) NextCheck)) = map (Some \<circ> pair_index) ps)"
proof -
  have d: "distinct (map pair_index (cl_pairs (checklist_new ls rs)))"
    using distinct_form_pairs [of ls rs] by (simp add: checklist_new_def distinct_map distinct_sort)
  then have "checks_ok 0 (checklist_new ls rs) []" by (simp add: checks_ok_def)
  then have "distinct (emitted (snd (run ice_step (checklist_new ls rs) ops)))"
    using checks_run [of 0 "checklist_new ls rs" ops] by (simp add: checks_ok_def)
  moreover have "\<forall>p \<in> set (cl_pairs (checklist_new ls rs)). pair_state p = Frozen"
    by (auto simp: checklist_new_def set_form_pairs pair_of_def)
  ultimately show ?thesis using check_all [OF d, of "[]"] by simp
qed

definition sample_pair :: "nat \<Rightarrow> u64 \<Rightarrow> candidate_pair_state \<Rightarrow> candidate_pair" where
  "sample_pair i pr st =
     \<lparr>local_index = i, remote_index = 0, pair_prio = pr, nominated = False, pair_state = st\<rparr>"

theorem nominate_best_exact_witness:
  "let c = \<lparr>cl_local = [], cl_remote = [], cl_pairs = [sample_pair 0 9 FailedCheck, sample_pair 1 5 Succeeded]\<rparr>;
       p = (sample_pair 1 5 Succeeded)\<lparr>nominated := True\<rparr>
   in snd (nominate_best c) = Some p \<and> (\<forall>q \<in> set (cl_pairs c). pair_state q = Succeeded \<longrightarrow> pair_prio q \<le> pair_prio p)"
proof -
  let ?c = "\<lparr>cl_local = [], cl_remote = [], cl_pairs = [sample_pair 0 9 FailedCheck, sample_pair 1 5 Succeeded]\<rparr>"
  let ?p = "(sample_pair 1 5 Succeeded)\<lparr>nominated := True\<rparr>"
  have n: "nominate_best ?c = (?c\<lparr>cl_pairs := [sample_pair 0 9 FailedCheck, ?p]\<rparr>, Some ?p)"
    by (simp add: nominate_best_def sample_pair_def Let_def)
  have "\<forall>q \<in> set (cl_pairs ?c). pair_state q = Succeeded \<longrightarrow> pair_prio q \<le> pair_prio ?p"
    using nominate_best_exact [of ?c] unfolding n prod.case option.case by (elim exE conjE)
  then show ?thesis unfolding Let_def n by simp
qed

section \<open>Relayed paths\<close>

text \<open>Under the relay-only policy every pair of the checklist formed from the selected candidates joins two
  relay candidates of the original lists, and no compatible pair of relay candidates is lost.\<close>

theorem relay_only_pairs:
  "let (ls', rs') = select_path_candidates ls rs RelayOnly in
     {(ls' ! local_index p, rs' ! remote_index p) | p. p \<in> set (cl_pairs (checklist_new ls' rs'))}
     = {(l, r) | l r. l \<in> set ls \<and> r \<in> set rs \<and> ic_typ l = Relay \<and> ic_typ r = Relay \<and> compatible l r}"
proof -
  have *: "(\<exists>p. p \<in> set (cl_pairs (checklist_new xs ys)) \<and> l = xs ! local_index p \<and> r = ys ! remote_index p)
      \<longleftrightarrow> l \<in> set xs \<and> r \<in> set ys \<and> compatible l r" (is "?L = ?R") for xs ys l r
  proof
    show "?L \<Longrightarrow> ?R" by (auto simp: checklist_new_def set_form_pairs pair_of_def)
    assume ?R
    then obtain i j where "i < length xs" "j < length ys" "l = xs ! i" "r = ys ! j"
      by (auto simp: in_set_conv_nth)
    with \<open>?R\<close> show ?L
      by (intro exI [of _ "pair_of i l j r"]) (auto simp: checklist_new_def set_form_pairs pair_of_def)
  qed
  have "{(xs ! local_index p, ys ! remote_index p) | p. p \<in> set (cl_pairs (checklist_new xs ys))}
      = {(l, r) | l r. l \<in> set xs \<and> r \<in> set ys \<and> compatible l r}" for xs ys
    unfolding * [symmetric] by blast
  then show ?thesis
    by (simp add: select_path_candidates_def allowed_def conj_ac)
qed

section \<open>Consent\<close>

datatype consent_op = Tick u64 | Response u64

fun consent_step :: "consent_manager \<Rightarrow> consent_op \<Rightarrow> consent_manager \<times> consent_action option" where
  "consent_step m (Tick now) = map_prod id Some (consent_on_tick m now)"
| "consent_step m (Response now) = (consent_on_response m now, None)"

text \<open>The specification counts the missed deadlines since the last response without bound.\<close>

fun consent_spec :: "consent_config \<Rightarrow> u64 \<Rightarrow> nat \<Rightarrow> consent_op list \<Rightarrow> consent_action option list" where
  "consent_spec cfg deadline n [] = []"
| "consent_spec cfg deadline n (Response now # ops) =
     None # consent_spec cfg (saturating_add now (interval_ms cfg)) 0 ops"
| "consent_spec cfg deadline n (Tick now # ops) =
     (if now < deadline then Some ConsentNoop # consent_spec cfg deadline n ops
      else Some (if n < unat (max_missed cfg) then SendKeepalive else PathLost)
        # consent_spec cfg (saturating_add now (interval_ms cfg)) (Suc n) ops)"

definition manager :: "consent_config \<Rightarrow> u64 \<Rightarrow> nat \<Rightarrow> consent_manager" where
  "manager cfg deadline n =
     \<lparr>cm_cfg = cfg, cm_state = \<lparr>next_deadline_ms = deadline, missed_count = word_of_nat (min n 255)\<rparr>\<rparr>"

lemma missed_count_Suc:
  "saturating_add (word_of_nat (min n 255)) 1 = (word_of_nat (min (Suc n) 255) :: u8)"
  by (simp add: word_unat_eq_iff sat_simps unat_of_nat min_def)

lemma missed_count_less:
  "w \<noteq> - 1 \<Longrightarrow> w < word_of_nat (min (Suc n) 255) \<longleftrightarrow> \<not> n < unat w" for w :: u8
  using unat_byte_less [of w] by (auto simp: word_less_nat_alt unat_of_nat word_unat_eq_iff unat_max_word min_def)

lemma consent_run:
  "max_missed cfg \<noteq> - 1 \<Longrightarrow>
   snd (run consent_step (manager cfg deadline n) ops) = consent_spec cfg deadline n ops"
proof (induction cfg deadline n ops rule: consent_spec.induct)
  case (1 cfg deadline n)
  then show ?case by simp
next
  case (2 cfg deadline n now ops)
  have "consent_on_response (manager cfg deadline n) now = manager cfg (saturating_add now (interval_ms cfg)) 0"
    by (simp add: manager_def consent_on_response_def)
  then show ?case using 2 by (simp add: case_prod_unfold Let_def)
next
  case (3 cfg deadline n now ops)
  have "consent_on_tick (manager cfg deadline n) now =
      (if now < deadline then (manager cfg deadline n, ConsentNoop)
       else (manager cfg (saturating_add now (interval_ms cfg)) (Suc n),
         if n < unat (max_missed cfg) then SendKeepalive else PathLost))"
    using missed_count_less [OF 3(3), of n]
    by (simp add: manager_def consent_on_tick_def missed_count_Suc Let_def)
  then show ?case using 3 by (simp add: case_prod_unfold Let_def)
qed

text \<open>Over any sequence of ticks and responses the consent timer answers as the specification that counts
  missed deadlines without bound: nothing before the deadline, a keepalive for the first \<open>max_missed\<close>
  deadlines missed in a row, path lost for every further one, and a response starts over.  The
  hypothesis excludes \<open>max_missed = 255\<close>, where the saturating counter never exceeds the limit.\<close>

theorem consent_exact:
  assumes "max_missed cfg \<noteq> 255"
  shows "snd (run consent_step (consent_new start cfg) ops)
    = consent_spec cfg (saturating_add start (interval_ms cfg)) 0 ops"
proof -
  have "(255 :: u8) = - 1" by simp
  moreover have "consent_new start cfg = manager cfg (saturating_add start (interval_ms cfg)) 0"
    by (simp add: consent_new_def manager_def)
  ultimately show ?thesis using consent_run assms by metis
qed

theorem consent_exact_witness:
  "snd (run consent_step (consent_new 0 \<lparr>interval_ms = 10, max_missed = 1\<rparr>)
     [Tick 5, Tick 10, Tick 25, Response 30, Tick 40])
   = [Some ConsentNoop, Some SendKeepalive, Some PathLost, None, Some SendKeepalive]"
  by (subst consent_exact) (simp_all add: saturating_add_def)

lemma consent_255_never_lost:
  "max_missed (cm_cfg m) = - 1 \<Longrightarrow> Some PathLost \<notin> set (snd (run consent_step m ops))"
proof (induction ops arbitrary: m)
  case Nil
  then show ?case by simp
next
  case (Cons op ops)
  have "max_missed (cm_cfg (fst (consent_step m op))) = - 1 \<and> snd (consent_step m op) \<noteq> Some PathLost"
    using Cons.prems by (cases op) (auto simp: consent_on_tick_def consent_on_response_def Let_def)
  then show ?case using Cons.IH by (auto simp: case_prod_unfold Let_def)
qed

end
