(* ===== verification/Stun_Turn.thy ===== *)
theory Stun_Turn
  imports Ice "HOL-Library.Monad_Syntax"
begin

unbundle bit_operations_syntax

text \<open>
  The STUN messages and the TURN allocation manager of \<^verbatim>\<open>v3-nat/src/lib.rs\<close>.  The parser indexes into the
  packet, so every read is an \<open>option\<close> here: \<open>None\<close> is the panic of an index out of range.
\<close>

section \<open>STUN messages\<close>

definition STUN_MAGIC_COOKIE :: u32 where
  "STUN_MAGIC_COOKIE = 0x2112A442"

datatype nat_error = InvalidStunPacket | UnsupportedStunFamily

definition stun_build_binding_request :: "bytes \<Rightarrow> bytes" where
  "stun_build_binding_request tx_id = [0, 1, 0, 0] @ to_be_bytes 4 STUN_MAGIC_COOKIE @ tx_id"

definition bytes_at :: "bytes \<Rightarrow> nat \<Rightarrow> nat \<Rightarrow> bytes option" where
  "bytes_at xs i n = (if i + n \<le> length xs then Some (take n (drop i xs)) else None)"

type_synonym stun_result = "nat_error + (ip_addr \<times> u16) \<times> bytes"

text \<open>The address in the attribute whose value starts at \<open>pos\<close>.\<close>

definition xor_mapped_address :: "bytes \<Rightarrow> bytes \<Rightarrow> nat \<Rightarrow> stun_result option" where
  "xor_mapped_address packet tx_id pos = do {
     family \<leftarrow> bytes_at packet (pos + 1) 1;
     if family \<noteq> [1] then Some (Inl UnsupportedStunFamily)
     else do {
       x_port \<leftarrow> bytes_at packet (pos + 2) 2;
       x_addr \<leftarrow> bytes_at packet (pos + 4) 4;
       let xport = from_be_bytes x_port XOR (ucast (drop_bit 16 STUN_MAGIC_COOKIE) :: u16);
           addr = map2 (XOR) x_addr (to_be_bytes 4 STUN_MAGIC_COOKIE)
       in Some (Inr ((V4 (addr ! 0) (addr ! 1) (addr ! 2) (addr ! 3), xport), tx_id))
     }
   }"

text \<open>The attribute loop; \<^verbatim>\<open>(attr_len + 3) & !3\<close> is the next multiple of 4.\<close>

function stun_attrs :: "bytes \<Rightarrow> bytes \<Rightarrow> nat \<Rightarrow> stun_result option" where
  "stun_attrs packet tx_id pos =
     (if pos + 4 \<le> length packet then do {
        t \<leftarrow> bytes_at packet pos 2;
        l \<leftarrow> bytes_at packet (pos + 2) 2;
        let attr_len = unat (from_be_bytes l :: u16) in
        if pos + 4 + attr_len > length packet then Some (Inl InvalidStunPacket)
        else if (from_be_bytes t :: u16) = 0x0020 then
          (if attr_len < 8 then Some (Inl InvalidStunPacket)
           else xor_mapped_address packet tx_id (pos + 4))
        else stun_attrs packet tx_id (pos + 4 + (attr_len + 3) div 4 * 4)
      }
      else Some (Inl InvalidStunPacket))"
  by pat_completeness auto
termination
  by (relation "measure (\<lambda>(packet, _, pos). length packet - pos)") auto

declare stun_attrs.simps [simp del]

definition stun_parse_binding_success :: "bytes \<Rightarrow> stun_result option" where
  "stun_parse_binding_success packet =
     (if length packet < 20 then Some (Inl InvalidStunPacket)
      else do {
        kind \<leftarrow> bytes_at packet 0 2;
        if kind \<noteq> [1, 1] then Some (Inl InvalidStunPacket)
        else do {
          l \<leftarrow> bytes_at packet 2 2;
          if length packet < 20 + unat (from_be_bytes l :: u16) then Some (Inl InvalidStunPacket)
          else do {
            cookie \<leftarrow> bytes_at packet 4 4;
            if from_be_bytes cookie \<noteq> STUN_MAGIC_COOKIE then Some (Inl InvalidStunPacket)
            else do {
              tx_id \<leftarrow> bytes_at packet 8 12;
              stun_attrs packet tx_id 20
            }
          }
        }
      })"

section \<open>TURN\<close>

datatype turn_auth_mode = LongTerm | RestSecret

datatype turn_state = Idle | Allocating | Allocated | TurnFailed

datatype turn_event =
    AllocationOk u32
  | PermissionOk
  | ChannelBindOk
  | Unauthorized
  | StaleNonce
  | TransportFailure

datatype turn_action =
    SendAllocate
  | SendAllocateWithAuth
  | SendRefresh
  | SendCreatePermission
  | SendChannelBind
  | RetryAfter u64
  | MarkFailed
  | TurnNoop

record turn_config =
  auth_mode :: turn_auth_mode
  refresh_before_expiry_secs :: u32
  retry_backoff_ms :: u64
  permission_refresh_ms :: u64
  channel_refresh_ms :: u64
  tc_relay_policy :: relay_policy

definition turn_config_default :: turn_config where
  "turn_config_default = \<lparr>auth_mode = RestSecret, refresh_before_expiry_secs = 60, retry_backoff_ms = 1000,
     permission_refresh_ms = 240000, channel_refresh_ms = 540000, tc_relay_policy = PreferDirect\<rparr>"

record turn_manager =
  tm_state :: turn_state
  allocation_expiry_ms :: "u64 option"
  permission_expiry_ms :: "u64 option"
  channel_expiry_ms :: "u64 option"
  retries :: u32
  tm_cfg :: turn_config

definition turn_new :: "turn_config \<Rightarrow> turn_manager" where
  "turn_new cfg = \<lparr>tm_state = Idle, allocation_expiry_ms = None, permission_expiry_ms = None,
     channel_expiry_ms = None, retries = 0, tm_cfg = cfg\<rparr>"

definition start_allocate :: "turn_manager \<Rightarrow> turn_manager \<times> turn_action" where
  "start_allocate m = (m\<lparr>tm_state := Allocating\<rparr>, SendAllocate)"

definition due :: "u64 \<Rightarrow> u64 option \<Rightarrow> bool" where
  "due now t = (case t of None \<Rightarrow> False | Some v \<Rightarrow> now \<ge> v)"

definition refresh_at :: "turn_manager \<Rightarrow> u64 option" where
  "refresh_at m = map_option
     (\<lambda>expiry. saturating_sub expiry (ucast (refresh_before_expiry_secs (tm_cfg m)) * 1000))
     (allocation_expiry_ms m)"

definition turn_on_tick :: "turn_manager \<Rightarrow> u64 \<Rightarrow> turn_action" where
  "turn_on_tick m now =
     (if tm_state m \<noteq> Allocated then TurnNoop
      else if due now (refresh_at m) then SendRefresh
      else if due now (permission_expiry_ms m) then SendCreatePermission
      else if due now (channel_expiry_ms m) then SendChannelBind
      else TurnNoop)"

fun turn_on_event :: "turn_manager \<Rightarrow> u64 \<Rightarrow> turn_event \<Rightarrow> turn_manager \<times> turn_action" where
  "turn_on_event m now (AllocationOk lifetime_secs) =
     (m\<lparr>tm_state := Allocated, retries := 0,
        allocation_expiry_ms := Some (saturating_add now (ucast lifetime_secs * 1000)),
        permission_expiry_ms := Some (saturating_add now (permission_refresh_ms (tm_cfg m))),
        channel_expiry_ms := Some (saturating_add now (channel_refresh_ms (tm_cfg m)))\<rparr>,
      SendCreatePermission)"
| "turn_on_event m now PermissionOk =
     (m\<lparr>permission_expiry_ms := Some (saturating_add now (permission_refresh_ms (tm_cfg m)))\<rparr>, SendChannelBind)"
| "turn_on_event m now ChannelBindOk =
     (m\<lparr>channel_expiry_ms := Some (saturating_add now (channel_refresh_ms (tm_cfg m)))\<rparr>, TurnNoop)"
| "turn_on_event m now Unauthorized = (m, SendAllocateWithAuth)"
| "turn_on_event m now StaleNonce = (m, SendAllocateWithAuth)"
| "turn_on_event m now TransportFailure =
     (let n = saturating_add (retries m) 1; m = m\<lparr>retries := n\<rparr> in
      if n > 5 then (m\<lparr>tm_state := TurnFailed\<rparr>, MarkFailed)
      else (m, RetryAfter (saturating_mul (retry_backoff_ms (tm_cfg m)) (push_bit (unat (n - 1)) 1))))"

definition tune_turn_refresh_for_disconnect_window :: "turn_config \<Rightarrow> u64 \<Rightarrow> turn_config" where
  "tune_turn_refresh_for_disconnect_window cfg disconnect_window_ms =
     (let guard_ms = disconnect_window_ms div 10;
          target_ms = max (saturating_sub disconnect_window_ms guard_ms) 30000
      in cfg\<lparr>permission_refresh_ms := min (permission_refresh_ms cfg) target_ms,
             channel_refresh_ms := min (channel_refresh_ms cfg) target_ms\<rparr>)"

section \<open>The parser\<close>

lemma bytes_at_Some [simp]: "i + n \<le> length xs \<Longrightarrow> bytes_at xs i n = Some (take n (drop i xs))"
  by (simp add: bytes_at_def)

lemma xor_mapped_total: "pos + 8 \<le> length packet \<Longrightarrow> xor_mapped_address packet tx pos \<noteq> None"
  by (auto simp: xor_mapped_address_def Let_def)

lemma stun_attrs_total: "stun_attrs packet tx pos \<noteq> None"
proof (induction packet tx pos rule: stun_attrs.induct)
  case (1 packet tx pos)
  then show ?case
    using xor_mapped_total [of "pos + 4" packet tx]
    by (subst stun_attrs.simps) (auto simp: Let_def not_less)
qed

text \<open>No byte sequence makes the STUN parser panic.\<close>

theorem stun_parse_never_panics: "stun_parse_binding_success packet \<noteq> None"
  using stun_attrs_total [of packet] by (auto simp: stun_parse_binding_success_def)

text \<open>The messages a STUN server sends: a list of attributes, each padded to a multiple of four bytes, with
  the address masked by the magic cookie in the attribute 0x0020.\<close>

definition stun_attr :: "u16 \<times> bytes \<Rightarrow> bytes" where
  "stun_attr a = (let (t, v) = a in to_be_bytes 2 t @ to_be_bytes 2 (word_of_nat (length v) :: u16) @ v
     @ replicate ((length v + 3) div 4 * 4 - length v) 0)"

definition xor_value :: "u8 \<Rightarrow> u8 \<Rightarrow> u8 \<Rightarrow> u8 \<Rightarrow> u16 \<Rightarrow> bytes" where
  "xor_value a b c d prt = [0, 1] @ to_be_bytes 2 (prt XOR 0x2112) @ map2 (XOR) [a, b, c, d] (to_be_bytes 4 STUN_MAGIC_COOKIE)"

definition stun_success :: "u16 \<Rightarrow> bytes \<Rightarrow> bytes \<Rightarrow> bytes" where
  "stun_success len tx_id body = [1, 1] @ to_be_bytes 2 len @ to_be_bytes 4 STUN_MAGIC_COOKIE @ tx_id @ body"

lemma cookie_bytes: "to_be_bytes 4 STUN_MAGIC_COOKIE = [0x21, 0x12, 0xA4, 0x42]"
proof -
  have "[0..<4] = [0, 1, 2, 3 :: nat]" by (simp add: upt_rec)
  then show ?thesis by (simp add: to_be_bytes_def STUN_MAGIC_COOKIE_def)
qed

lemma length_stun_attr: "length (stun_attr (t, v)) = 4 + (length v + 3) div 4 * 4"
  by (simp add: stun_attr_def)

lemma stun_attrs_skip:
  assumes "packet = pre @ stun_attr (t, v) @ rest" and "t \<noteq> 0x20" and "length v < 2 ^ 16"
  shows "stun_attrs packet tx (length pre) = stun_attrs packet tx (length pre + length (stun_attr (t, v)))"
proof -
  have len: "unat (from_be_bytes (to_be_bytes 2 (word_of_nat (length v) :: u16)) :: u16) = length v"
    using assms(3) by (simp add: from_to_be_bytes unat_of_nat)
  have pad: "length v \<le> (length v + 3) div 4 * 4" by presburger
  have "from_be_bytes (to_be_bytes 2 t) = t" by (rule from_to_be_bytes) simp
  then show ?thesis
    using assms(2) pad len unfolding assms(1)
    by (subst stun_attrs.simps) (simp add: length_stun_attr, simp add: stun_attr_def Let_def add.assoc)
qed

lemma stun_attrs_hit:
  assumes "packet = pre @ stun_attr (0x20, xor_value a b c d prt) @ rest"
  shows "stun_attrs packet tx (length pre) = Some (Inr ((V4 a b c d, prt), tx))"
proof -
  have "from_be_bytes (to_be_bytes 2 (0x20 :: u16)) = (0x20 :: u16)"
    "from_be_bytes (to_be_bytes 2 (8 :: u16)) = (8 :: u16)"
    "from_be_bytes (to_be_bytes 2 (prt XOR 0x2112)) = prt XOR 0x2112"
    by (rule from_to_be_bytes, simp)+
  moreover have "length (xor_value a b c d prt) = 8" by (simp add: xor_value_def cookie_bytes)
  moreover have "(ucast (drop_bit 16 STUN_MAGIC_COOKIE) :: u16) = 0x2112"
    by (simp add: STUN_MAGIC_COOKIE_def drop_bit_eq_div)
  ultimately show ?thesis
    unfolding assms
    by (subst stun_attrs.simps)
      (simp add: length_stun_attr, simp add: stun_attr_def xor_mapped_address_def xor_value_def cookie_bytes Let_def
        xor.assoc)
qed

lemma stun_attrs_list:
  assumes "\<forall>a \<in> set attrs. fst a \<noteq> 0x20 \<and> length (snd a) < 2 ^ 16"
    and "packet = pre @ concat (map stun_attr attrs) @ rest"
  shows "stun_attrs packet tx (length pre) = stun_attrs packet tx (length (pre @ concat (map stun_attr attrs)))"
  using assms
proof (induction attrs arbitrary: pre)
  case Nil
  then show ?case by simp
next
  case (Cons a attrs)
  obtain t v where a: "a = (t, v)" by fastforce
  have "stun_attrs packet tx (length pre) = stun_attrs packet tx (length (pre @ stun_attr (t, v)))"
    using stun_attrs_skip [of packet pre t v "concat (map stun_attr attrs) @ rest" tx] Cons.prems a by simp
  also have "\<dots> = stun_attrs packet tx (length ((pre @ stun_attr (t, v)) @ concat (map stun_attr attrs)))"
    by (rule Cons.IH) (use Cons.prems a in auto)
  finally show ?case using a by simp
qed

lemma stun_parse_success:
  assumes "length tx_id = 12" and "unat len \<le> length body"
  shows "stun_parse_binding_success (stun_success len tx_id body)
    = stun_attrs (stun_success len tx_id body) tx_id 20"
proof -
  have "from_be_bytes (to_be_bytes 2 len) = len" "from_be_bytes (to_be_bytes 4 STUN_MAGIC_COOKIE) = STUN_MAGIC_COOKIE"
    by (rule from_to_be_bytes, simp)+
  then show ?thesis using assms by (simp add: stun_parse_binding_success_def stun_success_def)
qed

text \<open>A success response with any attributes before and any bytes after the mapped address parses to exactly
  that address, port and transaction identifier.\<close>

theorem stun_round_trip:
  assumes "length tx_id = 12" and "\<forall>a \<in> set attrs. fst a \<noteq> 0x20 \<and> length (snd a) < 2 ^ 16"
    and "body = concat (map stun_attr attrs) @ stun_attr (0x20, xor_value a b c d prt) @ trailer"
    and "unat len \<le> length body"
  shows "stun_parse_binding_success (stun_success len tx_id body) = Some (Inr ((V4 a b c d, prt), tx_id))"
proof -
  let ?pre = "[1, 1] @ to_be_bytes 2 len @ to_be_bytes 4 STUN_MAGIC_COOKIE @ tx_id"
  let ?post = "stun_attr (0x20, xor_value a b c d prt) @ trailer"
  have p: "stun_success len tx_id body = ?pre @ concat (map stun_attr attrs) @ ?post" and "length ?pre = 20"
    using assms(1) by (simp_all add: stun_success_def assms(3))
  then have "stun_attrs (stun_success len tx_id body) tx_id 20
      = stun_attrs (stun_success len tx_id body) tx_id (length (?pre @ concat (map stun_attr attrs)))"
    using stun_attrs_list [OF assms(2) p] by metis
  also have "\<dots> = Some (Inr ((V4 a b c d, prt), tx_id))"
    by (rule stun_attrs_hit [where rest = trailer]) (simp add: p)
  finally show ?thesis using stun_parse_success [OF assms(1,4)] by simp
qed

theorem stun_round_trip_witness:
  "stun_parse_binding_success (stun_success 20 (replicate 12 7)
     (stun_attr (0x8022, [1, 2, 3]) @ stun_attr (0x20, xor_value 203 0 113 5 3478)))
   = Some (Inr ((V4 203 0 113 5, 3478), replicate 12 7))"
proof -
  have "20 \<le> length (stun_attr (0x8022, [1, 2, 3]) @ stun_attr (0x20, xor_value 203 0 113 5 3478))"
    by (simp add: length_stun_attr xor_value_def cookie_bytes)
  then show ?thesis
    using stun_round_trip [of "replicate 12 7" "[(0x8022, [1, 2, 3])]" _ 203 0 113 5 3478 "[]" 20] by simp
qed

lemma bytes_at_suffix:
  "drop k p = drop k q \<Longrightarrow> length p = length q \<Longrightarrow> k \<le> i \<Longrightarrow> bytes_at p i n = bytes_at q i n"
  by (auto simp: bytes_at_def dest: arg_cong [of _ _ "drop (i - k)"])

lemma stun_attrs_suffix:
  assumes "drop 20 p = drop 20 q" and "length p = length q" and "20 \<le> pos"
  shows "stun_attrs p tx pos = stun_attrs q tx pos"
  using assms
proof (induction p tx pos rule: stun_attrs.induct)
  case (1 p tx pos)
  have eq: "bytes_at p i n = bytes_at q i n" if "pos \<le> i" for i n
    using bytes_at_suffix [OF 1(2,3)] 1(4) that by simp
  have xor: "xor_mapped_address p tx (pos + 4) = xor_mapped_address q tx (pos + 4)"
    by (simp add: xor_mapped_address_def eq cong: if_cong)
  show ?case
  proof (cases "pos + 4 \<le> length p")
    case False
    then show ?thesis using 1(3) by (simp add: stun_attrs.simps [of p tx pos] stun_attrs.simps [of q tx pos])
  next
    case True
    define t l where "t = take 2 (drop pos p)" and "l = take 2 (drop (pos + 2) p)"
    then have at: "bytes_at p pos 2 = Some t" "bytes_at p (pos + 2) 2 = Some l"
      "bytes_at q pos 2 = Some t" "bytes_at q (pos + 2) 2 = Some l"
      using True eq [of pos 2] eq [of "pos + 2" 2] by simp_all
    let ?n = "unat (from_be_bytes l :: u16)"
    have rec: "stun_attrs p tx (pos + 4 + (?n + 3) div 4 * 4) = stun_attrs q tx (pos + 4 + (?n + 3) div 4 * 4)"
      if "\<not> length p < pos + 4 + ?n" "(from_be_bytes t :: u16) \<noteq> 0x20"
      by (rule 1(1) [of t l ?n]) (use True that 1(2-4) at in simp_all)
    show ?thesis
      unfolding stun_attrs.simps [of p tx pos] stun_attrs.simps [of q tx pos] at bind.bind_lunit Let_def 1(3) [symmetric]
      using xor rec by simp
  qed
qed

text \<open>The length in the header does not delimit the message: any two lengths that fit give the same result,
  so an address attribute beyond the end of the message, even of one of length 0, is taken.\<close>

theorem stun_length_ignored:
  assumes "length tx_id = 12" and "unat len \<le> length body" and "unat len' \<le> length body"
  shows "stun_parse_binding_success (stun_success len tx_id body)
    = stun_parse_binding_success (stun_success len' tx_id body)"
proof -
  have "stun_attrs (stun_success len tx_id body) tx_id 20 = stun_attrs (stun_success len' tx_id body) tx_id 20"
    by (rule stun_attrs_suffix) (use assms(1) in \<open>simp_all add: stun_success_def\<close>)
  then show ?thesis using stun_parse_success assms by metis
qed

theorem stun_length_ignored_witness:
  "stun_parse_binding_success (stun_success 0 (replicate 12 7) (stun_attr (0x20, xor_value 10 0 0 1 80)))
   = stun_parse_binding_success (stun_success 12 (replicate 12 7) (stun_attr (0x20, xor_value 10 0 0 1 80)))"
  by (rule stun_length_ignored) (simp_all add: length_stun_attr xor_value_def cookie_bytes)

section \<open>The TURN manager\<close>

text \<open>A failure that follows \<open>n\<close> failures in a row.\<close>

definition backoff :: "turn_config \<Rightarrow> nat \<Rightarrow> turn_action" where
  "backoff cfg n =
     (if n < 5 then RetryAfter (saturating_mul (retry_backoff_ms cfg) (2 ^ n)) else MarkFailed)"

definition turn_step :: "turn_manager \<Rightarrow> u64 \<times> turn_event \<Rightarrow> turn_manager \<times> turn_action" where
  "turn_step m i = turn_on_event m (fst i) (snd i)"

text \<open>The number of failures since the last allocation.\<close>

fun failures :: "nat \<Rightarrow> (u64 \<times> turn_event) list \<Rightarrow> nat" where
  "failures n [] = n"
| "failures n ((_, e) # es) =
     failures (case e of AllocationOk _ \<Rightarrow> 0 | TransportFailure \<Rightarrow> Suc n | _ \<Rightarrow> n) es"

lemma turn_cfg [simp]: "tm_cfg (fst (turn_on_event m now e)) = tm_cfg m"
  by (cases e) (simp_all add: Let_def)

lemma turn_retries:
  "unat (retries m) = min n (2 ^ 32 - 1) \<Longrightarrow>
   unat (retries (fst (run turn_step m es))) = min (failures n es) (2 ^ 32 - 1) \<and> tm_cfg (fst (run turn_step m es)) = tm_cfg m"
proof (induction es arbitrary: m n)
  case Nil
  then show ?case by simp
next
  case (Cons te es)
  obtain t e where te: "te = (t, e)" by fastforce
  have "unat (retries (fst (turn_step m te)))
      = min (case e of AllocationOk _ \<Rightarrow> 0 | TransportFailure \<Rightarrow> Suc n | _ \<Rightarrow> n) (2 ^ 32 - 1)"
    using Cons.prems by (cases e) (simp_all add: te turn_step_def sat_simps Let_def)
  from Cons.IH [OF this] show ?case by (simp add: te turn_step_def case_prod_unfold Let_def)
qed

lemma turn_failure_exact:
  assumes "unat (retries m) = min n (2 ^ 32 - 1)"
  shows "snd (turn_on_event m now TransportFailure) = backoff (tm_cfg m) n"
proof -
  let ?k = "saturating_add (retries m) 1"
  have k: "unat ?k = min (Suc n) (2 ^ 32 - 1)" using assms by (simp add: sat_simps)
  have "unat (?k - 1) = n" if "n < 5"
  proof -
    have "unat ?k = Suc n" using k that by simp
    moreover from this have "?k \<noteq> 0" by (metis nat.simps(3) unat_0)
    ultimately show ?thesis by (simp add: unat_minus_one)
  qed
  then show ?thesis using k by (auto simp: backoff_def Let_def word_less_nat_alt push_bit_eq_mult)
qed

text \<open>After any events, a transport failure is answered by the backoff of the number of failures since the last
  allocation: the configured delay doubled for each earlier failure, five times, then the manager gives
  up.  Authentication errors neither count nor reset the count.\<close>

theorem turn_backoff_exact:
  "snd (turn_on_event (fst (run turn_step (turn_new cfg) es)) now TransportFailure) = backoff cfg (failures 0 es)"
  using turn_failure_exact turn_retries [of "turn_new cfg" 0 es] by (simp add: turn_new_def)

text \<open>A window of less than 30 s is not kept: tuning sets both refresh intervals to at most nine tenths of the
  disconnect window, rounded up, or 30 s, whichever is larger, so that they lie inside the window for
  every configuration exactly when the window is at least 30 s.\<close>

theorem tune_inside_window:
  "(\<forall>cfg. permission_refresh_ms (tune_turn_refresh_for_disconnect_window cfg w) \<le> w
      \<and> channel_refresh_ms (tune_turn_refresh_for_disconnect_window cfg w) \<le> w) \<longleftrightarrow> 30000 \<le> w"
proof
  assume all: "\<forall>cfg. permission_refresh_ms (tune_turn_refresh_for_disconnect_window cfg w) \<le> w
      \<and> channel_refresh_ms (tune_turn_refresh_for_disconnect_window cfg w) \<le> w"
  let ?t = "max (saturating_sub w (w div 10)) 30000"
  have "permission_refresh_ms (tune_turn_refresh_for_disconnect_window
      (turn_config_default\<lparr>permission_refresh_ms := - 1\<rparr>) w) = ?t"
    by (simp add: tune_turn_refresh_for_disconnect_window_def Let_def min_absorb2)
  then have "?t \<le> w" using all by metis
  then show "30000 \<le> w" by (rule order_trans [OF max.cobounded2])
next
  assume "30000 \<le> w"
  moreover have "saturating_sub w (w div 10) \<le> w"
    by (simp add: word_le_nat_alt sat_simps)
  ultimately have "max (saturating_sub w (w div 10)) 30000 \<le> w" by simp
  then show "\<forall>cfg. permission_refresh_ms (tune_turn_refresh_for_disconnect_window cfg w) \<le> w
      \<and> channel_refresh_ms (tune_turn_refresh_for_disconnect_window cfg w) \<le> w"
    by (auto simp: tune_turn_refresh_for_disconnect_window_def Let_def intro: min.coboundedI2)
qed

end
