(* ===== verification/Store.thy ===== *)
theory Store
  imports Prelude
begin

text \<open>
  The session store of \<^verbatim>\<open>v3-store/src/lib.rs\<close>: its data, the sharded in-memory store, an abstract store
  (a map from connection identifiers to versioned entries with an expiry) and the contract
  \<open>session_store\<close> that says a store behaves like the abstract one.  Every operation of the in-memory store
  runs under the write lock of one shard, so it is one step on the shard list; \<^verbatim>\<open>scan_expired\<close> walks
  the shards, and the order in which a \<^verbatim>\<open>HashMap\<close> is iterated is an argument.
\<close>

section \<open>Data\<close>

definition SESSION_SCHEMA_VERSION :: u16 where
  "SESSION_SCHEMA_VERSION = 1"

definition DEFAULT_SHARD_COUNT :: nat where
  "DEFAULT_SHARD_COUNT = 32"

record session_record =
  sr_cid :: u64
  sr_peer_id :: string
  sr_negotiated_msr_interval_ms :: u64
  sr_disconnect_window_ms :: u64
  sr_last_ordered_rx :: u64
  sr_last_ordered_tx :: u64

record versioned_record =
  vr_version :: u64
  vr_record :: session_record
  vr_expires_at_ms :: u64

record entry =
  entry_version :: u64
  entry_record :: session_record
  entry_expires_at_ms :: u64

datatype store_error =
    CasConflict "u64 option" "u64 option"
  | InvalidShardCount
  | Serialization string
  | UnsupportedSchemaVersion u16
  | Backend string
  | Io string
  | CorruptLogEntry
  | ChecksumMismatch

definition to_versioned :: "entry \<Rightarrow> versioned_record" where
  "to_versioned e =
     \<lparr>vr_version = entry_version e, vr_record = entry_record e, vr_expires_at_ms = entry_expires_at_ms e\<rparr>"

section \<open>The in-memory store\<close>

type_synonym shard = "(u64, entry) bmap"
type_synonym memory_store = "shard list"

definition memory_new :: "nat \<Rightarrow> store_error + memory_store" where
  "memory_new shard_count =
     (if shard_count = 0 then Inl InvalidShardCount else Inr (replicate shard_count []))"

definition memory_default :: "store_error + memory_store" where
  "memory_default = memory_new DEFAULT_SHARD_COUNT"

definition shard_index :: "memory_store \<Rightarrow> u64 \<Rightarrow> nat" where
  "shard_index s cid = unat cid mod length s"

definition effective_entry :: "shard \<Rightarrow> u64 \<Rightarrow> u64 \<Rightarrow> shard \<times> entry option" where
  "effective_entry m cid now =
     (case bmap_get m cid of
        Some e \<Rightarrow> if entry_expires_at_ms e > now then (m, Some e) else (bmap_remove cid m, None)
      | None \<Rightarrow> (m, None))"

definition memory_load ::
    "memory_store \<Rightarrow> u64 \<Rightarrow> u64 \<Rightarrow> memory_store \<times> (store_error + versioned_record option)" where
  "memory_load s cid now =
     (let i = shard_index s cid; (m, cur) = effective_entry (s ! i) cid now
      in (s[i := m], Inr (map_option to_versioned cur)))"

definition memory_compare_and_swap ::
    "memory_store \<Rightarrow> u64 \<Rightarrow> u64 option \<Rightarrow> session_record \<Rightarrow> u64 \<Rightarrow> u64
      \<Rightarrow> memory_store \<times> (store_error + versioned_record)" where
  "memory_compare_and_swap s cid expected_version new_record ttl now =
     (let i = shard_index s cid; (m, cur) = effective_entry (s ! i) cid now;
          current_version = map_option entry_version cur
      in if current_version \<noteq> expected_version
         then (s[i := m], Inl (CasConflict expected_version current_version))
         else
           let next_version = saturating_add (case current_version of None \<Rightarrow> 0 | Some v \<Rightarrow> v) 1;
               e = \<lparr>entry_version = next_version, entry_record = new_record,
                    entry_expires_at_ms = saturating_add now ttl\<rparr>
           in (s[i := bmap_insert cid e m], Inr (to_versioned e)))"

definition memory_upsert ::
    "memory_store \<Rightarrow> u64 \<Rightarrow> session_record \<Rightarrow> u64 \<Rightarrow> u64 \<Rightarrow> memory_store \<times> (store_error + versioned_record)" where
  "memory_upsert s cid new_record ttl now =
     (let i = shard_index s cid; (m, cur) = effective_entry (s ! i) cid now;
          next_version = saturating_add (case cur of None \<Rightarrow> 0 | Some e \<Rightarrow> entry_version e) 1;
          e = \<lparr>entry_version = next_version, entry_record = new_record,
               entry_expires_at_ms = saturating_add now ttl\<rparr>
      in (s[i := bmap_insert cid e m], Inr (to_versioned e)))"

definition memory_delete :: "memory_store \<Rightarrow> u64 \<Rightarrow> memory_store \<times> (store_error + unit)" where
  "memory_delete s cid =
     (let i = shard_index s cid in (s[i := bmap_remove cid (s ! i)], Inr ()))"

text \<open>The collecting loop over one shard, in the iteration order \<open>ks\<close>: at most \<open>n\<close> expired keys.\<close>

fun collect_expired :: "shard \<Rightarrow> u64 \<Rightarrow> nat \<Rightarrow> u64 list \<Rightarrow> u64 list" where
  "collect_expired m now n [] = []"
| "collect_expired m now n (k # ks) =
     (case bmap_get m k of
        Some e \<Rightarrow> if entry_expires_at_ms e \<le> now
          then k # (if n \<le> 1 then [] else collect_expired m now (n - 1) ks)
          else collect_expired m now n ks
      | None \<Rightarrow> collect_expired m now n ks)"

definition remove_keys :: "u64 list \<Rightarrow> shard \<Rightarrow> shard" where
  "remove_keys ks m = fold bmap_remove ks m"

text \<open>The loop over the shards: \<open>left\<close> is \<^verbatim>\<open>limit - removed.len()\<close>; once it is 0 the loop breaks.
  The removal loop's own \<^verbatim>\<open>removed.len() >= limit\<close> check never cuts it short, the collected keys fit.\<close>

fun scan_shards :: "u64 \<Rightarrow> nat \<Rightarrow> u64 list list \<Rightarrow> shard list \<Rightarrow> shard list \<times> u64 list" where
  "scan_shards now left ords [] = ([], [])"
| "scan_shards now left ords (m # ms) =
     (if left = 0 then (m # ms, [])
      else
        let ks = collect_expired m now left (case ords of [] \<Rightarrow> [] | o1 # _ \<Rightarrow> o1);
            (ms', rest) = scan_shards now (left - length ks) (tl ords) ms
        in (remove_keys ks m # ms', ks @ rest))"

definition memory_scan_expired ::
    "u64 list list \<Rightarrow> memory_store \<Rightarrow> u64 \<Rightarrow> nat \<Rightarrow> memory_store \<times> (store_error + u64 list)" where
  "memory_scan_expired ords s now limit =
     (if limit = 0 then (s, Inr [])
      else let (s', removed) = scan_shards now limit ords s in (s', Inr removed))"

section \<open>The abstract store\<close>

text \<open>The operations as data, and what they return.\<close>

datatype store_op =
    Load u64
  | CompareAndSwap u64 "u64 option" session_record u64
  | Upsert u64 session_record u64
  | Delete u64

datatype store_reply =
    Loaded "versioned_record option"
  | Written versioned_record
  | Deleted
  | Failed store_error

type_synonym spec_store = "u64 \<Rightarrow> entry option"

definition live :: "u64 \<Rightarrow> spec_store \<Rightarrow> u64 \<Rightarrow> entry option" where
  "live now f cid =
     (case f cid of Some e \<Rightarrow> if entry_expires_at_ms e > now then Some e else None | None \<Rightarrow> None)"

definition next_entry :: "entry option \<Rightarrow> session_record \<Rightarrow> u64 \<Rightarrow> u64 \<Rightarrow> entry" where
  "next_entry cur rec ttl now =
     \<lparr>entry_version = saturating_add (case cur of None \<Rightarrow> 0 | Some e \<Rightarrow> entry_version e) 1,
      entry_record = rec, entry_expires_at_ms = saturating_add now ttl\<rparr>"

fun spec_step :: "u64 \<Rightarrow> spec_store \<Rightarrow> store_op \<Rightarrow> spec_store \<times> store_reply" where
  "spec_step now f (Load cid) = (f, Loaded (map_option to_versioned (live now f cid)))"
| "spec_step now f (CompareAndSwap cid ev rec ttl) =
     (let v = map_option entry_version (live now f cid); e = next_entry (live now f cid) rec ttl now
      in if v = ev then (f(cid \<mapsto> e), Written (to_versioned e)) else (f, Failed (CasConflict ev v)))"
| "spec_step now f (Upsert cid rec ttl) =
     (let e = next_entry (live now f cid) rec ttl now in (f(cid \<mapsto> e), Written (to_versioned e)))"
| "spec_step now f (Delete cid) = (f(cid := None), Deleted)"

text \<open>A timed operation on the in-memory store.\<close>

definition reply :: "('a \<Rightarrow> store_reply) \<Rightarrow> store_error + 'a \<Rightarrow> store_reply" where
  "reply f r = (case r of Inl e \<Rightarrow> Failed e | Inr x \<Rightarrow> f x)"

fun memory_step :: "memory_store \<Rightarrow> u64 \<times> store_op \<Rightarrow> memory_store \<times> store_reply" where
  "memory_step s (now, Load cid) = map_prod id (reply Loaded) (memory_load s cid now)"
| "memory_step s (now, CompareAndSwap cid ev rec ttl) =
     map_prod id (reply Written) (memory_compare_and_swap s cid ev rec ttl now)"
| "memory_step s (now, Upsert cid rec ttl) = map_prod id (reply Written) (memory_upsert s cid rec ttl now)"
| "memory_step s (now, Delete cid) = map_prod id (reply (\<lambda>_. Deleted)) (memory_delete s cid)"

fun spec_run :: "spec_store \<Rightarrow> (u64 \<times> store_op) list \<Rightarrow> store_reply list" where
  "spec_run f [] = []"
| "spec_run f ((now, op) # ops) = (let (f', r) = spec_step now f op in r # spec_run f' ops)"

section \<open>The contract\<close>

text \<open>A store keeps the promise of the abstract store from time \<open>t\<close> on: reads may drop entries that
  have expired, so the entries agree only on what is live now and later.\<close>

definition agrees :: "u64 \<Rightarrow> spec_store \<Rightarrow> spec_store \<Rightarrow> bool" where
  "agrees t f g \<longleftrightarrow> (\<forall>now cid. t \<le> now \<longrightarrow> live now f cid = live now g cid)"

lemma spec_step_agrees:
  assumes "agrees now f g"
  shows "snd (spec_step now f op) = snd (spec_step now g op)"
    and "agrees now (fst (spec_step now f op)) (fst (spec_step now g op))"
proof -
  have "live now f = live now g" using assms by (auto simp: agrees_def)
  then show "snd (spec_step now f op) = snd (spec_step now g op)"
    by (cases op) (auto simp: Let_def)
  from \<open>live now f = live now g\<close> show "agrees now (fst (spec_step now f op)) (fst (spec_step now g op))"
    using assms by (cases op) (auto simp: agrees_def live_def Let_def)
qed

lemma agrees_later: "agrees t f g \<Longrightarrow> t \<le> t' \<Longrightarrow> agrees t' f g"
  by (auto simp: agrees_def)

lemma agrees_trans: "agrees t f g \<Longrightarrow> agrees t g h \<Longrightarrow> agrees t f h"
  by (simp add: agrees_def)

text \<open>The promise within bounds: the invariant counts the operations so far, and \<open>within n\<close> says which
  operations are promised to work after \<open>n\<close> of them.\<close>

locale bounded_store =
  fixes step :: "'s \<Rightarrow> u64 \<times> store_op \<Rightarrow> 's \<times> store_reply"
    and entries :: "'s \<Rightarrow> spec_store"
    and inv :: "nat \<Rightarrow> 's \<Rightarrow> bool"
    and within :: "nat \<Rightarrow> u64 \<times> store_op \<Rightarrow> bool"
  assumes counts_inv: "inv n s \<Longrightarrow> within n (now, op) \<Longrightarrow> inv (Suc n) (fst (step s (now, op)))"
    and within_reply: "inv n s \<Longrightarrow> within n (now, op) \<Longrightarrow> snd (step s (now, op)) = snd (spec_step now (entries s) op)"
    and within_entries: "inv n s \<Longrightarrow> within n (now, op)
      \<Longrightarrow> agrees now (entries (fst (step s (now, op)))) (fst (spec_step now (entries s) op))"
begin

text \<open>A sequence of operations at non-decreasing times gets the replies of the abstract store.\<close>

lemma run_within:
  "inv n s \<Longrightarrow> agrees t (entries s) f \<Longrightarrow> sorted (map fst ops) \<Longrightarrow> \<forall>op \<in> set ops. t \<le> fst op \<Longrightarrow>
     \<forall>i < length ops. within (n + i) (ops ! i) \<Longrightarrow> snd (run step s ops) = spec_run f ops"
proof (induction ops arbitrary: n s f t)
  case Nil
  then show ?case by simp
next
  case (Cons top ops)
  obtain now op where t: "top = (now, op)" by (cases top)
  let ?s = "fst (step s (now, op))" and ?f = "fst (spec_step now f op)"
  have w: "within n (now, op)" using Cons.prems(5) by (force simp: t)
  have ws: "\<forall>i < length ops. within (Suc n + i) (ops ! i)" using Cons.prems(5) by force
  have ag: "agrees now (entries s) f" using Cons.prems(2,4) agrees_later by (auto simp: t)
  have "agrees now (entries ?s) ?f"
    using agrees_trans [OF within_entries [OF Cons.prems(1) w] spec_step_agrees(2) [OF ag]] .
  then have "snd (run step ?s ops) = spec_run ?f ops"
    using Cons.IH [OF counts_inv [OF Cons.prems(1) w] _ _ _ ws] Cons.prems(3) by (auto simp: t)
  moreover have "snd (step s (now, op)) = snd (spec_step now f op)"
    using within_reply [OF Cons.prems(1) w] spec_step_agrees(1) [OF ag] by simp
  ultimately show ?case by (simp add: t case_prod_unfold Let_def)
qed

end

text \<open>The promise without bounds is the special case that counts nothing.\<close>

locale session_store =
  fixes step :: "'s \<Rightarrow> u64 \<times> store_op \<Rightarrow> 's \<times> store_reply"
    and entries :: "'s \<Rightarrow> spec_store"
    and inv :: "'s \<Rightarrow> bool"
  assumes keeps_inv: "inv s \<Longrightarrow> inv (fst (step s (now, op)))"
    and reply_spec: "inv s \<Longrightarrow> snd (step s (now, op)) = snd (spec_step now (entries s) op)"
    and entries_spec: "inv s \<Longrightarrow> agrees now (entries (fst (step s (now, op)))) (fst (spec_step now (entries s) op))"

sublocale session_store \<subseteq> counted: bounded_store step entries "\<lambda>_. inv" "\<lambda>_ _. True"
  using keeps_inv reply_spec entries_spec by unfold_locales

context session_store
begin

lemma run_spec:
  "inv s \<Longrightarrow> agrees t (entries s) f \<Longrightarrow> sorted (map fst ops) \<Longrightarrow> \<forall>op \<in> set ops. t \<le> fst op \<Longrightarrow>
     snd (run step s ops) = spec_run f ops"
  by (rule counted.run_within) simp_all

end

section \<open>The in-memory store keeps the contract\<close>

definition memory_entries :: "memory_store \<Rightarrow> spec_store" where
  "memory_entries s cid = bmap_get (s ! shard_index s cid) cid"

text \<open>There is a shard, and every key is in its own shard.\<close>

definition memory_ok :: "memory_store \<Rightarrow> bool" where
  "memory_ok s \<longleftrightarrow> s \<noteq> []
     \<and> (\<forall>i < length s. bmap_ok (s ! i) \<and> (\<forall>k \<in> set (bmap_keys (s ! i)). shard_index s k = i))"

lemma shard_index_less: "s \<noteq> [] \<Longrightarrow> shard_index s cid < length s"
  by (simp add: shard_index_def)

lemma shard_index_update [simp]: "shard_index (s[i := m]) cid = shard_index s cid"
  by (simp add: shard_index_def)

lemma memory_ok_update:
  assumes "memory_ok s" and "bmap_ok m" and "set (bmap_keys m) \<subseteq> insert cid (set (bmap_keys (s ! shard_index s cid)))"
  shows "memory_ok (s[shard_index s cid := m])"
  using assms shard_index_less [of s cid] by (auto simp: memory_ok_def nth_list_update split: if_splits)

lemma memory_entries_update:
  assumes "memory_ok s"
  shows "memory_entries (s[shard_index s cid := m]) k =
    (if shard_index s k = shard_index s cid then bmap_get m k else memory_entries s k)"
  using assms shard_index_less [of s] by (auto simp: memory_ok_def memory_entries_def nth_list_update)

lemma memory_entries_same:
  "shard_index s k = shard_index s cid \<Longrightarrow> bmap_get (s ! shard_index s cid) k = memory_entries s k"
  by (simp add: memory_entries_def)

lemma effective_entry_live:
  assumes "effective_entry (s ! shard_index s cid) cid now = (m, cur)"
  shows "cur = live now (memory_entries s) cid"
    and "bmap_get m k = (if k = cid then live now (memory_entries s) cid else bmap_get (s ! shard_index s cid) k)"
    and "bmap_ok (s ! shard_index s cid) \<Longrightarrow> bmap_ok m"
    and "set (bmap_keys m) \<subseteq> set (bmap_keys (s ! shard_index s cid))"
  using assms by (auto simp: effective_entry_def live_def memory_entries_def split: option.splits if_splits)

lemma memory_own_shard:
  "memory_ok s \<Longrightarrow> bmap_ok (s ! shard_index s cid)"
  by (auto simp: memory_ok_def shard_index_less)

lemma memory_dropped:
  assumes ok: "memory_ok s" and e: "effective_entry (s ! shard_index s cid) cid now = (m, cur)"
  shows "memory_ok (s[shard_index s cid := m])"
    and "memory_entries (s[shard_index s cid := m]) = (memory_entries s)(cid := live now (memory_entries s) cid)"
proof -
  show "memory_ok (s[shard_index s cid := m])"
    using effective_entry_live(3,4) [OF e] memory_own_shard [OF ok] by (intro memory_ok_update [OF ok]) auto
  show "memory_entries (s[shard_index s cid := m]) = (memory_entries s)(cid := live now (memory_entries s) cid)"
    by (rule ext) (auto simp: effective_entry_live(2) [OF e] memory_entries_update [OF ok] memory_entries_same)
qed

lemma memory_written:
  assumes ok: "memory_ok s" and e: "effective_entry (s ! shard_index s cid) cid now = (m, cur)"
  shows "memory_ok (s[shard_index s cid := bmap_insert cid x m])"
    and "memory_entries (s[shard_index s cid := bmap_insert cid x m]) = (memory_entries s)(cid \<mapsto> x)"
proof -
  show "memory_ok (s[shard_index s cid := bmap_insert cid x m])"
    using effective_entry_live(3,4) [OF e] memory_own_shard [OF ok] by (intro memory_ok_update [OF ok]) auto
  show "memory_entries (s[shard_index s cid := bmap_insert cid x m]) = (memory_entries s)(cid \<mapsto> x)"
    by (rule ext) (auto simp: effective_entry_live(2) [OF e] memory_entries_update [OF ok] memory_entries_same)
qed

lemma memory_deleted:
  assumes ok: "memory_ok s"
  shows "memory_ok (s[shard_index s cid := bmap_remove cid (s ! shard_index s cid)])"
    and "memory_entries (s[shard_index s cid := bmap_remove cid (s ! shard_index s cid)]) = (memory_entries s)(cid := None)"
proof -
  show "memory_ok (s[shard_index s cid := bmap_remove cid (s ! shard_index s cid)])"
    using memory_own_shard [OF ok] by (intro memory_ok_update [OF ok]) auto
  show "memory_entries (s[shard_index s cid := bmap_remove cid (s ! shard_index s cid)]) = (memory_entries s)(cid := None)"
    by (rule ext) (auto simp: memory_entries_update [OF ok] memory_entries_same)
qed

lemma agrees_refl [simp]: "agrees t f f"
  by (simp add: agrees_def)

lemma agrees_drop: "agrees now (f(cid := live now f cid)) f"
  by (auto simp: agrees_def live_def split: option.splits)

text \<open>One operation, by its effective entry.\<close>

lemma memory_step_result:
  assumes ok: "memory_ok s"
  shows "memory_ok (fst (memory_step s (now, op)))
    \<and> snd (memory_step s (now, op)) = snd (spec_step now (memory_entries s) op)
    \<and> agrees now (memory_entries (fst (memory_step s (now, op)))) (fst (spec_step now (memory_entries s) op))"
proof -
  have eff: "\<exists>m. effective_entry (s ! shard_index s cid) cid now = (m, live now (memory_entries s) cid)" for cid
    using effective_entry_live(1) [of s cid now] by (cases "effective_entry (s ! shard_index s cid) cid now") auto
  show ?thesis
  proof (cases op)
    case (Load cid)
    obtain m where m: "effective_entry (s ! shard_index s cid) cid now = (m, live now (memory_entries s) cid)"
      using eff by blast
    show ?thesis
      using memory_dropped [OF ok m] by (simp add: Load memory_load_def m reply_def agrees_drop)
  next
    case (CompareAndSwap cid ev rec ttl)
    obtain m where m: "effective_entry (s ! shard_index s cid) cid now = (m, live now (memory_entries s) cid)"
      using eff by blast
    show ?thesis
      using memory_dropped [OF ok m] memory_written [OF ok m]
      by (auto simp: CompareAndSwap memory_compare_and_swap_def m reply_def agrees_drop next_entry_def Let_def
          split: option.splits)
  next
    case (Upsert cid rec ttl)
    obtain m where m: "effective_entry (s ! shard_index s cid) cid now = (m, live now (memory_entries s) cid)"
      using eff by blast
    show ?thesis
      using memory_written [OF ok m]
      by (simp add: Upsert memory_upsert_def m reply_def next_entry_def Let_def)
  next
    case (Delete cid)
    show ?thesis using memory_deleted [OF ok] by (simp add: Delete memory_delete_def reply_def Let_def)
  qed
qed

interpretation memory: session_store memory_step memory_entries memory_ok
  using memory_step_result by unfold_locales blast+

lemma memory_new_ok: "memory_new n = Inr s \<Longrightarrow> memory_ok s \<and> memory_entries s = Map.empty"
  by (auto simp: memory_new_def memory_ok_def memory_entries_def shard_index_def bmap_keys_def split: if_splits)

section \<open>Scanning\<close>

text \<open>The iteration order of a shard lists each of its keys once.\<close>

definition orders_ok :: "u64 list list \<Rightarrow> shard list \<Rightarrow> bool" where
  "orders_ok ords ms \<longleftrightarrow> length ords = length ms
     \<and> (\<forall>i < length ms. distinct (ords ! i) \<and> set (ords ! i) = set (bmap_keys (ms ! i)))"

lemma orders_ok_Cons:
  "orders_ok (o1 # ords) (m # ms) \<longleftrightarrow> distinct o1 \<and> set o1 = set (bmap_keys m) \<and> orders_ok ords ms"
  by (auto simp: orders_ok_def nth_Cons split: nat.splits)

definition expired_in :: "shard \<Rightarrow> u64 \<Rightarrow> u64 \<Rightarrow> bool" where
  "expired_in m now k \<longleftrightarrow> (\<exists>e. bmap_get m k = Some e \<and> entry_expires_at_ms e \<le> now)"

lemma collect_expired_take:
  "0 < n \<Longrightarrow> collect_expired m now n ks = take n (filter (expired_in m now) ks)"
proof (induction ks arbitrary: n)
  case (Cons k ks)
  then show ?case
    by (cases n; cases "n - 1") (auto simp: expired_in_def split: option.splits)
qed simp

lemma bmap_get_remove_keys [simp]:
  "bmap_get (remove_keys ks m) k = (if k \<in> set ks then None else bmap_get m k)"
  unfolding remove_keys_def by (induction ks arbitrary: m) auto

lemma bmap_ok_remove_keys: "bmap_ok m \<Longrightarrow> bmap_ok (remove_keys ks m)"
  unfolding remove_keys_def by (induction ks arbitrary: m) auto

text \<open>What the scan does to one shard: \<open>ks\<close> have been removed, all expired; with room left, all the expired.\<close>

definition shard_scanned :: "u64 \<Rightarrow> bool \<Rightarrow> shard \<times> u64 list \<Rightarrow> shard \<Rightarrow> bool" where
  "shard_scanned now room mk m' \<longleftrightarrow>
     m' = remove_keys (snd mk) (fst mk) \<and> distinct (snd mk) \<and> (\<forall>k \<in> set (snd mk). expired_in (fst mk) now k)
     \<and> (room \<longrightarrow> (\<forall>k. expired_in (fst mk) now k \<longrightarrow> k \<in> set (snd mk)))"

lemma shard_scanned_none: "shard_scanned now False (m, []) m"
  by (simp add: shard_scanned_def remove_keys_def)

lemma scan_shards_result:
  assumes "orders_ok ords ms" and "scan_shards now n ords ms = (ms', removed)"
  shows "length removed \<le> n \<and> (\<exists>kss. length kss = length ms \<and> removed = concat kss
    \<and> list_all2 (shard_scanned now (length removed < n)) (zip ms kss) ms')"
  using assms
proof (induction ms arbitrary: n ords ms' removed)
  case Nil
  then show ?case by simp
next
  case (Cons m ms)
  show ?case
  proof (cases "n = 0")
    case True
    have "list_all2 (shard_scanned now False) (zip xs (replicate (length xs) [])) xs" for xs
      by (induction xs) (simp_all add: shard_scanned_none)
    with True Cons.prems show ?thesis
      by (intro conjI exI [of _ "replicate (length (m # ms)) []"]) (auto simp: shard_scanned_none)
  next
    case False
    obtain o1 ords' where ords: "ords = o1 # ords'" using Cons.prems(1) by (cases ords) (auto simp: orders_ok_def)
    then have o1: "distinct o1" "set o1 = set (bmap_keys m)" "orders_ok ords' ms"
      using Cons.prems(1) by (simp_all add: orders_ok_Cons)
    define ks where "ks = take n (filter (expired_in m now) o1)"
    obtain ms2 rest where rec: "scan_shards now (n - length ks) ords' ms = (ms2, rest)"
      by (cases "scan_shards now (n - length ks) ords' ms")
    have res: "ms' = remove_keys ks m # ms2" "removed = ks @ rest"
      using Cons.prems(2) False rec by (auto simp: ords collect_expired_take ks_def Let_def)
    obtain kss where kss: "length rest \<le> n - length ks" "length kss = length ms" "rest = concat kss"
        "list_all2 (shard_scanned now (length rest < n - length ks)) (zip ms kss) ms2"
      using Cons.IH [OF o1(3) rec] by blast
    have len: "length ks \<le> n" "(length rest < n - length ks) = (length removed < n)"
      by (auto simp: ks_def res(2))
    have "ks = filter (expired_in m now) o1" if "length ks < n" using that by (simp add: ks_def)
    then have "shard_scanned now (length removed < n) (m, ks) (remove_keys ks m)"
      using o1(1,2) by (auto simp: shard_scanned_def res(2) ks_def expired_in_def set_bmap_keys dest: in_set_takeD)
    with kss len res show ?thesis by (intro conjI exI [of _ "ks # kss"]) auto
  qed
qed

lemma memory_scan_shards:
  assumes ok: "memory_ok s" and ords: "orders_ok ords s" and scan: "scan_shards now limit ords s = (s', removed)"
  obtains kss where "removed = concat kss" "length kss = length s" "length s' = length s" "length removed \<le> limit"
    and "\<And>i. i < length s \<Longrightarrow> shard_scanned now (length removed < limit) (s ! i, kss ! i) (s' ! i)"
    and "\<And>i k. i < length s \<Longrightarrow> k \<in> set (kss ! i) \<Longrightarrow> shard_index s k = i"
proof -
  obtain kss where kss: "length removed \<le> limit" "length kss = length s" "removed = concat kss"
      "list_all2 (shard_scanned now (length removed < limit)) (zip s kss) s'"
    using scan_shards_result [OF ords scan] by blast
  then have len: "length s' = length s" by (auto dest: list_all2_lengthD)
  have sc: "shard_scanned now (length removed < limit) (s ! i, kss ! i) (s' ! i)" if "i < length s" for i
    using list_all2_nthD [OF kss(4), of i] that kss(2) by simp
  moreover have "shard_index s k = i" if "i < length s" "k \<in> set (kss ! i)" for i k
  proof -
    have "expired_in (s ! i) now k" using sc [OF that(1)] that(2) by (simp add: shard_scanned_def)
    then have "k \<in> set (bmap_keys (s ! i))" by (auto simp: expired_in_def set_bmap_keys)
    with ok that(1) show ?thesis by (simp add: memory_ok_def)
  qed
  ultimately show thesis using that kss len by blast
qed

lemma in_concat_nth: "k \<in> set (concat kss) \<longleftrightarrow> (\<exists>i < length kss. k \<in> set (kss ! i))"
proof -
  have "(\<exists>ks \<in> set kss. P ks) \<longleftrightarrow> (\<exists>i < length kss. P (kss ! i))" for P by (metis in_set_conv_nth)
  then show ?thesis by simp
qed

lemma distinct_shard_keys:
  assumes "\<And>i. i < length kss \<Longrightarrow> distinct (kss ! i)"
    and "\<And>i k. i < length kss \<Longrightarrow> k \<in> set (kss ! i) \<Longrightarrow> f k = i"
  shows "distinct (concat kss)"
  using assms
proof (induction kss arbitrary: f)
  case Nil
  show ?case by simp
next
  case (Cons ks kss)
  have "distinct (concat kss)"
  proof (rule Cons.IH [of "\<lambda>k. f k - 1"])
    fix i assume "i < length kss"
    then show "distinct (kss ! i)" using Cons.prems(1) [of "Suc i"] by simp
  next
    fix i k assume "i < length kss" "k \<in> set (kss ! i)"
    then show "f k - 1 = i" using Cons.prems(2) [of "Suc i" k] by simp
  qed
  moreover have "f k = 0" if "k \<in> set ks" for k using Cons.prems(2) [of 0 k] that by simp
  moreover have "f k \<noteq> 0" if "k \<in> set (concat kss)" for k
  proof -
    from that obtain i where "i < length kss" "k \<in> set (kss ! i)" unfolding in_concat_nth by blast
    then show ?thesis using Cons.prems(2) [of "Suc i" k] by simp
  qed
  ultimately have "set ks \<inter> set (concat kss) = {}" by force
  with \<open>distinct (concat kss)\<close> show ?case using Cons.prems(1) [of 0] by simp
qed

section \<open>Properties\<close>

text \<open>C10: The in-memory store refines the abstract store.  For any number of shards, any sequence of loads,
  compare-and-swaps, upserts and deletes at non-decreasing times gets from a new sharded store
  exactly the replies of one map from identifiers to versioned, expiring entries.\<close>

theorem memory_refines_spec:
  assumes "memory_new n = Inr s" and "sorted (map fst ops)"
  shows "snd (run memory_step s ops) = spec_run Map.empty ops"
  using memory.run_spec [of s 0 Map.empty ops] memory_new_ok [OF assms(1)] assms(2) by simp

abbreviation demo_record :: session_record where
  "demo_record \<equiv> \<lparr>sr_cid = 1, sr_peer_id = ''p'', sr_negotiated_msr_interval_ms = 15000,
     sr_disconnect_window_ms = 180000, sr_last_ordered_rx = 0, sr_last_ordered_tx = 0\<rparr>"

theorem memory_refines_spec_witness:
  "snd (run memory_step (replicate 2 []) [(10, Upsert 1 demo_record 5), (20, Load 1)])
     = spec_run Map.empty [(10, Upsert 1 demo_record 5), (20, Load 1)]"
  by (rule memory_refines_spec [of 2]) (simp_all add: memory_new_def)

text \<open>A scan removes expired records only.  Whatever the iteration order of the shards' hash maps, \<^verbatim>\<open>scan_expired\<close>
  reports at most \<open>limit\<close> distinct identifiers, all of them expired, removes exactly those, and when it
  reports fewer than \<open>limit\<close> no expired record is left.\<close>

theorem scan_expired_exact:
  assumes ok: "memory_ok s" and ords: "orders_ok ords s"
    and scan: "memory_scan_expired ords s now limit = (s', Inr removed)"
  shows "distinct removed \<and> length removed \<le> limit
    \<and> (\<forall>cid \<in> set removed. \<exists>e. memory_entries s cid = Some e \<and> entry_expires_at_ms e \<le> now)
    \<and> (\<forall>cid. memory_entries s' cid = (if cid \<in> set removed then None else memory_entries s cid))
    \<and> (length removed < limit \<longrightarrow> (\<forall>cid e. memory_entries s' cid = Some e \<longrightarrow> now < entry_expires_at_ms e))"
proof (cases "limit = 0")
  case True
  with scan show ?thesis by (simp add: memory_scan_expired_def)
next
  case False
  with scan have "scan_shards now limit ords s = (s', removed)"
    by (auto simp: memory_scan_expired_def split: prod.splits)
  then obtain kss where kss: "removed = concat kss" "length kss = length s" "length s' = length s" "length removed \<le> limit"
      and sc: "\<And>i. i < length s \<Longrightarrow> shard_scanned now (length removed < limit) (s ! i, kss ! i) (s' ! i)"
      and own: "\<And>i k. i < length s \<Longrightarrow> k \<in> set (kss ! i) \<Longrightarrow> shard_index s k = i"
    by (rule memory_scan_shards [OF ok ords]) blast
  have idx: "shard_index s cid < length s" "shard_index s' cid = shard_index s cid" for cid
    using ok kss(3) by (auto simp: memory_ok_def shard_index_def)
  have rem: "cid \<in> set removed \<longleftrightarrow> cid \<in> set (kss ! shard_index s cid)" for cid
  proof
    assume "cid \<in> set removed"
    then obtain i where "i < length s" "cid \<in> set (kss ! i)" unfolding kss(1) in_concat_nth kss(2) by blast
    with own show "cid \<in> set (kss ! shard_index s cid)" by blast
  next
    assume "cid \<in> set (kss ! shard_index s cid)"
    with idx(1) show "cid \<in> set removed" unfolding kss(1) in_concat_nth kss(2) by blast
  qed
  have ent: "memory_entries s' cid = (if cid \<in> set removed then None else memory_entries s cid)" for cid
    using sc [OF idx(1), of cid] by (simp add: memory_entries_def idx(2) rem shard_scanned_def)
  have "\<exists>e. memory_entries s cid = Some e \<and> entry_expires_at_ms e \<le> now" if "cid \<in> set removed" for cid
    using sc [OF idx(1), of cid] that by (auto simp: rem shard_scanned_def expired_in_def memory_entries_def)
  moreover have "distinct removed"
    unfolding kss(1) by (rule distinct_shard_keys [of _ "shard_index s"])
      (use sc own kss(2) in \<open>auto simp: shard_scanned_def\<close>)
  moreover have "now < entry_expires_at_ms e" if "length removed < limit" "memory_entries s' cid = Some e" for cid e
  proof (rule ccontr)
    assume "\<not> now < entry_expires_at_ms e"
    moreover have "cid \<notin> set removed" "memory_entries s cid = Some e" using that(2) ent [of cid] by (auto split: if_splits)
    ultimately have "expired_in (s ! shard_index s cid) now cid" by (simp add: expired_in_def memory_entries_def not_less)
    with sc [OF idx(1), of cid] that(1) have "cid \<in> set removed" by (simp add: rem shard_scanned_def)
    with \<open>cid \<notin> set removed\<close> show False ..
  qed
  ultimately show ?thesis using kss(4) ent by blast
qed

theorem scan_expired_exact_witness:
  "distinct [1 :: u64] \<and> length [1 :: u64] \<le> 5"
proof -
  let ?s = "[[], [(1, \<lparr>entry_version = 1, entry_record = demo_record, entry_expires_at_ms = 15\<rparr>)]]"
  have ok: "memory_ok ?s"
    by (auto simp: memory_ok_def shard_index_def bmap_ok_def bmap_keys_def nth_Cons split: nat.splits)
  have ords: "orders_ok [[], [1]] ?s"
    by (simp add: orders_ok_Cons) (simp add: orders_ok_def bmap_keys_def)
  have scan: "memory_scan_expired [[], [1]] ?s 20 5 = ([[], []], Inr [1])"
    by (simp add: memory_scan_expired_def remove_keys_def bmap_remove_def bmap_get_def)
  from scan_expired_exact [OF ok ords scan] show ?thesis by blast
qed

text \<open>A compare-and-swap race has one winner.  When several writers swap against the same version that is
  the current one, at the same time and with a lifetime that has not passed, the first succeeds and
  every other gets a conflict that names the winner's version.\<close>

theorem cas_single_winner:
  assumes ok: "memory_ok s" and ev: "map_option entry_version (live now (memory_entries s) cid) = ev"
    and max: "ev \<noteq> Some (- 1)" and ttl: "now < saturating_add now ttl"
  shows "snd (run memory_step s (map (\<lambda>r. (now, CompareAndSwap cid ev r ttl)) (r # rs))) =
    (let v = saturating_add (case ev of None \<Rightarrow> 0 | Some v \<Rightarrow> v) 1 in
       Written \<lparr>vr_version = v, vr_record = r, vr_expires_at_ms = saturating_add now ttl\<rparr>
       # replicate (length rs) (Failed (CasConflict ev (Some v))))"
proof -
  define v where "v = saturating_add (case ev of None \<Rightarrow> 0 | Some v \<Rightarrow> v) 1"
  define e where "e = next_entry (live now (memory_entries s) cid) r ttl now"
  have e: "e = \<lparr>entry_version = v, entry_record = r, entry_expires_at_ms = saturating_add now ttl\<rparr>"
    using ev by (auto simp: e_def v_def next_entry_def split: option.splits)
  have v: "ev \<noteq> Some v" using max saturating_add_neq [of "the ev"] by (cases ev) (auto simp: v_def)
  have loser: "spec_run ((memory_entries s)(cid \<mapsto> e)) (map (\<lambda>r. (now, CompareAndSwap cid ev r ttl)) rs)
      = replicate (length rs) (Failed (CasConflict ev (Some v)))" for rs
    using v ttl by (induction rs) (simp_all add: live_def e Let_def)
  have "snd (run memory_step s (map (\<lambda>r. (now, CompareAndSwap cid ev r ttl)) (r # rs)))
      = spec_run (memory_entries s) (map (\<lambda>r. (now, CompareAndSwap cid ev r ttl)) (r # rs))"
    by (rule memory.run_spec [OF ok, of now]) (auto simp: comp_def map_replicate_const)
  also have "\<dots> = Written (to_versioned e) # replicate (length rs) (Failed (CasConflict ev (Some v)))"
    using ev loser by (simp add: e_def [symmetric] Let_def)
  finally show ?thesis by (simp add: v_def [symmetric] e to_versioned_def Let_def)
qed

theorem cas_single_winner_witness:
  "snd (run memory_step [[], []] (map (\<lambda>r. (10, CompareAndSwap 1 None r 5)) [demo_record, demo_record]))
     = [Written \<lparr>vr_version = 1, vr_record = demo_record, vr_expires_at_ms = 15\<rparr>,
        Failed (CasConflict None (Some 1))]"
proof -
  have ok: "memory_ok [[], []]"
    by (auto simp: memory_ok_def bmap_keys_def nth_Cons split: nat.splits)
  have ev: "map_option entry_version (live 10 (memory_entries [[], []]) 1) = None"
    by (simp add: live_def memory_entries_def shard_index_def)
  have ttl: "(10 :: u64) < saturating_add 10 5" "saturating_add 10 5 = (15 :: u64)" "saturating_add 0 1 = (1 :: u64)"
    by (simp_all add: saturating_add_def)
  from cas_single_winner [OF ok ev _ ttl(1), of demo_record "[demo_record]"] show ?thesis
    by (simp add: ttl Let_def)
qed

end
