(* ===== verification/Server_Runtime.thy ===== *)
theory Server_Runtime
  imports Core_Timers Timers Stun_Turn Store
begin

text \<open>
  The server runtime of \<^verbatim>\<open>v3-server-runtime/src/lib.rs\<close>: one protocol machine per connection identifier,
  one timer table for all of them, the session store and the counters.  A datagram is routed by the
  connection identifier of its frame; an unknown one gets a machine, configured from the stored record
  when there is one.  After every step of a machine its events are translated, its timers entered, its
  datagrams counted, and the session written to the store, or removed from it when the machine is lost.
  The store is the trait object \<^verbatim>\<open>Arc<dyn SessionStore>\<close>: a parameter, with the wall-clock time its calls
  take; so is the encoder of the \<^verbatim>\<open>base64\<close> crate.
\<close>

section \<open>Data\<close>

datatype runtime_event =
    RuntimeParseError
  | RuntimeCoreEvent u64 event
  | RuntimeNatPairNominated u64 nat nat
  | RuntimeTurnAction u64 turn_action
  | VhostPathBound u64 string u32
  | RuntimeMessageReceived u64 u64 string

record server_runtime_output =
  sro_outbound_datagrams :: "outbound_datagram list"
  sro_events :: "runtime_event list"

record session_runtime =
  sess_core :: core_machine
  sess_peer_id :: string
  sess_bound_vhost :: "string option"
  sess_selected_path_id :: "u32 option"
  sess_sent_data_ids :: "u64 set"

record server_runtime_metrics =
  sm_parse_errors :: u64
  sm_handshake_started :: u64
  sm_handshake_established :: u64
  sm_reactivated :: u64
  sm_disconnected :: u64
  sm_disconnect_reason_unknown :: u64
  sm_msr_sent :: u64
  sm_msr_probe_sent :: u64
  sm_msr_missed_inferred :: u64
  sm_request_range_sent :: u64
  sm_data_sent :: u64
  sm_data_retransmit_inferred :: u64
  sm_ice_candidate_selected :: u64
  sm_turn_actions :: u64
  sm_turn_retry_actions :: u64
  sm_turn_mark_failed_actions :: u64
  sm_turn_alloc_actions :: u64
  sm_turn_refresh_actions :: u64
  sm_turn_permission_actions :: u64
  sm_turn_channel_bind_actions :: u64
  sm_store_load_calls :: u64
  sm_store_load_failures :: u64
  sm_store_load_latency_us_total :: u64
  sm_store_upsert_calls :: u64
  sm_store_upsert_failures :: u64
  sm_store_upsert_latency_us_total :: u64
  sm_store_delete_calls :: u64
  sm_store_delete_failures :: u64
  sm_peak_sessions :: u64

definition server_metrics_default :: server_runtime_metrics where
  "server_metrics_default = \<lparr>sm_parse_errors = 0, sm_handshake_started = 0, sm_handshake_established = 0,
     sm_reactivated = 0, sm_disconnected = 0, sm_disconnect_reason_unknown = 0, sm_msr_sent = 0,
     sm_msr_probe_sent = 0, sm_msr_missed_inferred = 0, sm_request_range_sent = 0, sm_data_sent = 0,
     sm_data_retransmit_inferred = 0, sm_ice_candidate_selected = 0, sm_turn_actions = 0,
     sm_turn_retry_actions = 0, sm_turn_mark_failed_actions = 0, sm_turn_alloc_actions = 0,
     sm_turn_refresh_actions = 0, sm_turn_permission_actions = 0, sm_turn_channel_bind_actions = 0,
     sm_store_load_calls = 0, sm_store_load_failures = 0, sm_store_load_latency_us_total = 0,
     sm_store_upsert_calls = 0, sm_store_upsert_failures = 0, sm_store_upsert_latency_us_total = 0,
     sm_store_delete_calls = 0, sm_store_delete_failures = 0, sm_peak_sessions = 0\<rparr>"

record 's server_runtime =
  sv_cfg :: core_config
  sv_store :: 's
  sv_sessions :: "(u64, session_runtime) bmap"
  sv_timers :: "(u64 \<times> timer_id) timers"
  sv_relay_policy :: relay_policy
  sv_metrics :: server_runtime_metrics

text \<open>\<open>ExpectFailed\<close> is not an error of the source: it stands for the panic of
  \<^verbatim>\<open>expect("session must exist after ensure_session_loaded")\<close>, which never happens
  (\<open>server_never_panics\<close>).\<close>

datatype server_runtime_error =
    ServerWireError wire_error
  | ServerCoreError core_error
  | ServerStoreError store_error
  | ExpectFailed

type_synonym 's server_result = "'s server_runtime \<times> (server_runtime_error + server_runtime_output)"

text \<open>The store's methods the runtime calls, the time in microseconds one of these calls takes, and the
  \<^verbatim>\<open>base64\<close> encoder.\<close>

record 's server_env =
  st_load :: "'s \<Rightarrow> u64 \<Rightarrow> u64 \<Rightarrow> 's \<times> (store_error + versioned_record option)"
  st_upsert :: "'s \<Rightarrow> u64 \<Rightarrow> session_record \<Rightarrow> u64 \<Rightarrow> u64 \<Rightarrow> 's \<times> (store_error + versioned_record)"
  st_delete :: "'s \<Rightarrow> u64 \<Rightarrow> 's \<times> (store_error + unit)"
  elapsed_us :: "'s \<Rightarrow> u64 \<times> store_op \<Rightarrow> u64"
  base64_encode :: "bytes \<Rightarrow> string"

definition server_new_with_nat_policy :: "core_config \<Rightarrow> 's \<Rightarrow> relay_policy \<Rightarrow> 's server_runtime" where
  "server_new_with_nat_policy cfg store rp =
     \<lparr>sv_cfg = cfg, sv_store = store, sv_sessions = [], sv_timers = [], sv_relay_policy = rp,
      sv_metrics = server_metrics_default\<rparr>"

definition server_new :: "core_config \<Rightarrow> 's \<Rightarrow> 's server_runtime" where
  "server_new cfg store = server_new_with_nat_policy cfg store PreferDirect"

definition server_set_relay_policy :: "'s server_runtime \<Rightarrow> relay_policy \<Rightarrow> 's server_runtime" where
  "server_set_relay_policy r rp = r\<lparr>sv_relay_policy := rp\<rparr>"

definition active_sessions :: "'s server_runtime \<Rightarrow> nat" where
  "active_sessions r = length (sv_sessions r)"

definition gather_local_candidates :: "'s server_runtime \<Rightarrow> (ip_addr \<times> u16) list \<Rightarrow> u16 \<Rightarrow> ice_candidate list" where
  "gather_local_candidates r sockets component = gather_host_candidates sockets component ''udp''"

text \<open>Two calls are kept for compatibility and do nothing.\<close>

definition server_on_nat_tick :: "'s server_runtime \<Rightarrow> u64 \<Rightarrow> 's server_runtime \<times> server_runtime_output" where
  "server_on_nat_tick r now = (r, \<lparr>sro_outbound_datagrams = [], sro_events = []\<rparr>)"

definition server_on_ice_candidates ::
    "'s server_runtime \<Rightarrow> u64 \<Rightarrow> string \<Rightarrow> ice_candidate list \<Rightarrow> ice_candidate list \<Rightarrow> 's server_result" where
  "server_on_ice_candidates r cid vhost local remote = (r, Inr \<lparr>sro_outbound_datagrams = [], sro_events = []\<rparr>)"

section \<open>Observing a machine\<close>

text \<open>\<^verbatim>\<open>self.metrics.x = self.metrics.x.saturating_add(1)\<close> is \<open>bump (sm_x_update incr)\<close>.\<close>

definition incr :: "u64 \<Rightarrow> u64" where
  "incr n = saturating_add n 1"

definition bump :: "(server_runtime_metrics \<Rightarrow> server_runtime_metrics) \<Rightarrow> 's server_runtime \<Rightarrow> 's server_runtime" where
  "bump f r = r\<lparr>sv_metrics := f (sv_metrics r)\<rparr>"

definition server_observe_event :: "server_runtime_metrics \<Rightarrow> event \<Rightarrow> server_runtime_metrics" where
  "server_observe_event ms e =
     (case e of
        HandshakeStarted \<Rightarrow> sm_handshake_started_update incr ms
      | HandshakeEstablished \<Rightarrow> sm_handshake_established_update incr ms
      | Reactivated \<Rightarrow> sm_reactivated_update incr ms
      | ReactivationProbeSent \<Rightarrow> sm_msr_missed_inferred_update incr (sm_msr_probe_sent_update incr ms)
      | RequestRangeSent _ _ \<Rightarrow> sm_request_range_sent_update incr ms
      | Disconnected \<Rightarrow> sm_disconnect_reason_unknown_update incr (sm_disconnected_update incr ms)
      | _ \<Rightarrow> ms)"

text \<open>One iteration of \<^verbatim>\<open>observe_datagrams\<close>: a data frame whose identifier the session has sent before counts
  as a retransmission.\<close>

definition observe_data_id :: "u64 \<Rightarrow> u64 \<Rightarrow> 's server_runtime \<Rightarrow> 's server_runtime" where
  "observe_data_id cid msg_id r =
     (case bmap_get (sv_sessions r) cid of
        None \<Rightarrow> r
      | Some session \<Rightarrow>
          if msg_id \<in> sess_sent_data_ids session
          then bump (sm_data_retransmit_inferred_update incr) r
          else r\<lparr>sv_sessions := bmap_insert cid
            (session\<lparr>sess_sent_data_ids := insert msg_id (sess_sent_data_ids session)\<rparr>) (sv_sessions r)\<rparr>)"

definition server_observe_datagram :: "u64 \<Rightarrow> 's server_runtime \<Rightarrow> outbound_datagram \<Rightarrow> 's server_runtime" where
  "server_observe_datagram cid r d =
     (case decode (dgram_bytes d) of
        Inl _ \<Rightarrow> r
      | Inr frame \<Rightarrow>
         (case frame_type frame of
            Msr \<Rightarrow> bump (sm_msr_sent_update incr) r
          | Data \<Rightarrow>
              let r = bump (sm_data_sent_update incr) r
              in if 8 \<le> length (frame_payload frame)
                 then observe_data_id cid (from_be_bytes (take 8 (frame_payload frame))) r else r
          | _ \<Rightarrow> r))"

definition server_observe_datagrams :: "u64 \<Rightarrow> 's server_runtime \<Rightarrow> outbound_datagram list \<Rightarrow> 's server_runtime" where
  "server_observe_datagrams cid r ds = foldl (server_observe_datagram cid) r ds"

fun server_ingest_timers :: "u64 \<Rightarrow> timer_action list \<Rightarrow> (u64 \<times> timer_id) timers \<Rightarrow> (u64 \<times> timer_id) timers" where
  "server_ingest_timers cid [] t = t"
| "server_ingest_timers cid (Schedule i d # actions) t = server_ingest_timers cid actions (timers_push d (cid, i) t)"

definition update_peak_sessions_metric :: "'s server_runtime \<Rightarrow> 's server_runtime" where
  "update_peak_sessions_metric r =
     (let current = word_of_nat (length (sv_sessions r))
      in if current > sm_peak_sessions (sv_metrics r)
         then bump (sm_peak_sessions_update (\<lambda>_. current)) r else r)"

text \<open>The events of a machine as events of the runtime; a message is announced twice, once as a core event.\<close>

definition translate_event :: "'s server_env \<Rightarrow> u64 \<Rightarrow> event \<Rightarrow> runtime_event list" where
  "translate_event E cid e = RuntimeCoreEvent cid e #
     (case e of MessageReceived msg_id payload \<Rightarrow> [RuntimeMessageReceived cid msg_id (base64_encode E payload)] | _ \<Rightarrow> [])"

definition route_datagram :: "u32 \<Rightarrow> outbound_datagram \<Rightarrow> outbound_datagram" where
  "route_datagram src_path_id d =
     \<lparr>dgram_path_id = (if dgram_path_id d = 0 then src_path_id else dgram_path_id d), dgram_bytes = dgram_bytes d\<rparr>"

section \<open>The store\<close>

text \<open>The branch of \<^verbatim>\<open>apply_core_output\<close> for a lost machine: the session is dropped even when the store fails.\<close>

definition drop_session :: "'s server_env \<Rightarrow> u64 \<Rightarrow> 's server_runtime \<Rightarrow> 's server_runtime \<times> (server_runtime_error + unit)" where
  "drop_session E cid r =
     (let r = bump (sm_store_delete_calls_update incr) r;
          (store, delete_res) = st_delete E (sv_store r) cid;
          r = r\<lparr>sv_store := store, sv_sessions := bmap_remove cid (sv_sessions r)\<rparr>
      in case delete_res of
           Inl e \<Rightarrow> (bump (sm_store_delete_failures_update incr) r, Inl (ServerStoreError e))
         | Inr _ \<Rightarrow> (bump (sm_disconnect_reason_unknown_update incr) (bump (sm_disconnected_update incr) r), Inr ()))"

text \<open>The branch for a machine that is not lost.\<close>

definition session_snapshot :: "core_config \<Rightarrow> u64 \<Rightarrow> session_runtime \<Rightarrow> session_record" where
  "session_snapshot cfg cid session =
     \<lparr>sr_cid = cid, sr_peer_id = sess_peer_id session, sr_negotiated_msr_interval_ms = msr_interval_ms cfg,
      sr_disconnect_window_ms = disconnect_window_ms cfg,
      sr_last_ordered_rx = last_ordered_rx (sess_core session), sr_last_ordered_tx = 0\<rparr>"

definition persist_session ::
    "'s server_env \<Rightarrow> u64 \<Rightarrow> u64 \<Rightarrow> session_runtime \<Rightarrow> 's server_runtime \<Rightarrow> 's server_runtime \<times> (server_runtime_error + unit)" where
  "persist_session E cid now session r =
     (let record = session_snapshot (sv_cfg r) cid session; ttl = disconnect_window_ms (sv_cfg r);
          r = bump (sm_store_upsert_calls_update incr) r;
          upsert_elapsed = elapsed_us E (sv_store r) (now, Upsert cid record ttl);
          (store, upsert_res) = st_upsert E (sv_store r) cid record ttl now;
          r = bump (sm_store_upsert_latency_us_total_update (\<lambda>n. saturating_add n upsert_elapsed)) (r\<lparr>sv_store := store\<rparr>)
      in case upsert_res of
           Inl e \<Rightarrow> (bump (sm_store_upsert_failures_update incr) r, Inl (ServerStoreError e))
         | Inr _ \<Rightarrow> (r, Inr ()))"

definition settle_session :: "'s server_env \<Rightarrow> u64 \<Rightarrow> u64 \<Rightarrow> 's server_runtime \<Rightarrow> 's server_runtime \<times> (server_runtime_error + unit)" where
  "settle_session E cid now r =
     (case bmap_get (sv_sessions r) cid of
        None \<Rightarrow> (r, Inr ())
      | Some session \<Rightarrow>
          if lifecycle (sess_core session) = Lost then drop_session E cid r else persist_session E cid now session r)"

definition server_apply_core_output ::
    "'s server_env \<Rightarrow> u64 \<Rightarrow> u32 \<Rightarrow> u64 \<Rightarrow> core_output \<Rightarrow> 's server_runtime \<Rightarrow> 's server_result" where
  "server_apply_core_output E cid src_path_id now out r =
     (let r = bump (\<lambda>ms. foldl server_observe_event ms (events out)) r;
          r = r\<lparr>sv_timers := server_ingest_timers cid (timer_actions out) (sv_timers r)\<rparr>;
          datagrams = map (route_datagram src_path_id) (outbound_datagrams out);
          r = server_observe_datagrams cid r datagrams
      in and_then (settle_session E cid now r)
           (\<lambda>r _. (r, Inr \<lparr>sro_outbound_datagrams = datagrams,
                           sro_events = concat (map (translate_event E cid) (events out))\<rparr>)))"

text \<open>The configuration and the peer name of a session that is not loaded.\<close>

definition initial_session :: "core_config \<Rightarrow> u32 \<Rightarrow> versioned_record option \<Rightarrow> core_config \<times> string" where
  "initial_session cfg src_path_id loaded =
     (case loaded of
        Some versioned \<Rightarrow>
          (\<lparr>msr_interval_ms = sr_negotiated_msr_interval_ms (vr_record versioned),
            miss_window_count = miss_window_count cfg,
            disconnect_window_ms = sr_disconnect_window_ms (vr_record versioned)\<rparr>,
           sr_peer_id (vr_record versioned))
      | None \<Rightarrow> (cfg, ''path:'' @ decimal (unat src_path_id)))"

definition ensure_session_loaded ::
    "'s server_env \<Rightarrow> u64 \<Rightarrow> u32 \<Rightarrow> u64 \<Rightarrow> 's server_runtime \<Rightarrow> 's server_runtime \<times> (server_runtime_error + unit)" where
  "ensure_session_loaded E cid src_path_id now r =
     (if bmap_contains (sv_sessions r) cid then (r, Inr ())
      else
        let r = bump (sm_store_load_calls_update incr) r;
            load_elapsed_us = elapsed_us E (sv_store r) (now, Load cid);
            (store, loaded) = st_load E (sv_store r) cid now;
            r = bump (sm_store_load_latency_us_total_update (\<lambda>n. saturating_add n load_elapsed_us)) (r\<lparr>sv_store := store\<rparr>)
        in case loaded of
             Inl e \<Rightarrow> (bump (sm_store_load_failures_update incr) r, Inl (ServerStoreError e))
           | Inr loaded \<Rightarrow>
               let (cfg, peer_id) = initial_session (sv_cfg r) src_path_id loaded;
                   (core, res) = on_path_event (new_machine Server cid cfg) (PathChanged src_path_id)
               in case res of
                    Inl e \<Rightarrow> (r, Inl (ServerCoreError e))
                  | Inr _ \<Rightarrow>
                      (update_peak_sessions_metric (r\<lparr>sv_sessions := bmap_insert cid
                         \<lparr>sess_core = core, sess_peer_id = peer_id, sess_bound_vhost = None,
                          sess_selected_path_id = None, sess_sent_data_ids = {}\<rparr> (sv_sessions r)\<rparr>), Inr ()))"

section \<open>Calls\<close>

text \<open>A step of the machine of a session: \<^verbatim>\<open>session.core.f(..)?\<close> and then \<^verbatim>\<open>apply_core_output\<close>.\<close>

definition session_call ::
    "'s server_env \<Rightarrow> u64 \<Rightarrow> u32 \<Rightarrow> u64 \<Rightarrow> session_runtime \<Rightarrow> core_result \<Rightarrow> 's server_runtime \<Rightarrow> 's server_result" where
  "session_call E cid src_path_id now session res r =
     (let (core, core_out) = res;
          r = r\<lparr>sv_sessions := bmap_insert cid (session\<lparr>sess_core := core\<rparr>) (sv_sessions r)\<rparr>
      in case core_out of
           Inl e \<Rightarrow> (r, Inl (ServerCoreError e))
         | Inr out \<Rightarrow> server_apply_core_output E cid src_path_id now out r)"

definition vhost_events :: "u64 \<Rightarrow> u32 \<Rightarrow> session_runtime \<Rightarrow> runtime_event list" where
  "vhost_events cid src_path_id session =
     (case (sess_bound_vhost session, sess_selected_path_id session) of
        (Some vhost, Some bound) \<Rightarrow> if bound = src_path_id then [VhostPathBound cid vhost src_path_id] else []
      | _ \<Rightarrow> [])"

definition server_runtime_on_datagram :: "'s server_env \<Rightarrow> 's server_runtime \<Rightarrow> u64 \<Rightarrow> u32 \<Rightarrow> bytes \<Rightarrow> 's server_result" where
  "server_runtime_on_datagram E r now src_path_id bs =
     (case decode bs of
        Inl _ \<Rightarrow> (bump (sm_parse_errors_update incr) r,
          Inr \<lparr>sro_outbound_datagrams = [], sro_events = [RuntimeParseError]\<rparr>)
      | Inr frame \<Rightarrow>
          let cid = frame_cid frame
          in and_then (ensure_session_loaded E cid src_path_id now r) (\<lambda>r _.
               case bmap_get (sv_sessions r) cid of
                 None \<Rightarrow> (r, Inl ExpectFailed)
               | Some session \<Rightarrow>
                   and_then (session_call E cid src_path_id now session
                       (on_datagram (sess_core session) now src_path_id bs) r)
                     (\<lambda>r out. (r, Inr (out\<lparr>sro_events := vhost_events cid src_path_id session @ sro_events out\<rparr>)))))"

fun server_fire ::
    "'s server_env \<Rightarrow> 's server_runtime \<Rightarrow> u64 \<Rightarrow> (u64 \<times> u64 \<times> timer_id) list \<Rightarrow> server_runtime_output \<Rightarrow> 's server_result" where
  "server_fire E r now [] out = (r, Inr out)"
| "server_fire E r now ((deadline, cid, i) # entries) out =
     (let r = r\<lparr>sv_timers := timers_take deadline (cid, i) (sv_timers r)\<rparr> in
      case bmap_get (sv_sessions r) cid of
        None \<Rightarrow> server_fire E r now entries out
      | Some session \<Rightarrow>
         (case session_call E cid 0 now session (on_timer (sess_core session) now i) r of
            (r, Inl e) \<Rightarrow> (r, Inl e)
          | (r, Inr partial_out) \<Rightarrow> server_fire E r now entries
              \<lparr>sro_outbound_datagrams = sro_outbound_datagrams out @ sro_outbound_datagrams partial_out,
               sro_events = sro_events out @ sro_events partial_out\<rparr>))"

definition server_poll_timers :: "'s server_env \<Rightarrow> 's server_runtime \<Rightarrow> u64 \<Rightarrow> nat \<Rightarrow> 's server_result" where
  "server_poll_timers E r now limit =
     server_fire E r now (collect_due now limit (sv_timers r)) \<lparr>sro_outbound_datagrams = [], sro_events = []\<rparr>"

definition server_send_message :: "'s server_env \<Rightarrow> 's server_runtime \<Rightarrow> u64 \<Rightarrow> bytes \<Rightarrow> u64 \<Rightarrow> 's server_result" where
  "server_send_message E r cid payload now =
     (case bmap_get (sv_sessions r) cid of
        None \<Rightarrow> (r, Inr \<lparr>sro_outbound_datagrams = [], sro_events = []\<rparr>)
      | Some session \<Rightarrow> session_call E cid 0 now session (on_api_send (sess_core session) payload) r)"

datatype server_input =
    ServerDatagram u64 u32 bytes
  | ServerPoll u64 nat
  | ServerSend u64 bytes u64

fun server_step :: "'s server_env \<Rightarrow> 's server_runtime \<Rightarrow> server_input \<Rightarrow> 's server_result" where
  "server_step E r (ServerDatagram now path bs) = server_runtime_on_datagram E r now path bs"
| "server_step E r (ServerPoll now limit) = server_poll_timers E r now limit"
| "server_step E r (ServerSend cid payload now) = server_send_message E r cid payload now"

section \<open>What a call changes\<close>

lemma bump_fields [simp]:
  "sv_sessions (bump f r) = sv_sessions r" "sv_timers (bump f r) = sv_timers r"
  "sv_store (bump f r) = sv_store r" "sv_cfg (bump f r) = sv_cfg r" "sv_metrics (bump f r) = f (sv_metrics r)"
  by (simp_all add: bump_def)

text \<open>The machine and the peer of each session; what has been sent only feeds a counter.\<close>

definition seen_in :: "(u64, session_runtime) bmap \<Rightarrow> u64 \<Rightarrow> (core_machine \<times> string) option" where
  "seen_in m cid = map_option (\<lambda>s. (sess_core s, sess_peer_id s)) (bmap_get m cid)"

abbreviation seen :: "'s server_runtime \<Rightarrow> u64 \<Rightarrow> (core_machine \<times> string) option" where
  "seen r \<equiv> seen_in (sv_sessions r)"

lemma seen_in_update [simp]:
  "seen_in [] = (\<lambda>_. None)" "seen_in (bmap_remove cid m) = (seen_in m)(cid := None)"
  "seen_in (bmap_insert cid s m) = (seen_in m)(cid \<mapsto> (sess_core s, sess_peer_id s))"
  by (simp_all add: seen_in_def fun_eq_iff)

definition keeps :: "'s server_runtime \<Rightarrow> 's server_runtime \<Rightarrow> bool" where
  "keeps r r' \<longleftrightarrow> seen r' = seen r \<and> sv_timers r' = sv_timers r \<and> sv_store r' = sv_store r \<and> sv_cfg r' = sv_cfg r
     \<and> (bmap_ok (sv_sessions r) \<longrightarrow> bmap_ok (sv_sessions r'))"

lemma keeps_refl [simp]: "keeps r r"
  by (simp add: keeps_def)

lemma keeps_bump [simp]: "keeps r (bump f r)"
  by (simp add: keeps_def)

lemma keeps_trans: "keeps r r' \<Longrightarrow> keeps r' r'' \<Longrightarrow> keeps r r''"
  by (simp add: keeps_def)

lemma observe_data_id_keeps: "keeps r (observe_data_id cid i r)"
proof (cases "bmap_get (sv_sessions r) cid")
  case (Some session)
  then have "seen r cid = Some (sess_core session, sess_peer_id session)" by (simp add: seen_in_def)
  then show ?thesis using Some by (simp add: observe_data_id_def keeps_def fun_upd_idem)
qed (simp add: observe_data_id_def)

lemma server_observe_datagram_keeps: "keeps r (server_observe_datagram cid r d)"
proof (cases "decode (dgram_bytes d)")
  case (Inr f)
  then show ?thesis
    by (cases "frame_type f")
      (simp_all add: server_observe_datagram_def Let_def keeps_trans [OF keeps_bump observe_data_id_keeps])
qed (simp add: server_observe_datagram_def)

lemma server_observe_datagrams_keeps: "keeps r (server_observe_datagrams cid r ds)"
  unfolding server_observe_datagrams_def
  by (induction ds arbitrary: r) (auto intro: keeps_trans [OF server_observe_datagram_keeps])

lemma observed [simp]:
  "seen (server_observe_datagrams cid r ds) = seen r" "sv_timers (server_observe_datagrams cid r ds) = sv_timers r"
  "sv_store (server_observe_datagrams cid r ds) = sv_store r" "sv_cfg (server_observe_datagrams cid r ds) = sv_cfg r"
  "bmap_ok (sv_sessions r) \<Longrightarrow> bmap_ok (sv_sessions (server_observe_datagrams cid r ds))"
  using server_observe_datagrams_keeps [of r cid ds] by (simp_all add: keeps_def)

definition lost :: "(core_machine \<times> string) option \<Rightarrow> bool" where
  "lost s \<longleftrightarrow> (\<exists>c p. s = Some (c, p) \<and> lifecycle c = Lost)"

lemma lost_simps [simp]: "\<not> lost None" "lost (Some (c, p)) \<longleftrightarrow> lifecycle c = Lost"
  by (simp_all add: lost_def)

lemma drop_session_effect:
  "seen (fst (drop_session E cid r)) = (seen r)(cid := None)"
  "sv_timers (fst (drop_session E cid r)) = sv_timers r" "sv_cfg (fst (drop_session E cid r)) = sv_cfg r"
  "bmap_ok (sv_sessions r) \<Longrightarrow> bmap_ok (sv_sessions (fst (drop_session E cid r)))"
  "sv_store (fst (drop_session E cid r)) = fst (st_delete E (sv_store r) cid)"
  by (cases "st_delete E (sv_store r) cid"; cases "snd (st_delete E (sv_store r) cid)";
      simp add: drop_session_def seen_in_def fun_eq_iff)+

lemma persist_session_effect:
  "seen (fst (persist_session E cid now session r)) = seen r"
  "sv_timers (fst (persist_session E cid now session r)) = sv_timers r"
  "sv_cfg (fst (persist_session E cid now session r)) = sv_cfg r"
  "sv_sessions (fst (persist_session E cid now session r)) = sv_sessions r"
  "sv_store (fst (persist_session E cid now session r)) = fst (st_upsert E (sv_store r) cid
     (session_snapshot (sv_cfg r) cid session) (disconnect_window_ms (sv_cfg r)) now)"
  by (cases "st_upsert E (sv_store r) cid (session_snapshot (sv_cfg r) cid session) (disconnect_window_ms (sv_cfg r)) now";
      cases "snd (st_upsert E (sv_store r) cid (session_snapshot (sv_cfg r) cid session) (disconnect_window_ms (sv_cfg r)) now)";
      simp add: persist_session_def Let_def)+

lemma settle_session_effect:
  "seen (fst (settle_session E cid now r)) = (seen r)(cid := if lost (seen r cid) then None else seen r cid)"
  "sv_timers (fst (settle_session E cid now r)) = sv_timers r"
  "sv_cfg (fst (settle_session E cid now r)) = sv_cfg r"
  "bmap_ok (sv_sessions r) \<Longrightarrow> bmap_ok (sv_sessions (fst (settle_session E cid now r)))"
  by (cases "bmap_get (sv_sessions r) cid";
      simp add: settle_session_def drop_session_effect persist_session_effect fun_upd_idem_iff;
      simp add: seen_in_def)+

lemma fst_and_then_keep [simp]: "fst (and_then x (\<lambda>s a. (s, Inr (g s a)))) = fst x"
  by (auto simp: and_then_def split: prod.split sum.split)

lemma server_apply_effect:
  "seen (fst (server_apply_core_output E cid path now out r)) = (seen r)(cid := if lost (seen r cid) then None else seen r cid)"
  "sv_timers (fst (server_apply_core_output E cid path now out r)) = server_ingest_timers cid (timer_actions out) (sv_timers r)"
  "sv_cfg (fst (server_apply_core_output E cid path now out r)) = sv_cfg r"
  "bmap_ok (sv_sessions r) \<Longrightarrow> bmap_ok (sv_sessions (fst (server_apply_core_output E cid path now out r)))"
  by (simp_all add: server_apply_core_output_def settle_session_effect Let_def)

lemma session_call_effect:
  "seen (fst (session_call E cid path now session res r)) =
      (seen r)(cid := if (\<exists>out. snd res = Inr out) \<and> lifecycle (fst res) = Lost then None
         else Some (fst res, sess_peer_id session))"
  "sv_timers (fst (session_call E cid path now session res r)) =
      (case snd res of Inl _ \<Rightarrow> sv_timers r | Inr out \<Rightarrow> server_ingest_timers cid (timer_actions out) (sv_timers r))"
  "sv_cfg (fst (session_call E cid path now session res r)) = sv_cfg r"
  "bmap_ok (sv_sessions r) \<Longrightarrow> bmap_ok (sv_sessions (fst (session_call E cid path now session res r)))"
  by (cases res; cases "snd res"; simp add: session_call_def server_apply_effect)+

lemma update_peak_fields [simp]:
  "seen (update_peak_sessions_metric r) = seen r" "sv_timers (update_peak_sessions_metric r) = sv_timers r"
  "sv_cfg (update_peak_sessions_metric r) = sv_cfg r" "sv_sessions (update_peak_sessions_metric r) = sv_sessions r"
  "sv_store (update_peak_sessions_metric r) = sv_store r"
  by (simp_all add: update_peak_sessions_metric_def Let_def)

lemma session_seen: "bmap_get (sv_sessions r) cid = Some s \<Longrightarrow> seen r cid = Some (sess_core s, sess_peer_id s)"
  "bmap_get (sv_sessions r) cid = None \<Longrightarrow> seen r cid = None"
  by (simp_all add: seen_in_def)

text \<open>A session that is not loaded gets a fresh machine when the store answers.\<close>

definition fresh_session :: "u64 \<Rightarrow> u32 \<Rightarrow> core_config \<times> string \<Rightarrow> core_machine \<times> string" where
  "fresh_session cid path cp = ((new_machine Server cid (fst cp))\<lparr>current_path_id := path\<rparr>, snd cp)"

lemma ensure_loaded: "seen r cid \<noteq> None \<Longrightarrow> ensure_session_loaded E cid path now r = (r, Inr ())"
  by (auto simp: ensure_session_loaded_def bmap_contains_def seen_in_def)

lemma ensure_failed:
  assumes "seen r cid = None" and "snd (st_load E (sv_store r) cid now) = Inl e"
  shows "\<exists>r'. ensure_session_loaded E cid path now r = (r', Inl (ServerStoreError e)) \<and> seen r' = seen r
    \<and> sv_timers r' = sv_timers r \<and> sv_cfg r' = sv_cfg r \<and> sv_sessions r' = sv_sessions r
    \<and> sv_store r' = fst (st_load E (sv_store r) cid now)"
  using assms by (cases "st_load E (sv_store r) cid now")
    (simp add: ensure_session_loaded_def bmap_contains_def seen_in_def Let_def)

lemma ensure_fresh:
  assumes "seen r cid = None" and "snd (st_load E (sv_store r) cid now) = Inr v"
  shows "\<exists>r'. ensure_session_loaded E cid path now r = (r', Inr ())
    \<and> seen r' = (seen r)(cid \<mapsto> fresh_session cid path (initial_session (sv_cfg r) path v))
    \<and> sv_timers r' = sv_timers r \<and> sv_cfg r' = sv_cfg r \<and> (bmap_ok (sv_sessions r) \<longrightarrow> bmap_ok (sv_sessions r'))
    \<and> sv_store r' = fst (st_load E (sv_store r) cid now)"
proof -
  have "bmap_get (sv_sessions r) cid = None" using assms(1) by (simp add: seen_in_def)
  then show ?thesis using assms(2)
    by (cases "st_load E (sv_store r) cid now"; cases "initial_session (sv_cfg r) path v")
      (simp add: ensure_session_loaded_def bmap_contains_def on_path_event_def fresh_session_def Let_def)
qed

section \<open>The watchdog\<close>

lemma server_ingest_ok [simp]: "bmap_ok t \<Longrightarrow> bmap_ok (server_ingest_timers cid acts t)"
  by (induction cid acts t rule: server_ingest_timers.induct) auto

lemma server_ingest_pending:
  "bmap_ok t \<Longrightarrow> pending (server_ingest_timers cid acts t) (k, x) \<longleftrightarrow>
     pending t (k, x) \<or> k = cid \<and> (\<exists>d. Schedule x d \<in> set acts)"
  by (induction cid acts t rule: server_ingest_timers.induct) auto

definition guarded :: "(u64 \<times> timer_id) timers \<Rightarrow> u64 \<Rightarrow> core_machine \<times> string \<Rightarrow> bool" where
  "guarded t cid s \<longleftrightarrow> core_role (fst s) = Server \<and> core_cid (fst s) = cid \<and> watched (fst s)
     \<and> (alive (fst s) \<longrightarrow> (\<forall>i \<in> watches Server. pending t (cid, i)))"

definition server_ok :: "'s server_runtime \<Rightarrow> bool" where
  "server_ok r \<longleftrightarrow> bmap_ok (sv_timers r) \<and> bmap_ok (sv_sessions r)
     \<and> (\<forall>cid s. seen r cid = Some s \<longrightarrow> guarded (sv_timers r) cid s)"

lemma guardedD: "server_ok r \<Longrightarrow> seen r cid = Some s \<Longrightarrow> guarded (sv_timers r) cid s"
  unfolding server_ok_def by blast

lemma guarded_step:
  assumes g: "guarded t cid s" and t: "bmap_ok t" and res: "res = core_step (fst s) i"
  shows "guarded (case snd res of Inl _ \<Rightarrow> t | Inr out \<Rightarrow> server_ingest_timers cid (timer_actions out) t) cid (fst res, p)"
proof -
  have w: "watched (fst s)" and c: "core_role (fst s) = Server" "core_cid (fst s) = cid"
    using g by (auto simp: guarded_def)
  have "pending (case snd res of Inl _ \<Rightarrow> t | Inr out \<Rightarrow> server_ingest_timers cid (timer_actions out) t) (cid, x)"
    if x: "alive (fst res)" "x \<in> watches Server" for x
  proof (cases "alive (fst s)")
    case True
    then show ?thesis using g x(2) t by (auto simp: guarded_def server_ingest_pending split: sum.split)
  next
    case False
    then obtain out where "snd res = Inr out" "watches Server \<subseteq> timer_ids out"
      using core_step_revives [OF w, of i] x(1) c res by auto
    then show ?thesis using x(2) t by (auto simp: server_ingest_pending timer_ids_def)
  qed
  then show ?thesis
    using core_step_revives [OF w, of i] core_step_cid [of "fst s" i] c res by (auto simp: guarded_def)
qed

lemma guarded_other:
  assumes "guarded t k s" and "bmap_ok t"
  shows "guarded (server_ingest_timers cid acts t) k s"
  using assms by (auto simp: guarded_def server_ingest_pending)

lemma session_call_ok:
  assumes ok: "server_ok r" and s: "bmap_get (sv_sessions r) cid = Some session"
    and res: "res = core_step (sess_core session) i"
  shows "server_ok (fst (session_call E cid path now session res r))"
proof -
  let ?t = "case snd res of Inl _ \<Rightarrow> sv_timers r | Inr out \<Rightarrow> server_ingest_timers cid (timer_actions out) (sv_timers r)"
  have t: "bmap_ok (sv_timers r)" using ok by (simp add: server_ok_def)
  have "guarded ?t cid (fst res, sess_peer_id session)"
    using guarded_step [OF guardedD [OF ok session_seen(1) [OF s]] t] res by simp
  moreover have "guarded ?t k x" if "seen r k = Some x" for k x
    using guarded_other [OF guardedD [OF ok that] t] guardedD [OF ok that] by (cases "snd res") auto
  moreover have "bmap_ok ?t" using t by (auto split: sum.split)
  ultimately show ?thesis
    using ok unfolding server_ok_def by (auto simp: session_call_effect split: if_splits)
qed

lemma guarded_take:
  "guarded t k s \<Longrightarrow> bmap_ok t \<Longrightarrow> k \<noteq> cid \<Longrightarrow> guarded (timers_take d (cid, i) t) k s"
  by (auto simp: guarded_def intro: pending_take)

text \<open>Firing a timer: the entry leaves the table, and the machine asks for it again when it stays alive.\<close>

lemma guarded_fire:
  assumes g: "guarded t cid (core, p)" and t: "bmap_ok t" and o: "on_timer core now i = (m', Inr out)"
  shows "guarded (server_ingest_timers cid (timer_actions out) (timers_take d (cid, i) t)) cid (m', p)"
proof -
  have w: "watched core" and c: "core_role core = Server" "core_cid core = cid" using g by (auto simp: guarded_def)
  have step: "watched m'" "alive m' \<longrightarrow> alive core" "core_role m' = Server" "core_cid m' = cid"
    using other_revives [OF w, of "OnTimer now i"] core_step_revives [OF w, of "OnTimer now i"]
      core_step_cid [of core "OnTimer now i"] o c by auto
  have "pending (server_ingest_timers cid (timer_actions out) (timers_take d (cid, i) t)) (cid, x)"
    if "alive m'" "x \<in> watches Server" for x
  proof (cases "x = i")
    case True
    then show ?thesis
      using on_timer_rearms [OF w o that(1)] that(2) c t by (auto simp: server_ingest_pending timer_ids_def)
  next
    case False
    then show ?thesis using g that step(2) t by (auto simp: server_ingest_pending guarded_def intro: pending_take)
  qed
  then show ?thesis using step by (auto simp: guarded_def)
qed

lemma server_fire_step_ok:
  assumes ok: "server_ok r" and s: "bmap_get (sv_sessions r) cid = Some session"
  shows "server_ok (fst (session_call E cid 0 now session (on_timer (sess_core session) now i)
    (r\<lparr>sv_timers := timers_take d (cid, i) (sv_timers r)\<rparr>)))"
proof -
  let ?t = "timers_take d (cid, i) (sv_timers r)"
  have t: "bmap_ok (sv_timers r)" using ok by (simp add: server_ok_def)
  obtain m' out where o: "on_timer (sess_core session) now i = (m', Inr out)" using on_timer_ok by blast
  have "guarded (server_ingest_timers cid (timer_actions out) ?t) cid (m', sess_peer_id session)"
    by (rule guarded_fire [OF guardedD [OF ok session_seen(1) [OF s]] t o])
  moreover have "guarded (server_ingest_timers cid (timer_actions out) ?t) k x" if "seen r k = Some x" "k \<noteq> cid" for k x
    using guarded_other [OF guarded_take [OF guardedD [OF ok that(1)] t that(2)]] t by simp
  ultimately show ?thesis
    using ok t unfolding server_ok_def by (auto simp: session_call_effect o split: if_splits)
qed

lemma server_take_ok:
  assumes ok: "server_ok r" and s: "seen r cid = None"
  shows "server_ok (r\<lparr>sv_timers := timers_take d (cid, i) (sv_timers r)\<rparr>)"
proof -
  have t: "bmap_ok (sv_timers r)" using ok by (simp add: server_ok_def)
  have "guarded (timers_take d (cid, i) (sv_timers r)) k x" if "seen r k = Some x" for k x
    using guarded_take [OF guardedD [OF ok that] t] s that by (cases "k = cid") auto
  then show ?thesis using ok unfolding server_ok_def by simp
qed

lemma server_fire_ok: "server_ok r \<Longrightarrow> server_ok (fst (server_fire E r now es out))"
proof (induction es arbitrary: r out)
  case Nil
  then show ?case by simp
next
  case (Cons e es)
  obtain d cid i where e: "e = (d, cid, i)" by (cases e)
  let ?r = "r\<lparr>sv_timers := timers_take d (cid, i) (sv_timers r)\<rparr>"
  show ?case
  proof (cases "bmap_get (sv_sessions r) cid")
    case None
    then show ?thesis using Cons.IH [of ?r] server_take_ok [OF Cons.prems, of cid] by (simp add: e seen_in_def)
  next
    case (Some session)
    have ok: "server_ok (fst (session_call E cid 0 now session (on_timer (sess_core session) now i) ?r))"
      by (rule server_fire_step_ok [OF Cons.prems Some])
    obtain r1 res where c: "session_call E cid 0 now session (on_timer (sess_core session) now i) ?r = (r1, res)" by fastforce
    show ?thesis using Cons.IH [of r1] ok c Some by (cases res) (auto simp: e)
  qed
qed

lemma ensure_session_loaded_ok:
  assumes "server_ok r"
  shows "server_ok (fst (ensure_session_loaded E cid path now r))"
proof (cases "seen r cid")
  case (Some s)
  then show ?thesis using assms by (simp add: ensure_loaded)
next
  case None
  have fresh: "guarded t cid (fresh_session cid path cp)" for t cp
    by (simp add: guarded_def fresh_session_def new_machine_def watched_def alive_def)
  show ?thesis
  proof (cases "snd (st_load E (sv_store r) cid now)")
    case (Inl e)
    then show ?thesis using ensure_failed [OF None Inl, of path] assms by (auto simp: server_ok_def)
  next
    case (Inr v)
    obtain r' where r': "ensure_session_loaded E cid path now r = (r', Inr ())"
        "seen r' = (seen r)(cid \<mapsto> fresh_session cid path (initial_session (sv_cfg r) path v))"
        "sv_timers r' = sv_timers r" "bmap_ok (sv_sessions r) \<longrightarrow> bmap_ok (sv_sessions r')"
      using ensure_fresh [OF None Inr, of path] by blast
    have "guarded (sv_timers r) k s" if "seen r' k = Some s" for k s
    proof (cases "k = cid")
      case True
      then have "s = fresh_session cid path (initial_session (sv_cfg r) path v)" using that r'(2) by simp
      then show ?thesis using fresh True by simp
    next
      case False
      then show ?thesis using that r'(2) guardedD [OF assms] by simp
    qed
    then show ?thesis using r' assms by (simp add: server_ok_def)
  qed
qed

lemma server_step_ok: "server_ok r \<Longrightarrow> server_ok (fst (server_step E r i))"
proof (cases i)
  case (ServerDatagram now path bs)
  assume ok: "server_ok r"
  show ?thesis
  proof (cases "decode bs")
    case (Inl e)
    then show ?thesis using ok by (simp add: ServerDatagram server_runtime_on_datagram_def server_ok_def)
  next
    case (Inr fr)
    obtain r1 res where e: "ensure_session_loaded E (frame_cid fr) path now r = (r1, res)" by fastforce
    have ok1: "server_ok r1" using ensure_session_loaded_ok [OF ok, of E "frame_cid fr" path now] e by simp
    show ?thesis
      using ok1 session_call_ok [OF ok1, of "frame_cid fr" _ _ "OnDatagram now path bs"]
      by (cases res) (auto simp: ServerDatagram server_runtime_on_datagram_def Inr e Let_def split: option.split)
  qed
next
  case (ServerPoll now limit)
  then show "server_ok r \<Longrightarrow> ?thesis" by (simp add: server_poll_timers_def server_fire_ok)
next
  case (ServerSend cid payload now)
  assume ok: "server_ok r"
  then show ?thesis
    using session_call_ok [OF ok, of cid _ _ "ApiSend payload"]
    by (auto simp: ServerSend server_send_message_def split: option.split)
qed

interpretation server: step_invariant "server_step E" server_ok for E
  by unfold_locales (rule server_step_ok)

lemma server_new_ok: "server_ok (server_new_with_nat_policy cfg store rp)"
  by (simp add: server_ok_def server_new_with_nat_policy_def)

section \<open>Isolation of the sessions\<close>

lemma observed_others:
  assumes "k \<noteq> cid"
  shows "bmap_get (sv_sessions (server_observe_datagrams cid r ds)) k = bmap_get (sv_sessions r) k"
proof -
  have id: "bmap_get (sv_sessions (observe_data_id cid i r)) k = bmap_get (sv_sessions r) k" for i and r :: "'a server_runtime"
    using assms by (simp add: observe_data_id_def split: option.split)
  have one: "bmap_get (sv_sessions (server_observe_datagram cid r d)) k = bmap_get (sv_sessions r) k" for d and r :: "'a server_runtime"
    by (simp add: server_observe_datagram_def id Let_def split: sum.split message_type.split)
  show ?thesis
    unfolding server_observe_datagrams_def by (induction ds arbitrary: r) (simp_all add: one)
qed

lemma session_call_others:
  assumes "k \<noteq> cid"
  shows "bmap_get (sv_sessions (fst (session_call E cid path now session res r))) k = bmap_get (sv_sessions r) k"
proof -
  have drop: "sv_sessions (fst (drop_session E cid r)) = bmap_remove cid (sv_sessions r)" for r
    by (cases "st_delete E (sv_store r) cid"; cases "snd (st_delete E (sv_store r) cid)"; simp add: drop_session_def)
  have "bmap_get (sv_sessions (fst (settle_session E cid now r))) k = bmap_get (sv_sessions r) k" for r
    using assms by (simp add: settle_session_def drop persist_session_effect split: option.split)
  then have "bmap_get (sv_sessions (fst (server_apply_core_output E cid path now out r))) k = bmap_get (sv_sessions r) k" for out r
    by (simp add: server_apply_core_output_def observed_others [OF assms] Let_def)
  then show ?thesis using assms by (cases res; cases "snd res"; simp add: session_call_def)
qed

lemma server_ingest_others:
  "bmap_ok t \<Longrightarrow> filter_mset (\<lambda>e. fst (snd e) \<noteq> cid) (armed (server_ingest_timers cid acts t)) =
     filter_mset (\<lambda>e. fst (snd e) \<noteq> cid) (armed t)"
  by (induction cid acts t rule: server_ingest_timers.induct) auto

lemma session_call_timers_others:
  "bmap_ok (sv_timers r) \<Longrightarrow>
     filter_mset (\<lambda>e. fst (snd e) \<noteq> cid) (armed (sv_timers (fst (session_call E cid path now session res r)))) =
     filter_mset (\<lambda>e. fst (snd e) \<noteq> cid) (armed (sv_timers r))"
  by (simp add: session_call_effect server_ingest_others split: sum.split)

fun event_cid :: "runtime_event \<Rightarrow> u64 option" where
  "event_cid RuntimeParseError = None"
| "event_cid (RuntimeCoreEvent cid _) = Some cid"
| "event_cid (RuntimeNatPairNominated cid _ _) = Some cid"
| "event_cid (RuntimeTurnAction cid _) = Some cid"
| "event_cid (VhostPathBound cid _ _) = Some cid"
| "event_cid (RuntimeMessageReceived cid _ _) = Some cid"

lemma session_call_events:
  "snd (session_call E cid path now session res r) = Inr out \<Longrightarrow> e \<in> set (sro_events out) \<Longrightarrow> event_cid e = Some cid"
  by (cases res; cases "snd res")
    (auto simp: session_call_def server_apply_core_output_def and_then_def translate_event_def Let_def
      split: prod.splits sum.splits event.splits)

lemma session_call_datagrams:
  assumes "snd res = Inr core_out" and "snd (session_call E cid path now session res r) = Inr out"
  shows "map dgram_bytes (sro_outbound_datagrams out) = map dgram_bytes (outbound_datagrams core_out)"
  using assms by (cases res)
    (auto simp: session_call_def server_apply_core_output_def and_then_def route_datagram_def Let_def
      split: prod.splits sum.splits)

text \<open>The connection identifier a call is for.\<close>

fun addressed :: "server_input \<Rightarrow> u64 option" where
  "addressed (ServerDatagram now path bs) = map_option frame_cid (result_ok (decode bs))"
| "addressed (ServerPoll now limit) = None"
| "addressed (ServerSend cid payload now) = Some cid"

lemma ensure_others:
  assumes "k \<noteq> cid"
  shows "bmap_get (sv_sessions (fst (ensure_session_loaded E cid path now r))) k = bmap_get (sv_sessions r) k"
  using assms
  by (cases "st_load E (sv_store r) cid now"; cases "snd (st_load E (sv_store r) cid now)")
    (simp_all add: ensure_session_loaded_def on_path_event_def case_prod_unfold Let_def)

lemma ensure_timers: "sv_timers (fst (ensure_session_loaded E cid path now r)) = sv_timers r"
  by (cases "st_load E (sv_store r) cid now"; cases "snd (st_load E (sv_store r) cid now)")
    (simp_all add: ensure_session_loaded_def on_path_event_def case_prod_unfold Let_def)

definition others_kept :: "u64 \<Rightarrow> 's server_runtime \<Rightarrow> 's server_runtime \<Rightarrow> bool" where
  "others_kept cid r r' \<longleftrightarrow> (\<forall>k. k \<noteq> cid \<longrightarrow> bmap_get (sv_sessions r') k = bmap_get (sv_sessions r) k)
     \<and> filter_mset (\<lambda>e. fst (snd e) \<noteq> cid) (armed (sv_timers r')) = filter_mset (\<lambda>e. fst (snd e) \<noteq> cid) (armed (sv_timers r))"

lemma session_call_keeps_others:
  "bmap_ok (sv_timers r) \<Longrightarrow> others_kept cid r (fst (session_call E cid path now session res r))"
  by (simp add: others_kept_def session_call_others session_call_timers_others)

lemma others_kept_refl [simp]: "others_kept cid r r"
  by (simp add: others_kept_def)

lemma others_kept_trans: "others_kept cid r r' \<Longrightarrow> others_kept cid r' r'' \<Longrightarrow> others_kept cid r r''"
  by (simp add: others_kept_def)

lemma server_runtime_on_datagram_others:
  assumes "decode bs = Inr fr" and t: "bmap_ok (sv_timers r)"
  shows "others_kept (frame_cid fr) r (fst (server_runtime_on_datagram E r now path bs))"
proof -
  let ?cid = "frame_cid fr"
  obtain r1 res where e: "ensure_session_loaded E ?cid path now r = (r1, res)" by fastforce
  have 1: "others_kept ?cid r r1"
    using ensure_others [of _ ?cid E path now r] ensure_timers [of E ?cid path now r] e by (simp add: others_kept_def)
  have t1: "bmap_ok (sv_timers r1)" using ensure_timers [of E ?cid path now r] e t by simp
  have "others_kept ?cid r1 (fst (session_call E ?cid path now session rs r1))" for session rs
    by (rule session_call_keeps_others [OF t1])
  then show ?thesis
    using 1 others_kept_trans [OF 1] assms(1)
    by (cases res) (auto simp: server_runtime_on_datagram_def e Let_def split: option.split)
qed

lemma server_runtime_on_datagram_events:
  assumes "decode bs = Inr fr" and out: "snd (server_runtime_on_datagram E r now path bs) = Inr out" and ev: "ev \<in> set (sro_events out)"
  shows "event_cid ev = Some (frame_cid fr)"
proof -
  let ?cid = "frame_cid fr"
  let ?call = "\<lambda>r s. session_call E ?cid path now s (on_datagram (sess_core s) now path bs) r"
  obtain r1 session r2 o1 where c: "?call r1 session = (r2, Inr o1)"
      and o: "out = o1\<lparr>sro_events := vhost_events ?cid path session @ sro_events o1\<rparr>"
    using out assms(1) by (auto simp: server_runtime_on_datagram_def and_then_def Let_def split: prod.splits sum.splits option.splits)
  have "event_cid x = Some ?cid" if "x \<in> set (sro_events o1)" for x
    using session_call_events [of E ?cid path now session "on_datagram (sess_core session) now path bs" r1 o1 x] c that by simp
  then show ?thesis
    using ev by (auto simp: o vhost_events_def split: option.splits if_splits)
qed

section \<open>Errors\<close>

abbreviation core_or_store :: "server_runtime_error set" where
  "core_or_store \<equiv> range ServerCoreError \<union> range ServerStoreError"

lemma drop_session_error: "snd (drop_session E cid r) = Inl e \<Longrightarrow> e \<in> range ServerStoreError"
  by (cases "st_delete E (sv_store r) cid"; cases "snd (st_delete E (sv_store r) cid)") (auto simp: drop_session_def)

lemma persist_session_error: "snd (persist_session E cid now session r) = Inl e \<Longrightarrow> e \<in> range ServerStoreError"
  by (cases "st_upsert E (sv_store r) cid (session_snapshot (sv_cfg r) cid session) (disconnect_window_ms (sv_cfg r)) now";
      cases "snd (st_upsert E (sv_store r) cid (session_snapshot (sv_cfg r) cid session) (disconnect_window_ms (sv_cfg r)) now)")
    (auto simp: persist_session_def Let_def)

lemma settle_session_error:
  assumes "snd (settle_session E cid now r) = Inl e"
  shows "e \<in> core_or_store"
proof (cases "bmap_get (sv_sessions r) cid")
  case None
  then show ?thesis using assms by (simp add: settle_session_def)
next
  case (Some session)
  then show ?thesis
    using assms drop_session_error [of E cid r e] persist_session_error [of E cid now session r e]
    by (cases "lifecycle (sess_core session) = Lost") (simp_all add: settle_session_def)
qed

lemma and_then_keep_error:
  "snd (and_then y (\<lambda>r u. (r, Inr (g r u)))) = Inl e \<Longrightarrow> snd y = Inl e"
  by (cases y; cases "snd y") simp_all

lemma server_apply_error:
  assumes "snd (server_apply_core_output E cid path now out r) = Inl e"
  shows "e \<in> core_or_store"
proof (rule settle_session_error)
  show "snd (settle_session E cid now (server_observe_datagrams cid ((bump (\<lambda>ms. foldl server_observe_event ms (events out)) r)
      \<lparr>sv_timers := server_ingest_timers cid (timer_actions out) (sv_timers r)\<rparr>) (map (route_datagram path) (outbound_datagrams out)))) = Inl e"
    by (rule and_then_keep_error) (use assms in \<open>simp add: server_apply_core_output_def Let_def\<close>)
qed

lemma session_call_error:
  assumes "snd (session_call E cid path now session res r) = Inl e"
  shows "e \<in> core_or_store"
proof (cases "snd res")
  case (Inl x)
  then show ?thesis using assms by (cases res) (auto simp: session_call_def)
next
  case (Inr out)
  then have "snd (server_apply_core_output E cid path now out
      (r\<lparr>sv_sessions := bmap_insert cid (session\<lparr>sess_core := fst res\<rparr>) (sv_sessions r)\<rparr>)) = Inl e"
    using assms by (cases res) (simp add: session_call_def)
  then show ?thesis by (rule server_apply_error)
qed

lemma ensure_cases:
  obtains (failed) r1 e where "ensure_session_loaded E cid path now r = (r1, Inl (ServerStoreError e))"
    | (entered) r1 session where "ensure_session_loaded E cid path now r = (r1, Inr ())" "bmap_get (sv_sessions r1) cid = Some session"
proof (cases "bmap_get (sv_sessions r) cid")
  case (Some session)
  then have "ensure_session_loaded E cid path now r = (r, Inr ())" by (simp add: ensure_loaded session_seen)
  then show thesis using entered Some by blast
next
  case None
  show thesis
  proof (cases "snd (st_load E (sv_store r) cid now)")
    case (Inl e)
    then show thesis using ensure_failed [OF session_seen(2) [OF None] Inl, of path] failed by blast
  next
    case (Inr v)
    then obtain r1 where r1: "ensure_session_loaded E cid path now r = (r1, Inr ())"
        "seen r1 = (seen r)(cid \<mapsto> fresh_session cid path (initial_session (sv_cfg r) path v))"
      using ensure_fresh [OF session_seen(2) [OF None] Inr, of path] by blast
    have "seen r1 cid \<noteq> None" by (simp add: r1(2))
    then show thesis using entered [OF r1(1)] by (cases "bmap_get (sv_sessions r1) cid") (simp_all add: session_seen)
  qed
qed

lemma fire_error: "snd (server_fire E r now es out) = Inl e \<Longrightarrow> e \<in> core_or_store"
proof (induction es arbitrary: r out)
  case Nil
  then show ?case by simp
next
  case (Cons e' es)
  obtain d k i where e: "e' = (d, k, i)" by (cases e')
  let ?r = "r\<lparr>sv_timers := timers_take d (k, i) (sv_timers r)\<rparr>"
  show ?case
  proof (cases "bmap_get (sv_sessions r) k")
    case None
    then show ?thesis using Cons.IH [of ?r] Cons.prems by (simp add: e)
  next
    case (Some session)
    obtain r1 res where c: "session_call E k 0 now session (on_timer (sess_core session) now i) ?r = (r1, res)" by fastforce
    show ?thesis
    proof (cases res)
      case (Inl x)
      have "x = e" using Cons.prems c Some Inl by (simp add: e)
      then show ?thesis
        using session_call_error [of E k 0 now session "on_timer (sess_core session) now i" ?r e] c Inl by simp
    next
      case (Inr o1)
      then show ?thesis using Cons.IH [of r1] Cons.prems c Some by (simp add: e)
    qed
  qed
qed

lemma server_never_panics: "snd (server_step E r i) = Inl e \<Longrightarrow> e \<in> core_or_store"
proof (cases i)
  case (ServerDatagram now path bs)
  assume err: "snd (server_step E r i) = Inl e"
  then obtain fr where fr: "decode bs = Inr fr" by (cases "decode bs") (simp_all add: ServerDatagram server_runtime_on_datagram_def)
  show ?thesis
  proof (cases rule: ensure_cases [of E "frame_cid fr" path now r])
    case (failed r1 x)
    then have "e = ServerStoreError x" using err fr by (simp add: ServerDatagram server_runtime_on_datagram_def Let_def)
    then show ?thesis by simp
  next
    case (entered r1 session)
    let ?call = "session_call E (frame_cid fr) path now session (on_datagram (sess_core session) now path bs) r1"
    have "snd ?call = Inl e"
      using err fr entered by (cases ?call; cases "snd ?call") (simp_all add: ServerDatagram server_runtime_on_datagram_def Let_def)
    then show ?thesis by (rule session_call_error)
  qed
next
  case (ServerPoll now limit)
  then show "snd (server_step E r i) = Inl e \<Longrightarrow> ?thesis" using fire_error by (simp add: server_poll_timers_def)
next
  case (ServerSend cid payload now)
  assume "snd (server_step E r i) = Inl e"
  then show ?thesis
    using session_call_error [of E cid 0 now _ "on_api_send _ payload" r e]
    by (cases "bmap_get (sv_sessions r) cid") (simp_all add: ServerSend server_send_message_def)
qed

section \<open>Sessions without timers\<close>

text \<open>Polling never drops a session that has no timer, and a first datagram that is no hello enters such a
  session: only a datagram of its own can remove it.\<close>

lemma fire_keeps_untimed:
  "\<forall>e \<in> set es. fst (snd e) \<noteq> cid \<Longrightarrow> bmap_get (sv_sessions (fst (server_fire E r now es out))) cid = bmap_get (sv_sessions r) cid"
proof (induction es arbitrary: r out)
  case Nil
  then show ?case by simp
next
  case (Cons e es)
  obtain d k i where e: "e = (d, k, i)" by (cases e)
  let ?r = "r\<lparr>sv_timers := timers_take d (k, i) (sv_timers r)\<rparr>"
  show ?case
  proof (cases "bmap_get (sv_sessions r) k")
    case None
    then show ?thesis using Cons.IH [of ?r] Cons.prems by (simp add: e)
  next
    case (Some session)
    obtain r1 res where c: "session_call E k 0 now session (on_timer (sess_core session) now i) ?r = (r1, res)" by fastforce
    have "cid \<noteq> k" using Cons.prems by (auto simp: e)
    then have "bmap_get (sv_sessions r1) cid = bmap_get (sv_sessions r) cid"
      using session_call_others [of cid k E 0 now session "on_timer (sess_core session) now i" ?r] c by simp
    then show ?thesis using Cons.IH [of r1] Cons.prems c Some by (cases res) (simp_all add: e)
  qed
qed

lemma poll_keeps_untimed:
  assumes "bmap_ok (sv_timers r)" and "\<And>i. \<not> pending (sv_timers r) (cid, i)"
  shows "bmap_get (sv_sessions (fst (server_poll_timers E r now limit))) cid = bmap_get (sv_sessions r) cid"
proof -
  have "fst (snd e) \<noteq> cid" if "e \<in> set (collect_due now limit (sv_timers r))" for e
  proof -
    obtain rest where "filter_mset (\<lambda>e. fst e \<le> now) (armed (sv_timers r)) = mset (collect_due now limit (sv_timers r) @ rest)"
      using collect_due_split [OF assms(1)] by blast
    then have "e \<in># filter_mset (\<lambda>e. fst e \<le> now) (armed (sv_timers r))" using that by simp
    then have "e \<in># armed (sv_timers r)" by simp
    then show ?thesis using assms(2) [of "snd (snd e)"] unfolding pending_def by (metis prod.collapse)
  qed
  then show ?thesis unfolding server_poll_timers_def by (intro fire_keeps_untimed) blast
qed

end
