(* ===== verification/Store_Disk.thy ===== *)
theory Store_Disk
  imports Store
begin

text \<open>
  The disk session store of \<^verbatim>\<open>v3-store/src/lib.rs\<close>: an in-memory map behind a mutex, an append-only log of
  checksummed operations and a snapshot.  \<^verbatim>\<open>serde_json\<close> and the hasher are parameters (\<open>serde_ops\<close>), with
  their documented behaviour in \<open>serde_ok\<close>; every file-system call can fail (\<open>io_env\<close>), and a failing
  append may leave part of its line in the file.  An operation that releases the mutex before it
  appends is the sequence of its locked part and its append, so that interleavings can be stated.
\<close>

section \<open>Data\<close>

record stored_session =
  ss_schema_version :: u16
  ss_record :: session_record

datatype disk_op =
    DiskUpsert u64 u64 u64 bytes
  | DiskDelete u64

record disk_log_entry =
  log_op :: disk_op
  log_checksum :: u64

record disk_snapshot_entry =
  snap_cid :: u64
  snap_version :: u64
  snap_expires_at_ms :: u64
  snap_data :: bytes

record disk_snapshot =
  snap_schema_version :: u16
  snap_entries :: "disk_snapshot_entry list"

text \<open>What the store uses of \<^verbatim>\<open>serde_json\<close> and of \<^verbatim>\<open>DefaultHasher\<close>.\<close>

record serde_ops =
  stored_to_vec :: "stored_session \<Rightarrow> string + bytes"
  stored_from_slice :: "bytes \<Rightarrow> string + stored_session"
  value_schema :: "bytes \<Rightarrow> string + u64 option"
  legacy_from_value :: "bytes \<Rightarrow> string + session_record"
  op_to_vec :: "disk_op \<Rightarrow> string + bytes"
  entry_to_vec :: "disk_log_entry \<Rightarrow> string + bytes"
  entry_from_str :: "bytes \<Rightarrow> string + disk_log_entry"
  snapshot_to_vec :: "disk_snapshot \<Rightarrow> string + bytes"
  snapshot_from_slice :: "bytes \<Rightarrow> string + disk_snapshot"
  hash_bytes :: "bytes \<Rightarrow> u64"

text \<open>The file-system calls and whether they fail; \<open>io_torn\<close> bytes of a line reach the file when
  writing it fails.\<close>

datatype io_call =
  CreateDir | CreateLog | ReadSnapshot | OpenLog | WriteTmp | RenameTmp | TruncateLog | OpenAppend | WriteLine | FlushLog

record io_env =
  io_fails :: "io_call \<Rightarrow> string option"
  io_torn :: nat

definition no_faults :: io_env where
  "no_faults = \<lparr>io_fails = (\<lambda>_. None), io_torn = 0\<rparr>"

text \<open>A store with its files.\<close>

record disk_store =
  ds_entries :: "(u64, entry) bmap"
  ds_log :: bytes
  ds_snapshot :: "bytes option"

section \<open>Text lines\<close>

text \<open>\<^verbatim>\<open>BufRead::lines\<close>: lines end at a line feed, with one preceding carriage return; a last line without
  a line feed counts.\<close>

function read_lines :: "bytes \<Rightarrow> bytes list" where
  "read_lines bs =
     (if bs = [] then []
      else
        let l = takeWhile (\<lambda>b. b \<noteq> 10) bs; rest = dropWhile (\<lambda>b. b \<noteq> 10) bs
        in if rest = [] then [l]
           else (if l \<noteq> [] \<and> last l = 13 then butlast l else l) # read_lines (tl rest))"
  by pat_completeness auto
termination
proof (relation "measure length")
  fix bs l rest :: bytes
  assume "bs \<noteq> []" and "rest = dropWhile (\<lambda>b. b \<noteq> 10) bs"
  then show "(tl rest, bs) \<in> measure length"
    using length_dropWhile_le [of "\<lambda>b. b \<noteq> 10" bs] by (cases bs) auto
qed simp

declare read_lines.simps [simp del]

section \<open>Records\<close>

definition encode_session_record :: "serde_ops \<Rightarrow> session_record \<Rightarrow> store_error + bytes" where
  "encode_session_record J rec =
     (case stored_to_vec J \<lparr>ss_schema_version = SESSION_SCHEMA_VERSION, ss_record = rec\<rparr> of
        Inl e \<Rightarrow> Inl (Serialization e) | Inr bs \<Rightarrow> Inr bs)"

definition decode_session_record :: "serde_ops \<Rightarrow> bytes \<Rightarrow> store_error + session_record" where
  "decode_session_record J bs =
     (case stored_from_slice J bs of
        Inl e \<Rightarrow> Inl (Serialization e)
      | Inr payload \<Rightarrow>
          if ss_schema_version payload \<noteq> SESSION_SCHEMA_VERSION
          then Inl (UnsupportedSchemaVersion (ss_schema_version payload))
          else Inr (ss_record payload))"

definition decode_session_record_migrating :: "serde_ops \<Rightarrow> bytes \<Rightarrow> store_error + session_record" where
  "decode_session_record_migrating J bs =
     (case value_schema J bs of
        Inl e \<Rightarrow> Inl (Serialization e)
      | Inr v \<Rightarrow>
          let schema = (ucast (case v of None \<Rightarrow> 0 | Some n \<Rightarrow> n) :: u16) in
          if schema = SESSION_SCHEMA_VERSION then decode_session_record J bs
          else if schema = 0 then
            (case legacy_from_value J bs of Inl e \<Rightarrow> Inl (Serialization e) | Inr rec \<Rightarrow> Inr rec)
          else Inl (UnsupportedSchemaVersion schema))"

section \<open>Files\<close>

definition append_op :: "serde_ops \<Rightarrow> io_env \<Rightarrow> disk_op \<Rightarrow> disk_store \<Rightarrow> disk_store \<times> (store_error + unit)" where
  "append_op J env op s =
     (case op_to_vec J op of
        Inl e \<Rightarrow> (s, Inl (Serialization e))
      | Inr op_bytes \<Rightarrow>
         (case entry_to_vec J \<lparr>log_op = op, log_checksum = hash_bytes J op_bytes\<rparr> of
            Inl e \<Rightarrow> (s, Inl (Serialization e))
          | Inr line \<Rightarrow>
              if io_fails env OpenAppend \<noteq> None then (s, Inl (Io (the (io_fails env OpenAppend))))
              else if io_fails env WriteLine \<noteq> None
              then (s\<lparr>ds_log := ds_log s @ take (io_torn env) (line @ [10])\<rparr>, Inl (Io (the (io_fails env WriteLine))))
              else
                let s' = s\<lparr>ds_log := ds_log s @ line @ [10]\<rparr> in
                if io_fails env FlushLog \<noteq> None then (s', Inl (Io (the (io_fails env FlushLog))))
                else (s', Inr ())))"

fun load_entries ::
    "serde_ops \<Rightarrow> disk_snapshot_entry list \<Rightarrow> (u64, entry) bmap \<Rightarrow> store_error + (u64, entry) bmap" where
  "load_entries J [] m = Inr m"
| "load_entries J (item # items) m =
     (case decode_session_record J (snap_data item) of
        Inl e \<Rightarrow> Inl e
      | Inr rec \<Rightarrow> load_entries J items
          (bmap_insert (snap_cid item) \<lparr>entry_version = snap_version item, entry_record = rec,
             entry_expires_at_ms = snap_expires_at_ms item\<rparr> m))"

definition load_snapshot ::
    "serde_ops \<Rightarrow> io_env \<Rightarrow> bytes \<Rightarrow> (u64, entry) bmap \<Rightarrow> store_error + (u64, entry) bmap" where
  "load_snapshot J env bs m =
     (if io_fails env ReadSnapshot \<noteq> None then Inl (Io (the (io_fails env ReadSnapshot)))
      else if bs = [] then Inr m
      else case snapshot_from_slice J bs of
        Inl e \<Rightarrow> Inl (Serialization e)
      | Inr snap \<Rightarrow>
          if snap_schema_version snap \<noteq> SESSION_SCHEMA_VERSION
          then Inl (UnsupportedSchemaVersion (snap_schema_version snap))
          else load_entries J (snap_entries snap) m)"

definition apply_op :: "serde_ops \<Rightarrow> disk_op \<Rightarrow> (u64, entry) bmap \<Rightarrow> store_error + (u64, entry) bmap" where
  "apply_op J op m =
     (case op of
        DiskUpsert cid version expires_at_ms data \<Rightarrow>
          (case decode_session_record_migrating J data of
             Inl e \<Rightarrow> Inl e
           | Inr rec \<Rightarrow> Inr (bmap_insert cid \<lparr>entry_version = version, entry_record = rec,
               entry_expires_at_ms = expires_at_ms\<rparr> m))
      | DiskDelete cid \<Rightarrow> Inr (bmap_remove cid m))"

definition replay_line :: "serde_ops \<Rightarrow> bytes \<Rightarrow> (u64, entry) bmap \<Rightarrow> store_error + (u64, entry) bmap" where
  "replay_line J line m =
     (if \<not> valid_utf8 line then Inl (Io ''stream did not contain valid UTF-8'')
      else if blank_line line then Inr m
      else case entry_from_str J line of
        Inl _ \<Rightarrow> Inl CorruptLogEntry
      | Inr e \<Rightarrow>
         (case op_to_vec J (log_op e) of
            Inl x \<Rightarrow> Inl (Serialization x)
          | Inr op_bytes \<Rightarrow>
              if hash_bytes J op_bytes \<noteq> log_checksum e then Inl ChecksumMismatch
              else apply_op J (log_op e) m))"

fun replay_lines :: "serde_ops \<Rightarrow> bytes list \<Rightarrow> (u64, entry) bmap \<Rightarrow> store_error + (u64, entry) bmap" where
  "replay_lines J [] m = Inr m"
| "replay_lines J (line # lines) m =
     (case replay_line J line m of Inl e \<Rightarrow> Inl e | Inr m' \<Rightarrow> replay_lines J lines m')"

definition replay_log :: "serde_ops \<Rightarrow> io_env \<Rightarrow> bytes \<Rightarrow> (u64, entry) bmap \<Rightarrow> store_error + (u64, entry) bmap" where
  "replay_log J env log m =
     (if io_fails env OpenLog \<noteq> None then Inl (Io (the (io_fails env OpenLog)))
      else replay_lines J (read_lines log) m)"

definition disk_new :: "serde_ops \<Rightarrow> io_env \<Rightarrow> bytes option \<Rightarrow> bytes option \<Rightarrow> store_error + disk_store" where
  "disk_new J env log_file snapshot_file =
     (if io_fails env CreateDir \<noteq> None then Inl (Io (the (io_fails env CreateDir)))
      else if log_file = None \<and> io_fails env CreateLog \<noteq> None then Inl (Io (the (io_fails env CreateLog)))
      else
        let log = (case log_file of None \<Rightarrow> [] | Some bs \<Rightarrow> bs) in
        case (case snapshot_file of None \<Rightarrow> Inr [] | Some bs \<Rightarrow> load_snapshot J env bs []) of
          Inl e \<Rightarrow> Inl e
        | Inr m \<Rightarrow>
           (case replay_log J env log m of
              Inl e \<Rightarrow> Inl e
            | Inr m' \<Rightarrow> Inr \<lparr>ds_entries = m', ds_log = log, ds_snapshot = snapshot_file\<rparr>))"

text \<open>The snapshot entries, in the iteration order \<open>ks\<close> of the map.\<close>

fun snapshot_items :: "serde_ops \<Rightarrow> (u64, entry) bmap \<Rightarrow> u64 list \<Rightarrow> store_error + disk_snapshot_entry list" where
  "snapshot_items J m [] = Inr []"
| "snapshot_items J m (k # ks) =
     (case bmap_get m k of
        None \<Rightarrow> snapshot_items J m ks
      | Some e \<Rightarrow>
         (case encode_session_record J (entry_record e) of
            Inl x \<Rightarrow> Inl x
          | Inr data \<Rightarrow>
             (case snapshot_items J m ks of
                Inl x \<Rightarrow> Inl x
              | Inr items \<Rightarrow> Inr (\<lparr>snap_cid = k, snap_version = entry_version e,
                  snap_expires_at_ms = entry_expires_at_ms e, snap_data = data\<rparr> # items))))"

text \<open>\<^verbatim>\<open>compact\<close> after the mutex has been released: the snapshot replaces the old one, then the log is
  emptied.\<close>

definition write_snapshot ::
    "serde_ops \<Rightarrow> io_env \<Rightarrow> disk_snapshot_entry list \<Rightarrow> disk_store \<Rightarrow> disk_store \<times> (store_error + unit)" where
  "write_snapshot J env items s =
     (case snapshot_to_vec J \<lparr>snap_schema_version = SESSION_SCHEMA_VERSION, snap_entries = items\<rparr> of
        Inl e \<Rightarrow> (s, Inl (Serialization e))
      | Inr payload \<Rightarrow>
          if io_fails env WriteTmp \<noteq> None then (s, Inl (Io (the (io_fails env WriteTmp))))
          else if io_fails env RenameTmp \<noteq> None then (s, Inl (Io (the (io_fails env RenameTmp))))
          else
            let s' = s\<lparr>ds_snapshot := Some payload\<rparr> in
            if io_fails env TruncateLog \<noteq> None then (s', Inl (Io (the (io_fails env TruncateLog))))
            else (s'\<lparr>ds_log := []\<rparr>, Inr ()))"

definition disk_compact :: "serde_ops \<Rightarrow> io_env \<Rightarrow> u64 list \<Rightarrow> disk_store \<Rightarrow> disk_store \<times> (store_error + unit)" where
  "disk_compact J env ks s =
     (case snapshot_items J (ds_entries s) ks of
        Inl e \<Rightarrow> (s, Inl e)
      | Inr items \<Rightarrow> write_snapshot J env items s)"

section \<open>Operations\<close>

definition disk_live :: "disk_store \<Rightarrow> u64 \<Rightarrow> u64 \<Rightarrow> entry option" where
  "disk_live s cid now =
     (case bmap_get (ds_entries s) cid of
        Some e \<Rightarrow> if entry_expires_at_ms e > now then Some e else None | None \<Rightarrow> None)"

definition disk_load ::
    "serde_ops \<Rightarrow> io_env \<Rightarrow> disk_store \<Rightarrow> u64 \<Rightarrow> u64 \<Rightarrow> disk_store \<times> (store_error + versioned_record option)" where
  "disk_load J env s cid now =
     (case bmap_get (ds_entries s) cid of
        Some e \<Rightarrow>
          if entry_expires_at_ms e > now then (s, Inr (Some (to_versioned e)))
          else and_then (append_op J env (DiskDelete cid) (s\<lparr>ds_entries := bmap_remove cid (ds_entries s)\<rparr>))
            (\<lambda>s _. (s, Inr None))
      | None \<Rightarrow> (s, Inr None))"

text \<open>The part of \<^verbatim>\<open>compare_and_swap\<close> and \<^verbatim>\<open>upsert\<close> under the mutex: the new version, and the operation
  to append.\<close>

definition disk_write_locked ::
    "serde_ops \<Rightarrow> disk_store \<Rightarrow> u64 \<Rightarrow> entry option \<Rightarrow> session_record \<Rightarrow> u64 \<Rightarrow> u64
      \<Rightarrow> disk_store \<times> (store_error + disk_op \<times> versioned_record)" where
  "disk_write_locked J s cid cur new_record ttl now =
     (let next_version = saturating_add (case cur of None \<Rightarrow> 0 | Some e \<Rightarrow> entry_version e) 1;
          expires_at_ms = saturating_add now ttl
      in case encode_session_record J new_record of
           Inl e \<Rightarrow> (s, Inl e)
         | Inr encoded \<Rightarrow>
             let e = \<lparr>entry_version = next_version, entry_record = new_record, entry_expires_at_ms = expires_at_ms\<rparr>
             in (s\<lparr>ds_entries := bmap_insert cid e (ds_entries s)\<rparr>,
                 Inr (DiskUpsert cid next_version expires_at_ms encoded, to_versioned e)))"

definition disk_cas_locked ::
    "serde_ops \<Rightarrow> disk_store \<Rightarrow> u64 \<Rightarrow> u64 option \<Rightarrow> session_record \<Rightarrow> u64 \<Rightarrow> u64
      \<Rightarrow> disk_store \<times> (store_error + disk_op \<times> versioned_record)" where
  "disk_cas_locked J s cid expected_version new_record ttl now =
     (let cur = disk_live s cid now; current_version = map_option entry_version cur
      in if current_version \<noteq> expected_version
         then (s, Inl (CasConflict expected_version current_version))
         else disk_write_locked J s cid cur new_record ttl now)"

definition disk_upsert_locked ::
    "serde_ops \<Rightarrow> disk_store \<Rightarrow> u64 \<Rightarrow> session_record \<Rightarrow> u64 \<Rightarrow> u64
      \<Rightarrow> disk_store \<times> (store_error + disk_op \<times> versioned_record)" where
  "disk_upsert_locked J s cid new_record ttl now =
     disk_write_locked J s cid (disk_live s cid now) new_record ttl now"

definition finish_write ::
    "serde_ops \<Rightarrow> io_env \<Rightarrow> disk_store \<times> (store_error + disk_op \<times> versioned_record)
      \<Rightarrow> disk_store \<times> (store_error + versioned_record)" where
  "finish_write J env r =
     and_then r (\<lambda>s (op, v). and_then (append_op J env op s) (\<lambda>s _. (s, Inr v)))"

definition disk_compare_and_swap ::
    "serde_ops \<Rightarrow> io_env \<Rightarrow> disk_store \<Rightarrow> u64 \<Rightarrow> u64 option \<Rightarrow> session_record \<Rightarrow> u64 \<Rightarrow> u64
      \<Rightarrow> disk_store \<times> (store_error + versioned_record)" where
  "disk_compare_and_swap J env s cid expected_version new_record ttl now =
     finish_write J env (disk_cas_locked J s cid expected_version new_record ttl now)"

definition disk_upsert ::
    "serde_ops \<Rightarrow> io_env \<Rightarrow> disk_store \<Rightarrow> u64 \<Rightarrow> session_record \<Rightarrow> u64 \<Rightarrow> u64
      \<Rightarrow> disk_store \<times> (store_error + versioned_record)" where
  "disk_upsert J env s cid new_record ttl now =
     finish_write J env (disk_upsert_locked J s cid new_record ttl now)"

definition disk_delete :: "serde_ops \<Rightarrow> io_env \<Rightarrow> disk_store \<Rightarrow> u64 \<Rightarrow> disk_store \<times> (store_error + unit)" where
  "disk_delete J env s cid =
     append_op J env (DiskDelete cid) (s\<lparr>ds_entries := bmap_remove cid (ds_entries s)\<rparr>)"

fun append_deletes :: "serde_ops \<Rightarrow> io_env \<Rightarrow> u64 list \<Rightarrow> disk_store \<Rightarrow> disk_store \<times> (store_error + unit)" where
  "append_deletes J env [] s = (s, Inr ())"
| "append_deletes J env (k # ks) s =
     and_then (append_op J env (DiskDelete k) s) (\<lambda>s _. append_deletes J env ks s)"

definition disk_scan_expired ::
    "serde_ops \<Rightarrow> io_env \<Rightarrow> u64 list \<Rightarrow> disk_store \<Rightarrow> u64 \<Rightarrow> nat \<Rightarrow> disk_store \<times> (store_error + u64 list)" where
  "disk_scan_expired J env ks s now limit =
     (if limit = 0 then (s, Inr [])
      else
        let expired = collect_expired (ds_entries s) now limit ks
        in and_then (append_deletes J env expired (s\<lparr>ds_entries := remove_keys expired (ds_entries s)\<rparr>))
          (\<lambda>s _. (s, Inr expired)))"

fun disk_step :: "serde_ops \<Rightarrow> disk_store \<Rightarrow> u64 \<times> store_op \<Rightarrow> disk_store \<times> store_reply" where
  "disk_step J s (now, Load cid) = map_prod id (reply Loaded) (disk_load J no_faults s cid now)"
| "disk_step J s (now, CompareAndSwap cid ev rec ttl) =
     map_prod id (reply Written) (disk_compare_and_swap J no_faults s cid ev rec ttl now)"
| "disk_step J s (now, Upsert cid rec ttl) =
     map_prod id (reply Written) (disk_upsert J no_faults s cid rec ttl now)"
| "disk_step J s (now, Delete cid) = map_prod id (reply (\<lambda>_. Deleted)) (disk_delete J no_faults s cid)"

section \<open>What is assumed of serde_json\<close>

text \<open>Serialising succeeds and parsing gives the value back; the JSON value of a stored session has its
  schema version; a serialised log entry is one line of text.\<close>

definition serde_ok :: "serde_ops \<Rightarrow> bool" where
  "serde_ok J \<longleftrightarrow>
     (\<forall>x. \<exists>bs. stored_to_vec J x = Inr bs \<and> stored_from_slice J bs = Inr x
        \<and> value_schema J bs = Inr (Some (ucast (ss_schema_version x))))
     \<and> (\<forall>op. \<exists>bs. op_to_vec J op = Inr bs)
     \<and> (\<forall>e. \<exists>bs. entry_to_vec J e = Inr bs \<and> entry_from_str J bs = Inr e
        \<and> valid_utf8 bs \<and> \<not> blank_line bs \<and> 10 \<notin> set bs \<and> last bs \<noteq> 13)
     \<and> (\<forall>x. \<exists>bs. snapshot_to_vec J x = Inr bs \<and> snapshot_from_slice J bs = Inr x \<and> bs \<noteq> [])"

lemma serde_record:
  assumes "serde_ok J"
  obtains bs where "encode_session_record J rec = Inr bs" "decode_session_record J bs = Inr rec"
    "decode_session_record_migrating J bs = Inr rec"
proof -
  let ?x = "\<lparr>ss_schema_version = SESSION_SCHEMA_VERSION, ss_record = rec\<rparr>"
  obtain bs where bs: "stored_to_vec J ?x = Inr bs" "stored_from_slice J bs = Inr ?x"
      "value_schema J bs = Inr (Some (ucast (ss_schema_version ?x)))"
    using assms unfolding serde_ok_def by blast
  have "decode_session_record J bs = Inr rec" by (simp add: decode_session_record_def bs(2))
  moreover have "decode_session_record_migrating J bs = decode_session_record J bs"
    by (simp add: decode_session_record_migrating_def bs(3) SESSION_SCHEMA_VERSION_def)
  ultimately show thesis using that bs(1) by (simp add: encode_session_record_def)
qed

section \<open>Reading back the log\<close>

definition whole_lines :: "bytes \<Rightarrow> bool" where
  "whole_lines log \<longleftrightarrow> log = [] \<or> last log = 10"

lemma take_line:
  "10 \<notin> set l \<Longrightarrow> takeWhile (\<lambda>b. b \<noteq> 10) (l @ 10 # r) = l"
  "10 \<notin> set l \<Longrightarrow> dropWhile (\<lambda>b. b \<noteq> 10) (l @ 10 # r) = 10 # r" for l :: bytes
  by (induction l) auto

lemma read_lines_one:
  assumes "10 \<notin> set line" and "line \<noteq> [] \<Longrightarrow> last line \<noteq> 13"
  shows "read_lines (line @ 10 # rest) = line # read_lines rest"
  using assms(2) by (subst read_lines.simps) (auto simp: Let_def take_line [OF assms(1)])

lemma read_lines_append:
  assumes "10 \<notin> set line" and "line \<noteq> [] \<Longrightarrow> last line \<noteq> 13" and "whole_lines log"
  shows "read_lines (log @ line @ [10]) = read_lines log @ [line]"
  using assms(3)
proof (induction log rule: read_lines.induct)
  case (1 log)
  show ?case
  proof (cases "log = []")
    case True
    have "read_lines [] = []" by (simp add: read_lines.simps)
    with True read_lines_one [OF assms(1,2), of "[]"] show ?thesis by simp
  next
    case False
    then have "10 \<in> set log" using "1.prems" last_in_set [of log] by (simp add: whole_lines_def)
    then obtain l rest where log: "log = l @ 10 # rest" "10 \<notin> set l" by (meson split_list_first)
    then have tw: "takeWhile (\<lambda>b. b \<noteq> 10) log = l" "dropWhile (\<lambda>b. b \<noteq> 10) log = 10 # rest"
      by (simp_all add: take_line)
    have tw': "takeWhile (\<lambda>b. b \<noteq> 10) (log @ line @ [10]) = l"
        "dropWhile (\<lambda>b. b \<noteq> 10) (log @ line @ [10]) = 10 # rest @ line @ [10]"
      using take_line [OF log(2), of "rest @ line @ [10]"] by (simp_all add: log(1))
    have "whole_lines rest" using "1.prems" by (auto simp: whole_lines_def log(1) split: if_splits)
    then have "read_lines (rest @ line @ [10]) = read_lines rest @ [line]"
      using "1.IH" [OF False refl refl] tw by simp
    then show ?thesis
      using False by (subst (1 2) read_lines.simps) (auto simp: tw tw' Let_def)
  qed
qed

lemma read_lines_tail:
  assumes "whole_lines log" and "10 \<notin> set p" and "p \<noteq> []"
  shows "read_lines (log @ p) = read_lines log @ [p]"
  using assms(1)
proof (induction log rule: read_lines.induct)
  case (1 log)
  show ?case
  proof (cases "log = []")
    case True
    have "takeWhile (\<lambda>b. b \<noteq> 10) p = p" "dropWhile (\<lambda>b. b \<noteq> 10) p = []"
      using assms(2) by (auto simp: takeWhile_eq_all_conv dropWhile_eq_Nil_conv)
    with True assms(3) show ?thesis by (simp add: read_lines.simps [of p] read_lines.simps [of "[]"])
  next
    case False
    then have "10 \<in> set log" using "1.prems" last_in_set [of log] by (simp add: whole_lines_def)
    then obtain l rest where log: "log = l @ 10 # rest" "10 \<notin> set l" by (meson split_list_first)
    then have tw: "takeWhile (\<lambda>b. b \<noteq> 10) log = l" "dropWhile (\<lambda>b. b \<noteq> 10) log = 10 # rest"
      by (simp_all add: take_line)
    have tw': "takeWhile (\<lambda>b. b \<noteq> 10) (log @ p) = l" "dropWhile (\<lambda>b. b \<noteq> 10) (log @ p) = 10 # rest @ p"
      using take_line [OF log(2), of "rest @ p"] by (simp_all add: log(1))
    have "whole_lines rest" using "1.prems" by (auto simp: whole_lines_def log(1) split: if_splits)
    then have "read_lines (rest @ p) = read_lines rest @ [p]" using "1.IH" [OF False refl refl] tw by simp
    then show ?thesis using False by (subst (1 2) read_lines.simps) (auto simp: tw tw' Let_def)
  qed
qed

lemma replay_lines_append:
  "replay_lines J (ls @ [l]) m = (case replay_lines J ls m of Inl e \<Rightarrow> Inl e | Inr m' \<Rightarrow> replay_line J l m')"
  by (induction ls arbitrary: m) (simp_all split: sum.split)

section \<open>Durability\<close>

text \<open>Reopening the files of a store gives the store back.\<close>

definition disk_ok :: "serde_ops \<Rightarrow> disk_store \<Rightarrow> bool" where
  "disk_ok J s \<longleftrightarrow> serde_ok J \<and> bmap_ok (ds_entries s) \<and> whole_lines (ds_log s)
     \<and> disk_new J no_faults (Some (ds_log s)) (ds_snapshot s) = Inr s"

lemma no_faults_simps [simp]: "io_fails no_faults = (\<lambda>_. None)"
  by (simp add: no_faults_def)

lemma disk_new_alt:
  "disk_new J no_faults (Some log) snap =
     (case (case snap of None \<Rightarrow> Inr [] | Some bs \<Rightarrow> load_snapshot J no_faults bs []) of
        Inl e \<Rightarrow> Inl e
      | Inr m \<Rightarrow> (case replay_lines J (read_lines log) m of
          Inl e \<Rightarrow> Inl e | Inr m' \<Rightarrow> Inr \<lparr>ds_entries = m', ds_log = log, ds_snapshot = snap\<rparr>))"
  by (simp add: disk_new_def replay_log_def split: sum.split)

lemma disk_new_no_faults:
  "disk_new J no_faults (Some log) snap = Inr s \<longleftrightarrow>
     (\<exists>m. (case snap of None \<Rightarrow> Inr [] | Some bs \<Rightarrow> load_snapshot J no_faults bs []) = Inr m
        \<and> replay_lines J (read_lines log) m = Inr (ds_entries s)) \<and> ds_log s = log \<and> ds_snapshot s = snap"
  by (auto simp: disk_new_def replay_log_def no_faults_def split: sum.splits option.splits)

lemma append_op_line:
  assumes "serde_ok J"
  obtains line where "append_op J no_faults op s = (s\<lparr>ds_log := ds_log s @ line @ [10]\<rparr>, Inr ())"
    "10 \<notin> set line" "last line \<noteq> 13" "\<And>m. replay_line J line m = apply_op J op m"
proof -
  obtain ob where ob: "op_to_vec J op = Inr ob" using assms unfolding serde_ok_def by blast
  let ?e = "\<lparr>log_op = op, log_checksum = hash_bytes J ob\<rparr>"
  obtain line where line: "entry_to_vec J ?e = Inr line" "entry_from_str J line = Inr ?e"
      "valid_utf8 line" "\<not> blank_line line" "10 \<notin> set line" "last line \<noteq> 13"
    using assms unfolding serde_ok_def by blast
  show thesis
    by (rule that [of line]) (use line ob in \<open>auto simp: append_op_def no_faults_def replay_line_def\<close>)
qed

lemma apply_op_ok: "apply_op J op m = Inr m' \<Longrightarrow> bmap_ok m \<Longrightarrow> bmap_ok m'"
  by (auto simp: apply_op_def split: disk_op.splits sum.splits)

lemma disk_append:
  assumes ok: "disk_ok J s" and op: "apply_op J op (ds_entries s) = Inr m"
  shows "\<exists>s'. append_op J no_faults op (s\<lparr>ds_entries := m\<rparr>) = (s', Inr ()) \<and> disk_ok J s' \<and> ds_entries s' = m"
proof -
  have serde: "serde_ok J" and ents: "bmap_ok (ds_entries s)" and wl: "whole_lines (ds_log s)"
    and new: "disk_new J no_faults (Some (ds_log s)) (ds_snapshot s) = Inr s"
    using ok by (simp_all add: disk_ok_def)
  obtain line where line: "append_op J no_faults op (s\<lparr>ds_entries := m\<rparr>)
        = ((s\<lparr>ds_entries := m\<rparr>)\<lparr>ds_log := ds_log s @ line @ [10]\<rparr>, Inr ())"
      "10 \<notin> set line" "last line \<noteq> 13" "\<And>m. replay_line J line m = apply_op J op m"
    by (rule append_op_line [OF serde, of op "s\<lparr>ds_entries := m\<rparr>"]) (auto simp: that)
  let ?s = "s\<lparr>ds_entries := m, ds_log := ds_log s @ line @ [10]\<rparr>"
  have "disk_new J no_faults (Some (ds_log ?s)) (ds_snapshot ?s) = Inr ?s"
    using new op line unfolding disk_new_no_faults
    by (auto simp: read_lines_append [OF line(2) _ wl] replay_lines_append)
  then have "disk_ok J ?s"
    using serde apply_op_ok [OF op ents] by (simp add: disk_ok_def whole_lines_def)
  with line(1) show ?thesis by (intro exI [of _ ?s]) simp
qed

section \<open>The disk store keeps the contract\<close>

definition disk_entries :: "disk_store \<Rightarrow> spec_store" where
  "disk_entries s = bmap_get (ds_entries s)"

lemma disk_live_eq: "disk_live s cid now = live now (disk_entries s) cid"
  by (simp add: disk_live_def live_def disk_entries_def)

lemma disk_write:
  assumes ok: "disk_ok J s"
  shows "\<exists>s'. finish_write J no_faults (disk_write_locked J s cid cur rec ttl now)
      = (s', Inr (to_versioned (next_entry cur rec ttl now)))
    \<and> disk_ok J s' \<and> ds_entries s' = bmap_insert cid (next_entry cur rec ttl now) (ds_entries s)"
proof -
  have "serde_ok J" using ok by (simp add: disk_ok_def)
  then obtain bs where bs: "encode_session_record J rec = Inr bs" "decode_session_record_migrating J bs = Inr rec"
    by (rule serde_record)
  let ?e = "next_entry cur rec ttl now"
  let ?op = "DiskUpsert cid (entry_version ?e) (entry_expires_at_ms ?e) bs"
  have "disk_write_locked J s cid cur rec ttl now =
      (s\<lparr>ds_entries := bmap_insert cid ?e (ds_entries s)\<rparr>, Inr (?op, to_versioned ?e))"
    by (simp add: disk_write_locked_def bs next_entry_def Let_def)
  moreover have "apply_op J ?op (ds_entries s) = Inr (bmap_insert cid ?e (ds_entries s))"
    by (simp add: apply_op_def bs next_entry_def)
  ultimately show ?thesis using disk_append [OF ok, of ?op] by (auto simp: finish_write_def)
qed

lemma disk_remove:
  assumes "disk_ok J s"
  shows "\<exists>s'. append_op J no_faults (DiskDelete cid) (s\<lparr>ds_entries := bmap_remove cid (ds_entries s)\<rparr>) = (s', Inr ())
    \<and> disk_ok J s' \<and> ds_entries s' = bmap_remove cid (ds_entries s)"
  by (rule disk_append [OF assms]) (simp add: apply_op_def)

lemma disk_entries_insert: "ds_entries s' = bmap_insert cid e (ds_entries s) \<Longrightarrow> disk_entries s' = (disk_entries s)(cid \<mapsto> e)"
  by (rule ext) (simp add: disk_entries_def)

lemma disk_entries_remove: "ds_entries s' = bmap_remove cid (ds_entries s) \<Longrightarrow> disk_entries s' = (disk_entries s)(cid := None)"
  by (rule ext) (simp add: disk_entries_def)

lemma disk_step_result:
  assumes ok: "disk_ok J s"
  shows "disk_ok J (fst (disk_step J s (now, op)))
    \<and> snd (disk_step J s (now, op)) = snd (spec_step now (disk_entries s) op)
    \<and> agrees now (disk_entries (fst (disk_step J s (now, op)))) (fst (spec_step now (disk_entries s) op))"
proof (cases op)
  case (Load cid)
  have "agrees now ((disk_entries s)(cid := None)) (disk_entries s)" if "live now (disk_entries s) cid = None"
    using agrees_drop [of now "disk_entries s" cid] that by simp
  then show ?thesis
    using ok disk_remove [OF ok, of cid] disk_entries_remove [of _ cid s]
    by (auto simp: Load disk_load_def reply_def live_def disk_entries_def [of s] split: option.splits)
next
  case (CompareAndSwap cid ev rec ttl)
  obtain s' where s': "finish_write J no_faults (disk_write_locked J s cid (live now (disk_entries s) cid) rec ttl now)
      = (s', Inr (to_versioned (next_entry (live now (disk_entries s) cid) rec ttl now)))"
      "disk_ok J s'" "disk_entries s' = (disk_entries s)(cid \<mapsto> next_entry (live now (disk_entries s) cid) rec ttl now)"
    using disk_write [OF ok, of cid "live now (disk_entries s) cid" rec ttl now] disk_entries_insert by metis
  then show ?thesis
    using ok by (auto simp: CompareAndSwap disk_compare_and_swap_def disk_cas_locked_def disk_live_eq reply_def
        finish_write_def Let_def)
next
  case (Upsert cid rec ttl)
  obtain s' where s': "finish_write J no_faults (disk_write_locked J s cid (live now (disk_entries s) cid) rec ttl now)
      = (s', Inr (to_versioned (next_entry (live now (disk_entries s) cid) rec ttl now)))"
      "disk_ok J s'" "disk_entries s' = (disk_entries s)(cid \<mapsto> next_entry (live now (disk_entries s) cid) rec ttl now)"
    using disk_write [OF ok, of cid "live now (disk_entries s) cid" rec ttl now] disk_entries_insert by metis
  then show ?thesis
    by (simp add: Upsert disk_upsert_def disk_upsert_locked_def disk_live_eq reply_def Let_def)
next
  case (Delete cid)
  then show ?thesis
    using disk_remove [OF ok, of cid] disk_entries_remove [of _ cid s] by (auto simp: disk_delete_def reply_def)
qed

interpretation disk: session_store "disk_step J" disk_entries "disk_ok J" for J
  using disk_step_result by unfold_locales blast+

section \<open>Compaction\<close>

definition enumerates :: "u64 list \<Rightarrow> (u64, entry) bmap \<Rightarrow> bool" where
  "enumerates ks m \<longleftrightarrow> distinct ks \<and> set ks = set (bmap_keys m)"

lemma snapshot_items_loaded:
  assumes serde: "serde_ok J"
  shows "\<exists>items. snapshot_items J m ks = Inr items \<and> (\<forall>m0. \<exists>m1. load_entries J items m0 = Inr m1
    \<and> (bmap_ok m0 \<longrightarrow> bmap_ok m1)
    \<and> (\<forall>k. bmap_get m1 k = (if k \<in> set ks \<and> bmap_get m k \<noteq> None then bmap_get m k else bmap_get m0 k)))"
proof (induction ks)
  case Nil
  show ?case by simp
next
  case (Cons k ks)
  then obtain items where items: "snapshot_items J m ks = Inr items"
      "\<And>m0. \<exists>m1. load_entries J items m0 = Inr m1 \<and> (bmap_ok m0 \<longrightarrow> bmap_ok m1)
        \<and> (\<forall>k. bmap_get m1 k = (if k \<in> set ks \<and> bmap_get m k \<noteq> None then bmap_get m k else bmap_get m0 k))"
    by blast
  show ?case
  proof (cases "bmap_get m k")
    case None
    then have eq: "(j \<in> set (k # ks) \<and> bmap_get m j \<noteq> None) = (j \<in> set ks \<and> bmap_get m j \<noteq> None)" for j by auto
    show ?thesis unfolding eq snapshot_items.simps None option.case using items by blast
  next
    case (Some e)
    obtain bs where bs: "encode_session_record J (entry_record e) = Inr bs" "decode_session_record J bs = Inr (entry_record e)"
      using serde by (rule serde_record)
    have "\<exists>m1. load_entries J items (bmap_insert k e m0) = Inr m1 \<and> (bmap_ok m0 \<longrightarrow> bmap_ok m1)
        \<and> (\<forall>j. bmap_get m1 j = (if j \<in> set (k # ks) \<and> bmap_get m j \<noteq> None then bmap_get m j else bmap_get m0 j))" for m0
    proof -
      obtain m1 where m1: "load_entries J items (bmap_insert k e m0) = Inr m1"
          "bmap_ok (bmap_insert k e m0) \<longrightarrow> bmap_ok m1"
          "\<And>j. bmap_get m1 j = (if j \<in> set ks \<and> bmap_get m j \<noteq> None then bmap_get m j else bmap_get (bmap_insert k e m0) j)"
        using items(2) [of "bmap_insert k e m0"] by blast
      then show ?thesis using Some by (intro exI [of _ m1]) auto
    qed
    moreover have "snapshot_items J m (k # ks) = Inr (\<lparr>snap_cid = k, snap_version = entry_version e,
        snap_expires_at_ms = entry_expires_at_ms e, snap_data = bs\<rparr> # items)"
      by (simp add: Some items(1) bs)
    moreover have "load_entries J (\<lparr>snap_cid = k, snap_version = entry_version e,
        snap_expires_at_ms = entry_expires_at_ms e, snap_data = bs\<rparr> # items) m0
        = load_entries J items (bmap_insert k e m0)" for m0
      by (cases e) (simp add: bs)
    ultimately show ?thesis by metis
  qed
qed

text \<open>Replaying a log sets the keys it touches and leaves the others, whatever map it starts from.\<close>

definition sets_keys :: "((u64, entry) bmap \<Rightarrow> store_error + (u64, entry) bmap) \<Rightarrow> u64 set \<Rightarrow> spec_store \<Rightarrow> bool" where
  "sets_keys f T F \<longleftrightarrow> (\<forall>m. \<exists>r. f m = Inr r \<and> (bmap_ok m \<longrightarrow> bmap_ok r)
     \<and> (\<forall>k. bmap_get r k = (if k \<in> T then F k else bmap_get m k)))"

lemma sets_keys_id: "(\<And>m. f m = Inr m) \<Longrightarrow> sets_keys f {} F"
  by (simp add: sets_keys_def)

lemma replay_line_sets:
  assumes "replay_line J l m0 = Inr r0"
  shows "\<exists>T F. sets_keys (replay_line J l) T F"
proof (cases "valid_utf8 l \<and> blank_line l")
  case True
  then have "sets_keys (replay_line J l) {} Map.empty" by (intro sets_keys_id) (simp add: replay_line_def)
  then show ?thesis by blast
next
  case False
  with assms obtain e ob where "valid_utf8 l" "\<not> blank_line l" "entry_from_str J l = Inr e"
      "op_to_vec J (log_op e) = Inr ob" "hash_bytes J ob = log_checksum e"
    by (auto simp: replay_line_def split: if_splits sum.splits)
  then have e: "replay_line J l m = apply_op J (log_op e) m" for m by (simp add: replay_line_def)
  show ?thesis
  proof (cases "log_op e")
    case (DiskDelete cid)
    then have "sets_keys (replay_line J l) {cid} Map.empty" by (simp add: sets_keys_def e apply_op_def)
    then show ?thesis by blast
  next
    case (DiskUpsert cid v x data)
    with assms e obtain rec where "decode_session_record_migrating J data = Inr rec"
      by (auto simp: apply_op_def split: sum.splits)
    then have "sets_keys (replay_line J l) {cid}
        (\<lambda>_. Some \<lparr>entry_version = v, entry_record = rec, entry_expires_at_ms = x\<rparr>)"
      using DiskUpsert by (simp add: sets_keys_def e apply_op_def)
    then show ?thesis by blast
  qed
qed

lemma replay_lines_sets:
  "replay_lines J ls m0 = Inr r0 \<Longrightarrow> \<exists>T F. sets_keys (replay_lines J ls) T F"
proof (induction ls arbitrary: m0)
  case Nil
  have "sets_keys (replay_lines J []) {} Map.empty" by (rule sets_keys_id) simp
  then show ?case by blast
next
  case (Cons l ls)
  obtain m1 where m1: "replay_line J l m0 = Inr m1" "replay_lines J ls m1 = Inr r0"
    using Cons.prems by (auto split: sum.splits)
  obtain T F where l: "sets_keys (replay_line J l) T F" using replay_line_sets [OF m1(1)] by blast
  obtain T' F' where ls: "sets_keys (replay_lines J ls) T' F'" using Cons.IH [OF m1(2)] by blast
  have "sets_keys (replay_lines J (l # ls)) (T \<union> T') (\<lambda>k. if k \<in> T' then F' k else F k)"
    unfolding sets_keys_def
  proof
    fix m
    obtain a where a: "replay_line J l m = Inr a" "bmap_ok m \<longrightarrow> bmap_ok a"
        "\<forall>k. bmap_get a k = (if k \<in> T then F k else bmap_get m k)" using l by (auto simp: sets_keys_def)
    obtain b where b: "replay_lines J ls a = Inr b" "bmap_ok a \<longrightarrow> bmap_ok b"
        "\<forall>k. bmap_get b k = (if k \<in> T' then F' k else bmap_get a k)" using ls by (auto simp: sets_keys_def)
    show "\<exists>r. replay_lines J (l # ls) m = Inr r \<and> (bmap_ok m \<longrightarrow> bmap_ok r)
        \<and> (\<forall>k. bmap_get r k = (if k \<in> T \<union> T' then if k \<in> T' then F' k else F k else bmap_get m k))"
      by (intro exI [of _ b]) (use a b in auto)
  qed
  then show ?case by blast
qed

lemma replay_idempotent:
  assumes "replay_lines J ls m = Inr r" and "bmap_ok m"
  shows "replay_lines J ls r = Inr r"
proof -
  obtain T F where TF: "sets_keys (replay_lines J ls) T F" using replay_lines_sets [OF assms(1)] by blast
  have r: "bmap_ok r" "\<forall>k. bmap_get r k = (if k \<in> T then F k else bmap_get m k)"
    using TF assms by (force simp: sets_keys_def)+
  obtain r' where r': "replay_lines J ls r = Inr r'" "bmap_ok r'" "\<forall>k. bmap_get r' k = (if k \<in> T then F k else bmap_get r k)"
    using TF r(1) by (force simp: sets_keys_def)
  have "r' = r" by (rule bmap_ext [OF r'(2) r(1)]) (simp add: r' r)
  with r'(1) show ?thesis by simp
qed

lemma load_snapshot_bmap_ok: "load_entries J items m = Inr m' \<Longrightarrow> bmap_ok m \<Longrightarrow> bmap_ok m'"
  by (induction items arbitrary: m) (auto split: sum.splits)

text \<open>The snapshot of a map loads as that map.\<close>

lemma snapshot_round_trip:
  assumes serde: "serde_ok J" and m: "bmap_ok m" and ks: "enumerates ks m"
  obtains items bs where "snapshot_items J m ks = Inr items"
    "snapshot_to_vec J \<lparr>snap_schema_version = SESSION_SCHEMA_VERSION, snap_entries = items\<rparr> = Inr bs"
    "load_snapshot J no_faults bs [] = Inr m"
proof -
  obtain items where items: "snapshot_items J m ks = Inr items"
      "\<And>m0. \<exists>m1. load_entries J items m0 = Inr m1 \<and> (bmap_ok m0 \<longrightarrow> bmap_ok m1) \<and> (\<forall>k. bmap_get m1 k =
         (if k \<in> set ks \<and> bmap_get m k \<noteq> None then bmap_get m k else bmap_get m0 k))"
    using snapshot_items_loaded [OF serde, of m ks] by blast
  obtain m1 where m1: "load_entries J items [] = Inr m1" "bmap_ok m1" "\<forall>k. bmap_get m1 k =
       (if k \<in> set ks \<and> bmap_get m k \<noteq> None then bmap_get m k else None)"
    using items(2) [of "[]"] by force
  have "m1 = m"
    by (rule bmap_ext [OF m1(2) m]) (use m1(3) ks in \<open>auto simp: enumerates_def set_bmap_keys\<close>)
  let ?snap = "\<lparr>snap_schema_version = SESSION_SCHEMA_VERSION, snap_entries = items\<rparr>"
  obtain bs where bs: "snapshot_to_vec J ?snap = Inr bs" "snapshot_from_slice J bs = Inr ?snap" "bs \<noteq> []"
    using serde unfolding serde_ok_def by blast
  have "load_snapshot J no_faults bs [] = Inr m"
    using m1(1) \<open>m1 = m\<close> by (simp add: load_snapshot_def bs)
  with items(1) bs(1) show thesis by (rule that)
qed

lemma read_lines_Nil [simp]: "read_lines [] = []"
  by (simp add: read_lines.simps)

lemma disk_compact_ok:
  assumes ok: "disk_ok J s" and ks: "enumerates ks (ds_entries s)"
  shows "disk_ok J (fst (disk_compact J env ks s)) \<and> ds_entries (fst (disk_compact J env ks s)) = ds_entries s"
proof -
  have serde: "serde_ok J" and ents: "bmap_ok (ds_entries s)" and wl: "whole_lines (ds_log s)"
    and new: "disk_new J no_faults (Some (ds_log s)) (ds_snapshot s) = Inr s"
    using ok by (simp_all add: disk_ok_def)
  obtain items bs where bs: "snapshot_items J (ds_entries s) ks = Inr items"
      "snapshot_to_vec J \<lparr>snap_schema_version = SESSION_SCHEMA_VERSION, snap_entries = items\<rparr> = Inr bs"
      "load_snapshot J no_faults bs [] = Inr (ds_entries s)"
    by (rule snapshot_round_trip [OF serde ents ks])
  have a: "disk_ok J (s\<lparr>ds_snapshot := Some bs, ds_log := []\<rparr>)"
    using serde ents by (simp add: disk_ok_def whole_lines_def disk_new_no_faults bs(3))
  obtain m where m: "(case ds_snapshot s of None \<Rightarrow> Inr [] | Some bs \<Rightarrow> load_snapshot J no_faults bs []) = Inr m"
      "replay_lines J (read_lines (ds_log s)) m = Inr (ds_entries s)"
    using new by (auto simp: disk_new_no_faults)
  have "bmap_ok m"
    using m(1) load_snapshot_bmap_ok by (fastforce simp: load_snapshot_def split: option.splits if_splits sum.splits)
  with m(2) have "replay_lines J (read_lines (ds_log s)) (ds_entries s) = Inr (ds_entries s)"
    by (rule replay_idempotent)
  then have b: "disk_ok J (s\<lparr>ds_snapshot := Some bs\<rparr>)"
    using serde ents wl by (simp add: disk_ok_def disk_new_no_faults bs(3))
  show ?thesis
    using a b ok by (simp add: disk_compact_def write_snapshot_def bs(1,2) Let_def)
qed

section \<open>Commands\<close>

text \<open>Everything a process does with a store: operations, scans and compactions, the latter possibly
  interrupted by a failing file-system call.  The argument of a scan or compaction yields the iteration
  order of the hash map.\<close>

datatype disk_cmd =
    DoOp u64 store_op
  | DoScan "(u64, entry) bmap \<Rightarrow> u64 list" u64 nat
  | DoCompact io_env "(u64, entry) bmap \<Rightarrow> u64 list"

fun disk_cmd_step :: "serde_ops \<Rightarrow> disk_store \<Rightarrow> disk_cmd \<Rightarrow> disk_store \<times> unit" where
  "disk_cmd_step J s (DoOp now op) = (fst (disk_step J s (now, op)), ())"
| "disk_cmd_step J s (DoScan ord now limit) =
     (fst (disk_scan_expired J no_faults (ord (ds_entries s)) s now limit), ())"
| "disk_cmd_step J s (DoCompact env ord) = (fst (disk_compact J env (ord (ds_entries s)) s), ())"

fun cmd_ok :: "disk_cmd \<Rightarrow> bool" where
  "cmd_ok (DoOp now op) = True"
| "cmd_ok (DoScan ord now limit) = (\<forall>m. enumerates (ord m) m)"
| "cmd_ok (DoCompact env ord) = (\<forall>m. enumerates (ord m) m)"

lemma append_op_entries:
  "append_op J env op (s\<lparr>ds_entries := x\<rparr>) = map_prod (ds_entries_update (\<lambda>_. x)) id (append_op J env op s)"
  by (simp add: append_op_def Let_def split: sum.split)

lemma append_deletes_ok:
  assumes "disk_ok J (s\<lparr>ds_entries := m\<rparr>)"
  shows "\<exists>s'. append_deletes J no_faults ks s = (s', Inr ()) \<and> disk_ok J (s'\<lparr>ds_entries := remove_keys ks m\<rparr>)
    \<and> ds_entries s' = ds_entries s"
  using assms
proof (induction ks arbitrary: s m)
  case Nil
  then show ?case by (simp add: remove_keys_def)
next
  case (Cons k ks)
  let ?s = "s\<lparr>ds_entries := m\<rparr>"
  obtain s1 where s1: "append_op J no_faults (DiskDelete k) (?s\<lparr>ds_entries := bmap_remove k m\<rparr>) = (s1, Inr ())"
      "disk_ok J s1" "ds_entries s1 = bmap_remove k m"
    using disk_remove [OF Cons.prems, of k] by auto
  let ?t = "s1\<lparr>ds_entries := ds_entries s\<rparr>"
  have "append_op J no_faults (DiskDelete k) s = (?t, Inr ())"
    using s1(1) append_op_entries [of J no_faults "DiskDelete k" "ds_entries s" "?s\<lparr>ds_entries := bmap_remove k m\<rparr>"]
    by simp
  moreover have "?t\<lparr>ds_entries := bmap_remove k m\<rparr> = s1" using s1(3) by simp
  with s1(2) have "disk_ok J (?t\<lparr>ds_entries := bmap_remove k m\<rparr>)" by simp
  from Cons.IH [OF this] obtain s' where "append_deletes J no_faults ks ?t = (s', Inr ())"
      "disk_ok J (s'\<lparr>ds_entries := remove_keys ks (bmap_remove k m)\<rparr>)" "ds_entries s' = ds_entries ?t"
    by blast
  ultimately show ?case by (simp add: remove_keys_def)
qed

lemma disk_scan_result:
  assumes ok: "disk_ok J s"
  shows "\<exists>s'. disk_scan_expired J no_faults ks s now limit
      = (s', Inr (if limit = 0 then [] else collect_expired (ds_entries s) now limit ks))
    \<and> disk_ok J s' \<and> (limit \<noteq> 0 \<longrightarrow> ds_entries s' = remove_keys (collect_expired (ds_entries s) now limit ks) (ds_entries s))"
proof -
  let ?ex = "collect_expired (ds_entries s) now limit ks"
  let ?s = "s\<lparr>ds_entries := remove_keys ?ex (ds_entries s)\<rparr>"
  have "disk_ok J (?s\<lparr>ds_entries := ds_entries s\<rparr>)" using ok by simp
  from append_deletes_ok [OF this, of ?ex] obtain s' where
      s': "append_deletes J no_faults ?ex ?s = (s', Inr ())"
      "disk_ok J (s'\<lparr>ds_entries := remove_keys ?ex (ds_entries s)\<rparr>)"
      "ds_entries s' = remove_keys ?ex (ds_entries s)"
    by auto
  then have "disk_ok J s'" by (metis disk_store.surjective disk_store.update_convs(1) disk_store.select_convs(1))
  with s' ok show ?thesis by (auto simp: disk_scan_expired_def Let_def)
qed

lemma disk_cmd_ok: "cmd_ok c \<Longrightarrow> disk_ok J s \<Longrightarrow> disk_ok J (fst (disk_cmd_step J s c))"
proof (cases c)
  case (DoScan ord now limit)
  assume "disk_ok J s"
  then show ?thesis using disk_scan_result [of J s "ord (ds_entries s)" now limit] DoScan by auto
qed (auto simp: disk_step_result disk_compact_ok)

interpretation durable: trace_invariant "disk_cmd_step J" cmd_ok "\<lambda>_ s _. disk_ok J s" bound for J bound
  by unfold_locales (rule disk_cmd_ok)

lemma disk_fresh:
  assumes "serde_ok J" and "disk_new J no_faults None None = Inr s"
  shows "disk_ok J s" and "disk_entries s = Map.empty"
proof -
  from assms have "s = \<lparr>ds_entries = [], ds_log = [], ds_snapshot = None\<rparr>"
    by (simp add: disk_new_def replay_log_def no_faults_def)
  with assms(1) show "disk_ok J s" "disk_entries s = Map.empty"
    by (auto simp: disk_ok_def whole_lines_def disk_new_no_faults disk_entries_def)
qed

end
