(* ===== verification/Store_Durability.thy ===== *)
theory Store_Durability
  imports Store_Disk
begin

text \<open>
  Properties of the disk session store: it behaves like the abstract store, its files always
  reproduce it, and the two places where concurrency or a torn write break that.  A concrete serialiser
  (fields of hexadecimal digits, each closed by a terminator) shows that the behaviour assumed of
  \<^verbatim>\<open>serde_json\<close> is satisfiable.
\<close>

section \<open>A concrete serialiser\<close>

definition hex_byte :: "u8 \<Rightarrow> bytes" where
  "hex_byte b = [97 + word_of_nat (unat b div 16), 97 + word_of_nat (unat b mod 16)]"

fun unhex :: "bytes \<Rightarrow> bytes" where
  "unhex (a # b # bs) = word_of_nat (unat (a - 97) * 16 + unat (b - 97)) # unhex bs"
| "unhex _ = []"

definition field_text :: "bytes \<Rightarrow> bytes" where
  "field_text f = concat (map hex_byte f) @ [122]"

definition fields_text :: "bytes list \<Rightarrow> bytes" where
  "fields_text fs = concat (map field_text fs)"

fun fields_of :: "bytes \<Rightarrow> bytes \<Rightarrow> bytes list" where
  "fields_of acc [] = []"
| "fields_of acc (b # bs) = (if b = 122 then unhex acc # fields_of [] bs else fields_of (acc @ [b]) bs)"

definition stored_fields :: "stored_session \<Rightarrow> bytes list" where
  "stored_fields x = (let r = ss_record x in
     [to_be_bytes 2 (ss_schema_version x), to_be_bytes 8 (sr_cid r), string_bytes (sr_peer_id r),
      to_be_bytes 8 (sr_negotiated_msr_interval_ms r), to_be_bytes 8 (sr_disconnect_window_ms r),
      to_be_bytes 8 (sr_last_ordered_rx r), to_be_bytes 8 (sr_last_ordered_tx r)])"

fun stored_of :: "bytes list \<Rightarrow> string + stored_session" where
  "stored_of [v, c, p, a, d, x, t] =
     Inr \<lparr>ss_schema_version = from_be_bytes v, ss_record =
       \<lparr>sr_cid = from_be_bytes c, sr_peer_id = bytes_string p, sr_negotiated_msr_interval_ms = from_be_bytes a,
        sr_disconnect_window_ms = from_be_bytes d, sr_last_ordered_rx = from_be_bytes x,
        sr_last_ordered_tx = from_be_bytes t\<rparr>\<rparr>"
| "stored_of _ = Inl ''not a stored session''"

fun op_fields :: "disk_op \<Rightarrow> bytes list" where
  "op_fields (DiskUpsert c v e d) = [[1], to_be_bytes 8 c, to_be_bytes 8 v, to_be_bytes 8 e, d]"
| "op_fields (DiskDelete c) = [[2], to_be_bytes 8 c]"

definition entry_fields :: "disk_log_entry \<Rightarrow> bytes list" where
  "entry_fields e = to_be_bytes 8 (log_checksum e) # op_fields (log_op e)"

fun entry_of :: "bytes list \<Rightarrow> string + disk_log_entry" where
  "entry_of [h, t, c, v, e, d] = Inr \<lparr>log_op = DiskUpsert (from_be_bytes c) (from_be_bytes v) (from_be_bytes e) d,
     log_checksum = from_be_bytes h\<rparr>"
| "entry_of [h, t, c] = Inr \<lparr>log_op = DiskDelete (from_be_bytes c), log_checksum = from_be_bytes h\<rparr>"
| "entry_of _ = Inl ''not a log entry''"

definition item_fields :: "disk_snapshot_entry \<Rightarrow> bytes list" where
  "item_fields i = [to_be_bytes 8 (snap_cid i), to_be_bytes 8 (snap_version i),
     to_be_bytes 8 (snap_expires_at_ms i), snap_data i]"

definition snapshot_fields :: "disk_snapshot \<Rightarrow> bytes list" where
  "snapshot_fields x = to_be_bytes 2 (snap_schema_version x) # concat (map item_fields (snap_entries x))"

fun items_of :: "bytes list \<Rightarrow> disk_snapshot_entry list" where
  "items_of (c # v # e # d # fs) = \<lparr>snap_cid = from_be_bytes c, snap_version = from_be_bytes v,
     snap_expires_at_ms = from_be_bytes e, snap_data = d\<rparr> # items_of fs"
| "items_of _ = []"

fun snapshot_of :: "bytes list \<Rightarrow> string + disk_snapshot" where
  "snapshot_of (v # fs) = Inr \<lparr>snap_schema_version = from_be_bytes v, snap_entries = items_of fs\<rparr>"
| "snapshot_of [] = Inl ''not a snapshot''"

definition hex_serde :: serde_ops where
  "hex_serde =
     \<lparr>stored_to_vec = (\<lambda>x. Inr (fields_text (stored_fields x))),
      stored_from_slice = (\<lambda>bs. stored_of (fields_of [] bs)),
      value_schema = (\<lambda>bs. case stored_of (fields_of [] bs) of Inl e \<Rightarrow> Inl e
        | Inr x \<Rightarrow> Inr (Some (ucast (ss_schema_version x)))),
      legacy_from_value = (\<lambda>bs. Inl ''no legacy records''),
      op_to_vec = (\<lambda>op. Inr (fields_text (op_fields op))),
      entry_to_vec = (\<lambda>e. Inr (fields_text (entry_fields e))),
      entry_from_str = (\<lambda>bs. entry_of (fields_of [] bs)),
      snapshot_to_vec = (\<lambda>x. Inr (fields_text (snapshot_fields x))),
      snapshot_from_slice = (\<lambda>bs. snapshot_of (fields_of [] bs)),
      hash_bytes = from_be_bytes\<rparr>"

lemma hex_digit: "n < 16 \<Longrightarrow> unat (97 + word_of_nat n :: u8) = 97 + n"
  by (simp add: unat_word_ariths unat_of_nat)

lemma hex_byte_text: "b \<in> set (hex_byte x) \<Longrightarrow> 97 \<le> unat b \<and> unat b \<le> 112"
  using unat_byte_less [of x] by (auto simp: hex_byte_def hex_digit)

lemma unhex_hex_byte: "unhex (hex_byte b @ bs) = b # unhex bs"
proof -
  have "unat (word_of_nat n :: u8) = n" if "n < 16" for n using that by (simp add: unat_of_nat)
  then show ?thesis using unat_byte_less [of b] by (simp add: hex_byte_def)
qed

lemma unhex_field: "unhex (concat (map hex_byte f)) = f"
  by (induction f) (simp_all add: unhex_hex_byte)

lemma fields_of_skip: "122 \<notin> set x \<Longrightarrow> fields_of acc (x @ 122 # bs) = unhex (acc @ x) # fields_of [] bs"
  by (induction x arbitrary: acc) auto

lemma fields_of_none: "122 \<notin> set x \<Longrightarrow> fields_of acc x = []"
  by (induction x arbitrary: acc) auto

lemma field_no_terminator: "122 \<notin> set (concat (map hex_byte f))"
  using hex_byte_text by fastforce

lemma fields_round_trip: "fields_of [] (fields_text fs) = fs"
  by (induction fs) (simp_all add: fields_text_def field_text_def fields_of_skip [OF field_no_terminator] unhex_field)

lemma fields_text_byte: "b \<in> set (fields_text fs) \<Longrightarrow> 97 \<le> unat b \<and> unat b \<le> 122"
  by (force simp: fields_text_def field_text_def dest!: hex_byte_text split: if_splits)

lemma fields_text_line:
  assumes "fs \<noteq> []"
  shows "valid_utf8 (fields_text fs)" "\<not> blank_line (fields_text fs)" "10 \<notin> set (fields_text fs)"
    "last (fields_text fs) \<noteq> 13" "fields_text fs \<noteq> []"
proof -
  show ne: "fields_text fs \<noteq> []" using assms by (cases fs) (auto simp: fields_text_def field_text_def)
  show "valid_utf8 (fields_text fs)" using fields_text_byte by (intro ascii_valid) fastforce
  show "10 \<notin> set (fields_text fs)" using fields_text_byte [of 10 fs] by auto
  show "last (fields_text fs) \<noteq> 13" using fields_text_byte [of "last (fields_text fs)" fs] ne by auto
  obtain b bs where b: "fields_text fs = b # bs" using ne by (cases "fields_text fs") auto
  then have ub: "97 \<le> unat b \<and> unat b \<le> 122" using fields_text_byte [of b fs] by simp
  have "\<not> b \<le> 13" using ub by (simp add: word_le_nat_alt)
  moreover have "b \<noteq> 32" "b \<noteq> 0xC2" "b \<noteq> 0xE1" "b \<noteq> 0xE2" "b \<noteq> 0xE3" using ub by auto
  ultimately show "\<not> blank_line (fields_text fs)" by (simp add: b split: list.split)
qed

lemma items_round_trip: "items_of (concat (map item_fields is)) = is"
  by (induction "is") (simp_all add: item_fields_def from_to_be_bytes)

lemma hex_serde_ok: "serde_ok hex_serde"
proof -
  have "stored_of (stored_fields x) = Inr x" for x
    by (simp add: stored_fields_def Let_def from_to_be_bytes string_round_trip)
  moreover have "entry_of (entry_fields e) = Inr e" for e
    by (cases e; cases "log_op e") (simp_all add: entry_fields_def from_to_be_bytes)
  moreover have "snapshot_of (snapshot_fields x) = Inr x" for x
    by (simp add: snapshot_fields_def from_to_be_bytes items_round_trip)
  moreover have "entry_fields e \<noteq> []" "snapshot_fields x \<noteq> []" for e x
    by (simp_all add: entry_fields_def snapshot_fields_def)
  ultimately show ?thesis
    unfolding serde_ok_def hex_serde_def by (simp add: fields_round_trip fields_text_line)
qed

section \<open>Properties\<close>

text \<open>C11: The disk store refines the abstract store.  When file-system calls succeed, any sequence of loads,
  compare-and-swaps, upserts and deletes at non-decreasing times gets from a freshly created disk
  store exactly the replies of the abstract store, hence those of the in-memory store.\<close>

theorem disk_refines_spec:
  assumes "serde_ok J" and "disk_new J no_faults None None = Inr s" and "sorted (map fst ops)"
  shows "snd (run (disk_step J) s ops) = spec_run Map.empty ops"
  using disk.run_spec [of J s 0 Map.empty ops] disk_fresh [OF assms(1,2)] assms(3) by simp

lemma hex_serde_fresh: "disk_new hex_serde no_faults None None = Inr \<lparr>ds_entries = [], ds_log = [], ds_snapshot = None\<rparr>"
  by (simp add: disk_new_def replay_log_def no_faults_def read_lines.simps)

theorem disk_refines_spec_witness:
  "snd (run (disk_step hex_serde) \<lparr>ds_entries = [], ds_log = [], ds_snapshot = None\<rparr>
      [(10, Upsert 1 demo_record 5), (20, Load 1)])
     = spec_run Map.empty [(10, Upsert 1 demo_record 5), (20, Load 1)]"
  by (rule disk_refines_spec [OF hex_serde_ok hex_serde_fresh]) simp

text \<open>C13: The files reproduce the store, as long as the appends of operations and scans succeed.  After any sequence of
  operations and scans whose file calls all succeed, and of compactions each of which may fail at any of its file calls
  (the write of the temporary file, the rename, the truncation of the log), on a freshly created disk store, opening its
  files again yields exactly the same store: after a compaction that was cut short, the old log replayed over the new
  snapshot gives the same entries.  The condition is needed: an operation whose append is torn leaves files that cannot be
  opened (\<open>torn_append_blocks_reopen\<close> below), and one whose append fails at once is in the map but not in the files.\<close>

theorem disk_durable:
  assumes "serde_ok J" and "disk_new J no_faults None None = Inr s" and "\<forall>c \<in> set cmds. cmd_ok c"
  shows "let s' = fst (run (disk_cmd_step J) s cmds) in
    disk_new J no_faults (Some (ds_log s')) (ds_snapshot s') = Inr s'"
proof -
  have "disk_ok J (fst (run (disk_cmd_step J) s cmds))"
    using durable.run_trace [of J s cmds 0 "length cmds"] disk_fresh [OF assms(1,2)] assms(3) by simp
  then show ?thesis by (simp add: disk_ok_def)
qed

theorem disk_durable_witness:
  "let s' = fst (run (disk_cmd_step hex_serde) \<lparr>ds_entries = [], ds_log = [], ds_snapshot = None\<rparr>
      [DoOp 10 (Upsert 1 demo_record 5),
       DoCompact \<lparr>io_fails = (\<lambda>c. if c = TruncateLog then Some ''disk full'' else None), io_torn = 0\<rparr> (\<lambda>m. remdups (bmap_keys m)),
       DoOp 20 (Delete 1)]) in
    disk_new hex_serde no_faults (Some (ds_log s')) (ds_snapshot s') = Inr s'"
  by (rule disk_durable [OF hex_serde_ok hex_serde_fresh]) (simp add: enumerates_def)

text \<open>A torn append makes the store unopenable.  When writing a log line fails after part of it has reached the
  file, and that part is not itself a log entry, the next start fails with \<^verbatim>\<open>CorruptLogEntry\<close> although every
  acknowledged operation is intact in the file.\<close>

theorem torn_append_blocks_reopen:
  assumes ok: "disk_ok J s"
    and line: "op_to_vec J (DiskDelete cid) = Inr ob"
      "entry_to_vec J \<lparr>log_op = DiskDelete cid, log_checksum = hash_bytes J ob\<rparr> = Inr line"
    and torn: "k \<le> length line" "valid_utf8 (take k line)" "\<not> blank_line (take k line)" "10 \<notin> set line"
      "entry_from_str J (take k line) = Inl e"
    and env: "io_fails env = (\<lambda>c. if c = WriteLine then Some msg else None)" "io_torn env = k"
  shows "snd (disk_delete J env s cid) = Inl (Io msg)
    \<and> disk_new J no_faults (Some (ds_log (fst (disk_delete J env s cid)))) (ds_snapshot s) = Inl CorruptLogEntry"
proof -
  let ?p = "take k line"
  have del: "disk_delete J env s cid = (s\<lparr>ds_entries := bmap_remove cid (ds_entries s), ds_log := ds_log s @ ?p\<rparr>, Inl (Io msg))"
    using torn(1) by (simp add: disk_delete_def append_op_def line env)
  obtain m where m: "(case ds_snapshot s of None \<Rightarrow> Inr [] | Some bs \<Rightarrow> load_snapshot J no_faults bs []) = Inr m"
      "replay_lines J (read_lines (ds_log s)) m = Inr (ds_entries s)"
    using ok by (auto simp: disk_ok_def disk_new_no_faults)
  have "10 \<notin> set ?p" using torn(4) by (auto dest: in_set_takeD)
  moreover have "?p \<noteq> []" using torn(3) by (cases "take k line") auto
  ultimately have "read_lines (ds_log s @ ?p) = read_lines (ds_log s) @ [?p]"
    using read_lines_tail ok by (simp add: disk_ok_def)
  moreover have "replay_line J ?p m' = Inl CorruptLogEntry" for m'
    using torn by (simp add: replay_line_def)
  ultimately have "replay_lines J (read_lines (ds_log s @ ?p)) m = Inl CorruptLogEntry"
    using m(2) by (simp add: replay_lines_append)
  with m(1) show ?thesis
    by (simp add: del disk_new_alt)
qed

lemma length_hex: "length (concat (map hex_byte f)) = 2 * length f"
  by (induction f) (simp_all add: hex_byte_def)

lemma torn_prefix: "take 5 (fields_text (to_be_bytes 8 (h :: u64) # fs)) = take 5 (concat (map hex_byte (to_be_bytes 8 h)))"
  by (simp add: fields_text_def field_text_def length_hex)

theorem torn_append_blocks_reopen_witness:
  "\<exists>s' :: disk_store. disk_new hex_serde no_faults (Some (ds_log s')) None = Inl CorruptLogEntry"
proof -
  let ?s = "\<lparr>ds_entries = [], ds_log = [], ds_snapshot = None\<rparr>"
  let ?ob = "fields_text (op_fields (DiskDelete 1))"
  let ?line = "fields_text (entry_fields \<lparr>log_op = DiskDelete 1, log_checksum = hash_bytes hex_serde ?ob\<rparr>)"
  let ?env = "\<lparr>io_fails = (\<lambda>c. if c = WriteLine then Some ''crash'' else None), io_torn = 5\<rparr>"
  have ok: "disk_ok hex_serde ?s" by (rule disk_fresh [OF hex_serde_ok hex_serde_fresh])
  have p: "take 5 ?line = take 5 (concat (map hex_byte (to_be_bytes 8 (hash_bytes hex_serde ?ob))))"
    by (simp only: entry_fields_def disk_log_entry.select_convs torn_prefix)
  have len: "5 \<le> length ?line"
    by (simp add: entry_fields_def fields_text_def field_text_def length_hex)
  have bytes: "97 \<le> unat b \<and> unat b \<le> 112" if "b \<in> set (take 5 ?line)" for b
    using that hex_byte_text unfolding p by (auto dest!: in_set_takeD)
  have utf: "valid_utf8 (take 5 ?line)" by (rule ascii_valid) (use bytes in fastforce)
  have "take 5 ?line \<noteq> []" using len by (metis length_greater_0_conv less_le_trans take_eq_Nil zero_less_numeral zero_neq_numeral)
  then obtain b bs where b: "take 5 ?line = b # bs" by (cases "take 5 ?line") auto
  have ub: "97 \<le> unat b \<and> unat b \<le> 112" by (rule bytes) (simp only: b list.set_intros)
  then have "\<not> b \<le> 13" "b \<noteq> 32" "b \<noteq> 0xC2" "b \<noteq> 0xE1" "b \<noteq> 0xE2" "b \<noteq> 0xE3"
    by (auto simp: word_le_nat_alt)
  then have blank: "\<not> blank_line (take 5 ?line)" by (simp only: b) (simp split: list.split)
  have "122 \<notin> set (take 5 ?line)" using bytes [of 122] by auto
  then have "fields_of [] (take 5 ?line) = []" by (rule fields_of_none)
  then have parse: "entry_from_str hex_serde (take 5 ?line) = Inl ''not a log entry''" by (simp add: hex_serde_def)
  have nl: "10 \<notin> set ?line" by (rule fields_text_line) (simp add: entry_fields_def)
  have "snd (disk_delete hex_serde ?env ?s 1) = Inl (Io ''crash'')
    \<and> disk_new hex_serde no_faults (Some (ds_log (fst (disk_delete hex_serde ?env ?s 1)))) (ds_snapshot ?s) = Inl CorruptLogEntry"
    by (rule torn_append_blocks_reopen [OF ok _ _ len utf blank nl parse]) (simp_all add: hex_serde_def)
  then show ?thesis by (intro exI [of _ "fst (disk_delete hex_serde ?env ?s 1)"]) simp
qed

lemma disk_locked_effect:
  assumes "serde_ok J" and "disk_upsert_locked J s cid rec ttl now = (s', Inr (op, v))"
  shows "\<exists>e. s' = s\<lparr>ds_entries := bmap_insert cid e (ds_entries s)\<rparr> \<and> entry_record e = rec
    \<and> (\<forall>m. apply_op J op m = Inr (bmap_insert cid e m))"
proof -
  obtain bs where "encode_session_record J rec = Inr bs" "decode_session_record_migrating J bs = Inr rec"
    using assms(1) by (rule serde_record)
  with assms(2) show ?thesis
    by (auto simp: disk_upsert_locked_def disk_write_locked_def Let_def apply_op_def)
qed

text \<open>Releasing the mutex before appending can lose an update.  Two writers of the same session: the first updates
  the map, then the second updates the map and appends, then the first appends.  The map then holds the
  second record, with the higher version, but the files hold the first one.\<close>

theorem late_append_loses_update:
  assumes ok: "disk_ok J s"
    and first: "disk_upsert_locked J s cid rec1 ttl now = (s1, Inr (op1, v1))"
    and second: "disk_upsert_locked J s1 cid rec2 ttl now = (s2, Inr (op2, v2))"
    and appends: "append_op J no_faults op2 s2 = (s3, r3)" "append_op J no_faults op1 s3 = (s4, r4)"
  shows "map_option entry_record (bmap_get (ds_entries s4) cid) = Some rec2
    \<and> (\<exists>s5. disk_new J no_faults (Some (ds_log s4)) (ds_snapshot s4) = Inr s5
         \<and> map_option entry_record (bmap_get (ds_entries s5) cid) = Some rec1)"
proof -
  have serde: "serde_ok J" using ok by (simp add: disk_ok_def)
  obtain e1 b1 where w1: "s1 = s\<lparr>ds_entries := bmap_insert cid e1 (ds_entries s)\<rparr>" "entry_record e1 = rec1"
      "\<And>m. apply_op J op1 m = Inr (bmap_insert cid e1 m)"
    using disk_locked_effect [OF serde first] by blast
  obtain e2 where w2: "s2 = s1\<lparr>ds_entries := bmap_insert cid e2 (ds_entries s1)\<rparr>" "entry_record e2 = rec2"
      "\<And>m. apply_op J op2 m = Inr (bmap_insert cid e2 m)"
    using disk_locked_effect [OF serde second] by blast
  obtain a where a: "append_op J no_faults op2 (s\<lparr>ds_entries := bmap_insert cid e2 (ds_entries s)\<rparr>) = (a, Inr ())" "disk_ok J a"
    using disk_append [OF ok w2(3)] by blast
  obtain b where b: "append_op J no_faults op1 (a\<lparr>ds_entries := bmap_insert cid e1 (ds_entries a)\<rparr>) = (b, Inr ())"
      "disk_ok J b" "ds_entries b = bmap_insert cid e1 (ds_entries a)"
    using disk_append [OF a(2) w1(3)] by blast
  have s3: "s3 = a\<lparr>ds_entries := ds_entries s2\<rparr>"
    using appends(1) a(1) append_op_entries [of J no_faults op2 "ds_entries s2" "s\<lparr>ds_entries := bmap_insert cid e2 (ds_entries s)\<rparr>"]
    by (simp add: w1(1) w2(1))
  have s4: "s4 = b\<lparr>ds_entries := ds_entries s2\<rparr>"
    using appends(2) b(1) append_op_entries [of J no_faults op1 "ds_entries s2" "a\<lparr>ds_entries := bmap_insert cid e1 (ds_entries a)\<rparr>"]
    by (simp add: s3)
  have "disk_new J no_faults (Some (ds_log s4)) (ds_snapshot s4) = Inr b" using b(2) by (simp add: s4 disk_ok_def)
  moreover have "bmap_get (ds_entries s4) cid = Some e2" by (simp add: s4 w2(1))
  ultimately show ?thesis using b(3) w1(2) w2(2) by simp
qed

theorem late_append_loses_update_witness:
  "\<exists>(s4 :: disk_store) s5. map_option entry_record (bmap_get (ds_entries s4) 1) = Some (demo_record\<lparr>sr_last_ordered_rx := 9\<rparr>)
    \<and> disk_new hex_serde no_faults (Some (ds_log s4)) (ds_snapshot s4) = Inr s5
    \<and> map_option entry_record (bmap_get (ds_entries s5) 1) = Some demo_record"
proof -
  let ?s = "\<lparr>ds_entries = [], ds_log = [], ds_snapshot = None\<rparr>"
  have ok: "disk_ok hex_serde ?s" by (rule disk_fresh [OF hex_serde_ok hex_serde_fresh])
  have locked: "\<exists>t op v. disk_upsert_locked hex_serde s 1 rec 5 10 = (t, Inr (op, v))" for s rec
    by (rule serde_record [OF hex_serde_ok, of rec]) (simp add: disk_upsert_locked_def disk_write_locked_def Let_def)
  obtain s1 op1 v1 where 1: "disk_upsert_locked hex_serde ?s 1 demo_record 5 10 = (s1, Inr (op1, v1))"
    using locked by blast
  obtain s2 op2 v2 where 2: "disk_upsert_locked hex_serde s1 1 (demo_record\<lparr>sr_last_ordered_rx := 9\<rparr>) 5 10 = (s2, Inr (op2, v2))"
    using locked by blast
  obtain s3 r3 where 3: "append_op hex_serde no_faults op2 s2 = (s3, r3)" by (cases "append_op hex_serde no_faults op2 s2")
  obtain s4 r4 where 4: "append_op hex_serde no_faults op1 s3 = (s4, r4)" by (cases "append_op hex_serde no_faults op1 s3")
  from late_append_loses_update [OF ok 1 2 3 4] show ?thesis by blast
qed

text \<open>Compacting beside a writer can lose an update.  \<^verbatim>\<open>compact\<close> collects the snapshot under the mutex and
  writes it, and empties the log, after releasing it: an upsert that completes in between is
  acknowledged and in the map, but the files no longer have it.\<close>

theorem compact_race_loses_update:
  assumes ok: "disk_ok J s" and ks: "enumerates ks (ds_entries s)"
    and collect: "snapshot_items J (ds_entries s) ks = Inr items"
    and writer: "disk_upsert J no_faults s cid rec ttl now = (s1, Inr v)"
    and finish: "write_snapshot J no_faults items s1 = (s2, r)"
  shows "r = Inr () \<and> map_option entry_record (bmap_get (ds_entries s2) cid) = Some rec
    \<and> (\<exists>s3. disk_new J no_faults (Some (ds_log s2)) (ds_snapshot s2) = Inr s3 \<and> ds_entries s3 = ds_entries s)"
proof -
  have serde: "serde_ok J" and ents: "bmap_ok (ds_entries s)" using ok by (simp_all add: disk_ok_def)
  obtain bs where bs: "snapshot_to_vec J \<lparr>snap_schema_version = SESSION_SCHEMA_VERSION, snap_entries = items\<rparr> = Inr bs"
      "load_snapshot J no_faults bs [] = Inr (ds_entries s)"
    by (rule snapshot_round_trip [OF serde ents ks]) (use collect in auto)
  have s1: "ds_entries s1 = bmap_insert cid (next_entry (disk_live s cid now) rec ttl now) (ds_entries s)"
    using disk_write [OF ok, of cid "disk_live s cid now" rec ttl now] writer
    by (auto simp: disk_upsert_def disk_upsert_locked_def)
  have s2: "s2 = s1\<lparr>ds_snapshot := Some bs, ds_log := []\<rparr>" "r = Inr ()"
    using finish by (simp_all add: write_snapshot_def bs(1) Let_def)
  have "disk_new J no_faults (Some (ds_log s2)) (ds_snapshot s2)
      = Inr \<lparr>ds_entries = ds_entries s, ds_log = [], ds_snapshot = Some bs\<rparr>"
    by (simp add: s2 disk_new_alt bs(2))
  then show ?thesis by (simp add: s2 s1 next_entry_def)
qed

theorem compact_race_loses_update_witness:
  "\<exists>(s2 :: disk_store) s3. bmap_get (ds_entries s2) 1 \<noteq> None
    \<and> disk_new hex_serde no_faults (Some (ds_log s2)) (ds_snapshot s2) = Inr s3 \<and> ds_entries s3 = []"
proof -
  let ?s = "\<lparr>ds_entries = [], ds_log = [], ds_snapshot = None\<rparr>"
  have ok: "disk_ok hex_serde ?s" by (rule disk_fresh [OF hex_serde_ok hex_serde_fresh])
  have ks: "enumerates [] (ds_entries ?s)" by (simp add: enumerates_def bmap_keys_def)
  obtain s1 where s1: "disk_upsert hex_serde no_faults ?s 1 demo_record 5 10 = (s1, Inr (to_versioned (next_entry (disk_live ?s 1 10) demo_record 5 10)))"
    using disk_write [OF ok, of 1 "disk_live ?s 1 10" demo_record 5 10]
    by (auto simp: disk_upsert_def disk_upsert_locked_def)
  obtain s2 r where s2: "write_snapshot hex_serde no_faults [] s1 = (s2, r)"
    by (cases "write_snapshot hex_serde no_faults [] s1")
  from compact_race_loses_update [OF ok ks _ s1 s2] show ?thesis by auto
qed

end
