(* ===== verification/Server_Store.thy ===== *)
theory Server_Store
  imports Server_Runtime Store_Durability
begin

text \<open>
  The server runtime over a store that keeps the store's contract: what a call leaves in the store, that
  no call fails for the store, and what a restarted server finds.  The contract is the locale of
  \<^verbatim>\<open>Store\<close>; the facts proved in it hold of the in-memory and of the disk store.
\<close>

section \<open>The runtime's view of a store\<close>

locale runtime_store = session_store step entries inv
  for step :: "'s \<Rightarrow> u64 \<times> store_op \<Rightarrow> 's \<times> store_reply" and entries and inv +
  fixes E :: "'s server_env"
  assumes load_step: "map_prod id (reply Loaded) (st_load E s cid now) = step s (now, Load cid)"
    and upsert_step: "map_prod id (reply Written) (st_upsert E s cid rec ttl now) = step s (now, Upsert cid rec ttl)"
    and delete_step: "map_prod id (reply (\<lambda>_. Deleted)) (st_delete E s cid) = step s (now, Delete cid)"
begin

lemma load_result:
  assumes "inv s"
  obtains s' where "st_load E s cid now = (s', Inr (map_option to_versioned (live now (entries s) cid)))"
    and "inv s'" and "agrees now (entries s') (entries s)"
proof -
  obtain s' res where l: "st_load E s cid now = (s', res)" by fastforce
  then have st: "step s (now, Load cid) = (s', reply Loaded res)" using load_step [of s cid now] by simp
  have "res = Inr (map_option to_versioned (live now (entries s) cid))"
    using reply_spec [OF assms, of now "Load cid"] st by (cases res) (simp_all add: reply_def)
  moreover have "inv s'" "agrees now (entries s') (entries s)"
    using keeps_inv [OF assms, of now "Load cid"] entries_spec [OF assms, of now "Load cid"] st by simp_all
  ultimately show thesis using that l by simp
qed

lemma upsert_result:
  assumes "inv s"
  obtains s' v where "st_upsert E s cid rec ttl now = (s', Inr v)" and "inv s'"
    and "agrees now (entries s') ((entries s)(cid \<mapsto> next_entry (live now (entries s) cid) rec ttl now))"
proof -
  obtain s' res where l: "st_upsert E s cid rec ttl now = (s', res)" by fastforce
  then have st: "step s (now, Upsert cid rec ttl) = (s', reply Written res)" using upsert_step [of s cid rec ttl now] by simp
  obtain v where "res = Inr v"
    using reply_spec [OF assms, of now "Upsert cid rec ttl"] st by (cases res) (simp_all add: reply_def Let_def)
  moreover have "inv s'" "agrees now (entries s') ((entries s)(cid \<mapsto> next_entry (live now (entries s) cid) rec ttl now))"
    using keeps_inv [OF assms, of now "Upsert cid rec ttl"] entries_spec [OF assms, of now "Upsert cid rec ttl"] st
    by (simp_all add: Let_def)
  ultimately show thesis using that l by simp
qed

lemma delete_result:
  assumes "inv s"
  obtains s' where "st_delete E s cid = (s', Inr ())" and "inv s'" and "agrees now (entries s') ((entries s)(cid := None))"
proof -
  obtain s' res where l: "st_delete E s cid = (s', res)" by fastforce
  then have st: "step s (now, Delete cid) = (s', reply (\<lambda>_. Deleted) res)" using delete_step [of s cid now] by simp
  have "res = Inr ()"
    using reply_spec [OF assms, of now "Delete cid"] st by (cases res) (simp_all add: reply_def)
  moreover have "inv s'" "agrees now (entries s') ((entries s)(cid := None))"
    using keeps_inv [OF assms, of now "Delete cid"] entries_spec [OF assms, of now "Delete cid"] st by simp_all
  ultimately show thesis using that l by simp
qed

end

text \<open>From \<open>now\<close> on the store holds, for the connection, the record of its session until it expires, or nothing.\<close>

definition stored_as :: "core_config \<Rightarrow> u64 \<Rightarrow> spec_store \<Rightarrow> u64 \<Rightarrow> session_runtime option \<Rightarrow> bool" where
  "stored_as cfg now f cid session \<longleftrightarrow> (\<forall>t. now \<le> t \<longrightarrow>
     (case session of
        None \<Rightarrow> live t f cid = None
      | Some s \<Rightarrow> map_option entry_record (live t f cid) =
          (if t < saturating_add now (disconnect_window_ms cfg) then Some (session_snapshot cfg cid s) else None)))"

text \<open>What a call for one connection does to the store.\<close>

definition others_stored :: "u64 \<Rightarrow> u64 \<Rightarrow> spec_store \<Rightarrow> spec_store \<Rightarrow> bool" where
  "others_stored now cid f g \<longleftrightarrow> (\<forall>t k. now \<le> t \<longrightarrow> k \<noteq> cid \<longrightarrow> live t f k = live t g k)"

lemma others_stored_trans: "others_stored now cid f g \<Longrightarrow> others_stored now cid g h \<Longrightarrow> others_stored now cid f h"
  by (simp add: others_stored_def)

lemma agrees_others: "agrees now f (g(cid := x)) \<Longrightarrow> others_stored now cid f g"
  by (simp add: agrees_def others_stored_def live_def)

lemma agrees_others_refl: "agrees now f g \<Longrightarrow> others_stored now cid f g"
  by (simp add: agrees_def others_stored_def)

lemma agrees_stored:
  "agrees now f (g(cid \<mapsto> next_entry cur (session_snapshot cfg cid s) (disconnect_window_ms cfg) now)) \<Longrightarrow>
     stored_as cfg now f cid (Some s)"
  by (auto simp: agrees_def stored_as_def live_def next_entry_def)

lemma agrees_deleted: "agrees now f (g(cid := None)) \<Longrightarrow> stored_as cfg now f cid None"
  by (simp add: agrees_def stored_as_def live_def)

section \<open>Calls over such a store\<close>

definition stores_for :: "('s \<Rightarrow> spec_store) \<Rightarrow> ('s \<Rightarrow> bool) \<Rightarrow> u64 \<Rightarrow> u64 \<Rightarrow> 's server_runtime \<Rightarrow> 's server_runtime \<Rightarrow> bool" where
  "stores_for entries ok now cid r r' \<longleftrightarrow> ok (sv_store r') \<and> sv_cfg r' = sv_cfg r
     \<and> others_stored now cid (entries (sv_store r')) (entries (sv_store r))"

lemma stores_for_trans:
  "stores_for entries ok now cid r r' \<Longrightarrow> stores_for entries ok now cid r' r'' \<Longrightarrow> stores_for entries ok now cid r r''"
  unfolding stores_for_def using others_stored_trans by metis

context runtime_store
begin

lemma drop_stores:
  assumes "inv (sv_store r)"
  shows "\<exists>r'. drop_session E cid r = (r', Inr ()) \<and> stores_for entries inv now cid r r'
    \<and> bmap_get (sv_sessions r') cid = None \<and> stored_as (sv_cfg r) now (entries (sv_store r')) cid None"
proof -
  obtain s' where s': "st_delete E (sv_store r) cid = (s', Inr ())" "inv s'"
      "agrees now (entries s') ((entries (sv_store r))(cid := None))"
    using delete_result [OF assms] by blast
  have "\<exists>r'. drop_session E cid r = (r', Inr ()) \<and> sv_store r' = s' \<and> sv_cfg r' = sv_cfg r \<and> bmap_get (sv_sessions r') cid = None"
    by (simp add: drop_session_def s'(1))
  then show ?thesis
    using s'(2) agrees_others [OF s'(3)] agrees_deleted [OF s'(3), of "sv_cfg r"] by (auto simp: stores_for_def)
qed

lemma persist_stores:
  assumes "inv (sv_store r)" and "bmap_get (sv_sessions r) cid = Some s"
  shows "\<exists>r'. persist_session E cid now s r = (r', Inr ()) \<and> stores_for entries inv now cid r r'
    \<and> bmap_get (sv_sessions r') cid = Some s \<and> stored_as (sv_cfg r) now (entries (sv_store r')) cid (Some s)"
proof -
  let ?rec = "session_snapshot (sv_cfg r) cid s" and ?ttl = "disconnect_window_ms (sv_cfg r)"
  obtain s' v where s': "st_upsert E (sv_store r) cid ?rec ?ttl now = (s', Inr v)" "inv s'"
      "agrees now (entries s') ((entries (sv_store r))(cid \<mapsto> next_entry (live now (entries (sv_store r)) cid) ?rec ?ttl now))"
    using upsert_result [OF assms(1)] by blast
  have "\<exists>r'. persist_session E cid now s r = (r', Inr ()) \<and> sv_store r' = s' \<and> sv_cfg r' = sv_cfg r \<and> sv_sessions r' = sv_sessions r"
    by (simp add: persist_session_def s'(1) Let_def)
  then show ?thesis
    using s'(2) agrees_others [OF s'(3)] agrees_stored [OF s'(3)] assms(2) by (auto simp: stores_for_def)
qed

lemma settle_stores:
  assumes "inv (sv_store r)" and "seen r cid \<noteq> None"
  shows "\<exists>r'. settle_session E cid now r = (r', Inr ()) \<and> stores_for entries inv now cid r r'
    \<and> stored_as (sv_cfg r) now (entries (sv_store r')) cid (bmap_get (sv_sessions r') cid)"
proof -
  obtain s where s: "bmap_get (sv_sessions r) cid = Some s"
    using assms(2) by (cases "bmap_get (sv_sessions r) cid") (simp_all add: seen_in_def)
  show ?thesis
    using drop_stores [OF assms(1), of cid now] persist_stores [OF assms(1) s, of now]
    by (cases "lifecycle (sess_core s) = Lost") (auto simp: settle_session_def s)
qed

lemma apply_stores:
  assumes "inv (sv_store r)" and "seen r cid \<noteq> None"
  shows "\<exists>r' o'. server_apply_core_output E cid path now out r = (r', Inr o') \<and> stores_for entries inv now cid r r'
    \<and> stored_as (sv_cfg r) now (entries (sv_store r')) cid (bmap_get (sv_sessions r') cid)"
proof -
  let ?r = "server_observe_datagrams cid ((bump (\<lambda>ms. foldl server_observe_event ms (events out)) r)
    \<lparr>sv_timers := server_ingest_timers cid (timer_actions out) (sv_timers r)\<rparr>) (map (route_datagram path) (outbound_datagrams out))"
  have "inv (sv_store ?r)" "seen ?r cid \<noteq> None" using assms by simp_all
  from settle_stores [OF this, of now] show ?thesis
    by (auto simp: server_apply_core_output_def stores_for_def Let_def)
qed

lemma session_call_stores:
  assumes "inv (sv_store r)"
  shows "stores_for entries inv now cid r (fst (session_call E cid path now session res r))"
    and "snd res = Inl e \<Longrightarrow> snd (session_call E cid path now session res r) = Inl (ServerCoreError e)"
    and "snd res = Inr out \<Longrightarrow> \<exists>o'. snd (session_call E cid path now session res r) = Inr o'
      \<and> stored_as (sv_cfg r) now (entries (sv_store (fst (session_call E cid path now session res r)))) cid
          (bmap_get (sv_sessions (fst (session_call E cid path now session res r))) cid)"
proof -
  let ?r = "r\<lparr>sv_sessions := bmap_insert cid (session\<lparr>sess_core := fst res\<rparr>) (sv_sessions r)\<rparr>"
  have r: "inv (sv_store ?r)" "seen ?r cid \<noteq> None" using assms by simp_all
  have same: "stores_for entries inv now cid r ?r" using assms by (simp add: stores_for_def others_stored_def)
  have ok: "\<exists>r' o'. session_call E cid path now session res r = (r', Inr o') \<and> stores_for entries inv now cid ?r r'
      \<and> stored_as (sv_cfg r) now (entries (sv_store r')) cid (bmap_get (sv_sessions r') cid)"
    if "snd res = Inr out" for out
    using apply_stores [OF r, of path now out] that by (cases res) (simp add: session_call_def)
  have bad: "session_call E cid path now session res r = (?r, Inl (ServerCoreError e))" if "snd res = Inl e" for e
    using that by (cases res) (simp add: session_call_def)
  show "stores_for entries inv now cid r (fst (session_call E cid path now session res r))"
    using same ok bad stores_for_trans [OF same] by (cases "snd res") fastforce+
  show "snd res = Inl e \<Longrightarrow> snd (session_call E cid path now session res r) = Inl (ServerCoreError e)"
    using bad by simp
  show "snd res = Inr out \<Longrightarrow> \<exists>o'. snd (session_call E cid path now session res r) = Inr o'
      \<and> stored_as (sv_cfg r) now (entries (sv_store (fst (session_call E cid path now session res r)))) cid
          (bmap_get (sv_sessions (fst (session_call E cid path now session res r))) cid)"
    using ok by fastforce
qed

lemma ensure_stores:
  assumes "inv (sv_store r)"
  shows "\<exists>r'. ensure_session_loaded E cid path now r = (r', Inr ()) \<and> stores_for entries inv now cid r r' \<and> seen r' cid \<noteq> None"
proof (cases "seen r cid")
  case (Some s)
  then show ?thesis using assms by (simp add: ensure_loaded stores_for_def others_stored_def)
next
  case None
  obtain s' where s': "st_load E (sv_store r) cid now = (s', Inr (map_option to_versioned (live now (entries (sv_store r)) cid)))"
      "inv s'" "agrees now (entries s') (entries (sv_store r))"
    using load_result [OF assms] by blast
  then have "snd (st_load E (sv_store r) cid now) = Inr (map_option to_versioned (live now (entries (sv_store r)) cid))" by simp
  from ensure_fresh [OF None this, of path] show ?thesis
    using s' agrees_others_refl [OF s'(3)] by (auto simp: stores_for_def)
qed

end

context runtime_store
begin

lemma on_datagram_stores:
  assumes "inv (sv_store r)" and "decode bs = Inr fr"
  shows "stores_for entries inv now (frame_cid fr) r (fst (server_runtime_on_datagram E r now path bs))"
    and "case snd (server_runtime_on_datagram E r now path bs) of
        Inl e \<Rightarrow> e \<in> range ServerCoreError
      | Inr out \<Rightarrow> stored_as (sv_cfg r) now (entries (sv_store (fst (server_runtime_on_datagram E r now path bs)))) (frame_cid fr)
          (bmap_get (sv_sessions (fst (server_runtime_on_datagram E r now path bs))) (frame_cid fr))"
proof -
  let ?cid = "frame_cid fr"
  obtain r1 where r1: "ensure_session_loaded E ?cid path now r = (r1, Inr ())" "stores_for entries inv now ?cid r r1" "seen r1 ?cid \<noteq> None"
    using ensure_stores [OF assms(1)] by blast
  obtain session where s: "bmap_get (sv_sessions r1) ?cid = Some session"
    using r1(3) by (cases "bmap_get (sv_sessions r1) ?cid") (simp_all add: seen_in_def)
  let ?res = "on_datagram (sess_core session) now path bs"
  let ?call = "session_call E ?cid path now session ?res r1"
  have eq: "server_runtime_on_datagram E r now path bs = and_then ?call
      (\<lambda>r out. (r, Inr (out\<lparr>sro_events := vhost_events ?cid path session @ sro_events out\<rparr>)))"
    by (simp add: server_runtime_on_datagram_def assms(2) r1(1) s Let_def)
  have i1: "inv (sv_store r1)" and c1: "sv_cfg r1 = sv_cfg r" using r1(2) by (simp_all add: stores_for_def)
  show "stores_for entries inv now ?cid r (fst (server_runtime_on_datagram E r now path bs))"
    unfolding eq using stores_for_trans [OF r1(2) session_call_stores(1) [OF i1]] by simp
  show "case snd (server_runtime_on_datagram E r now path bs) of
        Inl e \<Rightarrow> e \<in> range ServerCoreError
      | Inr out \<Rightarrow> stored_as (sv_cfg r) now (entries (sv_store (fst (server_runtime_on_datagram E r now path bs)))) ?cid
          (bmap_get (sv_sessions (fst (server_runtime_on_datagram E r now path bs))) ?cid)"
  proof (cases "snd ?res")
    case (Inl e)
    then show ?thesis
      using session_call_stores(2) [OF i1 Inl, of ?cid path now session] unfolding eq by (cases ?call) simp
  next
    case (Inr out)
    then show ?thesis
      using session_call_stores(3) [OF i1 Inr, of ?cid path now session] c1 unfolding eq by (cases ?call) auto
  qed
qed

lemma fire_inv: "inv (sv_store r) \<Longrightarrow> inv (sv_store (fst (server_fire E r now es out)))"
proof (induction es arbitrary: r out)
  case Nil
  then show ?case by simp
next
  case (Cons e es)
  obtain d cid i where e: "e = (d, cid, i)" by (cases e)
  let ?r = "r\<lparr>sv_timers := timers_take d (cid, i) (sv_timers r)\<rparr>"
  have r: "inv (sv_store ?r)" using Cons.prems by simp
  show ?case
  proof (cases "bmap_get (sv_sessions r) cid")
    case None
    then show ?thesis using Cons.IH [OF r] by (simp add: e)
  next
    case (Some session)
    obtain r1 res where c: "session_call E cid 0 now session (on_timer (sess_core session) now i) ?r = (r1, res)" by fastforce
    have "inv (sv_store r1)"
      using session_call_stores(1) [OF r, of now cid 0 session "on_timer (sess_core session) now i"] c by (simp add: stores_for_def)
    from Cons.IH [OF this] this show ?thesis using c Some by (cases res) (auto simp: e)
  qed
qed

lemma step_inv: "inv (sv_store r) \<Longrightarrow> inv (sv_store (fst (server_step E r i)))"
proof (cases i)
  case (ServerDatagram now path bs)
  assume "inv (sv_store r)"
  then show ?thesis
    using on_datagram_stores(1) [of r bs] by (cases "decode bs") (auto simp: ServerDatagram stores_for_def server_runtime_on_datagram_def)
next
  case (ServerPoll now limit)
  assume "inv (sv_store r)"
  then show ?thesis by (simp add: ServerPoll server_poll_timers_def fire_inv)
next
  case (ServerSend cid payload now)
  assume "inv (sv_store r)"
  then show ?thesis
    using session_call_stores(1) [of r now cid 0 _ "on_api_send _ payload"]
    by (auto simp: ServerSend server_send_message_def stores_for_def split: option.split)
qed

end

text \<open>What a restart needs of the record of a connection: that it is live, whose it is, and the timers in it.\<close>

definition recorded :: "core_config \<Rightarrow> u64 \<Rightarrow> u64 \<Rightarrow> string \<Rightarrow> spec_store \<Rightarrow> bool" where
  "recorded cfg t cid peer f \<longleftrightarrow> (case live t f cid of None \<Rightarrow> False | Some e \<Rightarrow>
     sr_peer_id (entry_record e) = peer \<and> sr_negotiated_msr_interval_ms (entry_record e) = msr_interval_ms cfg
     \<and> sr_disconnect_window_ms (entry_record e) = disconnect_window_ms cfg)"

lemma stored_recorded:
  assumes "stored_as cfg now f cid (Some session)" and "now \<le> t" and "t < saturating_add now (disconnect_window_ms cfg)"
  shows "recorded cfg t cid (sess_peer_id session) f"
proof -
  have "map_option entry_record (live t f cid) = Some (session_snapshot cfg cid session)"
    using assms by (simp add: stored_as_def)
  then show ?thesis by (auto simp: recorded_def session_snapshot_def)
qed

lemma others_recorded:
  "others_stored u k f g \<Longrightarrow> k \<noteq> cid \<Longrightarrow> u \<le> t \<Longrightarrow> recorded cfg t cid peer f = recorded cfg t cid peer g"
  by (auto simp: others_stored_def recorded_def)

lemma saturating_add_mono: "a \<le> b \<Longrightarrow> saturating_add a w \<le> saturating_add b w"
  by (simp add: word_le_nat_alt unat_saturating_add)

text \<open>As long as the session is there it is recorded.\<close>

definition on_record ::
    "('s \<Rightarrow> spec_store) \<Rightarrow> ('s \<Rightarrow> bool) \<Rightarrow> core_config \<Rightarrow> u64 \<Rightarrow> u64 \<Rightarrow> string \<Rightarrow> 's server_runtime \<Rightarrow> bool" where
  "on_record entries ok cfg t cid peer r \<longleftrightarrow> ok (sv_store r) \<and> sv_cfg r = cfg
     \<and> (\<forall>c p. seen r cid = Some (c, p) \<longrightarrow> p = peer \<and> recorded cfg t cid peer (entries (sv_store r)))"

text \<open>The calls after which a session is still there.\<close>

fun stays :: "'s server_env \<Rightarrow> u64 \<Rightarrow> 's server_runtime \<Rightarrow> server_input list \<Rightarrow> bool" where
  "stays E cid r [] = (bmap_get (sv_sessions r) cid \<noteq> None)"
| "stays E cid r (i # is) = (bmap_get (sv_sessions r) cid \<noteq> None \<and> stays E cid (fst (server_step E r i)) is)"

fun call_time :: "server_input \<Rightarrow> u64" where
  "call_time (ServerDatagram now path bs) = now"
| "call_time (ServerPoll now limit) = now"
| "call_time (ServerSend cid payload now) = now"

context runtime_store
begin

text \<open>A call of a session that is there: another session leaves the record alone, the session itself writes it anew, removes
  it with itself, or fails and leaves the store alone.\<close>

lemma session_call_on_record:
  assumes rec: "on_record entries inv cfg t cid peer r" and k: "bmap_get (sv_sessions r) k = Some session"
    and u: "u \<le> t" "t < saturating_add u (disconnect_window_ms cfg)"
  shows "on_record entries inv cfg t cid peer (fst (session_call E k path u session res r))"
proof -
  let ?r = "fst (session_call E k path u session res r)"
  have inv: "inv (sv_store r)" and cfg: "sv_cfg r = cfg" using rec by (simp_all add: on_record_def)
  note call = session_call_stores(1) [OF inv, of u k path session res]
  then have ok: "inv (sv_store ?r)" "sv_cfg ?r = cfg" "others_stored u k (entries (sv_store ?r)) (entries (sv_store r))"
    using cfg by (simp_all add: stores_for_def)
  show ?thesis
  proof (cases "k = cid")
    case False
    then have "seen ?r cid = seen r cid" by (simp add: session_call_effect)
    then show ?thesis using rec ok others_recorded [OF ok(3) False u(1)] by (auto simp: on_record_def)
  next
    case True
    have peer: "sess_peer_id session = peer" "recorded cfg t cid peer (entries (sv_store r))"
      using rec k session_seen(1) [OF k] by (simp_all add: on_record_def True)
    show ?thesis
    proof (cases "snd res")
      case (Inl e)
      then have "sv_store ?r = sv_store r" by (cases res) (simp add: session_call_def)
      then show ?thesis using ok peer Inl by (simp add: on_record_def session_call_effect True)
    next
      case (Inr out)
      have st: "stored_as cfg u (entries (sv_store ?r)) cid (bmap_get (sv_sessions ?r) cid)"
        using session_call_stores(3) [OF inv Inr, of k path u session] cfg True by auto
      show ?thesis
      proof (cases "bmap_get (sv_sessions ?r) cid")
        case None
        then show ?thesis using ok session_seen(2) [OF None] by (simp add: on_record_def)
      next
        case (Some s)
        have "sess_peer_id s = peer"
          using session_seen(1) [OF Some] peer(1) by (simp add: session_call_effect True split: if_splits)
        then show ?thesis
          using ok session_seen(1) [OF Some] stored_recorded [OF st [unfolded Some] u] by (simp add: on_record_def)
      qed
    qed
  qed
qed

lemma fire_on_record:
  assumes "on_record entries inv cfg t cid peer r" and u: "u \<le> t" "t < saturating_add u (disconnect_window_ms cfg)"
  shows "on_record entries inv cfg t cid peer (fst (server_fire E r u es out))"
  using assms(1)
proof (induction es arbitrary: r out)
  case Nil
  then show ?case by simp
next
  case (Cons e es)
  obtain d k i where e: "e = (d, k, i)" by (cases e)
  let ?r = "r\<lparr>sv_timers := timers_take d (k, i) (sv_timers r)\<rparr>"
  have r: "on_record entries inv cfg t cid peer ?r" using Cons.prems by (auto simp: on_record_def)
  show ?case
  proof (cases "bmap_get (sv_sessions r) k")
    case None
    then show ?thesis using Cons.IH [OF r] by (simp add: e)
  next
    case (Some session)
    obtain r1 res where c: "session_call E k 0 u session (on_timer (sess_core session) u i) ?r = (r1, res)" by fastforce
    have "on_record entries inv cfg t cid peer r1"
      using session_call_on_record [OF r _ u, of k session 0 "on_timer (sess_core session) u i"] Some c by simp
    then show ?thesis using Cons.IH [of r1] Some c by (cases res) (simp_all add: e)
  qed
qed

lemma step_on_record:
  assumes rec: "on_record entries inv cfg t cid peer r" and here: "bmap_get (sv_sessions r) cid \<noteq> None"
    and u: "call_time i \<le> t" "t < saturating_add (call_time i) (disconnect_window_ms cfg)"
  shows "on_record entries inv cfg t cid peer (fst (server_step E r i))"
proof (cases i)
  case (ServerDatagram now path bs)
  show ?thesis
  proof (cases "decode bs")
    case (Inl e)
    then show ?thesis using rec by (auto simp: ServerDatagram server_runtime_on_datagram_def on_record_def)
  next
    case (Inr fr)
    let ?k = "frame_cid fr"
    have inv: "inv (sv_store r)" using rec by (simp add: on_record_def)
    obtain r1 where r1: "ensure_session_loaded E ?k path now r = (r1, Inr ())" "stores_for entries inv now ?k r r1" "seen r1 ?k \<noteq> None"
      using ensure_stores [OF inv] by blast
    have rec1: "on_record entries inv cfg t cid peer r1"
    proof (cases "?k = cid")
      case True
      have "seen r cid \<noteq> None" using here by (simp add: seen_in_def)
      then have "ensure_session_loaded E cid path now r = (r, Inr ())" by (rule ensure_loaded)
      with r1(1) True have "r1 = r" by simp
      with rec show ?thesis by simp
    next
      case False
      have "seen r1 cid = seen r cid"
        using ensure_others [of cid ?k E path now r] False r1(1) by (simp add: seen_in_def)
      then show ?thesis
        using rec r1(2) others_recorded [of now ?k "entries (sv_store r1)" "entries (sv_store r)" cid t cfg peer] False u
        by (auto simp: on_record_def stores_for_def ServerDatagram)
    qed
    obtain session where s: "bmap_get (sv_sessions r1) ?k = Some session"
      using r1(3) by (cases "bmap_get (sv_sessions r1) ?k") (simp_all add: seen_in_def)
    show ?thesis
      using session_call_on_record [OF rec1 s] u
      by (simp add: ServerDatagram server_runtime_on_datagram_def Inr r1(1) s Let_def)
  qed
next
  case (ServerPoll now limit)
  then show ?thesis using fire_on_record [OF rec] u by (simp add: server_poll_timers_def)
next
  case (ServerSend k payload now)
  then show ?thesis using session_call_on_record [OF rec] rec u by (simp add: server_send_message_def split: option.split)
qed

lemma run_on_record:
  "on_record entries inv cfg t cid peer r \<Longrightarrow> stays E cid r is \<Longrightarrow>
   \<forall>i \<in> set is. call_time i \<le> t \<and> t < saturating_add (call_time i) (disconnect_window_ms cfg) \<Longrightarrow>
   on_record entries inv cfg t cid peer (fst (run (server_step E) r is)) \<and> seen (fst (run (server_step E) r is)) cid \<noteq> None"
proof (induction "is" arbitrary: r)
  case Nil
  then show ?case by (simp add: seen_in_def)
next
  case (Cons i "is")
  have "on_record entries inv cfg t cid peer (fst (server_step E r i))"
    using step_on_record [of cfg t cid peer r i] Cons.prems by simp
  from Cons.IH [OF this] Cons.prems(2,3) show ?case by (simp add: case_prod_unfold Let_def)
qed

text \<open>A new server over the store finds the session.\<close>

lemma reload:
  assumes "inv s" and "recorded cfg t cid peer (entries s)"
  shows "\<exists>r2. ensure_session_loaded E cid path t (server_new_with_nat_policy cfg2 s rp) = (r2, Inr ())
    \<and> bmap_get (sv_sessions r2) cid = Some
        \<lparr>sess_core = (new_machine Server cid \<lparr>msr_interval_ms = msr_interval_ms cfg,
           miss_window_count = miss_window_count cfg2, disconnect_window_ms = disconnect_window_ms cfg\<rparr>)
             \<lparr>current_path_id := path\<rparr>,
         sess_peer_id = peer, sess_bound_vhost = None, sess_selected_path_id = None,
         sess_sent_data_ids = {}\<rparr>"
proof -
  obtain e where e: "live t (entries s) cid = Some e" "sr_peer_id (entry_record e) = peer"
      "sr_negotiated_msr_interval_ms (entry_record e) = msr_interval_ms cfg"
      "sr_disconnect_window_ms (entry_record e) = disconnect_window_ms cfg"
    using assms(2) by (auto simp: recorded_def split: option.splits)
  obtain s' where "st_load E s cid t = (s', Inr (Some (to_versioned e)))"
    using load_result [OF assms(1), of cid t] e(1) by auto
  then show ?thesis
    using e(2-4) by (simp add: ensure_session_loaded_def server_new_with_nat_policy_def bmap_contains_def Let_def
        on_path_event_def initial_session_def to_versioned_def bmap_get_def)
qed

end

sublocale runtime_store \<subseteq> calls: step_invariant "server_step E" "\<lambda>r. inv (sv_store r)"
  by unfold_locales (rule step_inv)

section \<open>The stores of the program\<close>

definition memory_env :: "(memory_store \<Rightarrow> u64 \<times> store_op \<Rightarrow> u64) \<Rightarrow> (bytes \<Rightarrow> string) \<Rightarrow> memory_store server_env" where
  "memory_env el b64 =
     \<lparr>st_load = memory_load, st_upsert = memory_upsert, st_delete = memory_delete, elapsed_us = el, base64_encode = b64\<rparr>"

definition disk_env :: "serde_ops \<Rightarrow> (disk_store \<Rightarrow> u64 \<times> store_op \<Rightarrow> u64) \<Rightarrow> (bytes \<Rightarrow> string) \<Rightarrow> disk_store server_env" where
  "disk_env J el b64 =
     \<lparr>st_load = disk_load J no_faults, st_upsert = disk_upsert J no_faults, st_delete = disk_delete J no_faults,
      elapsed_us = el, base64_encode = b64\<rparr>"

interpretation memory_server: runtime_store memory_step memory_entries memory_ok "memory_env el b64" for el b64
  by unfold_locales (simp_all add: memory_env_def)

interpretation disk_server: runtime_store "disk_step J" disk_entries "disk_ok J" "disk_env J el b64" for J el b64
  by unfold_locales (simp_all add: disk_env_def)

context runtime_store
begin

text \<open>A first hello is answered, and its session is there and established.\<close>

lemma hello_session:
  assumes "inv s"
  shows "\<exists>r' out session. server_runtime_on_datagram E (server_new_with_nat_policy cfg s rp) now path (frame_bytes ClientHello c [] []) = (r', Inr out)
    \<and> bmap_get (sv_sessions r') c = Some session \<and> lifecycle (sess_core session) = Established
    \<and> map dgram_bytes (sro_outbound_datagrams out) = [frame_bytes ServerHello c [] []]"
proof -
  let ?r = "server_new_with_nat_policy cfg s rp" and ?bs = "frame_bytes ClientHello c [] []"
  let ?v = "map_option to_versioned (live now (entries s) c)"
  obtain s1 where "st_load E s c now = (s1, Inr ?v)" by (rule load_result [OF assms])
  then have v: "snd (st_load E (sv_store ?r) c now) = Inr ?v" by (simp add: server_new_with_nat_policy_def)
  have none: "seen ?r c = None" by (simp add: server_new_with_nat_policy_def)
  have store: "inv (sv_store ?r)" using assms by (simp add: server_new_with_nat_policy_def)
  obtain r1 where e: "ensure_session_loaded E c path now ?r = (r1, Inr ())"
      and seen: "seen r1 = (seen ?r)(c \<mapsto> fresh_session c path (initial_session (sv_cfg ?r) path ?v))"
    using ensure_fresh [OF none v, of path] by blast
  have "stores_for entries inv now c ?r (fst (ensure_session_loaded E c path now ?r))"
    using ensure_stores [OF store, of c path now] by (elim exE conjE) (simp only: fst_conv)
  with e have r1: "ensure_session_loaded E c path now ?r = (r1, Inr ())" "inv (sv_store r1)"
      "seen r1 c = Some (fresh_session c path (initial_session (sv_cfg ?r) path ?v))"
    by (simp_all add: stores_for_def seen)
  obtain session where s: "bmap_get (sv_sessions r1) c = Some session"
      "(sess_core session, sess_peer_id session) = fresh_session c path (initial_session (sv_cfg ?r) path ?v)"
    using r1(3) by (cases "bmap_get (sv_sessions r1) c") (simp_all add: seen_in_def)
  let ?res = "on_datagram (sess_core session) now path ?bs"
  have core: "core_cid (sess_core session) = c" "core_role (sess_core session) = Server" "lifecycle (sess_core session) = PreHandshake"
    using s(2) by (simp_all add: fresh_session_def new_machine_def)
  obtain o1 where res: "snd ?res = Inr o1" "lifecycle (fst ?res) = Established"
      "map dgram_bytes (outbound_datagrams o1) = [frame_bytes ServerHello c [] []]"
    using core by (simp add: on_datagram_frame dispatch_frame_def schedule_server_timers_def touch_disconnect_deadline_def Let_def)
  have "seen (fst (session_call E c path now session ?res r1)) c = Some (fst ?res, sess_peer_id session)"
    using res by (simp add: session_call_effect)
  then obtain s' where s': "bmap_get (sv_sessions (fst (session_call E c path now session ?res r1))) c = Some s'"
      "sess_core s' = fst ?res"
    by (cases "bmap_get (sv_sessions (fst (session_call E c path now session ?res r1))) c") (auto simp: seen_in_def)
  obtain o' where o': "snd (session_call E c path now session ?res r1) = Inr o'"
    using session_call_stores(3) [OF r1(2) res(1), of c path now session] by blast
  note sent = session_call_datagrams [OF res(1) o']
  show ?thesis
    using s' o' res(2,3) sent
    by (cases "session_call E c path now session ?res r1")
      (simp add: server_runtime_on_datagram_def frame_bytes_ok r1(1) s(1) Let_def)
qed

end

section \<open>The watchdog and the isolation of the sessions\<close>

lemma memory_hello:
  obtains r' out session where "server_runtime_on_datagram (memory_env (\<lambda>_ _. 0) (\<lambda>_. []))
      (server_new_with_nat_policy default_config [[], []] PreferDirect) 10 3 (frame_bytes ClientHello 7 [] []) = (r', Inr out)"
    and "bmap_get (sv_sessions r') 7 = Some session" and "lifecycle (sess_core session) = Established"
    and "fst (run (server_step (memory_env (\<lambda>_ _. 0) (\<lambda>_. []))) (server_new_with_nat_policy default_config [[], []] PreferDirect)
      [ServerDatagram 10 3 (frame_bytes ClientHello 7 [] [])]) = r'"
proof -
  have "memory_new 2 = Inr [[], []]" by (simp add: memory_new_def numeral_2_eq_2)
  then have ok: "memory_ok [[], []]" using memory_new_ok by blast
  show thesis
    using memory_server.hello_session [OF ok, of "\<lambda>_ _. 0" "\<lambda>_. []" default_config PreferDirect 10 3 7] that by fastforce
qed

text \<open>C17: after any sequence of calls on a server runtime, over any store and with any store failures, every
  established session has its MSR timer and its disconnect timer in the timer table: no session that is
  established can outlive a silent client unnoticed.\<close>

theorem server_watchdog_armed:
  assumes "r = fst (run (server_step E) (server_new_with_nat_policy cfg store rp) calls)"
    and "bmap_get (sv_sessions r) cid = Some session" and "lifecycle (sess_core session) = Established"
  shows "pending (sv_timers r) (cid, ServerMsr) \<and> pending (sv_timers r) (cid, Disconnect)"
proof -
  have "server_ok r" unfolding assms(1) by (rule server.run_inv [OF server_new_ok])
  from guardedD [OF this session_seen(1) [OF assms(2)]] assms(3)
  show ?thesis by (auto simp: guarded_def alive_def watches_def)
qed

theorem server_watchdog_armed_witness:
  "let r = fst (run (server_step (memory_env (\<lambda>_ _. 0) (\<lambda>_. []))) (server_new_with_nat_policy default_config [[], []] PreferDirect)
      [ServerDatagram 10 3 (frame_bytes ClientHello 7 [] [])])
   in pending (sv_timers r) (7, ServerMsr) \<and> pending (sv_timers r) (7, Disconnect)"
proof -
  obtain r' out session where h: "bmap_get (sv_sessions r') 7 = Some session" "lifecycle (sess_core session) = Established"
      "fst (run (server_step (memory_env (\<lambda>_ _. 0) (\<lambda>_. []))) (server_new_with_nat_policy default_config [[], []] PreferDirect)
        [ServerDatagram 10 3 (frame_bytes ClientHello 7 [] [])]) = r'"
    by (rule memory_hello)
  show ?thesis unfolding h(3) Let_def by (rule server_watchdog_armed [OF h(3) [symmetric] h(1,2)])
qed

text \<open>C19: routing: a datagram or a message for one connection leaves every other session and every
  timer of the other connections as they are, whatever the store answers, and all events it returns are
  tagged with that connection.\<close>

theorem server_isolated:
  assumes "r = fst (run (server_step E) (server_new_with_nat_policy cfg store rp) calls)"
    and "addressed i = Some cid" and "server_step E r i = (r', res)"
  shows "(bmap_get (sv_sessions r'))(cid := None) = (bmap_get (sv_sessions r))(cid := None)
    \<and> filter_mset (\<lambda>e. fst (snd e) \<noteq> cid) (armed (sv_timers r')) = filter_mset (\<lambda>e. fst (snd e) \<noteq> cid) (armed (sv_timers r))
    \<and> (case res of Inl _ \<Rightarrow> True | Inr out \<Rightarrow> event_cid ` set (sro_events out) \<subseteq> {Some cid})"
proof -
  have "server_ok r" unfolding assms(1) by (rule server.run_inv [OF server_new_ok])
  then have t: "bmap_ok (sv_timers r)" by (simp add: server_ok_def)
  have "others_kept cid r r' \<and> (\<forall>out ev. res = Inr out \<longrightarrow> ev \<in> set (sro_events out) \<longrightarrow> event_cid ev = Some cid)"
  proof (cases i)
    case (ServerDatagram now path bs)
    then obtain fr where fr: "decode bs = Inr fr" "frame_cid fr = cid" using assms(2) by auto
    then show ?thesis
      using server_runtime_on_datagram_others [OF fr(1) t, of E now path] server_runtime_on_datagram_events [OF fr(1), of E r now path] assms(3)
      by (simp add: ServerDatagram)
  next
    case (ServerSend c payload now)
    have c: "c = cid" using assms(2) by (simp add: ServerSend)
    show ?thesis
    proof (cases "bmap_get (sv_sessions r) cid")
      case None
      then show ?thesis using assms(3) by (auto simp: ServerSend c server_send_message_def)
    next
      case (Some session)
      let ?res = "on_api_send (sess_core session) payload"
      show ?thesis
        using Some assms(3) session_call_keeps_others [OF t, of cid E 0 now session ?res]
          session_call_events [of E cid 0 now session ?res r]
        by (simp add: ServerSend c server_send_message_def)
    qed
  qed (use assms(2) in simp)
  then show ?thesis
    unfolding others_kept_def by (auto simp: fun_eq_iff split: sum.split)
qed

theorem server_isolated_witness:
  "let r = fst (run (server_step (memory_env (\<lambda>_ _. 0) (\<lambda>_. []))) (server_new_with_nat_policy default_config [[], []] PreferDirect)
      [ServerDatagram 10 3 (frame_bytes ClientHello 7 [] [])]);
     r' = fst (server_step (memory_env (\<lambda>_ _. 0) (\<lambda>_. [])) r (ServerDatagram 20 4 (frame_bytes ClientHello 8 [] [])))
   in bmap_get (sv_sessions r') 7 = bmap_get (sv_sessions r) 7 \<and> bmap_get (sv_sessions r) 7 \<noteq> None"
proof -
  let ?E = "memory_env (\<lambda>_ _. 0) (\<lambda>_. [])" and ?i = "ServerDatagram 20 4 (frame_bytes ClientHello 8 [] [])"
  obtain r' out session where h: "bmap_get (sv_sessions r') 7 = Some session"
      "fst (run (server_step ?E) (server_new_with_nat_policy default_config [[], []] PreferDirect)
        [ServerDatagram 10 3 (frame_bytes ClientHello 7 [] [])]) = r'"
    by (rule memory_hello)
  have a: "addressed ?i = Some 8" by (simp add: frame_bytes_ok)
  obtain r2 res where s: "server_step ?E r' ?i = (r2, res)" by fastforce
  have "(bmap_get (sv_sessions r2))(8 := None) = (bmap_get (sv_sessions r'))(8 := None)"
    using server_isolated [OF h(2) [symmetric] a s] by blast
  from fun_cong [OF this, of 7] show ?thesis unfolding h(2) s Let_def using h(1) by simp
qed

section \<open>Persistence and restart\<close>

text \<open>C20: a server over an in-memory store fails no datagram for the store, and after a datagram that it
  accepted the store holds for that connection, until the disconnect window has passed, exactly the
  record of its session (or nothing, when the session is lost); the records of the other connections are
  as before.\<close>

theorem server_persists:
  assumes "memory_new n = Inr store"
    and "r = fst (run (server_step (memory_env el b64)) (server_new_with_nat_policy cfg store rp) calls)"
    and "decode bs = Inr fr" and "server_runtime_on_datagram (memory_env el b64) r now path bs = (r', res)"
  shows "others_stored now (frame_cid fr) (memory_entries (sv_store r')) (memory_entries (sv_store r))
    \<and> (case res of
         Inl e \<Rightarrow> e \<in> range ServerCoreError
       | Inr out \<Rightarrow> stored_as (sv_cfg r) now (memory_entries (sv_store r')) (frame_cid fr)
           (bmap_get (sv_sessions r') (frame_cid fr)))"
proof -
  have "memory_ok (sv_store (server_new_with_nat_policy cfg store rp))"
    using memory_new_ok [OF assms(1)] by (simp add: server_new_with_nat_policy_def)
  then have "memory_ok (sv_store r)" unfolding assms(2) by (rule memory_server.calls.run_inv)
  from memory_server.on_datagram_stores [OF this assms(3), where el = el and ?b64.0 = b64 and now = now and path = path] show ?thesis
    unfolding assms(4) by (cases res) (simp_all add: stores_for_def)
qed

theorem server_persists_witness:
  "\<exists>r' session. fst (server_runtime_on_datagram (memory_env (\<lambda>_ _. 0) (\<lambda>_. [])) (server_new_with_nat_policy default_config [[], []] PreferDirect)
      10 3 (frame_bytes ClientHello 7 [] [])) = r' \<and> lifecycle (sess_core session) = Established
    \<and> stored_as default_config 10 (memory_entries (sv_store r')) 7 (Some session)"
proof -
  have new: "memory_new 2 = Inr [[], []]" by (simp add: memory_new_def numeral_2_eq_2)
  have ok: "memory_ok [[], []]" using memory_new_ok [OF new] by simp
  obtain r' out session where h: "server_runtime_on_datagram (memory_env (\<lambda>_ _. 0) (\<lambda>_. []))
      (server_new_with_nat_policy default_config [[], []] PreferDirect) 10 3 (frame_bytes ClientHello 7 [] []) = (r', Inr out)"
      "bmap_get (sv_sessions r') 7 = Some session" "lifecycle (sess_core session) = Established"
    using memory_server.hello_session [OF ok] by blast
  have d: "decode (frame_bytes ClientHello 7 [] []) = Inr (new_frame ClientHello 0 7 [] [])"
    by (simp add: frame_bytes_ok)
  have r: "server_new_with_nat_policy default_config [[], []] PreferDirect = fst (run (server_step (memory_env (\<lambda>_ _. 0) (\<lambda>_. [])))
      (server_new_with_nat_policy default_config [[], []] PreferDirect) [])" by simp
  have "stored_as default_config 10 (memory_entries (sv_store r')) 7 (Some session)"
    using server_persists [OF new r d h(1)] h(2) by (simp add: server_new_with_nat_policy_def)
  with h show ?thesis by auto
qed

text \<open>C18: restart.  Take a server over a disk store whose file calls succeed, after any calls, and any session of it that has
  just accepted a datagram at \<open>now\<close>.  Then let any further calls be made -- datagrams, sends and polls, of this session
  and of others, failing ones among them -- at times from \<open>now\<close> to \<open>t\<close> and such that the session stays in the server's
  table, that is, is not lost.  A server started at \<open>t\<close> on the reopened files, with \<open>t\<close> before the end of the disconnect
  window that began at \<open>now\<close>, finds the peer of the session; its machine is a fresh one that waits for a handshake, and its
  timers are those of the first server's own configuration, not what the session had negotiated.  (When a session is lost its
  record is deleted with it, however recent its last datagram.)\<close>

theorem server_restart:
  assumes "serde_ok J" and "disk_new J no_faults None None = Inr store"
    and "r = fst (run (server_step (disk_env J el b64)) (server_new_with_nat_policy cfg store rp) calls)"
    and "decode bs = Inr fr" and "server_runtime_on_datagram (disk_env J el b64) r now path bs = (r1, Inr out)"
    and "stays (disk_env J el b64) (frame_cid fr) r1 later" and "\<forall>i \<in> set later. now \<le> call_time i \<and> call_time i \<le> t"
    and "r' = fst (run (server_step (disk_env J el b64)) r1 later)"
    and "bmap_get (sv_sessions r') (frame_cid fr) = Some session"
    and "now \<le> t" and "t < saturating_add now (disconnect_window_ms (sv_cfg r))"
  shows "\<exists>store2 r2. disk_new J no_faults (Some (ds_log (sv_store r'))) (ds_snapshot (sv_store r')) = Inr store2
    \<and> ensure_session_loaded (disk_env J el b64) (frame_cid fr) path2 t (server_new_with_nat_policy cfg2 store2 rp2) = (r2, Inr ())
    \<and> bmap_get (sv_sessions r2) (frame_cid fr) = Some
        \<lparr>sess_core = (new_machine Server (frame_cid fr) \<lparr>msr_interval_ms = msr_interval_ms (sv_cfg r),
           miss_window_count = miss_window_count cfg2, disconnect_window_ms = disconnect_window_ms (sv_cfg r)\<rparr>)
             \<lparr>current_path_id := path2\<rparr>,
         sess_peer_id = sess_peer_id session, sess_bound_vhost = None, sess_selected_path_id = None,
         sess_sent_data_ids = {}\<rparr>"
proof -
  let ?cid = "frame_cid fr" and ?cfg = "sv_cfg r"
  have "disk_ok J (sv_store (server_new_with_nat_policy cfg store rp))"
    using disk_fresh [OF assms(1,2)] by (simp add: server_new_with_nat_policy_def)
  then have ok: "disk_ok J (sv_store r)" unfolding assms(3) by (rule disk_server.calls.run_inv)
  note stores = disk_server.on_datagram_stores [OF ok assms(4), where el = el and ?b64.0 = b64 and now = now and path = path, unfolded assms(5), simplified]
  obtain s1 where s1: "bmap_get (sv_sessions r1) ?cid = Some s1"
    using assms(6) by (cases later) auto
  have "recorded ?cfg t ?cid (sess_peer_id s1) (disk_entries (sv_store r1))"
    using stored_recorded [OF _ assms(10,11)] stores(2) s1 by simp
  then have rec: "on_record disk_entries (disk_ok J) ?cfg t ?cid (sess_peer_id s1) r1"
    using stores(1) session_seen(1) [OF s1] by (simp add: on_record_def stores_for_def)
  have times: "\<forall>i \<in> set later. call_time i \<le> t \<and> t < saturating_add (call_time i) (disconnect_window_ms ?cfg)"
    using assms(7,11) saturating_add_mono less_le_trans by blast
  have rec': "on_record disk_entries (disk_ok J) ?cfg t ?cid (sess_peer_id s1) r'"
    using disk_server.run_on_record [OF rec assms(6) times] by (simp add: assms(8))
  then have ok': "disk_ok J (sv_store r')" and peer: "sess_peer_id session = sess_peer_id s1"
    and here: "recorded ?cfg t ?cid (sess_peer_id session) (disk_entries (sv_store r'))"
    using session_seen(1) [OF assms(9)] by (simp_all add: on_record_def)
  have "disk_new J no_faults (Some (ds_log (sv_store r'))) (ds_snapshot (sv_store r')) = Inr (sv_store r')"
    using ok' by (simp add: disk_ok_def)
  with disk_server.reload [OF ok' here, where el = el and ?b64.0 = b64 and path = path2 and ?cfg2.0 = cfg2 and rp = rp2] show ?thesis by auto
qed

text \<open>Another connection comes between.\<close>

theorem server_restart_witness:
  "\<exists>(r' :: disk_store server_runtime) (session :: session_runtime) store2 r2. bmap_get (sv_sessions r') 7 = Some session
    \<and> lifecycle (sess_core session) = Established
    \<and> disk_new hex_serde no_faults (Some (ds_log (sv_store r'))) (ds_snapshot (sv_store r')) = Inr store2
    \<and> fst (ensure_session_loaded (disk_env hex_serde (\<lambda>_ _. 0) (\<lambda>_. [])) 7 5 20
        (server_new_with_nat_policy default_config store2 PreferDirect)) = r2
    \<and> map_option sess_peer_id (bmap_get (sv_sessions r2) 7) = Some (sess_peer_id session)"
proof -
  let ?s = "\<lparr>ds_entries = [], ds_log = [], ds_snapshot = None\<rparr>" and ?E = "disk_env hex_serde (\<lambda>_ _. 0) (\<lambda>_. [])"
  let ?r = "server_new_with_nat_policy default_config ?s PreferDirect"
  let ?i = "ServerDatagram 15 4 (frame_bytes ClientHello 8 [] [])" and ?fr = "new_frame ClientHello 0 7 [] []"
  obtain r1 out session where h: "server_runtime_on_datagram ?E ?r 10 3 (frame_bytes ClientHello 7 [] []) = (r1, Inr out)"
      "bmap_get (sv_sessions r1) 7 = Some session" "lifecycle (sess_core session) = Established"
    using disk_server.hello_session [OF disk_fresh(1) [OF hex_serde_ok hex_serde_fresh]] by blast
  have d: "decode (frame_bytes ClientHello 7 [] []) = Inr ?fr" by (simp add: frame_bytes_ok)
  have r: "?r = fst (run (server_step ?E) ?r [])" by simp
  have "server_ok r1" using server_step_ok [OF server_new_ok, of ?E default_config ?s PreferDirect "ServerDatagram 10 3 (frame_bytes ClientHello 7 [] [])"] h(1) by simp
  then have "bmap_ok (sv_timers r1)" by (simp add: server_ok_def)
  moreover have "decode (frame_bytes ClientHello 8 [] []) = Inr (new_frame ClientHello 0 8 [] [])" by (simp add: frame_bytes_ok)
  ultimately have r': "bmap_get (sv_sessions (fst (server_step ?E r1 ?i))) 7 = Some session"
    using server_runtime_on_datagram_others [of "frame_bytes ClientHello 8 [] []" "new_frame ClientHello 0 8 [] []" r1 ?E 15 4] h(2)
    by (simp add: others_kept_def)
  let ?r' = "fst (run (server_step ?E) r1 [?i])"
  have s: "stays ?E (frame_cid ?fr) r1 [?i]" "bmap_get (sv_sessions ?r') (frame_cid ?fr) = Some session"
    using h(2) r' by (simp_all add: case_prod_unfold Let_def)
  have t: "(10 :: u64) \<le> 20" "20 < saturating_add 10 (disconnect_window_ms (sv_cfg ?r))" "\<forall>i \<in> set [?i]. 10 \<le> call_time i \<and> call_time i \<le> 20"
    by (simp_all add: server_new_with_nat_policy_def default_config_def saturating_add_def)
  obtain store2 r2 where n: "disk_new hex_serde no_faults (Some (ds_log (sv_store ?r'))) (ds_snapshot (sv_store ?r')) = Inr store2"
      "ensure_session_loaded ?E 7 5 20 (server_new_with_nat_policy default_config store2 PreferDirect) = (r2, Inr ())"
      "map_option sess_peer_id (bmap_get (sv_sessions r2) 7) = Some (sess_peer_id session)"
    using server_restart [OF hex_serde_ok hex_serde_fresh r d h(1) s(1) t(3) refl s(2) t(1,2), of 5 default_config PreferDirect] by auto
  have "fst (ensure_session_loaded ?E 7 5 20 (server_new_with_nat_policy default_config store2 PreferDirect)) = r2"
    by (simp only: n(2) fst_conv)
  moreover have "bmap_get (sv_sessions ?r') 7 = Some session" using s(2) by simp
  ultimately show ?thesis using n(1,3) h(3) by blast
qed

section \<open>Timers that accumulate\<close>

lemma on_timer_server:
  assumes "on_timer m now i = (m', Inr out)" and "core_role m = Server" and "watched m" and "alive m'"
  shows "\<exists>d d'. timer_actions out = (case i of ServerMsr \<Rightarrow> [Schedule ServerMsr d, Schedule Disconnect d']
    | Disconnect \<Rightarrow> [Schedule Disconnect d] | _ \<Rightarrow> [])"
proof -
  have "alive m" using other_revives [OF assms(3), of "OnTimer now i"] assms(1,4) by auto
  then have est: "lifecycle m = Established" "disconnect_deadline_ms m \<noteq> None"
    using assms(2,3) by (auto simp: watched_def alive_def)
  show ?thesis
  proof (cases i)
    case ServerMsr
    then show ?thesis
      using assms(1,2,4) est
      by (auto simp: on_timer_def on_timer_server_msr_def alive_def empty_output_def push_timer_def push_datagram_def
          send_frame Let_def split: if_splits)
  next
    case ClientProbe
    then show ?thesis using assms(1,2) by (auto simp: on_timer_def on_timer_client_probe_def empty_output_def)
  next
    case Disconnect
    then show ?thesis
      using assms(1,4) est
      by (auto simp: on_timer_def on_timer_disconnect_def alive_def empty_output_def push_timer_def push_event_def
          split: if_splits option.splits)
  next
    case RenegotiationTimeout
    then show ?thesis using assms(1)
      by (auto simp: on_timer_def on_timer_renegotiation_def empty_output_def push_event_def split: if_splits option.splits)
  qed
qed

lemma server_ingest_entries:
  "bmap_ok t \<Longrightarrow> entries_of (server_ingest_timers cid acts t) (k, x) =
     entries_of t (k, x) + (if k = cid then length (filter (\<lambda>a. \<exists>d. a = Schedule x d) acts) else 0)"
  by (induction cid acts t rule: server_ingest_timers.induct) auto

text \<open>A poll enters no session, and an established session was established before.\<close>

lemma fire_alive_before:
  assumes "server_ok r" and "seen (fst (server_fire E r now es out)) cid = Some (c, p)" and "alive c"
  shows "\<exists>c0. seen r cid = Some (c0, p) \<and> alive c0"
  using assms
proof (induction es arbitrary: r out)
  case Nil
  then show ?case by simp
next
  case (Cons e es)
  obtain d k i where e: "e = (d, k, i)" by (cases e)
  let ?r = "r\<lparr>sv_timers := timers_take d (k, i) (sv_timers r)\<rparr>"
  show ?case
  proof (cases "bmap_get (sv_sessions r) k")
    case None
    then have ok: "server_ok ?r" using server_take_ok [OF Cons.prems(1), of k] by (simp add: seen_in_def)
    show ?thesis using Cons.IH [OF ok] Cons.prems(2,3) None by (simp add: e)
  next
    case (Some session)
    let ?x = "on_timer (sess_core session) now i"
    obtain r1 res where c: "session_call E k 0 now session ?x ?r = (r1, res)" by fastforce
    have ok: "server_ok r1" using server_fire_step_ok [OF Cons.prems(1) Some, of E now i d] c by simp
    have "\<exists>c1. seen r1 cid = Some (c1, p) \<and> alive c1"
      using Cons.IH [OF ok] Cons.prems(2,3) c Some by (cases res) (auto simp: e)
    then obtain c1 where c1: "seen r1 cid = Some (c1, p)" "alive c1" by blast
    have s1: "seen r1 = (seen r)(k := if (\<exists>out. snd ?x = Inr out) \<and> lifecycle (fst ?x) = Lost then None
         else Some (fst ?x, sess_peer_id session))"
      using session_call_effect(1) [of E k 0 now session ?x ?r] c by simp
    show ?thesis
    proof (cases "cid = k")
      case False
      then show ?thesis using c1 s1 by simp
    next
      case True
      have "c1 = fst ?x" "p = sess_peer_id session" using c1(1) s1 True by (auto split: if_splits)
      moreover have "watched (sess_core session)"
        using guardedD [OF Cons.prems(1) session_seen(1) [OF Some]] by (simp add: guarded_def)
      ultimately show ?thesis
        using other_revives [of "sess_core session" "OnTimer now i"] c1(2) session_seen(1) [OF Some] True by auto
    qed
  qed
qed

lemma server_ingest_more: "bmap_ok t \<Longrightarrow> armed t \<subseteq># armed (server_ingest_timers cid acts t)"
proof (induction cid acts t rule: server_ingest_timers.induct)
  case (2 cid i d acts t)
  have "armed t \<subseteq># armed (timers_push d (cid, i) t)" using "2.prems" by simp
  also have "\<dots> \<subseteq># armed (server_ingest_timers cid acts (timers_push d (cid, i) t))" using 2 by simp
  finally show ?case by simp
qed simp

text \<open>The entries of one connection after one fired timer.\<close>

lemma fired_entries:
  assumes ok: "server_ok r" and s: "bmap_get (sv_sessions r) k = Some session" and e: "(d, k, i) \<in># armed (sv_timers r)"
    and o: "on_timer (sess_core session) now i = (m', Inr out)" and alive: "k = cid \<Longrightarrow> alive m'"
    and x: "x \<in> watches Server"
  shows "entries_of (server_ingest_timers k (timer_actions out) (timers_take d (k, i) (sv_timers r))) (cid, x) =
    entries_of (sv_timers r) (cid, x) + (if x = Disconnect \<and> (k, i) = (cid, ServerMsr) then 1 else 0)"
proof -
  have t: "bmap_ok (sv_timers r)" using ok by (simp add: server_ok_def)
  have "core_role (sess_core session) = Server" "watched (sess_core session)"
    using guardedD [OF ok session_seen(1) [OF s]] by (simp_all add: guarded_def)
  note acts = on_timer_server [OF o this]
  have taken: "entries_of (sv_timers r) (cid, x) = entries_of (timers_take d (k, i) (sv_timers r)) (cid, x) + (if (cid, x) = (k, i) then 1 else 0)"
    using entries_of_take [OF t e, of "(cid, x)"] by simp
  show ?thesis
  proof (cases "k = cid")
    case True
    then show ?thesis
      using taken acts alive t x by (cases i) (auto simp: server_ingest_entries watches_def)
  next
    case False
    then show ?thesis using taken t by (simp add: server_ingest_entries)
  qed
qed

lemma fire_entries:
  assumes "server_ok r" and "mset es \<subseteq># armed (sv_timers r)"
    and "server_fire E r now es out = (r', Inr out')" and "seen r' cid = Some (c, p)" and "alive c"
  shows "entries_of (sv_timers r') (cid, Disconnect) =
      entries_of (sv_timers r) (cid, Disconnect) + length (filter (\<lambda>e. snd e = (cid, ServerMsr)) es)
    \<and> entries_of (sv_timers r') (cid, ServerMsr) = entries_of (sv_timers r) (cid, ServerMsr)"
  using assms
proof (induction es arbitrary: r out)
  case Nil
  then show ?case by simp
next
  case (Cons e es)
  obtain d k i where e: "e = (d, k, i)" by (cases e)
  let ?t = "timers_take d (k, i) (sv_timers r)"
  let ?r = "r\<lparr>sv_timers := ?t\<rparr>"
  have t: "bmap_ok (sv_timers r)" using Cons.prems(1) by (simp add: server_ok_def)
  have mem: "(d, k, i) \<in># armed (sv_timers r)" and sub: "mset es \<subseteq># armed ?t"
    using Cons.prems(2) t by (simp_all add: e insert_subset_eq_iff)
  show ?case
  proof (cases "bmap_get (sv_sessions r) k")
    case None
    then have ok: "server_ok ?r" using server_take_ok [OF Cons.prems(1), of k] by (simp add: seen_in_def)
    have rest: "server_fire E ?r now es out = (r', Inr out')" using Cons.prems(3) None by (simp add: e)
    have "seen ?r cid \<noteq> None" using fire_alive_before [OF ok, of E now es out cid c p] rest Cons.prems(4,5) by auto
    then have "k \<noteq> cid" using None by (auto simp: seen_in_def)
    then show ?thesis using Cons.IH [OF ok _ rest Cons.prems(4,5)] sub t by (simp add: e)
  next
    case (Some session)
    obtain m' o1 where o: "on_timer (sess_core session) now i = (m', Inr o1)" using on_timer_ok by blast
    obtain r1 o2 where c: "session_call E k 0 now session (m', Inr o1) ?r = (r1, Inr o2)"
        and rest: "\<exists>out2. server_fire E r1 now es out2 = (r', Inr out')"
      using Cons.prems(3) Some by (auto simp: e o split: prod.splits sum.splits)
    obtain out2 where rest: "server_fire E r1 now es out2 = (r', Inr out')" using rest by blast
    have ok: "server_ok r1" using server_fire_step_ok [OF Cons.prems(1) Some, of E now i d] c o by simp
    have eff: "sv_timers r1 = server_ingest_timers k (timer_actions o1) ?t"
        "seen r1 = (seen r)(k := if lifecycle m' = Lost then None else Some (m', sess_peer_id session))"
      using session_call_effect(1,2) [of E k 0 now session "(m', Inr o1)" ?r] c by simp_all
    have "mset es \<subseteq># armed (sv_timers r1)"
      unfolding eff(1) using sub server_ingest_more [of ?t k "timer_actions o1"] t by (auto intro: subset_mset.order_trans)
    note IH = Cons.IH [OF ok this rest Cons.prems(4,5)]
    have "\<exists>c1. seen r1 cid = Some (c1, p) \<and> alive c1"
      using fire_alive_before [OF ok, of E now es out2 cid c p] rest Cons.prems(4,5) by simp
    then have alive: "alive m'" if "k = cid" using eff(2) that by (auto split: if_splits)
    have one: "entries_of (sv_timers r1) (cid, x) = entries_of (sv_timers r) (cid, x) + (if x = Disconnect \<and> (k, i) = (cid, ServerMsr) then 1 else 0)"
      if "x \<in> watches Server" for x
      unfolding eff(1) by (rule fired_entries [OF Cons.prems(1) Some mem o alive that])
    have "Disconnect \<in> watches Server" "ServerMsr \<in> watches Server" by (simp_all add: watches_def)
    then show ?thesis using IH one [of Disconnect] one [of ServerMsr] by (simp add: e)
  qed
qed

text \<open>C25: timers pile up: every poll that fires the MSR timer of a session which stays established leaves one
  disconnect timer more in the table than before, and nothing takes the surplus out again: the number of
  the disconnect timers of an established session never falls, while it has as many MSR timers as ever.\<close>

theorem server_disconnect_timers_pile_up:
  assumes "r = fst (run (server_step E) (server_new_with_nat_policy cfg store rp) calls)"
    and "server_poll_timers E r now limit = (r', Inr out)"
    and "bmap_get (sv_sessions r') cid = Some session" and "lifecycle (sess_core session) = Established"
  shows "entries_of (sv_timers r') (cid, Disconnect) = entries_of (sv_timers r) (cid, Disconnect)
      + length (filter (\<lambda>e. snd e = (cid, ServerMsr)) (collect_due now limit (sv_timers r)))
    \<and> entries_of (sv_timers r') (cid, ServerMsr) = entries_of (sv_timers r) (cid, ServerMsr)"
proof -
  have ok: "server_ok r" unfolding assms(1) by (rule server.run_inv [OF server_new_ok])
  then have t: "bmap_ok (sv_timers r)" by (simp add: server_ok_def)
  obtain rest where "filter_mset (\<lambda>e. fst e \<le> now) (armed (sv_timers r)) = mset (collect_due now limit (sv_timers r) @ rest)"
    using collect_due_split [OF t] by blast
  then have "mset (collect_due now limit (sv_timers r)) \<subseteq># filter_mset (\<lambda>e. fst e \<le> now) (armed (sv_timers r))"
    by simp
  also have "\<dots> \<subseteq># armed (sv_timers r)" by (rule multiset_filter_subset)
  finally have sub: "mset (collect_due now limit (sv_timers r)) \<subseteq># armed (sv_timers r)" .
  from fire_entries [OF ok sub assms(2) [unfolded server_poll_timers_def] session_seen(1) [OF assms(3)]] assms(4)
  show ?thesis by (simp add: alive_def)
qed

context runtime_store
begin

text \<open>A connection that is not in the store gets the server's configuration; polling the MSR timer of its
  session right after the hello is answered.\<close>

lemma hello_then_poll:
  fixes cfg c now path
  defines "m \<equiv> (new_machine Server c cfg)\<lparr>current_path_id := path\<rparr>"
  assumes "inv s" and "live now (entries s) c = None"
    and d: "now + msr_interval_ms cfg < now + disconnect_window_ms cfg" "now + msr_interval_ms cfg = t"
  shows "\<exists>r' out r2 out2 session2.
    server_runtime_on_datagram E (server_new_with_nat_policy cfg s rp) now path (frame_bytes ClientHello c [] []) = (r', Inr out)
    \<and> sv_timers r' = [(t, [(c, ServerMsr)]), (now + disconnect_window_ms cfg, [(c, Disconnect)])]
    \<and> server_poll_timers E r' t 1 = (r2, Inr out2)
    \<and> bmap_get (sv_sessions r2) c = Some session2 \<and> lifecycle (sess_core session2) = Established"
proof -
  let ?r = "server_new_with_nat_policy cfg s rp" and ?bs = "frame_bytes ClientHello c [] []"
  obtain s1 where "st_load E s c now = (s1, Inr (map_option to_versioned (live now (entries s) c)))" by (rule load_result [OF assms(2)])
  then have v: "snd (st_load E (sv_store ?r) c now) = Inr None" using assms(3) by (simp add: server_new_with_nat_policy_def)
  have none: "seen ?r c = None" and timers: "sv_timers ?r = []" and cfg: "sv_cfg ?r = cfg" and store: "inv (sv_store ?r)"
    using assms(2) by (simp_all add: server_new_with_nat_policy_def)
  obtain r1 where e: "ensure_session_loaded E c path now ?r = (r1, Inr ())"
      and seen: "seen r1 = (seen ?r)(c \<mapsto> fresh_session c path (initial_session (sv_cfg ?r) path None))"
      and t1: "sv_timers r1 = []"
    using ensure_fresh [OF none v, of path] timers by auto
  have "stores_for entries inv now c ?r (fst (ensure_session_loaded E c path now ?r))"
    using ensure_stores [OF store, of c path now] by (elim exE conjE) (simp only: fst_conv)
  then have i1: "inv (sv_store r1)" using e by (simp add: stores_for_def)
  obtain session where s: "bmap_get (sv_sessions r1) c = Some session" "sess_core session = m"
    using seen cfg by (cases "bmap_get (sv_sessions r1) c")
      (auto simp: seen_in_def fresh_session_def initial_session_def m_def dest: fun_cong [of _ _ c])
  let ?res = "on_datagram m now path ?bs"
  obtain o1 where res: "snd ?res = Inr o1" "timer_actions o1 = [Schedule ServerMsr t, Schedule Disconnect (now + disconnect_window_ms cfg)]"
      "lifecycle (fst ?res) = Established" "core_role (fst ?res) = Server" "server_msr_unanswered (fst ?res) = 0"
    using d(2) by (simp add: m_def on_datagram_frame core_defs Let_def touch_disconnect_deadline_def)
  obtain r2 o2 where c2: "session_call E c path now session ?res r1 = (r2, Inr o2)"
    using session_call_stores(3) [OF i1 res(1), of c path now session]
    by (cases "session_call E c path now session ?res r1") auto
  have seen2: "seen r2 c = Some (fst ?res, sess_peer_id session)"
    using session_call_effect(1) [of E c path now session ?res r1] c2 res(3) by simp
  have t2: "sv_timers r2 = [(t, [(c, ServerMsr)]), (now + disconnect_window_ms cfg, [(c, Disconnect)])]"
  proof -
    have "now + disconnect_window_ms cfg \<noteq> t" "\<not> now + disconnect_window_ms cfg < t" using d by auto
    then show ?thesis
      using session_call_effect(2) [of E c path now session ?res r1] c2 res(1,2) t1
      by (simp add: timers_push_def slot_def bmap_get_def)
  qed
  have i2: "inv (sv_store r2)" using session_call_stores(1) [OF i1, of now c path session ?res] c2 by (simp add: stores_for_def)
  obtain session2 where s2: "bmap_get (sv_sessions r2) c = Some session2" "sess_core session2 = fst ?res"
    using seen2 by (cases "bmap_get (sv_sessions r2) c") (auto simp: seen_in_def)
  let ?q = "r2\<lparr>sv_timers := timers_take t (c, ServerMsr) (sv_timers r2)\<rparr>" and ?x = "on_timer (fst ?res) t ServerMsr"
  obtain o3 where o3: "snd ?x = Inr o3" "lifecycle (fst ?x) = Established"
    using res(3-5) by (simp add: on_timer_def on_timer_server_msr_def touch_disconnect_deadline_def
      SERVER_MAX_CONSECUTIVE_SERVER_MSR_WITHOUT_CLIENT_MSR_def saturating_add_def Let_def)
  have iq: "inv (sv_store ?q)" using i2 by simp
  obtain r3 o4 where c3: "session_call E c 0 t session2 ?x ?q = (r3, Inr o4)"
    using session_call_stores(3) [OF iq o3(1), of c 0 t session2]
    by (cases "session_call E c 0 t session2 ?x ?q") auto
  have "seen r3 c = Some (fst ?x, sess_peer_id session2)"
    using session_call_effect(1) [of E c 0 t session2 ?x ?q] c3 o3(2) by simp
  then obtain session3 where s3: "bmap_get (sv_sessions r3) c = Some session3" "sess_core session3 = fst ?x"
    by (cases "bmap_get (sv_sessions r3) c") (auto simp: seen_in_def)
  have due: "collect_due t 1 (sv_timers r2) = [(t, c, ServerMsr)]" using d by (simp add: t2)
  have poll: "server_poll_timers E r2 t 1 = (r3, Inr \<lparr>sro_outbound_datagrams = [] @ sro_outbound_datagrams o4, sro_events = [] @ sro_events o4\<rparr>)"
    unfolding server_poll_timers_def due using s2 c3 by simp
  have "server_runtime_on_datagram E ?r now path ?bs = (r2, Inr (o2\<lparr>sro_events := vhost_events c path session @ sro_events o2\<rparr>))"
    using s c2 e by (simp add: server_runtime_on_datagram_def frame_bytes_ok Let_def)
  with t2 poll s3 o3(2) show ?thesis by auto
qed

end

theorem server_disconnect_timers_pile_up_witness:
  "\<exists>r r2. fst (run (server_step (memory_env (\<lambda>_ _. 0) (\<lambda>_. []))) (server_new_with_nat_policy default_config [[], []] PreferDirect)
      [ServerDatagram 10 3 (frame_bytes ClientHello 7 [] [])]) = r
    \<and> fst (server_poll_timers (memory_env (\<lambda>_ _. 0) (\<lambda>_. [])) r 15010 1) = r2
    \<and> entries_of (sv_timers r) (7, Disconnect) = 1 \<and> entries_of (sv_timers r2) (7, Disconnect) = 2"
proof -
  let ?E = "memory_env (\<lambda>_ _. 0) (\<lambda>_. [])" and ?r = "server_new_with_nat_policy default_config [[], []] PreferDirect"
  have "memory_new 2 = Inr [[], []]" by (simp add: memory_new_def numeral_2_eq_2)
  then have ok: "memory_ok [[], []]" "live 10 (memory_entries [[], []]) 7 = None"
    using memory_new_ok [of 2 "[[], []]"] by (auto simp: live_def)
  have d: "10 + msr_interval_ms default_config < 10 + disconnect_window_ms default_config"
      "10 + msr_interval_ms default_config = 15010" by (simp_all add: default_config_def)
  obtain r' out r2 out2 session2 where h:
      "server_runtime_on_datagram ?E ?r 10 3 (frame_bytes ClientHello 7 [] []) = (r', Inr out)"
      "sv_timers r' = [(15010, [(7, ServerMsr)]), (10 + disconnect_window_ms default_config, [(7, Disconnect)])]"
      "server_poll_timers ?E r' 15010 1 = (r2, Inr out2)"
      "bmap_get (sv_sessions r2) 7 = Some session2" "lifecycle (sess_core session2) = Established"
    using memory_server.hello_then_poll [OF ok d, of "\<lambda>_ _. 0" "\<lambda>_. []" PreferDirect 3] by blast
  have r: "r' = fst (run (server_step ?E) ?r [ServerDatagram 10 3 (frame_bytes ClientHello 7 [] [])])"
    by (simp add: h(1))
  have one: "entries_of (sv_timers r') (7, Disconnect) = 1"
    by (simp add: h(2) entries_of_def)
  have "entries_of (sv_timers r2) (7, Disconnect) = 2"
    using server_disconnect_timers_pile_up [OF r h(3-5)] one by (simp add: h(2))
  with r one h(3) show ?thesis by auto
qed

section \<open>Counting a lost session\<close>

text \<open>\<^verbatim>\<open>disconnected\<close> is counted for the event and again when the session is dropped.\<close>

lemma drop_counts:
  "snd (st_delete E (sv_store r) cid) = Inr () \<Longrightarrow>
     sm_disconnected (sv_metrics (fst (drop_session E cid r))) = incr (sm_disconnected (sv_metrics r))"
  by (cases "st_delete E (sv_store r) cid") (simp add: drop_session_def)

theorem close_counted_twice:
  assumes "bmap_get (sv_sessions r) c = Some session" and "core_cid (sess_core session) = c"
    and "snd (st_delete E (sv_store r) c) = Inr ()"
  shows "sm_disconnected (sv_metrics (fst (server_runtime_on_datagram E r now path (frame_bytes Close c [] []))))
     = incr (incr (sm_disconnected (sv_metrics r)))"
proof -
  let ?res = "on_datagram (sess_core session) now path (frame_bytes Close c [] [])"
  obtain m out where res: "?res = (m, Inr out)" "events out = [Disconnected]" "outbound_datagrams out = []" "lifecycle m = Lost"
    using assms(2) by (simp add: on_datagram_frame dispatch_frame_def)
  let ?r = "(bump (\<lambda>ms. foldl server_observe_event ms [Disconnected]) (r\<lparr>sv_sessions := bmap_insert c (session\<lparr>sess_core := m\<rparr>) (sv_sessions r)\<rparr>))
    \<lparr>sv_timers := server_ingest_timers c (timer_actions out) (sv_timers r)\<rparr>"
  have call: "fst (session_call E c path now session ?res r) = fst (drop_session E c ?r)"
    using res by (simp add: session_call_def server_apply_core_output_def server_observe_datagrams_def settle_session_def)
  have "server_runtime_on_datagram E r now path (frame_bytes Close c [] []) = and_then (session_call E c path now session ?res r)
      (\<lambda>r out. (r, Inr (out\<lparr>sro_events := vhost_events c path session @ sro_events out\<rparr>)))"
    using assms(1) by (simp add: server_runtime_on_datagram_def frame_bytes_ok ensure_session_loaded_def bmap_contains_def Let_def)
  then show ?thesis
    using call drop_counts [of E ?r c] assms(3) by (simp add: server_observe_event_def)
qed

end
