(* ===== verification/Store_Redis.thy ===== *)
theory Store_Redis
  imports Store_Durability
begin

text \<open>
  The Redis session store of \<^verbatim>\<open>v3-store/src/lib.rs\<close>: its Lua scripts and the Rust around them.  The Redis commands
  and Lua's numbers are parameters (\<open>redis_ops\<close>); a script is one step on the server, as Redis runs it.  What is
  assumed of the parameters is \<open>redis_lawful\<close>: the documented behaviour of the hash commands, and that Lua's
  numbers, which are doubles, are exact below \<open>2 ^ 53\<close>.
\<close>

section \<open>Redis and Lua\<close>

record 'd redis_ops =
  rd_exists :: "'d \<Rightarrow> string \<Rightarrow> bool"
  rd_hget :: "'d \<Rightarrow> string \<Rightarrow> string \<Rightarrow> bytes option"
  rd_hset :: "'d \<Rightarrow> string \<Rightarrow> (string \<times> bytes) list \<Rightarrow> 'd"
  rd_del :: "'d \<Rightarrow> string \<Rightarrow> 'd"
  rd_pexpire :: "'d \<Rightarrow> string \<Rightarrow> bytes \<Rightarrow> string + 'd"
  rd_zadd :: "'d \<Rightarrow> string \<Rightarrow> bytes \<Rightarrow> string \<Rightarrow> 'd"
  rd_zrem :: "'d \<Rightarrow> string \<Rightarrow> string \<Rightarrow> 'd"
  rd_zrangebyscore :: "'d \<Rightarrow> string \<Rightarrow> bytes \<Rightarrow> nat \<Rightarrow> string list"
  lua_tonumber :: "bytes \<Rightarrow> int option"
  lua_tostring :: "int \<Rightarrow> bytes"
  lua_add :: "int \<Rightarrow> int \<Rightarrow> int"
  lua_integer :: "int \<Rightarrow> int"
  lua_error_text :: string
  redis_value_error_text :: "int \<Rightarrow> string"
  rd_tick :: "u64 \<Rightarrow> 'd \<Rightarrow> 'd"

text \<open>\<open>rd_tick now\<close> is what the server makes of its keys until its clock reads \<open>now\<close>: keys whose lifetime is over go.\<close>

text \<open>A store: where its keys are.  A call may fail to get a connection, to send its \<open>n\<close>-th request, or to receive the
  reply to it.\<close>

record redis_store =
  rs_key_prefix :: string

record redis_faults =
  rf_open :: "string option"
  rf_conn :: "string option"
  rf_request :: "nat \<Rightarrow> string option"
  rf_reply :: "nat \<Rightarrow> string option"

definition no_redis_faults :: redis_faults where
  "no_redis_faults = \<lparr>rf_open = None, rf_conn = None, rf_request = (\<lambda>_. None), rf_reply = (\<lambda>_. None)\<rparr>"

definition redis_new :: "redis_faults \<Rightarrow> string \<Rightarrow> store_error + redis_store" where
  "redis_new F key_prefix = (case rf_open F of Some e \<Rightarrow> Inl (Backend e) | None \<Rightarrow> Inr \<lparr>rs_key_prefix = key_prefix\<rparr>)"

definition u64_text :: "u64 \<Rightarrow> string" where
  "u64_text n = decimal (unat n)"

definition session_key :: "redis_store \<Rightarrow> u64 \<Rightarrow> string" where
  "session_key S cid = rs_key_prefix S @ '':session:'' @ u64_text cid"

definition expiry_index_key :: "redis_store \<Rightarrow> string" where
  "expiry_index_key S = rs_key_prefix S @ '':session_expiry''"

text \<open>\<^verbatim>\<open>str::parse::<u64>\<close>.\<close>

definition digit :: "char \<Rightarrow> bool" where
  "digit c \<longleftrightarrow> 48 \<le> (of_char c :: nat) \<and> (of_char c :: nat) \<le> 57"

definition digits_value :: "string \<Rightarrow> nat" where
  "digits_value s = foldl (\<lambda>n c. 10 * n + (of_char c - 48)) 0 s"

definition parse_u64 :: "string \<Rightarrow> u64 option" where
  "parse_u64 s =
     (let ds = (case s of c # r \<Rightarrow> if c = CHR ''+'' then r else s | [] \<Rightarrow> s) in
      if ds \<noteq> [] \<and> list_all digit ds \<and> digits_value ds < 2 ^ 64 then Some (word_of_nat (digits_value ds)) else None)"

text \<open>A script: the server's state and an error or a result.  \<open>number\<close> is \<^verbatim>\<open>tonumber(redis.call('HGET', ..) or '0')\<close>;
  comparing with \<^verbatim>\<open>nil\<close> is an error.\<close>

definition number :: "'d redis_ops \<Rightarrow> 'd \<Rightarrow> string \<Rightarrow> string \<Rightarrow> int option" where
  "number R d key field = lua_tonumber R (case rd_hget R d key field of None \<Rightarrow> string_bytes ''0'' | Some v \<Rightarrow> v)"

definition lua_less_eq :: "int option \<Rightarrow> int option \<Rightarrow> bool option" where
  "lua_less_eq x y = (case (x, y) of (Some a, Some b) \<Rightarrow> Some (a \<le> b) | _ \<Rightarrow> None)"

definition arg :: "u64 \<Rightarrow> bytes" where
  "arg n = string_bytes (u64_text n)"

definition write_entry ::
    "'d redis_ops \<Rightarrow> string \<Rightarrow> string \<Rightarrow> string \<Rightarrow> int \<Rightarrow> int option \<Rightarrow> int option \<Rightarrow> bytes \<Rightarrow> 'd \<Rightarrow> 'd \<times> (string + unit)" where
  "write_entry R key zkey member next_version expires ttl payload d =
     (case expires of
        None \<Rightarrow> (d, Inl (lua_error_text R))
      | Some x \<Rightarrow>
          let d = rd_hset R d key [(''version'', lua_tostring R next_version), (''expires_at_ms'', lua_tostring R x), (''data'', payload)]
          in case ttl of
               None \<Rightarrow> (d, Inl (lua_error_text R))
             | Some t \<Rightarrow>
               (case rd_pexpire R d key (lua_tostring R t) of
                  Inl e \<Rightarrow> (d, Inl e)
                | Inr d \<Rightarrow> (rd_zadd R d zkey (lua_tostring R x) member, Inr ())))"

section \<open>The operations\<close>

definition load_script ::
    "'d redis_ops \<Rightarrow> string \<Rightarrow> string \<Rightarrow> string \<Rightarrow> bytes \<Rightarrow> 'd \<Rightarrow> 'd \<times> (string + (int \<times> int \<times> bytes) option)" where
  "load_script R key zkey member now d =
     (if \<not> rd_exists R d key then (d, Inr None)
      else
        let expires = number R d key ''expires_at_ms'' in
        case lua_less_eq expires (lua_tonumber R now) of
          None \<Rightarrow> (d, Inl (lua_error_text R))
        | Some True \<Rightarrow> (rd_zrem R (rd_del R d key) zkey member, Inr None)
        | Some False \<Rightarrow>
           (case number R d key ''version'' of
              None \<Rightarrow> (d, Inr None)
            | Some version \<Rightarrow> (d, Inr (Some (lua_integer R version, lua_integer R (the expires),
                case rd_hget R d key ''data'' of None \<Rightarrow> [] | Some x \<Rightarrow> x)))))"

text \<open>\<^verbatim>\<open>redis::from_redis_value::<u64>\<close> of an integer reply.\<close>

definition u64_value :: "'d redis_ops \<Rightarrow> int \<Rightarrow> string + u64" where
  "u64_value R n = (if 0 \<le> n then Inr (word_of_int n) else Inl (redis_value_error_text R n))"

text \<open>\<^verbatim>\<open>let mut conn = self.conn()?\<close> and the \<open>n\<close>-th request of the call.\<close>

definition connected :: "redis_faults \<Rightarrow> 'd \<Rightarrow> ('d \<Rightarrow> 'd \<times> (store_error + 'a)) \<Rightarrow> 'd \<times> (store_error + 'a)" where
  "connected F d k = (case rf_conn F of Some e \<Rightarrow> (d, Inl (Backend e)) | None \<Rightarrow> k d)"

definition request ::
    "redis_faults \<Rightarrow> nat \<Rightarrow> 'd \<Rightarrow> ('d \<Rightarrow> 'd \<times> (string + 'r)) \<Rightarrow> ('d \<Rightarrow> 'r \<Rightarrow> 'd \<times> (store_error + 'a)) \<Rightarrow> 'd \<times> (store_error + 'a)" where
  "request F n d script k =
     (case rf_request F n of
        Some e \<Rightarrow> (d, Inl (Backend e))
      | None \<Rightarrow>
         (case (script d, rf_reply F n) of
            ((d, _), Some e) \<Rightarrow> (d, Inl (Backend e))
          | ((d, Inl e), None) \<Rightarrow> (d, Inl (Backend e))
          | ((d, Inr x), None) \<Rightarrow> k d x))"

definition loaded_record :: "'d redis_ops \<Rightarrow> serde_ops \<Rightarrow> int \<times> int \<times> bytes \<Rightarrow> store_error + versioned_record" where
  "loaded_record R J row =
     (case row of (v, x, bs) \<Rightarrow>
        case u64_value R v of
          Inl e \<Rightarrow> Inl (Backend (''invalid redis version: '' @ e))
        | Inr version \<Rightarrow>
           (case u64_value R x of
              Inl e \<Rightarrow> Inl (Backend (''invalid redis expiry: '' @ e))
            | Inr expires_at_ms \<Rightarrow>
               (case decode_session_record J bs of
                  Inl e \<Rightarrow> Inl e
                | Inr rec \<Rightarrow> Inr \<lparr>vr_version = version, vr_record = rec, vr_expires_at_ms = expires_at_ms\<rparr>)))"

definition redis_load ::
    "'d redis_ops \<Rightarrow> serde_ops \<Rightarrow> redis_faults \<Rightarrow> redis_store \<Rightarrow> 'd \<Rightarrow> u64 \<Rightarrow> u64
      \<Rightarrow> 'd \<times> (store_error + versioned_record option)" where
  "redis_load R J F S d cid now =
     connected F d (\<lambda>d.
     request F 0 d (load_script R (session_key S cid) (expiry_index_key S) (u64_text cid) (arg now)) (\<lambda>d rows.
       case rows of
         None \<Rightarrow> (d, Inr None)
       | Some row \<Rightarrow> (d, case loaded_record R J row of Inl e \<Rightarrow> Inl e | Inr v \<Rightarrow> Inr (Some v))))"

text \<open>The reply of the compare-and-swap script; \<^verbatim>\<open>nil\<close> ends an array.\<close>

definition cas_script ::
    "'d redis_ops \<Rightarrow> string \<Rightarrow> string \<Rightarrow> string \<Rightarrow> bytes \<Rightarrow> bytes \<Rightarrow> bytes \<Rightarrow> bytes \<Rightarrow> bytes \<Rightarrow> 'd \<Rightarrow> 'd \<times> (string + int list)" where
  "cas_script R key zkey member expected payload now ttl expires d =
     (let looked =
        (if \<not> rd_exists R d key then (d, Inr (False, None))
         else case lua_less_eq (number R d key ''expires_at_ms'') (lua_tonumber R now) of
           None \<Rightarrow> (d, Inl (lua_error_text R))
         | Some True \<Rightarrow> (rd_zrem R (rd_del R d key) zkey member, Inr (False, None))
         | Some False \<Rightarrow> (d, Inr (True, number R d key ''version'')))
      in case looked of
           (d, Inl e) \<Rightarrow> (d, Inl e)
         | (d, Inr (exists, cur_version)) \<Rightarrow>
             let conflict = (d, Inr (0 # (case cur_version of None \<Rightarrow> [] | Some v \<Rightarrow> [lua_integer R v]))) in
             if expected = [] \<and> exists then conflict
             else if expected \<noteq> [] \<and> \<not> exists then (d, Inr [0, - 1])
             else if expected \<noteq> [] \<and> cur_version \<noteq> lua_tonumber R expected then conflict
             else
               let next_version = lua_add R (case cur_version of None \<Rightarrow> 0 | Some v \<Rightarrow> v) 1 in
               case write_entry R key zkey member next_version (lua_tonumber R expires) (lua_tonumber R ttl) payload d of
                 (d, Inl e) \<Rightarrow> (d, Inl e)
               | (d, Inr _) \<Rightarrow> (d, Inr [1, lua_integer R next_version]))"

definition redis_compare_and_swap ::
    "'d redis_ops \<Rightarrow> serde_ops \<Rightarrow> redis_faults \<Rightarrow> redis_store \<Rightarrow> 'd \<Rightarrow> u64 \<Rightarrow> u64 option \<Rightarrow> session_record \<Rightarrow> u64 \<Rightarrow> u64
      \<Rightarrow> 'd \<times> (store_error + versioned_record)" where
  "redis_compare_and_swap R J F S d cid expected_version new_record ttl now =
     (case encode_session_record J new_record of
        Inl e \<Rightarrow> (d, Inl e)
      | Inr payload \<Rightarrow>
          let expires_at_ms = saturating_add now ttl in
          connected F d (\<lambda>d.
          request F 0 d (cas_script R (session_key S cid) (expiry_index_key S) (u64_text cid)
              (case expected_version of None \<Rightarrow> [] | Some v \<Rightarrow> arg v) payload (arg now) (arg ttl) (arg expires_at_ms)) (\<lambda>d result.
            case result of
              [flag, n] \<Rightarrow>
                if flag = 1 then (d, Inr \<lparr>vr_version = word_of_int n, vr_record = new_record, vr_expires_at_ms = expires_at_ms\<rparr>)
                else (d, Inl (CasConflict expected_version (if n < 0 then None else Some (word_of_int n))))
            | _ \<Rightarrow> (d, Inl (Backend ''invalid CAS response from redis script'')))))"

definition upsert_script ::
    "'d redis_ops \<Rightarrow> string \<Rightarrow> string \<Rightarrow> string \<Rightarrow> bytes \<Rightarrow> bytes \<Rightarrow> bytes \<Rightarrow> bytes \<Rightarrow> 'd \<Rightarrow> 'd \<times> (string + int)" where
  "upsert_script R key zkey member payload now ttl expires d =
     (let cur =
        (if \<not> rd_exists R d key then Some (Some 0)
         else case lua_less_eq (number R d key ''expires_at_ms'') (lua_tonumber R now) of
           None \<Rightarrow> None
         | Some True \<Rightarrow> Some (Some 0)
         | Some False \<Rightarrow> Some (number R d key ''version''))
      in case cur of
           None \<Rightarrow> (d, Inl (lua_error_text R))
         | Some None \<Rightarrow> (d, Inl (lua_error_text R))
         | Some (Some v) \<Rightarrow>
            (case write_entry R key zkey member (lua_add R v 1) (lua_tonumber R expires) (lua_tonumber R ttl) payload d of
               (d, Inl e) \<Rightarrow> (d, Inl e)
             | (d, Inr _) \<Rightarrow> (d, Inr (lua_integer R (lua_add R v 1)))))"

definition redis_upsert ::
    "'d redis_ops \<Rightarrow> serde_ops \<Rightarrow> redis_faults \<Rightarrow> redis_store \<Rightarrow> 'd \<Rightarrow> u64 \<Rightarrow> session_record \<Rightarrow> u64 \<Rightarrow> u64
      \<Rightarrow> 'd \<times> (store_error + versioned_record)" where
  "redis_upsert R J F S d cid new_record ttl now =
     (case encode_session_record J new_record of
        Inl e \<Rightarrow> (d, Inl e)
      | Inr payload \<Rightarrow>
          let expires_at_ms = saturating_add now ttl in
          connected F d (\<lambda>d.
          request F 0 d (upsert_script R (session_key S cid) (expiry_index_key S) (u64_text cid) payload
              (arg now) (arg ttl) (arg expires_at_ms)) (\<lambda>d n.
            case u64_value R n of
              Inl e \<Rightarrow> (d, Inl (Backend e))
            | Inr next_version \<Rightarrow> (d, Inr \<lparr>vr_version = next_version, vr_record = new_record, vr_expires_at_ms = expires_at_ms\<rparr>))))"

definition redis_delete ::
    "'d redis_ops \<Rightarrow> redis_faults \<Rightarrow> redis_store \<Rightarrow> 'd \<Rightarrow> u64 \<Rightarrow> 'd \<times> (store_error + unit)" where
  "redis_delete R F S d cid =
     connected F d (\<lambda>d.
     request F 0 d (\<lambda>d. (rd_zrem R (rd_del R d (session_key S cid)) (expiry_index_key S) (u64_text cid), Inr ())) (\<lambda>d _. (d, Inr ())))"

definition cleanup_script :: "'d redis_ops \<Rightarrow> string \<Rightarrow> string \<Rightarrow> string \<Rightarrow> bytes \<Rightarrow> 'd \<Rightarrow> 'd \<times> (string + int)" where
  "cleanup_script R key zkey member now d =
     (if \<not> rd_exists R d key then (rd_zrem R d zkey member, Inr 0)
      else case lua_less_eq (number R d key ''expires_at_ms'') (lua_tonumber R now) of
        None \<Rightarrow> (d, Inl (lua_error_text R))
      | Some True \<Rightarrow> (rd_zrem R (rd_del R d key) zkey member, Inr 1)
      | Some False \<Rightarrow> (d, Inr 0))"

text \<open>The loop over the members; \<open>n\<close> numbers the requests.\<close>

fun cleanup ::
    "'d redis_ops \<Rightarrow> redis_faults \<Rightarrow> redis_store \<Rightarrow> u64 \<Rightarrow> nat \<Rightarrow> string list \<Rightarrow> u64 list \<Rightarrow> 'd \<Rightarrow> 'd \<times> (store_error + u64 list)" where
  "cleanup R F S now n [] removed d = (d, Inr removed)"
| "cleanup R F S now n (member # members) removed d =
     (case parse_u64 member of
        None \<Rightarrow> cleanup R F S now n members removed d
      | Some cid \<Rightarrow>
          request F n d (cleanup_script R (session_key S cid) (expiry_index_key S) member (arg now)) (\<lambda>d deleted.
            cleanup R F S now (Suc n) members (if deleted = 1 then removed @ [cid] else removed) d))"

definition redis_scan_expired ::
    "'d redis_ops \<Rightarrow> redis_faults \<Rightarrow> redis_store \<Rightarrow> 'd \<Rightarrow> u64 \<Rightarrow> nat \<Rightarrow> 'd \<times> (store_error + u64 list)" where
  "redis_scan_expired R F S d now limit =
     (if limit = 0 then (d, Inr [])
      else connected F d (\<lambda>d.
        request F 0 d (\<lambda>d. (d, Inr (rd_zrangebyscore R d (expiry_index_key S) (arg now) limit))) (\<lambda>d members.
          if members = [] then (d, Inr []) else cleanup R F S now 1 members [] d)))"

text \<open>A timed operation, when the server's clock is the caller's: keys whose lifetime is over may be gone before it.\<close>

fun redis_step :: "'d redis_ops \<Rightarrow> serde_ops \<Rightarrow> redis_store \<Rightarrow> 'd \<Rightarrow> u64 \<times> store_op \<Rightarrow> 'd \<times> store_reply" where
  "redis_step R J S d (now, Load cid) =
     map_prod id (reply Loaded) (redis_load R J no_redis_faults S (rd_tick R now d) cid now)"
| "redis_step R J S d (now, CompareAndSwap cid ev rec ttl) =
     map_prod id (reply Written) (redis_compare_and_swap R J no_redis_faults S (rd_tick R now d) cid ev rec ttl now)"
| "redis_step R J S d (now, Upsert cid rec ttl) =
     map_prod id (reply Written) (redis_upsert R J no_redis_faults S (rd_tick R now d) cid rec ttl now)"
| "redis_step R J S d (now, Delete cid) =
     map_prod id (reply (\<lambda>_. Deleted)) (redis_delete R no_redis_faults S (rd_tick R now d) cid)"

section \<open>What is assumed of Redis and Lua\<close>

text \<open>The hashes outside \<open>ks\<close>, and when their keys lapse, are the same.\<close>

definition untouched :: "'d redis_ops \<Rightarrow> ('d \<Rightarrow> string \<Rightarrow> nat option) \<Rightarrow> string set \<Rightarrow> 'd \<Rightarrow> 'd \<Rightarrow> bool" where
  "untouched R deadline ks d d' \<longleftrightarrow>
     (\<forall>k. k \<notin> ks \<longrightarrow> rd_exists R d' k = rd_exists R d k \<and> rd_hget R d' k = rd_hget R d k \<and> deadline d' k = deadline d k)"

text \<open>The commands on the hashes (\<open>z\<close> is the key of the sorted set).  \<^verbatim>\<open>PEXPIRE\<close> with 0 deletes the key, with
  \<open>n\<close> it sets the key's lifetime from the server's clock on.\<close>

definition hash_commands_ok :: "'d redis_ops \<Rightarrow> ('d \<Rightarrow> nat) \<Rightarrow> ('d \<Rightarrow> string \<Rightarrow> nat option) \<Rightarrow> string \<Rightarrow> bool" where
  "hash_commands_ok R clock deadline z \<longleftrightarrow>
     (\<forall>d k fs. k \<noteq> z \<longrightarrow> (let d' = rd_hset R d k fs in
        untouched R deadline {k} d d' \<and> clock d' = clock d \<and> rd_exists R d' k
        \<and> (\<forall>f v. map_of (rev fs) f = Some v \<longrightarrow> rd_hget R d' k f = Some v)))
     \<and> (\<forall>d k. k \<noteq> z \<longrightarrow> (let d' = rd_del R d k in
        untouched R deadline {k} d d' \<and> clock d' = clock d \<and> \<not> rd_exists R d' k))
     \<and> (\<forall>d k n. k \<noteq> z \<and> rd_exists R d k \<and> n < 2 ^ 53 \<longrightarrow> (\<exists>d'. rd_pexpire R d k (lua_tostring R (int n)) = Inr d' \<and>
        untouched R deadline {k} d d' \<and> clock d' = clock d
        \<and> (if n = 0 then \<not> rd_exists R d' k
           else rd_exists R d' k \<and> rd_hget R d' k = rd_hget R d k \<and> deadline d' k = Some (clock d + n))))"

definition index_commands_ok :: "'d redis_ops \<Rightarrow> ('d \<Rightarrow> nat) \<Rightarrow> ('d \<Rightarrow> string \<Rightarrow> nat option) \<Rightarrow> string \<Rightarrow> bool" where
  "index_commands_ok R clock deadline z \<longleftrightarrow>
     (\<forall>d x m. let d' = rd_zadd R d z x m in untouched R deadline {z} d d' \<and> clock d' = clock d)
     \<and> (\<forall>d m. let d' = rd_zrem R d z m in untouched R deadline {z} d d' \<and> clock d' = clock d)"

text \<open>A key goes by itself only when its lifetime is over, and is gone once that is in the past.\<close>

definition tick_ok :: "'d redis_ops \<Rightarrow> ('d \<Rightarrow> nat) \<Rightarrow> ('d \<Rightarrow> string \<Rightarrow> nat option) \<Rightarrow> string \<Rightarrow> bool" where
  "tick_ok R clock deadline z \<longleftrightarrow>
     (\<forall>d now. clock (rd_tick R now d) = unat now \<and>
        (\<forall>k. k \<noteq> z \<longrightarrow> (if rd_exists R (rd_tick R now d) k
           then rd_exists R d k \<and> rd_hget R (rd_tick R now d) k = rd_hget R d k \<and> deadline (rd_tick R now d) k = deadline d k
             \<and> (\<forall>x. deadline d k = Some x \<longrightarrow> unat now \<le> x)
           else rd_exists R d k \<longrightarrow> (\<exists>x. deadline d k = Some x \<and> x \<le> unat now))))"

text \<open>Lua's numbers are doubles: up to \<open>2 ^ 53\<close> every integer is itself, a larger one is read as at least that.\<close>

definition lua_ok :: "'d redis_ops \<Rightarrow> bool" where
  "lua_ok R \<longleftrightarrow>
     (\<forall>n. \<exists>m. lua_tonumber R (string_bytes (decimal n)) = Some m \<and> (if n \<le> 2 ^ 53 then m = int n else 2 ^ 53 \<le> m))
     \<and> (\<forall>n. n \<le> 2 ^ 53 \<longrightarrow> lua_tonumber R (lua_tostring R (int n)) = Some (int n))
     \<and> (\<forall>n. n < 2 ^ 53 \<longrightarrow> lua_add R (int n) 1 = int n + 1)
     \<and> (\<forall>n. n \<le> 2 ^ 53 \<longrightarrow> lua_integer R (int n) = int n)"

definition redis_lawful :: "'d redis_ops \<Rightarrow> ('d \<Rightarrow> nat) \<Rightarrow> ('d \<Rightarrow> string \<Rightarrow> nat option) \<Rightarrow> string \<Rightarrow> bool" where
  "redis_lawful R clock deadline z \<longleftrightarrow>
     hash_commands_ok R clock deadline z \<and> index_commands_ok R clock deadline z \<and> tick_ok R clock deadline z \<and> lua_ok R"

section \<open>Keys\<close>

lemma digits_value_snoc: "digits_value (s @ [c]) = 10 * digits_value s + (of_char c - 48)"
  by (simp add: digits_value_def)

lemma digit_char: "n < 10 \<Longrightarrow> of_char (char_of (48 + n)) = 48 + n" for n :: nat
  by simp

lemma decimal_digits: "decimal n \<noteq> [] \<and> list_all digit (decimal n) \<and> digits_value (decimal n) = n"
proof (induction n rule: decimal.induct)
  case (1 n)
  show ?case
  proof (cases "n < 10")
    case True
    then show ?thesis by (simp add: decimal.simps [of n] digits_value_def digit_def digit_char)
  next
    case False
    with 1 show ?thesis
      by (simp add: decimal.simps [of n] digits_value_snoc digit_def digit_char)
  qed
qed

lemma u64_text_inj: "u64_text m = u64_text n \<longleftrightarrow> m = n"
proof -
  have "unat m = digits_value (u64_text m)" for m using decimal_digits [of "unat m"] by (simp add: u64_text_def)
  then have "unat m = unat n" if "u64_text m = u64_text n" using that by simp
  then show ?thesis using word_unat_eq_iff by blast
qed

lemma parse_u64_text: "parse_u64 (u64_text n) = Some n"
proof -
  have ds: "u64_text n \<noteq> []" "list_all digit (u64_text n)" "digits_value (u64_text n) = unat n"
    using decimal_digits [of "unat n"] by (simp_all add: u64_text_def)
  then obtain c r where s: "u64_text n = c # r" by (cases "u64_text n") auto
  with ds(2) have "c \<noteq> CHR ''+''" by (auto simp: digit_def)
  then have "(case u64_text n of c # r \<Rightarrow> if c = CHR ''+'' then r else u64_text n | [] \<Rightarrow> u64_text n) = u64_text n"
    using s by simp
  moreover have "unat n < 2 ^ 64" using unsigned_less [of n] by simp
  ultimately show ?thesis using ds by (simp add: parse_u64_def Let_def)
qed

lemma session_key_inj: "session_key S m = session_key S n \<longleftrightarrow> m = n"
  by (simp add: session_key_def u64_text_inj)

lemma session_key_index: "session_key S m \<noteq> expiry_index_key S"
  by (simp add: session_key_def expiry_index_key_def)

section \<open>The store keeps the contract\<close>

text \<open>The entries: what the hash of a session reads as.\<close>

definition redis_entries :: "'d redis_ops \<Rightarrow> serde_ops \<Rightarrow> redis_store \<Rightarrow> 'd \<Rightarrow> spec_store" where
  "redis_entries R J S d cid =
     (let key = session_key S cid in
      if \<not> rd_exists R d key then None
      else case (number R d key ''version'', number R d key ''expires_at_ms'', rd_hget R d key ''data'') of
        (Some v, Some x, Some bs) \<Rightarrow>
          (case decode_session_record J bs of
             Inl _ \<Rightarrow> None
           | Inr rec \<Rightarrow> Some \<lparr>entry_version = word_of_int v, entry_record = rec, entry_expires_at_ms = word_of_int x\<rparr>)
      | _ \<Rightarrow> None)"

text \<open>A key holds an entry: its fields, and a lifetime that ends when the entry expires.\<close>

definition stored ::
    "'d redis_ops \<Rightarrow> serde_ops \<Rightarrow> ('d \<Rightarrow> string \<Rightarrow> nat option) \<Rightarrow> 'd \<Rightarrow> string \<Rightarrow> entry \<Rightarrow> bool" where
  "stored R J deadline d key e \<longleftrightarrow>
     rd_hget R d key ''version'' = Some (lua_tostring R (uint (entry_version e)))
     \<and> rd_hget R d key ''expires_at_ms'' = Some (lua_tostring R (uint (entry_expires_at_ms e)))
     \<and> (\<exists>bs. rd_hget R d key ''data'' = Some bs \<and> decode_session_record J bs = Inr (entry_record e))
     \<and> unat (entry_expires_at_ms e) < 2 ^ 53 \<and> deadline d key = Some (unat (entry_expires_at_ms e))"

definition redis_ok ::
    "'d redis_ops \<Rightarrow> ('d \<Rightarrow> nat) \<Rightarrow> ('d \<Rightarrow> string \<Rightarrow> nat option) \<Rightarrow> serde_ops \<Rightarrow> redis_store \<Rightarrow> nat \<Rightarrow> 'd \<Rightarrow> bool" where
  "redis_ok R clock deadline J S n d \<longleftrightarrow>
     redis_lawful R clock deadline (expiry_index_key S) \<and> serde_ok J \<and> n \<le> 2 ^ 53
     \<and> (\<forall>cid. rd_exists R d (session_key S cid) \<longrightarrow>
          (\<exists>e. stored R J deadline d (session_key S cid) e \<and> unat (entry_version e) \<le> n))"

text \<open>The times of an operation are exact in Lua.\<close>

fun exact_times :: "u64 \<times> store_op \<Rightarrow> bool" where
  "exact_times (now, CompareAndSwap cid ev rec ttl) \<longleftrightarrow> unat now + unat ttl < 2 ^ 53"
| "exact_times (now, Upsert cid rec ttl) \<longleftrightarrow> unat now + unat ttl < 2 ^ 53"
| "exact_times (now, _) \<longleftrightarrow> unat now < 2 ^ 53"

lemma exact_now: "exact_times (now, op) \<Longrightarrow> unat now < 2 ^ 53"
  by (cases op) auto

lemma lua_okD:
  fixes v w :: u64
  assumes "lua_ok R"
  shows "unat v \<le> 2 ^ 53 \<Longrightarrow> lua_tonumber R (lua_tostring R (uint v)) = Some (uint v)"
    and "unat v < 2 ^ 53 \<Longrightarrow> lua_add R (uint v) 1 = uint (v + 1) \<and> unat (v + 1) = unat v + 1"
    and "unat v \<le> 2 ^ 53 \<Longrightarrow> lua_integer R (uint v) = uint v"
    and "unat w \<le> 2 ^ 53 \<Longrightarrow> lua_tonumber R (arg w) = Some (uint w)"
    and "unat v < 2 ^ 53 \<Longrightarrow> (Some (uint v) = lua_tonumber R (arg w)) = (v = w)"
proof -
  have int: "uint v = int (unat v)" for v :: u64 by simp
  obtain m where m: "lua_tonumber R (arg w) = Some m" "if unat w \<le> 2 ^ 53 then m = int (unat w) else 2 ^ 53 \<le> m"
    using assms unfolding lua_ok_def arg_def u64_text_def by blast
  then show "unat w \<le> 2 ^ 53 \<Longrightarrow> lua_tonumber R (arg w) = Some (uint w)" by simp
  show "(Some (uint v) = lua_tonumber R (arg w)) = (v = w)" if "unat v < 2 ^ 53"
  proof (cases "unat w \<le> 2 ^ 53")
    case True
    with m show ?thesis by (simp add: word_uint_eq_iff)
  next
    case False
    moreover have "uint v < 2 ^ 53" using that by (simp add: int del: of_nat_unat)
    ultimately show ?thesis using m that by auto
  qed
  show "unat v \<le> 2 ^ 53 \<Longrightarrow> lua_tonumber R (lua_tostring R (uint v)) = Some (uint v)"
    and "unat v \<le> 2 ^ 53 \<Longrightarrow> lua_integer R (uint v) = uint v"
    using assms unfolding lua_ok_def int by blast+
  show "lua_add R (uint v) 1 = uint (v + 1) \<and> unat (v + 1) = unat v + 1" if v: "unat v < 2 ^ 53"
  proof -
    have s: "unat (v + 1) = unat v + 1" using v by (simp add: unat_word_ariths)
    moreover have "lua_add R (int (unat v)) 1 = int (unat v) + 1" using assms v unfolding lua_ok_def by blast
    ultimately show ?thesis by (simp add: int del: of_nat_unat)
  qed
qed

lemma stored_numbers:
  assumes "lua_ok R" and "stored R J deadline d key e" and "unat (entry_version e) \<le> 2 ^ 53"
  shows "number R d key ''version'' = Some (uint (entry_version e))"
    and "number R d key ''expires_at_ms'' = Some (uint (entry_expires_at_ms e))"
  using assms by (auto simp: stored_def number_def lua_okD(1))

lemma stored_entry:
  assumes "lua_ok R" and "rd_exists R d (session_key S cid)" and "stored R J deadline d (session_key S cid) e"
    and "unat (entry_version e) \<le> 2 ^ 53"
  shows "redis_entries R J S d cid = Some e"
  using assms stored_numbers [OF assms(1,3,4)]
  by (auto simp: redis_entries_def Let_def stored_def)

lemma untouched_entry:
  assumes "untouched R deadline ks d d'" and "session_key S cid \<notin> ks"
  shows "redis_entries R J S d' cid = redis_entries R J S d cid"
    and "stored R J deadline d' (session_key S cid) e = stored R J deadline d (session_key S cid) e"
  using assms by (auto simp: untouched_def redis_entries_def number_def stored_def Let_def)

lemma redis_update:
  assumes ok: "redis_ok R clock deadline J S n d" and u: "untouched R deadline {session_key S cid, expiry_index_key S} d d'"
    and here: "rd_exists R d' (session_key S cid) \<Longrightarrow>
      \<exists>e. stored R J deadline d' (session_key S cid) e \<and> unat (entry_version e) \<le> m"
    and m: "n \<le> m" "m \<le> 2 ^ 53"
  shows "redis_ok R clock deadline J S m d'"
    and "redis_entries R J S d' = (redis_entries R J S d)(cid := redis_entries R J S d' cid)"
proof -
  have other: "session_key S k \<notin> {session_key S cid, expiry_index_key S}" if "k \<noteq> cid" for k
    using that by (simp add: session_key_inj session_key_index)
  show "redis_entries R J S d' = (redis_entries R J S d)(cid := redis_entries R J S d' cid)"
    using untouched_entry(1) [OF u other] by auto
  have "\<exists>e. stored R J deadline d' (session_key S k) e \<and> unat (entry_version e) \<le> m"
    if ex: "rd_exists R d' (session_key S k)" for k
  proof (cases "k = cid")
    case True
    with here ex show ?thesis by simp
  next
    case False
    then have "rd_exists R d (session_key S k)" using u other ex by (auto simp: untouched_def)
    with ok m(1) untouched_entry(2) [OF u other [OF False]] show ?thesis by (fastforce simp: redis_ok_def)
  qed
  with ok m(2) show "redis_ok R clock deadline J S m d'" by (simp add: redis_ok_def)
qed

lemma redis_okD:
  assumes "redis_ok R clock deadline J S n d"
  shows "hash_commands_ok R clock deadline (expiry_index_key S)" "index_commands_ok R clock deadline (expiry_index_key S)"
    "tick_ok R clock deadline (expiry_index_key S)" "lua_ok R" "serde_ok J" "n \<le> 2 ^ 53"
  using assms by (auto simp: redis_ok_def redis_lawful_def)

text \<open>Keys that go by themselves hold entries that have expired.\<close>

lemma tick_entries:
  assumes ok: "redis_ok R clock deadline J S n d"
  shows "redis_ok R clock deadline J S n (rd_tick R now d)"
    and "agrees now (redis_entries R J S (rd_tick R now d)) (redis_entries R J S d)"
    and "clock (rd_tick R now d) = unat now"
proof -
  note t = redis_okD(3) [OF ok, unfolded tick_ok_def, rule_format, of now d]
  let ?d = "rd_tick R now d"
  show "clock ?d = unat now" using t by simp
  have kept: "rd_exists R d (session_key S cid)" "rd_hget R ?d (session_key S cid) = rd_hget R d (session_key S cid)"
      "deadline ?d (session_key S cid) = deadline d (session_key S cid)"
    if "rd_exists R ?d (session_key S cid)" for cid
    using t that session_key_index [of S cid] by simp_all
  have gone: "\<exists>x. deadline d (session_key S cid) = Some x \<and> x \<le> unat now"
    if "rd_exists R d (session_key S cid)" "\<not> rd_exists R ?d (session_key S cid)" for cid
    using t that session_key_index [of S cid] by simp
  show "redis_ok R clock deadline J S n ?d"
    using ok kept by (simp add: redis_ok_def stored_def)
  have "live u (redis_entries R J S ?d) cid = live u (redis_entries R J S d) cid" if u: "now \<le> u" for u cid
  proof (cases "rd_exists R ?d (session_key S cid)")
    case True
    with kept [OF True] show ?thesis by (simp add: live_def redis_entries_def number_def)
  next
    case False
    have "live u (redis_entries R J S d) cid = None"
    proof (cases "rd_exists R d (session_key S cid)")
      case True
      then obtain e where e: "stored R J deadline d (session_key S cid) e" "unat (entry_version e) \<le> n"
        using ok unfolding redis_ok_def by blast
      moreover have "redis_entries R J S d cid = Some e"
        using stored_entry [OF redis_okD(4) [OF ok] True e(1)] e(2) redis_okD(6) [OF ok] by simp
      ultimately show ?thesis using gone [OF True False] u by (auto simp: live_def stored_def word_le_nat_alt word_less_nat_alt)
    qed (simp add: live_def redis_entries_def)
    with False show ?thesis by (simp add: live_def redis_entries_def)
  qed
  then show "agrees now (redis_entries R J S ?d) (redis_entries R J S d)" by (simp add: agrees_def)
qed

text \<open>What every script finds first.\<close>

lemma redis_lookup:
  assumes ok: "redis_ok R clock deadline J S n d" and now: "unat now < 2 ^ 53" and ex: "rd_exists R d (session_key S cid)"
  obtains e where "stored R J deadline d (session_key S cid) e" "unat (entry_version e) \<le> n"
    "redis_entries R J S d cid = Some e"
    "number R d (session_key S cid) ''version'' = Some (uint (entry_version e))"
    "number R d (session_key S cid) ''expires_at_ms'' = Some (uint (entry_expires_at_ms e))"
    "lua_less_eq (Some (uint (entry_expires_at_ms e))) (lua_tonumber R (arg now)) = Some (entry_expires_at_ms e \<le> now)"
    "live now (redis_entries R J S d) cid = (if entry_expires_at_ms e \<le> now then None else Some e)"
proof -
  obtain e where e: "stored R J deadline d (session_key S cid) e" "unat (entry_version e) \<le> n"
    using ok ex unfolding redis_ok_def by blast
  then have v: "unat (entry_version e) \<le> 2 ^ 53" using redis_okD(6) [OF ok] by simp
  have ent: "redis_entries R J S d cid = Some e" by (rule stored_entry [OF redis_okD(4) [OF ok] ex e(1) v])
  have "lua_less_eq (Some (uint (entry_expires_at_ms e))) (lua_tonumber R (arg now)) = Some (entry_expires_at_ms e \<le> now)"
    using lua_okD(4) [OF redis_okD(4) [OF ok], of now] now by (simp add: lua_less_eq_def word_le_def)
  moreover have "live now (redis_entries R J S d) cid = (if entry_expires_at_ms e \<le> now then None else Some e)"
    by (auto simp: live_def ent)
  ultimately show thesis by (rule that [OF e ent stored_numbers [OF redis_okD(4) [OF ok] e(1) v]])
qed

lemma redis_lookup_none: "\<not> rd_exists R d (session_key S cid) \<Longrightarrow> live now (redis_entries R J S d) cid = None"
  by (simp add: live_def redis_entries_def)

text \<open>The three commands that write an entry.\<close>

lemma untouched_trans: "untouched R deadline ks d d' \<Longrightarrow> untouched R deadline ls d' d'' \<Longrightarrow> untouched R deadline (ks \<union> ls) d d''"
  by (auto simp: untouched_def)

lemma write_entry_result:
  assumes ok: "redis_ok R clock deadline J S n d" and v: "unat v \<le> m" "n \<le> m" "m \<le> 2 ^ 53"
    and time: "clock d = unat now" "unat now + unat ttl < 2 ^ 53"
    and data: "decode_session_record J payload = Inr rec"
  obtains d' where "write_entry R (session_key S cid) (expiry_index_key S) (u64_text cid) (uint v)
      (Some (uint (now + ttl))) (Some (uint ttl)) payload d = (d', Inr ())"
    and "redis_ok R clock deadline J S m d'"
    and "agrees now (redis_entries R J S d')
      ((redis_entries R J S d)(cid \<mapsto> \<lparr>entry_version = v, entry_record = rec, entry_expires_at_ms = now + ttl\<rparr>))"
proof -
  let ?key = "session_key S cid" and ?z = "expiry_index_key S"
  let ?e = "\<lparr>entry_version = v, entry_record = rec, entry_expires_at_ms = now + ttl\<rparr>"
  define fs where "fs = [(''version'', lua_tostring R (uint v)), (''expires_at_ms'', lua_tostring R (uint (now + ttl))), (''data'', payload)]"
  define d1 where "d1 = rd_hset R d ?key fs"
  note h = redis_okD(1) [OF ok, unfolded hash_commands_ok_def Let_def]
  have sum: "unat (now + ttl) = unat now + unat ttl" using time(2) by (simp add: unat_word_ariths)
  have d1: "untouched R deadline {?key} d d1" "clock d1 = clock d" "rd_exists R d1 ?key"
      "map_of (rev fs) f = Some b \<Longrightarrow> rd_hget R d1 ?key f = Some b" for f b
    using h session_key_index [of S cid] unfolding d1_def by blast+
  have "\<exists>d2. rd_pexpire R d1 ?key (lua_tostring R (int (unat ttl))) = Inr d2 \<and> untouched R deadline {?key} d1 d2 \<and> clock d2 = clock d1
      \<and> (if unat ttl = 0 then \<not> rd_exists R d2 ?key
         else rd_exists R d2 ?key \<and> rd_hget R d2 ?key = rd_hget R d1 ?key \<and> deadline d2 ?key = Some (clock d1 + unat ttl))"
    by (rule h [THEN conjunct2, THEN conjunct2, rule_format]) (use session_key_index [of S cid] d1(3) time(2) in simp)
  then obtain d2 where pexpire: "rd_pexpire R d1 ?key (lua_tostring R (uint ttl)) = Inr d2"
      and d2: "untouched R deadline {?key} d1 d2"
      "if unat ttl = 0 then \<not> rd_exists R d2 ?key
       else rd_exists R d2 ?key \<and> rd_hget R d2 ?key = rd_hget R d1 ?key \<and> deadline d2 ?key = Some (clock d1 + unat ttl)"
    by (elim exE conjE) simp
  define d' where "d' = rd_zadd R d2 ?z (lua_tostring R (uint (now + ttl))) (u64_text cid)"
  have d3: "untouched R deadline {?z} d2 d'"
    using redis_okD(2) [OF ok, unfolded index_commands_ok_def Let_def] unfolding d'_def by blast
  have u: "untouched R deadline {?key, ?z} d d'"
    using untouched_trans [OF untouched_trans [OF d1(1) d2(1)] d3] by (simp add: insert_commute)
  have key: "rd_exists R d' ?key = rd_exists R d2 ?key" "rd_hget R d' ?key = rd_hget R d2 ?key"
      "deadline d' ?key = deadline d2 ?key"
    using d3 session_key_index [of S cid] by (auto simp: untouched_def)
  have st: "stored R J deadline d' ?key ?e" if "unat ttl \<noteq> 0"
    using that d2(2) d1(4) data time sum by (simp add: stored_def key d1(2)) (simp add: fs_def)
  have here: "\<exists>e. stored R J deadline d' ?key e \<and> unat (entry_version e) \<le> m" if "rd_exists R d' ?key"
    by (rule exI [of _ ?e]) (use that st v(1) d2(2) in \<open>auto simp: key split: if_splits\<close>)
  note ok' = redis_update(1) [OF ok u here v(2,3)] and ents = redis_update(2) [OF ok u here v(2,3)]
  have "redis_entries R J S d' cid = (if unat ttl = 0 then None else Some ?e)"
    using d2(2) stored_entry [OF redis_okD(4) [OF ok] _ st] v by (auto simp: key redis_entries_def split: if_splits)
  then have "agrees now (redis_entries R J S d') ((redis_entries R J S d)(cid \<mapsto> ?e))"
    by (subst ents) (auto simp: agrees_def live_def unat_eq_0)
  moreover have "write_entry R ?key ?z (u64_text cid) (uint v) (Some (uint (now + ttl))) (Some (uint ttl)) payload d = (d', Inr ())"
    using pexpire by (simp add: write_entry_def Let_def d'_def d1_def fs_def)
  ultimately show thesis using ok' that by blast
qed

lemma redis_dropped:
  fixes cid member
  assumes ok: "redis_ok R clock deadline J S n d"
  defines "d' \<equiv> rd_zrem R (rd_del R d (session_key S cid)) (expiry_index_key S) member"
  shows "redis_ok R clock deadline J S n d'" and "redis_entries R J S d' = (redis_entries R J S d)(cid := None)"
    and "clock d' = clock d" and "\<not> rd_exists R d' (session_key S cid)"
proof -
  let ?key = "session_key S cid" and ?z = "expiry_index_key S"
  define d1 where "d1 = rd_del R d ?key"
  have d1: "untouched R deadline {?key} d d1" "clock d1 = clock d" "\<not> rd_exists R d1 ?key"
    using redis_okD(1) [OF ok, unfolded hash_commands_ok_def Let_def] session_key_index [of S cid] unfolding d1_def by blast+
  have d2: "untouched R deadline {?z} d1 d'" "clock d' = clock d1"
    using redis_okD(2) [OF ok, unfolded index_commands_ok_def Let_def] unfolding d'_def d1_def by blast+
  show gone: "\<not> rd_exists R d' ?key" using d2(1) d1(3) session_key_index [of S cid] by (simp add: untouched_def)
  show "clock d' = clock d" using d1 d2 by simp
  have u: "untouched R deadline {?key, ?z} d d'"
    using untouched_trans [OF d1(1) d2(1)] by (simp add: insert_commute)
  show "redis_ok R clock deadline J S n d'"
    by (rule redis_update(1) [OF ok u _ order.refl redis_okD(6) [OF ok]]) (simp add: gone)
  show "redis_entries R J S d' = (redis_entries R J S d)(cid := None)"
    using redis_update(2) [OF ok u _ order.refl redis_okD(6) [OF ok]] gone by (simp add: redis_entries_def [of R J S d' cid])
qed

lemma no_faults_request:
  "connected no_redis_faults d k = k d"
  "request no_redis_faults i d script k' = (case script d of (d, Inl e) \<Rightarrow> (d, Inl (Backend e)) | (d, Inr x) \<Rightarrow> k' d x)"
  by (simp_all add: connected_def request_def no_redis_faults_def)

lemma u64_value_uint: "u64_value R (uint w) = Inr w"
  by (simp add: u64_value_def)

lemma redis_load_result:
  assumes ok: "redis_ok R clock deadline J S n d" and now: "unat now < 2 ^ 53"
  obtains d' where "redis_load R J no_redis_faults S d cid now = (d', Inr (map_option to_versioned (live now (redis_entries R J S d) cid)))"
    and "redis_ok R clock deadline J S n d'" and "agrees now (redis_entries R J S d') (redis_entries R J S d)"
proof (cases "rd_exists R d (session_key S cid)")
  case False
  then have "redis_load R J no_redis_faults S d cid now = (d, Inr (map_option to_versioned (live now (redis_entries R J S d) cid)))"
    by (simp add: redis_load_def no_faults_request load_script_def redis_lookup_none)
  with that ok agrees_refl show thesis by blast
next
  case True
  then obtain e where e: "stored R J deadline d (session_key S cid) e" "unat (entry_version e) \<le> n"
      "redis_entries R J S d cid = Some e"
      "number R d (session_key S cid) ''version'' = Some (uint (entry_version e))"
      "number R d (session_key S cid) ''expires_at_ms'' = Some (uint (entry_expires_at_ms e))"
      "lua_less_eq (Some (uint (entry_expires_at_ms e))) (lua_tonumber R (arg now)) = Some (entry_expires_at_ms e \<le> now)"
      "live now (redis_entries R J S d) cid = (if entry_expires_at_ms e \<le> now then None else Some e)"
    by (rule redis_lookup [OF ok now])
  show thesis
  proof (cases "entry_expires_at_ms e \<le> now")
    case True
    note drop = redis_dropped [OF ok, of cid "u64_text cid"]
    show thesis
      by (rule that [OF _ drop(1)])
        (use e True \<open>rd_exists R d (session_key S cid)\<close> agrees_drop [of now "redis_entries R J S d" cid] in
          \<open>simp_all add: redis_load_def no_faults_request load_script_def drop(2) Let_def\<close>)
  next
    case False
    obtain bs where bs: "rd_hget R d (session_key S cid) ''data'' = Some bs" "decode_session_record J bs = Inr (entry_record e)"
        "unat (entry_expires_at_ms e) < 2 ^ 53"
      using e(1) unfolding stored_def by blast
    have "lua_integer R (uint (entry_version e)) = uint (entry_version e)"
        "lua_integer R (uint (entry_expires_at_ms e)) = uint (entry_expires_at_ms e)"
      using lua_okD(3) [OF redis_okD(4) [OF ok]] e(2) bs(3) redis_okD(6) [OF ok] by simp_all
    with False e bs True have "redis_load R J no_redis_faults S d cid now
        = (d, Inr (map_option to_versioned (live now (redis_entries R J S d) cid)))"
      by (simp add: redis_load_def no_faults_request load_script_def loaded_record_def u64_value_uint to_versioned_def Let_def)
    with that ok agrees_refl show thesis by blast
  qed
qed

text \<open>The state the writing scripts write to, with the entry they replace.\<close>

definition current_version :: "entry option \<Rightarrow> u64" where
  "current_version cur = (case cur of None \<Rightarrow> 0 | Some e \<Rightarrow> entry_version e)"

lemma agrees_update: "agrees now f g \<Longrightarrow> agrees now (f(cid := x)) (g(cid := x))"
  by (simp add: agrees_def live_def)

lemma redis_written:
  assumes ok: "redis_ok R clock deadline J S n d" and n: "n < 2 ^ 53"
    and ag: "agrees now (redis_entries R J S d) f" and cur: "unat (current_version cur) \<le> n"
    and time: "clock d = unat now" "unat now + unat ttl < 2 ^ 53"
    and data: "decode_session_record J payload = Inr rec"
  obtains d' where "write_entry R (session_key S cid) (expiry_index_key S) (u64_text cid)
      (lua_add R (uint (current_version cur)) 1) (lua_tonumber R (arg (saturating_add now ttl))) (lua_tonumber R (arg ttl)) payload d
      = (d', Inr ())"
    and "lua_integer R (lua_add R (uint (current_version cur)) 1) = uint (entry_version (next_entry cur rec ttl now))"
    and "redis_ok R clock deadline J S (Suc n) d'"
    and "agrees now (redis_entries R J S d') (f(cid \<mapsto> next_entry cur rec ttl now))"
proof -
  let ?v = "current_version cur"
  note lua = redis_okD(4) [OF ok]
  have v: "lua_add R (uint ?v) 1 = uint (?v + 1)" "unat (?v + 1) = unat ?v + 1"
    using lua_okD(2) [OF lua, of ?v] cur n by simp_all
  have sat: "saturating_add now ttl = now + ttl" "saturating_add ?v 1 = ?v + 1"
    using time(2) cur n by (simp_all add: saturating_add_def)
  have sum: "unat (now + ttl) = unat now + unat ttl" using time(2) by (simp add: unat_word_ariths)
  have e: "next_entry cur rec ttl now = \<lparr>entry_version = ?v + 1, entry_record = rec, entry_expires_at_ms = now + ttl\<rparr>"
    using sat by (simp add: next_entry_def current_version_def)
  have args: "lua_tonumber R (arg (now + ttl)) = Some (uint (now + ttl))" "lua_tonumber R (arg ttl) = Some (uint ttl)"
    "lua_integer R (uint (?v + 1)) = uint (?v + 1)"
    using lua_okD(3,4) [OF lua] time(2) sum v(2) cur n by simp_all
  have m: "unat (?v + 1) \<le> Suc n" "n \<le> Suc n" "Suc n \<le> 2 ^ 53" using v(2) cur n by simp_all
  obtain d' where d': "write_entry R (session_key S cid) (expiry_index_key S) (u64_text cid) (uint (?v + 1))
      (Some (uint (now + ttl))) (Some (uint ttl)) payload d = (d', Inr ())"
      "redis_ok R clock deadline J S (Suc n) d'"
      "agrees now (redis_entries R J S d')
        ((redis_entries R J S d)(cid \<mapsto> \<lparr>entry_version = ?v + 1, entry_record = rec, entry_expires_at_ms = now + ttl\<rparr>))"
    by (rule write_entry_result [OF ok m time data])
  show thesis
    by (rule that [of d']) (use d' agrees_trans [OF d'(3) agrees_update [OF ag]] in \<open>simp_all add: v(1) sat(1) args e\<close>)
qed

lemma redis_found:
  assumes ok: "redis_ok R clock deadline J S n d" and now: "unat now < 2 ^ 53"
  shows "unat (current_version (live now (redis_entries R J S d) cid)) \<le> n \<and>
      (if rd_exists R d (session_key S cid)
       then lua_less_eq (number R d (session_key S cid) ''expires_at_ms'') (lua_tonumber R (arg now))
           = Some (live now (redis_entries R J S d) cid = None)
         \<and> (live now (redis_entries R J S d) cid \<noteq> None \<longrightarrow> number R d (session_key S cid) ''version''
             = Some (uint (current_version (live now (redis_entries R J S d) cid))))
       else live now (redis_entries R J S d) cid = None)"
proof (cases "rd_exists R d (session_key S cid)")
  case True
  show ?thesis by (rule redis_lookup [OF ok now True]) (auto simp: True current_version_def)
qed (simp add: redis_lookup_none current_version_def)

lemma redis_upsert_result:
  assumes ok: "redis_ok R clock deadline J S n d" and n: "n < 2 ^ 53"
    and time: "clock d = unat now" "unat now + unat ttl < 2 ^ 53"
  defines "f \<equiv> redis_entries R J S d"
  obtains d' where "redis_upsert R J no_redis_faults S d cid rec ttl now
      = (d', Inr (to_versioned (next_entry (live now f cid) rec ttl now)))"
    and "redis_ok R clock deadline J S (Suc n) d'"
    and "agrees now (redis_entries R J S d') (f(cid \<mapsto> next_entry (live now f cid) rec ttl now))"
proof -
  let ?cur = "live now f cid" and ?key = "session_key S cid"
  have now: "unat now < 2 ^ 53" using time(2) by simp
  obtain bs where bs: "encode_session_record J rec = Inr bs" "decode_session_record J bs = Inr rec"
    by (rule serde_record [OF redis_okD(5) [OF ok]])
  note found = redis_found [OF ok now, of cid, folded f_def]
  obtain d' where d': "write_entry R ?key (expiry_index_key S) (u64_text cid)
      (lua_add R (uint (current_version ?cur)) 1) (lua_tonumber R (arg (saturating_add now ttl))) (lua_tonumber R (arg ttl)) bs d
      = (d', Inr ())"
    "lua_integer R (lua_add R (uint (current_version ?cur)) 1) = uint (entry_version (next_entry ?cur rec ttl now))"
    "redis_ok R clock deadline J S (Suc n) d'"
    "agrees now (redis_entries R J S d') (f(cid \<mapsto> next_entry ?cur rec ttl now))"
    by (rule redis_written [OF ok n agrees_refl _ time bs(2), of ?cur cid]) (use found in \<open>simp_all add: f_def\<close>)
  have "upsert_script R ?key (expiry_index_key S) (u64_text cid) bs (arg now) (arg ttl) (arg (saturating_add now ttl)) d
      = (d', Inr (uint (entry_version (next_entry ?cur rec ttl now))))"
    using found d'(1,2)
    by (cases "rd_exists R d ?key"; cases ?cur) (simp_all add: upsert_script_def current_version_def Let_def)
  then have "redis_upsert R J no_redis_faults S d cid rec ttl now
      = (d', Inr (to_versioned (next_entry ?cur rec ttl now)))"
    by (simp add: redis_upsert_def bs(1) no_faults_request u64_value_uint to_versioned_def next_entry_def Let_def)
  with that d'(3,4) show thesis by blast
qed

lemma redis_compare_and_swap_result:
  assumes ok: "redis_ok R clock deadline J S n d" and n: "n < 2 ^ 53"
    and time: "clock d = unat now" "unat now + unat ttl < 2 ^ 53"
  defines "f \<equiv> redis_entries R J S d"
  obtains d' where "redis_compare_and_swap R J no_redis_faults S d cid ev rec ttl now
      = (d', if map_option entry_version (live now f cid) = ev
             then Inr (to_versioned (next_entry (live now f cid) rec ttl now))
             else Inl (CasConflict ev (map_option entry_version (live now f cid))))"
    and "redis_ok R clock deadline J S (Suc n) d'"
    and "agrees now (redis_entries R J S d') (if map_option entry_version (live now f cid) = ev
      then f(cid \<mapsto> next_entry (live now f cid) rec ttl now) else f)"
proof -
  let ?cur = "live now f cid" and ?key = "session_key S cid" and ?z = "expiry_index_key S"
  let ?expected = "case ev of None \<Rightarrow> [] | Some v \<Rightarrow> arg v"
  have now: "unat now < 2 ^ 53" using time(2) by simp
  obtain bs where bs: "encode_session_record J rec = Inr bs" "decode_session_record J bs = Inr rec"
    by (rule serde_record [OF redis_okD(5) [OF ok]])
  note found = redis_found [OF ok now, of cid, folded f_def]
  define d1 where "d1 = (if rd_exists R d ?key \<and> ?cur = None then rd_zrem R (rd_del R d ?key) ?z (u64_text cid) else d)"
  have d1: "redis_ok R clock deadline J S n d1" "agrees now (redis_entries R J S d1) f" "clock d1 = unat now"
    using redis_dropped [OF ok, of cid "u64_text cid"] ok time(1) agrees_drop [of now f cid]
    by (auto simp: d1_def f_def agrees_refl)
  have expected: "?expected = [] \<longleftrightarrow> ev = None"
    using decimal_digits by (auto simp: arg_def u64_text_def string_bytes_def split: option.split)
  let ?rest = "\<lambda>conflict. if ?expected = [] \<and> ?cur \<noteq> None then conflict
     else if ?expected \<noteq> [] \<and> ?cur = None then (d1, Inr [0, - 1])
     else if ?expected \<noteq> [] \<and> Some (uint (current_version ?cur)) \<noteq> lua_tonumber R ?expected then conflict
     else case write_entry R ?key ?z (u64_text cid) (lua_add R (uint (current_version ?cur)) 1)
         (lua_tonumber R (arg (saturating_add now ttl))) (lua_tonumber R (arg ttl)) bs d1 of
       (d, Inl e) \<Rightarrow> (d, Inl e)
     | (d, Inr _) \<Rightarrow> (d, Inr [1, lua_integer R (lua_add R (uint (current_version ?cur)) 1)])"
  have script: "cas_script R ?key ?z (u64_text cid) ?expected bs (arg now) (arg ttl) (arg (saturating_add now ttl)) d
      = ?rest (d1, Inr [0, lua_integer R (uint (current_version ?cur))])"
    using found by (cases "rd_exists R d ?key"; cases ?cur)
      (simp_all add: cas_script_def current_version_def Let_def d1_def cong: if_cong)
  have v: "unat (current_version ?cur) < 2 ^ 53" using found n by simp
  have eq: "Some (uint (current_version ?cur)) = lua_tonumber R (arg w) \<longleftrightarrow> current_version ?cur = w" for w
    by (rule lua_okD(5) [OF redis_okD(4) [OF ok] v])
  have int: "lua_integer R (uint (current_version ?cur)) = uint (current_version ?cur)"
    using lua_okD(3) [OF redis_okD(4) [OF ok]] v by simp
  show thesis
  proof (cases "map_option entry_version ?cur = ev")
    case True
    obtain d' where d': "write_entry R ?key ?z (u64_text cid)
        (lua_add R (uint (current_version ?cur)) 1) (lua_tonumber R (arg (saturating_add now ttl))) (lua_tonumber R (arg ttl)) bs d1
        = (d', Inr ())"
      "lua_integer R (lua_add R (uint (current_version ?cur)) 1) = uint (entry_version (next_entry ?cur rec ttl now))"
      "redis_ok R clock deadline J S (Suc n) d'"
      "agrees now (redis_entries R J S d') (f(cid \<mapsto> next_entry ?cur rec ttl now))"
      by (rule redis_written [OF d1(1) n d1(2) _ d1(3) time(2) bs(2), of ?cur cid]) (use found in simp_all)
    have "cas_script R ?key ?z (u64_text cid) ?expected bs (arg now) (arg ttl) (arg (saturating_add now ttl)) d
        = (d', Inr [1, uint (entry_version (next_entry ?cur rec ttl now))])"
      using True d'(1,2) expected eq unfolding script by (cases ?cur) (auto simp: current_version_def)
    then have "redis_compare_and_swap R J no_redis_faults S d cid ev rec ttl now
        = (d', Inr (to_versioned (next_entry ?cur rec ttl now)))"
      by (simp add: redis_compare_and_swap_def bs(1) no_faults_request to_versioned_def next_entry_def Let_def)
    with that True d'(3,4) show thesis by simp
  next
    case False
    have "cas_script R ?key ?z (u64_text cid) ?expected bs (arg now) (arg ttl) (arg (saturating_add now ttl)) d
        = (d1, Inr [0, case ?cur of None \<Rightarrow> - 1 | Some e \<Rightarrow> uint (entry_version e)])"
      using False expected eq int unfolding script by (cases ?cur; cases ev) (auto simp: current_version_def)
    then have "redis_compare_and_swap R J no_redis_faults S d cid ev rec ttl now
        = (d1, Inl (CasConflict ev (map_option entry_version ?cur)))"
      by (cases ?cur) (simp_all add: redis_compare_and_swap_def bs(1) no_faults_request Let_def)
    moreover have "redis_ok R clock deadline J S (Suc n) d1" using d1(1) n by (fastforce simp: redis_ok_def)
    ultimately show thesis using that False d1(2) by simp
  qed
qed

lemma redis_delete_result:
  "redis_delete R no_redis_faults S d cid
     = (rd_zrem R (rd_del R d (session_key S cid)) (expiry_index_key S) (u64_text cid), Inr ())"
  by (simp add: redis_delete_def no_faults_request)

lemma redis_ok_later: "redis_ok R clock deadline J S n d \<Longrightarrow> n < 2 ^ 53 \<Longrightarrow> redis_ok R clock deadline J S (Suc n) d"
  by (fastforce simp: redis_ok_def)

lemma redis_step_result:
  assumes ok: "redis_ok R clock deadline J S n d" and n: "n < 2 ^ 53" and exact: "exact_times (now, op)"
  shows "redis_ok R clock deadline J S (Suc n) (fst (redis_step R J S d (now, op)))
    \<and> snd (redis_step R J S d (now, op)) = snd (spec_step now (redis_entries R J S d) op)
    \<and> agrees now (redis_entries R J S (fst (redis_step R J S d (now, op)))) (fst (spec_step now (redis_entries R J S d) op))"
proof -
  let ?d = "rd_tick R now d" and ?f = "redis_entries R J S (rd_tick R now d)"
  note tick = tick_entries [OF ok, of now]
  have "redis_ok R clock deadline J S (Suc n) (fst (redis_step R J S d (now, op)))
    \<and> snd (redis_step R J S d (now, op)) = snd (spec_step now ?f op)
    \<and> agrees now (redis_entries R J S (fst (redis_step R J S d (now, op)))) (fst (spec_step now ?f op))"
  proof (cases op)
    case (Load cid)
    show ?thesis
      by (rule redis_load_result [OF tick(1) exact_now [OF exact], of cid])
        (simp add: Load reply_def redis_ok_later [OF _ n])
  next
    case (CompareAndSwap cid ev rec ttl)
    then have t: "unat now + unat ttl < 2 ^ 53" using exact by simp
    show ?thesis
      by (rule redis_compare_and_swap_result [OF tick(1) n tick(3) t, of cid ev rec])
        (simp add: CompareAndSwap reply_def Let_def split: if_splits)
  next
    case (Upsert cid rec ttl)
    then have t: "unat now + unat ttl < 2 ^ 53" using exact by simp
    show ?thesis
      by (rule redis_upsert_result [OF tick(1) n tick(3) t, of cid rec]) (simp add: Upsert reply_def Let_def)
  next
    case (Delete cid)
    note drop = redis_dropped [OF tick(1), of cid "u64_text cid"]
    show ?thesis
      by (simp add: Delete redis_delete_result reply_def drop(2) agrees_refl redis_ok_later [OF drop(1) n])
  qed
  then show ?thesis
    using spec_step_agrees(1) [OF tick(2), of op] agrees_trans [OF _ spec_step_agrees(2) [OF tick(2), of op]] by simp
qed

interpretation redis: bounded_store "redis_step R J S" "redis_entries R J S" "redis_ok R clock deadline J S"
    "\<lambda>n top. n < 2 ^ 53 \<and> exact_times top" for R J S clock deadline
  by unfold_locales (elim conjE, drule (2) redis_step_result, simp)+

section \<open>Scanning\<close>

text \<open>What is left of the sessions while the cleanup loop runs.\<close>

definition survivors :: "'d redis_ops \<Rightarrow> redis_store \<Rightarrow> u64 \<Rightarrow> spec_store \<Rightarrow> 'd \<Rightarrow> bool" where
  "survivors R S now f d \<longleftrightarrow>
     (\<forall>cid. rd_exists R d (session_key S cid) \<longrightarrow>
        (\<exists>e. f cid = Some e \<and> number R d (session_key S cid) ''expires_at_ms'' = Some (uint (entry_expires_at_ms e))
           \<and> now \<le> entry_expires_at_ms e))"

lemma survivors_after_tick:
  assumes ok: "redis_ok R clock deadline J S n d" and now: "unat now < 2 ^ 53"
  shows "survivors R S now (redis_entries R J S d) (rd_tick R now d)"
proof -
  let ?d = "rd_tick R now d"
  note t = redis_okD(3) [OF ok, unfolded tick_ok_def, rule_format, of now d]
  have "\<exists>e. redis_entries R J S d cid = Some e \<and> number R ?d (session_key S cid) ''expires_at_ms'' = Some (uint (entry_expires_at_ms e))
      \<and> now \<le> entry_expires_at_ms e" if "rd_exists R ?d (session_key S cid)" for cid
  proof -
    have kept: "rd_exists R d (session_key S cid)" "rd_hget R ?d (session_key S cid) = rd_hget R d (session_key S cid)"
        "\<And>x. deadline d (session_key S cid) = Some x \<Longrightarrow> unat now \<le> x"
      using t that session_key_index [of S cid] by simp_all
    show ?thesis
      by (rule redis_lookup [OF ok now kept(1)])
        (use kept(2,3) in \<open>auto simp: stored_def number_def word_le_nat_alt\<close>)
  qed
  then show ?thesis by (simp add: survivors_def)
qed

lemma survivors_untouched:
  assumes "survivors R S now f d" and "untouched R deadline {session_key S cid, expiry_index_key S} d d'"
    and "\<not> rd_exists R d' (session_key S cid)"
  shows "survivors R S now f d'"
  unfolding survivors_def
proof (intro allI impI)
  fix k assume ex: "rd_exists R d' (session_key S k)"
  with assms(3) have "k \<noteq> cid" by auto
  then have "session_key S k \<notin> {session_key S cid, expiry_index_key S}" by (simp add: session_key_inj session_key_index)
  then show "\<exists>e. f k = Some e \<and> number R d' (session_key S k) ''expires_at_ms'' = Some (uint (entry_expires_at_ms e))
      \<and> now \<le> entry_expires_at_ms e"
    using assms(1,2) ex by (simp add: survivors_def untouched_def number_def)
qed

lemma cleanup_script_result:
  assumes laws: "redis_lawful R clock deadline (expiry_index_key S)" and surv: "survivors R S now f d"
    and now: "unat now < 2 ^ 53"
    and script: "cleanup_script R (session_key S cid) (expiry_index_key S) member (arg now) d = (d', Inr deleted)"
  shows "survivors R S now f d' \<and> (deleted = 1 \<longrightarrow> (\<exists>e. f cid = Some e \<and> entry_expires_at_ms e = now))"
proof (cases "rd_exists R d (session_key S cid)")
  case False
  have "untouched R deadline {expiry_index_key S} d (rd_zrem R d (expiry_index_key S) member)"
    using laws by (simp add: redis_lawful_def index_commands_ok_def Let_def)
  then have "untouched R deadline {session_key S cid, expiry_index_key S} d d'" "\<not> rd_exists R d' (session_key S cid)"
    using False script session_key_index [of S cid] by (auto simp: cleanup_script_def untouched_def)
  with surv survivors_untouched False script show ?thesis by (fastforce simp: cleanup_script_def)
next
  case True
  then obtain e where e: "f cid = Some e" "number R d (session_key S cid) ''expires_at_ms'' = Some (uint (entry_expires_at_ms e))"
      "now \<le> entry_expires_at_ms e"
    using surv by (auto simp: survivors_def)
  have "lua_less_eq (Some (uint (entry_expires_at_ms e))) (lua_tonumber R (arg now)) = Some (entry_expires_at_ms e \<le> now)"
    using lua_okD(4) [of R now] laws now by (simp add: redis_lawful_def lua_less_eq_def word_le_def)
  then have r: "(d', deleted) = (if entry_expires_at_ms e \<le> now
      then (rd_zrem R (rd_del R d (session_key S cid)) (expiry_index_key S) member, 1) else (d, 0))"
    using script True e(2) by (cases "entry_expires_at_ms e \<le> now") (simp_all add: cleanup_script_def)
  show ?thesis
  proof (cases "entry_expires_at_ms e \<le> now")
    case True
    let ?d1 = "rd_del R d (session_key S cid)"
    have "untouched R deadline {session_key S cid} d ?d1" "\<not> rd_exists R ?d1 (session_key S cid)"
        "untouched R deadline {expiry_index_key S} ?d1 (rd_zrem R ?d1 (expiry_index_key S) member)"
      using laws session_key_index [of S cid] by (simp_all add: redis_lawful_def hash_commands_ok_def index_commands_ok_def Let_def)
    then have "untouched R deadline {session_key S cid, expiry_index_key S} d d'" "\<not> rd_exists R d' (session_key S cid)"
      using r True session_key_index [of S cid] by (auto simp: untouched_def)
    with survivors_untouched [OF surv] e True show ?thesis by auto
  qed (use r surv in simp)
qed

lemma cleanup_reports:
  assumes laws: "redis_lawful R clock deadline (expiry_index_key S)" and now: "unat now < 2 ^ 53"
  shows "survivors R S now f d \<Longrightarrow> \<forall>cid \<in> set acc. \<exists>e. f cid = Some e \<and> entry_expires_at_ms e = now \<Longrightarrow>
    cleanup R F S now i members acc d = (d', Inr removed) \<Longrightarrow> \<forall>cid \<in> set removed. \<exists>e. f cid = Some e \<and> entry_expires_at_ms e = now"
proof (induction members arbitrary: i acc d)
  case (Cons member members)
  show ?case
  proof (cases "parse_u64 member")
    case None
    with Cons show ?thesis by simp
  next
    case (Some cid)
    then obtain d1 deleted where s: "cleanup_script R (session_key S cid) (expiry_index_key S) member (arg now) d = (d1, Inr deleted)"
        "cleanup R F S now (Suc i) members (if deleted = 1 then acc @ [cid] else acc) d1 = (d', Inr removed)"
      using Cons.prems(3) by (auto simp: request_def split: option.splits prod.splits sum.splits)
    show ?thesis
      by (rule Cons.IH [OF _ _ s(2)]) (use cleanup_script_result [OF laws Cons.prems(1) now s(1)] Cons.prems(2) in auto)
  qed
qed simp

section \<open>A Redis that does what is assumed\<close>

record plain_db =
  pd_hashes :: "string \<Rightarrow> (string \<Rightarrow> bytes option) option"
  pd_deadline :: "string \<Rightarrow> nat option"
  pd_index :: "string \<Rightarrow> (nat \<times> string) list"
  pd_clock :: nat

definition bytes_value :: "bytes \<Rightarrow> nat" where
  "bytes_value bs = foldl (\<lambda>n b. 10 * n + (unat b - 48)) 0 bs"

definition plain_hget :: "plain_db \<Rightarrow> string \<Rightarrow> string \<Rightarrow> bytes option" where
  "plain_hget d k f = (case pd_hashes d k of None \<Rightarrow> None | Some h \<Rightarrow> h f)"

definition plain_hset :: "plain_db \<Rightarrow> string \<Rightarrow> (string \<times> bytes) list \<Rightarrow> plain_db" where
  "plain_hset d k fs = d\<lparr>pd_hashes := (pd_hashes d)(k \<mapsto> plain_hget d k ++ map_of (rev fs))\<rparr>"

definition plain_del :: "plain_db \<Rightarrow> string \<Rightarrow> plain_db" where
  "plain_del d k = d\<lparr>pd_hashes := (pd_hashes d)(k := None), pd_deadline := (pd_deadline d)(k := None)\<rparr>"

definition plain_pexpire :: "plain_db \<Rightarrow> string \<Rightarrow> bytes \<Rightarrow> string + plain_db" where
  "plain_pexpire d k b =
     (if 2 ^ 63 \<le> bytes_value b then Inl ''invalid expire time''
      else if bytes_value b = 0 then Inr (plain_del d k)
      else Inr (d\<lparr>pd_deadline := (pd_deadline d)(k \<mapsto> pd_clock d + bytes_value b)\<rparr>))"

definition plain_zrem :: "plain_db \<Rightarrow> string \<Rightarrow> string \<Rightarrow> plain_db" where
  "plain_zrem d z m = d\<lparr>pd_index := (pd_index d)(z := filter (\<lambda>x. snd x \<noteq> m) (pd_index d z))\<rparr>"

definition plain_zadd :: "plain_db \<Rightarrow> string \<Rightarrow> bytes \<Rightarrow> string \<Rightarrow> plain_db" where
  "plain_zadd d z x m =
     (let d = plain_zrem d z m in d\<lparr>pd_index := (pd_index d)(z := insort_key fst (bytes_value x, m) (pd_index d z))\<rparr>)"

definition plain_tick :: "u64 \<Rightarrow> plain_db \<Rightarrow> plain_db" where
  "plain_tick now d = d\<lparr>pd_clock := unat now,
     pd_hashes := (\<lambda>k. case pd_deadline d k of Some x \<Rightarrow> if x < unat now then None else pd_hashes d k | None \<Rightarrow> pd_hashes d k)\<rparr>"

definition plain_redis :: "plain_db redis_ops" where
  "plain_redis =
     \<lparr>rd_exists = (\<lambda>d k. pd_hashes d k \<noteq> None), rd_hget = plain_hget, rd_hset = plain_hset, rd_del = plain_del,
      rd_pexpire = plain_pexpire, rd_zadd = plain_zadd, rd_zrem = plain_zrem,
      rd_zrangebyscore = (\<lambda>d z x limit. take limit (map snd (filter (\<lambda>s. fst s \<le> bytes_value x) (pd_index d z)))),
      lua_tonumber = (\<lambda>bs. Some (int (bytes_value bs))), lua_tostring = (\<lambda>n. string_bytes (decimal (nat n))),
      lua_add = (+), lua_integer = (\<lambda>n. n), lua_error_text = ''not a number'',
      redis_value_error_text = (\<lambda>n. ''not an u64''), rd_tick = plain_tick\<rparr>"

definition empty_db :: plain_db where
  "empty_db = \<lparr>pd_hashes = \<lambda>_. None, pd_deadline = \<lambda>_. None, pd_index = \<lambda>_. [], pd_clock = 0\<rparr>"

lemma bytes_value_decimal: "bytes_value (string_bytes (decimal n)) = n"
proof -
  have "unat (word_of_nat (of_char c) :: u8) = of_char c" for c :: char
    by (simp add: unat_of_nat take_bit_eq_mod [symmetric])
  then have "foldl (\<lambda>n b. 10 * n + (unat b - 48)) m (string_bytes s) = foldl (\<lambda>n c. 10 * n + (of_char c - 48)) m s" for m s
    by (induction s arbitrary: m) (simp_all add: string_bytes_def)
  then show ?thesis using decimal_digits [of n] by (simp add: bytes_value_def digits_value_def)
qed

lemma plain_redis_lawful: "redis_lawful plain_redis pd_clock pd_deadline z"
  unfolding redis_lawful_def
proof (intro conjI)
  show "hash_commands_ok plain_redis pd_clock pd_deadline z"
    by (auto simp: hash_commands_ok_def untouched_def plain_redis_def plain_hset_def plain_del_def plain_pexpire_def plain_hget_def
        bytes_value_decimal Let_def fun_eq_iff)
  show "index_commands_ok plain_redis pd_clock pd_deadline z"
    by (simp add: index_commands_ok_def untouched_def plain_redis_def plain_zadd_def plain_zrem_def plain_hget_def fun_eq_iff Let_def)
  show "tick_ok plain_redis pd_clock pd_deadline z"
    by (auto simp: tick_ok_def plain_redis_def plain_tick_def plain_hget_def fun_eq_iff split: option.splits)
  show "lua_ok plain_redis"
    by (simp add: lua_ok_def plain_redis_def bytes_value_decimal)
qed

section \<open>Properties\<close>

text \<open>C12: The Redis store refines the abstract store.  When the server's clock is the caller's, any sequence of at
  most \<open>2 ^ 53\<close> loads, compare-and-swaps, upserts and deletes at non-decreasing times, none reaching past \<open>2 ^ 53\<close>
  milliseconds, gets from a server with no sessions exactly the replies of one map from identifiers to
  versioned, expiring entries, whenever Redis removes the keys whose lifetime is over.\<close>

theorem redis_refines_spec:
  assumes "redis_lawful R clock deadline (expiry_index_key S)" and "serde_ok J"
    and "\<forall>cid. \<not> rd_exists R d (session_key S cid)"
    and "sorted (map fst ops)" and "\<forall>op \<in> set ops. exact_times op" and "length ops \<le> 2 ^ 53"
  shows "snd (run (redis_step R J S) d ops) = spec_run Map.empty ops"
proof (rule redis.run_within)
  show "redis_ok R clock deadline J S 0 d" using assms(1-3) by (simp add: redis_ok_def)
  show "agrees 0 (redis_entries R J S d) Map.empty" using assms(3) by (simp add: agrees_def live_def redis_entries_def)
  show "\<forall>i < length ops. 0 + i < 2 ^ 53 \<and> exact_times (ops ! i)" using assms(5,6) by auto
qed (use assms(4) in simp_all)

abbreviation demo_redis :: redis_store where
  "demo_redis \<equiv> \<lparr>rs_key_prefix = ''todero''\<rparr>"

theorem redis_refines_spec_witness:
  "snd (run (redis_step plain_redis hex_serde demo_redis) empty_db
      [(10, Upsert 1 demo_record 5), (12, CompareAndSwap 1 (Some 1) demo_record 5), (13, CompareAndSwap 1 (Some 1) demo_record 5),
       (20, Load 1)])
    = spec_run Map.empty
      [(10, Upsert 1 demo_record 5), (12, CompareAndSwap 1 (Some 1) demo_record 5), (13, CompareAndSwap 1 (Some 1) demo_record 5),
       (20, Load 1)]"
  by (rule redis_refines_spec [OF plain_redis_lawful hex_serde_ok]) (simp_all add: plain_redis_def empty_db_def)

text \<open>A scan of the Redis store reports a session only in the millisecond in which it expires: from then on Redis
  has removed the key, and the scan passes over it in silence.\<close>

theorem redis_scan_on_the_dot:
  assumes ok: "redis_ok R clock deadline J S n d" and now: "unat now < 2 ^ 53"
    and scan: "redis_scan_expired R F S (rd_tick R now d) now limit = (d', Inr removed)"
  shows "\<forall>cid \<in> set removed. \<exists>e. redis_entries R J S d cid = Some e \<and> entry_expires_at_ms e = now"
proof -
  have laws: "redis_lawful R clock deadline (expiry_index_key S)" using ok by (simp add: redis_ok_def)
  have "removed = [] \<or> (\<exists>members. cleanup R F S now 1 members [] (rd_tick R now d) = (d', Inr removed))"
    using scan by (auto simp: redis_scan_expired_def connected_def request_def split: option.splits if_splits)
  then show ?thesis
  proof (elim disjE exE)
    fix members assume "cleanup R F S now 1 members [] (rd_tick R now d) = (d', Inr removed)"
    then show ?thesis by (rule cleanup_reports [OF laws now survivors_after_tick [OF ok now], rotated]) simp
  qed simp
qed

definition demo_db :: plain_db where
  "demo_db =
     \<lparr>pd_hashes = [session_key demo_redis 1 \<mapsto> [''version'' \<mapsto> string_bytes (decimal 1), ''expires_at_ms'' \<mapsto> string_bytes (decimal 7),
        ''data'' \<mapsto> projr (encode_session_record hex_serde demo_record)]],
      pd_deadline = [session_key demo_redis 1 \<mapsto> 7],
      pd_index = (\<lambda>_. [])(expiry_index_key demo_redis := [(7, u64_text 1)]), pd_clock = 2\<rparr>"

lemma demo_db_ok: "redis_ok plain_redis pd_clock pd_deadline hex_serde demo_redis 1 demo_db"
proof -
  let ?e = "\<lparr>entry_version = 1, entry_record = demo_record, entry_expires_at_ms = 7\<rparr>"
  obtain bs where "encode_session_record hex_serde demo_record = Inr bs" "decode_session_record hex_serde bs = Inr demo_record"
    by (rule serde_record [OF hex_serde_ok])
  then have "stored plain_redis hex_serde pd_deadline demo_db (session_key demo_redis 1) ?e"
    by (simp add: stored_def plain_redis_def plain_hget_def demo_db_def)
  moreover have "cid = 1" if "rd_exists plain_redis demo_db (session_key demo_redis cid)" for cid
    using that by (simp add: plain_redis_def demo_db_def session_key_inj split: if_splits)
  ultimately have "\<exists>e. stored plain_redis hex_serde pd_deadline demo_db (session_key demo_redis cid) e \<and> unat (entry_version e) \<le> 1"
    if "rd_exists plain_redis demo_db (session_key demo_redis cid)" for cid
    using that by (intro exI [of _ ?e]) auto
  then show ?thesis by (simp add: redis_ok_def plain_redis_lawful hex_serde_ok)
qed

theorem redis_scan_on_the_dot_witness:
  "\<forall>cid \<in> set [1]. \<exists>e. redis_entries plain_redis hex_serde demo_redis demo_db cid = Some e \<and> entry_expires_at_ms e = 7"
proof -
  have "arg 7 = string_bytes (decimal 7)" by (simp add: arg_def u64_text_def)
  then have "snd (redis_scan_expired plain_redis no_redis_faults demo_redis (rd_tick plain_redis 7 demo_db) 7 5) = Inr [1]"
    by (simp add: redis_scan_expired_def no_faults_request plain_redis_def plain_tick_def demo_db_def bytes_value_decimal
        parse_u64_text cleanup_script_def number_def plain_hget_def lua_less_eq_def)
  then obtain d' where "redis_scan_expired plain_redis no_redis_faults demo_redis (rd_tick plain_redis 7 demo_db) 7 5 = (d', Inr [1])"
    by (metis prod.collapse)
  from redis_scan_on_the_dot [OF demo_db_ok _ this] show ?thesis by simp
qed

text \<open>A script is not undone when a command in it fails: an upsert whose lifetime \<^verbatim>\<open>PEXPIRE\<close> rejects is reported
  as failed, and its record stays, without a lifetime and outside the expiry index.\<close>

theorem rejected_lifetime_keeps_write:
  assumes "encode_session_record J rec = Inr bs" and "\<not> rd_exists R d (session_key S cid)"
    and "lua_tonumber R (arg (saturating_add now ttl)) = Some x" and "lua_tonumber R (arg ttl) = Some t"
    and "\<And>d. rd_pexpire R d (session_key S cid) (lua_tostring R t) = Inl e"
  shows "redis_upsert R J no_redis_faults S d cid rec ttl now
    = (rd_hset R d (session_key S cid) [(''version'', lua_tostring R (lua_add R 0 1)), (''expires_at_ms'', lua_tostring R x), (''data'', bs)],
       Inl (Backend e))"
  using assms by (simp add: redis_upsert_def no_faults_request upsert_script_def write_entry_def Let_def)

end
