(* ===== verification/Client_Runtime.thy ===== *)
theory Client_Runtime
  imports Core_Timers Timers Stun_Turn
begin

text \<open>
  The client runtime of \<^verbatim>\<open>v3-client-runtime/src/lib.rs\<close>: one protocol machine with its timer table, the
  candidates it has been told of and its counters.  Every call runs the machine, counts what comes out
  and enters the timers it asks for; \<^verbatim>\<open>poll_timers\<close> fires the due entries.  A call whose machine step
  fails returns the error before anything is counted or entered.  The JSON payload of
  \<^verbatim>\<open>load_remote_candidates_from_discovery\<close> is read through the accessors of \<^verbatim>\<open>serde_json::Value\<close>, which
  are parameters.
\<close>

section \<open>Data\<close>

datatype client_runtime_event =
    ClientCore event
  | NatPairNominated nat nat u32
  | ClientTurnAction turn_action
  | ClientConsentAction consent_action

record client_runtime_output =
  cro_outbound_datagrams :: "outbound_datagram list"
  cro_events :: "client_runtime_event list"

record client_runtime_metrics =
  cm_handshake_started :: u64
  cm_handshake_established :: u64
  cm_reactivation_probe_sent :: u64
  cm_reactivated :: u64
  cm_disconnected :: u64
  cm_msr_sent :: u64
  cm_nat_pair_nominated :: u64
  cm_turn_actions :: u64
  cm_consent_actions :: u64

definition client_metrics_default :: client_runtime_metrics where
  "client_metrics_default = \<lparr>cm_handshake_started = 0, cm_handshake_established = 0,
     cm_reactivation_probe_sent = 0, cm_reactivated = 0, cm_disconnected = 0, cm_msr_sent = 0,
     cm_nat_pair_nominated = 0, cm_turn_actions = 0, cm_consent_actions = 0\<rparr>"

record client_runtime =
  cr_core :: core_machine
  cr_timers :: "timer_id timers"
  cr_local_candidates :: "ice_candidate list"
  cr_remote_candidates :: "ice_candidate list"
  cr_metrics :: client_runtime_metrics

datatype client_runtime_error =
    ClientCoreError core_error
  | InvalidCandidatePayload

type_synonym client_result = "client_runtime \<times> (client_runtime_error + client_runtime_output)"

definition client_new :: "u64 \<Rightarrow> core_config \<Rightarrow> client_runtime" where
  "client_new cid cfg =
     \<lparr>cr_core = new_machine Client cid cfg, cr_timers = [], cr_local_candidates = [],
      cr_remote_candidates = [], cr_metrics = client_metrics_default\<rparr>"

section \<open>Observing the machine\<close>

definition client_observe_event :: "client_runtime_metrics \<Rightarrow> event \<Rightarrow> client_runtime_metrics" where
  "client_observe_event ms e =
     (case e of
        HandshakeStarted \<Rightarrow> ms\<lparr>cm_handshake_started := saturating_add (cm_handshake_started ms) 1\<rparr>
      | HandshakeEstablished \<Rightarrow> ms\<lparr>cm_handshake_established := saturating_add (cm_handshake_established ms) 1\<rparr>
      | ReactivationProbeSent \<Rightarrow> ms\<lparr>cm_reactivation_probe_sent := saturating_add (cm_reactivation_probe_sent ms) 1\<rparr>
      | Reactivated \<Rightarrow> ms\<lparr>cm_reactivated := saturating_add (cm_reactivated ms) 1\<rparr>
      | Disconnected \<Rightarrow> ms\<lparr>cm_disconnected := saturating_add (cm_disconnected ms) 1\<rparr>
      | _ \<Rightarrow> ms)"

definition client_observe_datagram :: "client_runtime_metrics \<Rightarrow> outbound_datagram \<Rightarrow> client_runtime_metrics" where
  "client_observe_datagram ms d =
     (case decode (dgram_bytes d) of
        Inl _ \<Rightarrow> ms
      | Inr frame \<Rightarrow>
          if frame_type frame = Msr then ms\<lparr>cm_msr_sent := saturating_add (cm_msr_sent ms) 1\<rparr> else ms)"

fun client_ingest_timers :: "timer_action list \<Rightarrow> timer_id timers \<Rightarrow> timer_id timers" where
  "client_ingest_timers [] t = t"
| "client_ingest_timers (Schedule i d # actions) t = client_ingest_timers actions (timers_push_new d i t)"

definition client_apply_core_output :: "client_runtime \<Rightarrow> core_output \<Rightarrow> client_runtime \<times> client_runtime_output" where
  "client_apply_core_output r out =
     (r\<lparr>cr_metrics := foldl client_observe_event
          (foldl client_observe_datagram (cr_metrics r) (outbound_datagrams out)) (events out),
        cr_timers := client_ingest_timers (timer_actions out) (cr_timers r)\<rparr>,
      \<lparr>cro_outbound_datagrams = outbound_datagrams out, cro_events = map ClientCore (events out)\<rparr>)"

section \<open>Calls\<close>

text \<open>\<^verbatim>\<open>let core_out = self.core.f(..)?; Ok(self.apply_core_output(core_out))\<close>\<close>

definition client_call :: "client_runtime \<Rightarrow> core_result \<Rightarrow> client_result" where
  "client_call r res =
     (case res of
        (m, Inl e) \<Rightarrow> (r\<lparr>cr_core := m\<rparr>, Inl (ClientCoreError e))
      | (m, Inr core_out) \<Rightarrow>
          let (r', out) = client_apply_core_output (r\<lparr>cr_core := m\<rparr>) core_out in (r', Inr out))"

definition client_begin_handshake :: "client_runtime \<Rightarrow> u64 \<Rightarrow> client_result" where
  "client_begin_handshake r now = client_call r (begin_handshake (cr_core r) now)"

definition client_runtime_on_datagram :: "client_runtime \<Rightarrow> u64 \<Rightarrow> u32 \<Rightarrow> bytes \<Rightarrow> client_result" where
  "client_runtime_on_datagram r now src_path_id bs = client_call r (on_datagram (cr_core r) now src_path_id bs)"

definition client_send_message :: "client_runtime \<Rightarrow> bytes \<Rightarrow> client_result" where
  "client_send_message r payload = client_call r (on_api_send (cr_core r) payload)"

definition client_close_session :: "client_runtime \<Rightarrow> client_result" where
  "client_close_session r = client_call r (on_api_close (cr_core r))"

definition client_propose_timers :: "client_runtime \<Rightarrow> u64 \<Rightarrow> timer_proposal \<Rightarrow> client_result" where
  "client_propose_timers r now proposal = client_call r (on_api_propose_timers (cr_core r) now proposal)"

definition client_on_path_changed :: "client_runtime \<Rightarrow> u32 \<Rightarrow> client_result" where
  "client_on_path_changed r path_id = client_call r (on_path_event (cr_core r) (PathChanged path_id))"

fun client_fire :: "client_runtime \<Rightarrow> u64 \<Rightarrow> (u64 \<times> timer_id) list \<Rightarrow> client_runtime_output \<Rightarrow> client_result" where
  "client_fire r now [] out = (r, Inr out)"
| "client_fire r now ((deadline, i) # entries) out =
     (let r = r\<lparr>cr_timers := timers_take deadline i (cr_timers r)\<rparr> in
      case client_call r (on_timer (cr_core r) now i) of
        (r, Inl e) \<Rightarrow> (r, Inl e)
      | (r, Inr partial_out) \<Rightarrow> client_fire r now entries
          \<lparr>cro_outbound_datagrams = cro_outbound_datagrams out @ cro_outbound_datagrams partial_out,
           cro_events = cro_events out @ cro_events partial_out\<rparr>)"

definition client_poll_timers :: "client_runtime \<Rightarrow> u64 \<Rightarrow> nat \<Rightarrow> client_result" where
  "client_poll_timers r now limit =
     client_fire r now (collect_due now limit (cr_timers r)) \<lparr>cro_outbound_datagrams = [], cro_events = []\<rparr>"

definition client_set_local_candidates :: "client_runtime \<Rightarrow> ice_candidate list \<Rightarrow> client_runtime" where
  "client_set_local_candidates r cs = r\<lparr>cr_local_candidates := cs\<rparr>"

definition client_set_remote_candidates :: "client_runtime \<Rightarrow> ice_candidate list \<Rightarrow> client_runtime" where
  "client_set_remote_candidates r cs = r\<lparr>cr_remote_candidates := cs\<rparr>"

text \<open>Three calls are kept for compatibility and do nothing.\<close>

definition client_set_relay_policy :: "client_runtime \<Rightarrow> relay_policy \<Rightarrow> client_runtime" where
  "client_set_relay_policy r rp = r"

definition client_run_ice_nomination :: "client_runtime \<Rightarrow> client_result" where
  "client_run_ice_nomination r = (r, Inr \<lparr>cro_outbound_datagrams = [], cro_events = []\<rparr>)"

definition client_on_nat_tick :: "client_runtime \<Rightarrow> u64 \<Rightarrow> client_runtime \<times> client_runtime_output" where
  "client_on_nat_tick r now = (r, \<lparr>cro_outbound_datagrams = [], cro_events = []\<rparr>)"

section \<open>Discovery\<close>

text \<open>The accessors of \<^verbatim>\<open>serde_json::Value\<close> and \<^verbatim>\<open>str::parse::<IpAddr>\<close>.\<close>

record 'v json_ops =
  json_get :: "'v \<Rightarrow> string \<Rightarrow> 'v option"
  json_array :: "'v \<Rightarrow> 'v list option"
  json_str :: "'v \<Rightarrow> string option"
  json_u64 :: "'v \<Rightarrow> u64 option"
  parse_ip :: "string \<Rightarrow> ip_addr option"

definition json_field :: "('v \<Rightarrow> string \<Rightarrow> 'v option) \<Rightarrow> ('v \<Rightarrow> 'a option) \<Rightarrow> 'v \<Rightarrow> string \<Rightarrow> 'a option" where
  "json_field getf read v key = (case getf v key of None \<Rightarrow> None | Some w \<Rightarrow> read w)"

definition parse_candidate :: "'v json_ops \<Rightarrow> 'v \<Rightarrow> ice_candidate option" where
  "parse_candidate J c =
     (case json_field (json_get J) (json_str J) c ''address'' of
        None \<Rightarrow> None
      | Some addr \<Rightarrow>
         (case json_field (json_get J) (json_u64 J) c ''port'' of
            None \<Rightarrow> None
          | Some pt \<Rightarrow>
              let kind = (case json_field (json_get J) (json_str J) c ''type'' of None \<Rightarrow> ''host'' | Some s \<Rightarrow> s) in
              case parse_ip J addr of
                None \<Rightarrow> None
              | Some ip \<Rightarrow> Some
                 \<lparr>ic_foundation = (case json_field (json_get J) (json_str J) c ''foundation'' of
                    None \<Rightarrow> ''remote'' | Some s \<Rightarrow> s),
                  ic_component = 1, ic_transport = ''udp'',
                  ic_priority = ucast (case json_field (json_get J) (json_u64 J) c ''priority'' of
                    None \<Rightarrow> 100 | Some n \<Rightarrow> n),
                  ic_address = ip, ic_port = ucast pt,
                  ic_typ = (if kind = ''relay'' then Relay else if kind = ''srflx'' then Srflx else Host),
                  ic_related_address = None, ic_related_port = None\<rparr>))"

fun parse_candidates :: "'v json_ops \<Rightarrow> 'v list \<Rightarrow> ice_candidate list option" where
  "parse_candidates J [] = Some []"
| "parse_candidates J (c # cs) =
     (case parse_candidate J c of
        None \<Rightarrow> None
      | Some x \<Rightarrow> map_option ((#) x) (parse_candidates J cs))"

definition client_load_remote_candidates ::
    "'v json_ops \<Rightarrow> client_runtime \<Rightarrow> 'v \<Rightarrow> client_runtime \<times> (client_runtime_error + nat)" where
  "client_load_remote_candidates J r payload =
     (case json_field (json_get J) (json_array J) payload ''candidates'' of
        None \<Rightarrow> (r, Inl InvalidCandidatePayload)
      | Some cs \<Rightarrow>
         (case parse_candidates J cs of
            None \<Rightarrow> (r, Inl InvalidCandidatePayload)
          | Some parsed \<Rightarrow> (r\<lparr>cr_remote_candidates := parsed\<rparr>, Inr (length parsed))))"

section \<open>The watchdog\<close>

lemma client_ingest_ok [simp]: "bmap_ok t \<Longrightarrow> bmap_ok (client_ingest_timers acts t)"
  by (induction acts t rule: client_ingest_timers.induct) auto

lemma client_ingest_pending:
  "bmap_ok t \<Longrightarrow> pending (client_ingest_timers acts t) x \<longleftrightarrow> pending t x \<or> (\<exists>d. Schedule x d \<in> set acts)"
  by (induction acts t rule: client_ingest_timers.induct) auto

definition client_ok :: "client_runtime \<Rightarrow> bool" where
  "client_ok r \<longleftrightarrow> bmap_ok (cr_timers r) \<and> core_role (cr_core r) = Client \<and> watched (cr_core r)
     \<and> (alive (cr_core r) \<longrightarrow> (\<forall>t \<in> watches Client. pending (cr_timers r) t))"

lemma client_call_state [simp]:
  "cr_core (fst (client_call r res)) = fst res"
  "cr_timers (fst (client_call r res)) = (case snd res of Inl _ \<Rightarrow> cr_timers r
     | Inr out \<Rightarrow> client_ingest_timers (timer_actions out) (cr_timers r))"
  by (auto simp: client_call_def client_apply_core_output_def split: prod.split sum.split)

lemma client_call_ok:
  assumes ok: "client_ok r" and core: "res = core_step (cr_core r) i"
  shows "client_ok (fst (client_call r res))"
proof -
  have w: "watched (cr_core r)" and c: "core_role (cr_core r) = Client" and t: "bmap_ok (cr_timers r)"
    using ok by (auto simp: client_ok_def)
  have "pending (cr_timers (fst (client_call r res))) x" if x: "alive (fst res)" "x \<in> watches Client" for x
  proof (cases "alive (cr_core r)")
    case True
    then show ?thesis using ok x(2) by (auto simp: client_ok_def client_ingest_pending split: sum.split)
  next
    case False
    then obtain out where "snd res = Inr out" "watches Client \<subseteq> timer_ids out"
      using core_step_revives [OF w, of i] x(1) c core by auto
    then show ?thesis using x(2) t by (auto simp: client_ingest_pending timer_ids_def)
  qed
  then show ?thesis
    using core_step_revives [OF w, of i] c t core by (auto simp: client_ok_def split: sum.split)
qed

lemma client_fire_step_ok:
  assumes ok: "client_ok r"
  shows "client_ok (fst (client_call (r\<lparr>cr_timers := timers_take d i (cr_timers r)\<rparr>) (on_timer (cr_core r) now i)))"
proof -
  have w: "watched (cr_core r)" and c: "core_role (cr_core r) = Client" and t: "bmap_ok (cr_timers r)"
    using ok by (auto simp: client_ok_def)
  obtain m' out where o: "on_timer (cr_core r) now i = (m', Inr out)" using on_timer_ok by blast
  have step: "watched m' \<and> (alive m' \<longrightarrow> alive (cr_core r)) \<and> core_role m' = Client"
    using other_revives [OF w, of "OnTimer now i"] core_step_revives [OF w, of "OnTimer now i"] o c by auto
  have "pending (client_ingest_timers (timer_actions out) (timers_take d i (cr_timers r))) x"
    if "alive m'" "x \<in> watches Client" for x
  proof (cases "x = i")
    case True
    then show ?thesis
      using on_timer_rearms [OF w o that(1)] that(2) c t by (auto simp: client_ingest_pending timer_ids_def)
  next
    case False
    then show ?thesis using ok that step t by (auto simp: client_ingest_pending client_ok_def intro: pending_take)
  qed
  then show ?thesis using step t by (auto simp: client_ok_def o)
qed

lemma client_fire_ok: "client_ok r \<Longrightarrow> client_ok (fst (client_fire r now es out))"
proof (induction es arbitrary: r out)
  case Nil
  then show ?case by simp
next
  case (Cons e es)
  obtain d i where e: "e = (d, i)" by fastforce
  let ?r = "r\<lparr>cr_timers := timers_take d i (cr_timers r)\<rparr>"
  have ok: "client_ok (fst (client_call ?r (on_timer (cr_core r) now i)))"
    by (rule client_fire_step_ok [OF Cons.prems])
  obtain r1 res where c: "client_call ?r (on_timer (cr_core r) now i) = (r1, res)" by fastforce
  show ?case
    using Cons.IH [of r1] ok c by (cases res) (auto simp: e)
qed

datatype client_input =
    ClientBegin u64
  | ClientDatagram u64 u32 bytes
  | ClientSend bytes
  | ClientClose
  | ClientPropose u64 timer_proposal
  | ClientPath u32
  | ClientPoll u64 nat

fun client_step :: "client_runtime \<Rightarrow> client_input \<Rightarrow> client_result" where
  "client_step r (ClientBegin now) = client_begin_handshake r now"
| "client_step r (ClientDatagram now path bs) = client_runtime_on_datagram r now path bs"
| "client_step r (ClientSend payload) = client_send_message r payload"
| "client_step r ClientClose = client_close_session r"
| "client_step r (ClientPropose now p) = client_propose_timers r now p"
| "client_step r (ClientPath path) = client_on_path_changed r path"
| "client_step r (ClientPoll now limit) = client_poll_timers r now limit"

lemma client_step_ok: "client_ok r \<Longrightarrow> client_ok (fst (client_step r i))"
proof (cases i)
  case (ClientPoll now limit)
  then show "client_ok r \<Longrightarrow> ?thesis" by (simp add: client_poll_timers_def client_fire_ok)
qed (auto simp: client_begin_handshake_def client_runtime_on_datagram_def client_send_message_def
    client_close_session_def client_propose_timers_def client_on_path_changed_def
    intro: client_call_ok [of _ _ "BeginHandshake _"] client_call_ok [of _ _ "OnDatagram _ _ _"]
      client_call_ok [of _ _ "ApiSend _"] client_call_ok [of _ _ ApiClose]
      client_call_ok [of _ _ "ApiProposeTimers _ _"] client_call_ok [of _ _ "OnPathEvent _"])

interpretation client: step_invariant client_step client_ok
  by unfold_locales (rule client_step_ok)

lemma client_new_ok: "client_ok (client_new cid cfg)"
  by (simp add: client_ok_def client_new_def new_machine_def watched_def alive_def)

text \<open>C26: after any sequence of calls on a client runtime, failing ones included, a client that is established or
  reactivating has both its probe timer and its disconnect timer in the timer table: polling will notice
  a silent server.\<close>

theorem client_watchdog_armed:
  assumes "r = fst (run client_step (client_new cid cfg) calls)"
    and "lifecycle (cr_core r) \<in> {Established, Reactivating}"
  shows "pending (cr_timers r) ClientProbe \<and> pending (cr_timers r) Disconnect"
proof -
  have "client_ok r" unfolding assms(1) by (rule client.run_inv [OF client_new_ok])
  then show ?thesis using assms(2) by (auto simp: client_ok_def alive_def watches_def)
qed

definition server_hello :: bytes where
  "server_hello = frame_bytes ServerHello 7 [] []"

lemma server_hello_establishes:
  "lifecycle (cr_core (fst (run client_step (client_new 7 default_config) [ClientBegin 0, ClientDatagram 1 9 server_hello])))
     = Established"
  by (simp add: client_begin_handshake_def client_runtime_on_datagram_def client_new_def begin_handshake_def
      server_hello_def on_datagram_frame new_machine_def dispatch_frame_def schedule_client_timers_def
      touch_disconnect_deadline_def case_prod_unfold Let_def)

theorem client_watchdog_armed_witness:
  "let r = fst (run client_step (client_new 7 default_config) [ClientBegin 0, ClientDatagram 1 9 server_hello])
   in pending (cr_timers r) ClientProbe \<and> pending (cr_timers r) Disconnect"
  unfolding Let_def by (rule client_watchdog_armed [OF refl]) (simp only: server_hello_establishes, simp)

section \<open>Polling\<close>

text \<open>The machine after the timers \<open>ids\<close>, and the outputs of its steps.\<close>

fun fire_all :: "core_machine \<Rightarrow> u64 \<Rightarrow> timer_id list \<Rightarrow> core_machine \<times> core_output list" where
  "fire_all m now [] = (m, [])"
| "fire_all m now (i # ids) =
     (case on_timer m now i of
        (m, Inl _) \<Rightarrow> (m, [])
      | (m, Inr out) \<Rightarrow> let (m, outs) = fire_all m now ids in (m, out # outs))"

lemma client_fire_all:
  "\<exists>out'. client_fire r now es out = (fst (client_fire r now es out), Inr out')
     \<and> cr_core (fst (client_fire r now es out)) = fst (fire_all (cr_core r) now (map snd es))
     \<and> cro_events out' = cro_events out @ map ClientCore (concat (map events (snd (fire_all (cr_core r) now (map snd es)))))
     \<and> cro_outbound_datagrams out' = cro_outbound_datagrams out
         @ concat (map outbound_datagrams (snd (fire_all (cr_core r) now (map snd es))))"
proof (induction es arbitrary: r out)
  case Nil
  then show ?case by simp
next
  case (Cons e es)
  obtain d i where e: "e = (d, i)" by fastforce
  let ?r = "r\<lparr>cr_timers := timers_take d i (cr_timers r)\<rparr>"
  obtain m' o1 where o: "on_timer (cr_core r) now i = (m', Inr o1)" using on_timer_ok by blast
  let ?r1 = "fst (client_apply_core_output (?r\<lparr>cr_core := m'\<rparr>) o1)"
  let ?o1 = "\<lparr>cro_outbound_datagrams = cro_outbound_datagrams out @ outbound_datagrams o1,
    cro_events = cro_events out @ map ClientCore (events o1)\<rparr>"
  have c: "client_call ?r (on_timer (cr_core r) now i) = (?r1,
      Inr \<lparr>cro_outbound_datagrams = outbound_datagrams o1, cro_events = map ClientCore (events o1)\<rparr>)"
    by (simp add: o client_call_def client_apply_core_output_def)
  have step: "client_fire r now (e # es) out = client_fire ?r1 now es ?o1"
    using c by (simp add: e)
  have core: "cr_core ?r1 = m'" by (simp add: client_apply_core_output_def)
  have all: "fire_all (cr_core r) now (map snd (e # es)) =
      (fst (fire_all m' now (map snd es)), o1 # snd (fire_all m' now (map snd es)))"
    by (simp add: e o case_prod_unfold Let_def)
  show ?case using Cons.IH [of ?r1 ?o1] unfolding step all core by simp
qed

text \<open>C27: polling never fails.  It fires the oldest due timers of the table, at most \<open>limit\<close> and all of
  them when they are no more, each once and in the order of their deadlines, and returns what the
  machine answers, in that order.\<close>

theorem client_poll_exact:
  "let r = fst (run client_step (client_new cid cfg) calls) in
   \<exists>r' out fired rest. client_poll_timers r now limit = (r', Inr out)
    \<and> filter_mset (\<lambda>e. fst e \<le> now) (armed (cr_timers r)) = mset (fired @ rest)
    \<and> sorted (map fst (fired @ rest)) \<and> length fired = min limit (length (fired @ rest))
    \<and> cr_core r' = fst (fire_all (cr_core r) now (map snd fired))
    \<and> cro_events out = map ClientCore (concat (map events (snd (fire_all (cr_core r) now (map snd fired)))))
    \<and> cro_outbound_datagrams out = concat (map outbound_datagrams (snd (fire_all (cr_core r) now (map snd fired))))"
proof -
  define r where "r = fst (run client_step (client_new cid cfg) calls)"
  let ?es = "collect_due now limit (cr_timers r)" and ?out = "\<lparr>cro_outbound_datagrams = [], cro_events = []\<rparr>"
  have "client_ok r" unfolding r_def by (rule client.run_inv [OF client_new_ok])
  then have "bmap_ok (cr_timers r)" by (simp add: client_ok_def)
  then obtain rest where "filter_mset (\<lambda>e. fst e \<le> now) (armed (cr_timers r)) = mset (?es @ rest)"
      "sorted (map fst (?es @ rest))" "length ?es = min limit (length (?es @ rest))"
    using collect_due_split by blast
  moreover obtain out' where "client_poll_timers r now limit = (fst (client_poll_timers r now limit), Inr out')"
      "cr_core (fst (client_poll_timers r now limit)) = fst (fire_all (cr_core r) now (map snd ?es))"
      "cro_events out' = map ClientCore (concat (map events (snd (fire_all (cr_core r) now (map snd ?es)))))"
      "cro_outbound_datagrams out' = concat (map outbound_datagrams (snd (fire_all (cr_core r) now (map snd ?es))))"
    using client_fire_all [of r now ?es ?out] by (auto simp: client_poll_timers_def)
  ultimately show ?thesis unfolding r_def [symmetric] Let_def by blast
qed

end
