(* ===== verification/Crypto.thy ===== *)
theory Crypto
  imports Prelude
begin

unbundle bit_operations_syntax

text \<open>
  The security state of \<^verbatim>\<open>v3-crypto/src/lib.rs\<close>: the replay window, per-frame authentication, the
  anti-amplification gate, and certificate expiry, rotation and revocation.  HMAC-SHA256 is a
  parameter.  The handshake adapters are in the theory \<^verbatim>\<open>Handshake\<close>.
\<close>

section \<open>Errors\<close>

datatype crypto_error =
    InvalidConfig string
  | AuthFailed string
  | Provider string

section \<open>Replay window\<close>

record replay_window =
  max_seen :: u64
  rw_bits :: u128
  window_size :: u64

definition clamp :: "u64 \<Rightarrow> u64 \<Rightarrow> u64 \<Rightarrow> u64" where
  "clamp lo hi x = (if x < lo then lo else if x > hi then hi else x)"

definition replay_new :: "u64 \<Rightarrow> replay_window" where
  "replay_new sz = \<lparr>max_seen = 0, rw_bits = 0, window_size = clamp 1 128 sz\<rparr>"

definition accept :: "replay_window \<Rightarrow> u64 \<Rightarrow> replay_window \<times> bool" where
  "accept w seq =
     (if max_seen w = 0 \<and> rw_bits w = 0 then (w\<lparr>max_seen := seq, rw_bits := 1\<rparr>, True)
      else if seq > max_seen w then
        let shift = seq - max_seen w;
            bits = (if shift \<ge> window_size w then 0 else push_bit (unat shift) (rw_bits w))
        in (w\<lparr>rw_bits := bits OR 1, max_seen := seq\<rparr>, True)
      else
        let delta = max_seen w - seq in
        if delta \<ge> window_size w then (w, False)
        else
          let mask = push_bit (unat delta) (1 :: u128) in
          if rw_bits w AND mask \<noteq> 0 then (w, False)
          else (w\<lparr>rw_bits := rw_bits w OR mask\<rparr>, True))"

text \<open>What the window promises: a sequence number is accepted when it is new and either the highest so
  far or less than the window size below the highest.\<close>

definition replay_spec :: "nat \<Rightarrow> u64 set \<Rightarrow> u64 \<Rightarrow> bool" where
  "replay_spec sz S seq \<longleftrightarrow>
     S = {} \<or> (\<forall>s \<in> S. s < seq) \<or> seq \<notin> S \<and> (\<forall>s \<in> S. unat s < unat seq + sz)"

fun replay_spec_run :: "nat \<Rightarrow> u64 set \<Rightarrow> u64 list \<Rightarrow> bool list" where
  "replay_spec_run sz S [] = []"
| "replay_spec_run sz S (x # xs) =
     (let b = replay_spec sz S x in b # replay_spec_run sz (if b then insert x S else S) xs)"

section \<open>Frame authentication\<close>

text \<open>The HMAC implementation: \<^verbatim>\<open>new_from_slice\<close> may refuse a key, \<open>hmac_tag\<close> is the tag of a message.\<close>

record hmac_ops =
  hmac_init :: "bytes \<Rightarrow> string option"
  hmac_tag :: "bytes \<Rightarrow> bytes \<Rightarrow> bytes"

record frame_auth =
  fa_key :: bytes
  fa_replay_window :: replay_window

definition frame_auth_new :: "bytes \<Rightarrow> u64 \<Rightarrow> frame_auth" where
  "frame_auth_new key sz = \<lparr>fa_key = key, fa_replay_window = replay_new sz\<rparr>"

text \<open>The concatenation of the \<^verbatim>\<open>mac.update\<close> calls.\<close>

definition mac_input :: "u64 \<Rightarrow> u64 \<Rightarrow> u32 \<Rightarrow> bytes \<Rightarrow> bytes" where
  "mac_input sequence cid path_id payload =
     to_be_bytes 8 sequence @ to_be_bytes 8 cid @ to_be_bytes 4 path_id
     @ to_be_bytes 8 (word_of_nat (length payload) :: u64) @ payload"

definition sign_inner :: "hmac_ops \<Rightarrow> bytes \<Rightarrow> u64 \<Rightarrow> u64 \<Rightarrow> u32 \<Rightarrow> bytes \<Rightarrow> crypto_error + bytes" where
  "sign_inner H key sequence cid path_id payload =
     (case hmac_init H key of
        Some e \<Rightarrow> Inl (Provider (''hmac init failed: '' @ e))
      | None \<Rightarrow> Inr (hmac_tag H key (mac_input sequence cid path_id payload)))"

definition sign :: "hmac_ops \<Rightarrow> frame_auth \<Rightarrow> u64 \<Rightarrow> u64 \<Rightarrow> u32 \<Rightarrow> bytes \<Rightarrow> crypto_error + bytes" where
  "sign H a sequence cid path_id payload = sign_inner H (fa_key a) sequence cid path_id payload"

definition verify ::
    "hmac_ops \<Rightarrow> frame_auth \<Rightarrow> u64 \<Rightarrow> u64 \<Rightarrow> u32 \<Rightarrow> bytes \<Rightarrow> bytes \<Rightarrow> frame_auth \<times> (crypto_error + unit)" where
  "verify H a sequence cid path_id payload tag =
     (let (w, ok) = accept (fa_replay_window a) sequence; a' = a\<lparr>fa_replay_window := w\<rparr> in
      if \<not> ok then (a', Inl (AuthFailed (''replay rejected for sequence='' @ decimal (unat sequence))))
      else case sign_inner H (fa_key a) sequence cid path_id payload of
        Inl e \<Rightarrow> (a', Inl e)
      | Inr expected \<Rightarrow>
         (case hmac_init H (fa_key a) of
            Some e \<Rightarrow> (a', Inl (Provider (''hmac init failed: '' @ e)))
          | None \<Rightarrow>
              if tag \<noteq> hmac_tag H (fa_key a) (mac_input sequence cid path_id payload)
              then (a', Inl (AuthFailed ''frame auth tag mismatch''))
              else if length expected \<noteq> length tag
              then (a', Inl (AuthFailed ''frame auth tag length mismatch''))
              else (a', Inr ())))"

section \<open>Anti-amplification\<close>

record amplification_gate =
  bytes_in :: u64
  bytes_out :: u64
  amplification_factor :: u64
  authenticated :: bool

definition gate_new :: "u64 \<Rightarrow> amplification_gate" where
  "gate_new factor = \<lparr>bytes_in = 0, bytes_out = 0,
     amplification_factor = (if factor < 1 then 1 else factor), authenticated = False\<rparr>"

definition gate_default :: amplification_gate where
  "gate_default = gate_new 3"

definition on_receive :: "amplification_gate \<Rightarrow> u64 \<Rightarrow> amplification_gate" where
  "on_receive g n = g\<lparr>bytes_in := saturating_add (bytes_in g) n\<rparr>"

definition can_send :: "amplification_gate \<Rightarrow> u64 \<Rightarrow> bool" where
  "can_send g n =
     (authenticated g \<or>
      saturating_add (bytes_out g) n \<le> saturating_mul (bytes_in g) (amplification_factor g))"

definition on_send :: "amplification_gate \<Rightarrow> u64 \<Rightarrow> amplification_gate \<times> bool" where
  "on_send g n =
     (if \<not> can_send g n then (g, False)
      else (g\<lparr>bytes_out := saturating_add (bytes_out g) n\<rparr>, True))"

definition mark_authenticated :: "amplification_gate \<Rightarrow> amplification_gate" where
  "mark_authenticated g = g\<lparr>authenticated := True\<rparr>"

datatype gate_op = Receive u64 | Send u64

fun gate_step :: "amplification_gate \<Rightarrow> gate_op \<Rightarrow> amplification_gate \<times> nat" where
  "gate_step g (Receive n) = (on_receive g n, 0)"
| "gate_step g (Send n) = (let (g', ok) = on_send g n in (g', if ok then unat n else 0))"

fun received :: "gate_op list \<Rightarrow> nat" where
  "received [] = 0"
| "received (Receive n # ops) = unat n + received ops"
| "received (Send n # ops) = received ops"

section \<open>Certificates\<close>

datatype mtls_policy = MtlsDisabled | MtlsOptional | MtlsRequired

definition requires_client_cert :: "mtls_policy \<Rightarrow> bool" where
  "requires_client_cert p = (p = MtlsRequired)"

record cert_metadata =
  cert_id :: string
  fingerprint_sha256_hex :: string
  not_before_ms :: u64
  not_after_ms :: u64

datatype alarm_level = AlarmNone | Warning30d | High14d | Critical7d | Expired

definition DAY_MS :: u64 where
  "DAY_MS = 24 * 60 * 60 * 1000"

definition expiry_alarm_level :: "u64 \<Rightarrow> cert_metadata \<Rightarrow> alarm_level" where
  "expiry_alarm_level now cert =
     (if now \<ge> not_after_ms cert then Expired
      else
        let remaining_ms = saturating_sub (not_after_ms cert) now in
        if remaining_ms \<le> 7 * DAY_MS then Critical7d
        else if remaining_ms \<le> 14 * DAY_MS then High14d
        else if remaining_ms \<le> 30 * DAY_MS then Warning30d
        else AlarmNone)"

record rotation_plan =
  old_cert_id :: string
  new_cert_id :: string
  overlap_start_ms :: u64
  overlap_end_ms :: u64
  can_rotate_without_downtime :: bool

definition plan_rotation :: "u64 \<Rightarrow> cert_metadata \<Rightarrow> cert_metadata \<Rightarrow> u64 \<Rightarrow> rotation_plan" where
  "plan_rotation now old_cert new_cert min_overlap_ms =
     (let overlap_start = max (max (not_before_ms old_cert) (not_before_ms new_cert)) now;
          overlap_end = min (not_after_ms old_cert) (not_after_ms new_cert);
          overlap = saturating_sub overlap_end overlap_start
      in \<lparr>old_cert_id = cert_id old_cert, new_cert_id = cert_id new_cert,
          overlap_start_ms = overlap_start, overlap_end_ms = overlap_end,
          can_rotate_without_downtime = (overlap \<ge> min_overlap_ms)\<rparr>)"

type_synonym revocation_list = "string list"

definition revoke_fingerprint :: "revocation_list \<Rightarrow> string \<Rightarrow> revocation_list" where
  "revoke_fingerprint l fp_hex =
     (let fp = to_ascii_lowercase fp_hex in if fp \<in> set l then l else l @ [fp])"

definition is_revoked :: "revocation_list \<Rightarrow> string \<Rightarrow> bool" where
  "is_revoked l fp_hex = (to_ascii_lowercase fp_hex \<in> set l)"

section \<open>The replay window is exact\<close>

text \<open>The window's bits record which of the numbers just below the highest have been accepted.\<close>

definition replay_ok :: "u64 set \<Rightarrow> replay_window \<Rightarrow> bool" where
  "replay_ok S w \<longleftrightarrow> 1 \<le> unat (window_size w) \<and> unat (window_size w) \<le> 128
     \<and> (if S = {} then max_seen w = 0 \<and> rw_bits w = 0
        else max_seen w \<in> S \<and> (\<forall>s \<in> S. s \<le> max_seen w)
          \<and> (\<forall>i < unat (window_size w). bit (rw_bits w) i \<longleftrightarrow> (\<exists>s \<in> S. unat s + i = unat (max_seen w))))"

lemma replay_new_ok: "replay_ok {} (replay_new sz)"
  by (auto simp: replay_ok_def replay_new_def clamp_def word_less_nat_alt not_less)

lemma mask_test: "b AND push_bit n 1 \<noteq> 0 \<longleftrightarrow> bit b n" if "n < 128" for b :: u128
proof -
  have "bit (b AND push_bit n 1) k \<longleftrightarrow> k = n \<and> bit b n" for k
    using that by (auto simp: bit_simps)
  then have "b AND push_bit n 1 = 0 \<longleftrightarrow> \<not> bit b n"
    by (metis bit_0_eq bot_apply bot_bool_def bit_word_eqI)
  then show ?thesis by blast
qed

lemma accept_first:
  "replay_ok {} w \<Longrightarrow> accept w seq = (w\<lparr>max_seen := seq, rw_bits := 1\<rparr>, True)
     \<and> replay_ok {seq} (w\<lparr>max_seen := seq, rw_bits := 1\<rparr>)"
  by (auto simp: replay_ok_def accept_def bit_1_iff)

lemma accept_not_first:
  assumes "replay_ok S w" and "S \<noteq> {}"
  shows "\<not> (max_seen w = 0 \<and> rw_bits w = 0)"
proof -
  have "0 < unat (window_size w)" "bit (rw_bits w) 0 \<longleftrightarrow> (\<exists>s \<in> S. unat s + 0 = unat (max_seen w))" "max_seen w \<in> S"
    using assms unfolding replay_ok_def by auto
  then have "bit (rw_bits w) 0" by auto
  then show ?thesis by auto
qed

lemma accept_higher:
  assumes ok: "replay_ok S w" and ne: "S \<noteq> {}" and h: "max_seen w < seq"
  shows "snd (accept w seq) \<and> replay_ok (insert seq S) (fst (accept w seq)) \<and> (\<forall>s \<in> S. s < seq)"
proof -
  let ?n = "unat (window_size w)" and ?m = "unat (max_seen w)" and ?sh = "unat (seq - max_seen w)"
  define bits where "bits = (if seq - max_seen w \<ge> window_size w then 0 else push_bit ?sh (rw_bits w)) OR 1"
  have acc: "accept w seq = (w\<lparr>rw_bits := bits, max_seen := seq\<rparr>, True)"
    using accept_not_first [OF ok ne] h unfolding accept_def bits_def by (simp add: Let_def)
  have sh: "?sh = unat seq - ?m" "?m < unat seq"
    using h by (simp_all add: unat_sub word_less_nat_alt word_le_nat_alt)
  have below: "\<forall>s \<in> S. unat s \<le> ?m" and n: "1 \<le> ?n" "?n \<le> 128"
    and bw: "\<And>i. i < ?n \<Longrightarrow> bit (rw_bits w) i \<longleftrightarrow> (\<exists>s \<in> S. unat s + i = ?m)"
    using ok ne by (auto simp: replay_ok_def word_le_nat_alt)
  have "bit bits i \<longleftrightarrow> (\<exists>s \<in> insert seq S. unat s + i = unat seq)" if i: "i < ?n" for i
  proof (cases "?n \<le> ?sh")
    case True
    then have "bit bits i \<longleftrightarrow> i = 0" by (simp add: bits_def word_le_nat_alt bit_1_iff)
    moreover have "unat s + i \<noteq> unat seq" if "s \<in> S" for s using below that sh True i by fastforce
    ultimately show ?thesis by auto
  next
    case False
    then have "bit bits i \<longleftrightarrow> ?sh \<le> i \<and> bit (rw_bits w) (i - ?sh) \<or> i = 0"
      using i n by (auto simp: bits_def word_le_nat_alt bit_simps)
    moreover have "?sh \<le> i \<Longrightarrow> bit (rw_bits w) (i - ?sh) \<longleftrightarrow> (\<exists>s \<in> S. unat s + i = unat seq)"
    proof -
      assume le: "?sh \<le> i"
      have "unat s + (i - ?sh) = ?m \<longleftrightarrow> unat s + i = unat seq" for s :: u64 using le sh by arith
      then show ?thesis using bw [of "i - ?sh"] i by simp
    qed
    moreover have "unat s + i = unat seq \<Longrightarrow> ?sh \<le> i" if "s \<in> S" for s using below that sh by fastforce
    ultimately show ?thesis by auto
  qed
  moreover have "\<forall>s \<in> S. s < seq" using below sh(2) by (auto simp: word_less_nat_alt)
  ultimately show ?thesis
    using n by (auto simp: acc replay_ok_def)
qed

lemma accept_lower:
  assumes ok: "replay_ok S w" and ne: "S \<noteq> {}" and h: "\<not> max_seen w < seq"
  shows "snd (accept w seq) = (seq \<notin> S \<and> (\<forall>s \<in> S. unat s < unat seq + unat (window_size w)))
    \<and> replay_ok (if snd (accept w seq) then insert seq S else S) (fst (accept w seq))"
proof -
  let ?n = "unat (window_size w)" and ?m = "unat (max_seen w)"
  define d where "d = unat (max_seen w - seq)"
  have d: "unat seq + d = ?m" using h by (simp add: d_def unat_sub word_less_nat_alt word_le_nat_alt not_less)
  have below: "\<forall>s \<in> S. unat s \<le> ?m" and n: "1 \<le> ?n" "?n \<le> 128" and top: "max_seen w \<in> S"
    and bw: "\<And>i. i < ?n \<Longrightarrow> bit (rw_bits w) i \<longleftrightarrow> (\<exists>s \<in> S. unat s + i = ?m)"
    using ok ne by (auto simp: replay_ok_def word_le_nat_alt)
  have near: "(\<forall>s \<in> S. unat s < unat seq + ?n) \<longleftrightarrow> d < ?n" using below top d by fastforce
  have acc: "accept w seq = (if ?n \<le> d then (w, False)
      else if bit (rw_bits w) d then (w, False) else (w\<lparr>rw_bits := rw_bits w OR push_bit d 1\<rparr>, True))"
    using accept_not_first [OF ok ne] h n mask_test [of d "rw_bits w"]
    by (auto simp: accept_def Let_def word_le_nat_alt d_def [symmetric])
  show ?thesis
  proof (cases "d < ?n")
    case False
    then show ?thesis using near ok by (simp add: acc)
  next
    case True
    have seen: "bit (rw_bits w) d \<longleftrightarrow> seq \<in> S"
      using bw [OF True] d by (metis add_right_cancel word_unat_eq_iff)
    show ?thesis
    proof (cases "seq \<in> S")
      case True
      then show ?thesis using seen ok \<open>d < ?n\<close> by (simp add: acc)
    next
      case False
      have "bit (rw_bits w OR push_bit d 1) i \<longleftrightarrow> (\<exists>s \<in> insert seq S. unat s + i = ?m)" if "i < ?n" for i
        using bw [OF that] d that n by (auto simp: bit_simps)
      moreover have "seq \<le> max_seen w" using h by simp
      ultimately have "replay_ok (insert seq S) (w\<lparr>rw_bits := rw_bits w OR push_bit d 1\<rparr>)"
        using ok ne top by (auto simp: replay_ok_def)
      then show ?thesis using False seen near \<open>d < ?n\<close> by (simp add: acc)
    qed
  qed
qed

lemma accept_size [simp]: "window_size (fst (accept w seq)) = window_size w"
  by (simp add: accept_def Let_def)

lemma accept_exact:
  assumes ok: "replay_ok S w"
  shows "snd (accept w seq) = replay_spec (unat (window_size w)) S seq
    \<and> replay_ok (if snd (accept w seq) then insert seq S else S) (fst (accept w seq))"
proof (cases "S = {}")
  case True
  then show ?thesis using ok accept_first [of w seq] by (auto simp: replay_spec_def)
next
  case ne: False
  show ?thesis
  proof (cases "max_seen w < seq")
    case True
    then show ?thesis using accept_higher [OF ok ne True] by (simp add: replay_spec_def)
  next
    case False
    have "\<not> (\<forall>s \<in> S. s < seq)" using ok ne False by (auto simp: replay_ok_def)
    then have "replay_spec (unat (window_size w)) S seq
        = (seq \<notin> S \<and> (\<forall>s \<in> S. unat s < unat seq + unat (window_size w)))"
      using ne unfolding replay_spec_def by blast
    then show ?thesis using accept_lower [OF ok ne False] by metis
  qed
qed

lemma accept_run:
  "replay_ok S w \<Longrightarrow> snd (run accept w xs) = replay_spec_run (unat (window_size w)) S xs"
proof (induction xs arbitrary: S w)
  case Nil
  then show ?case by simp
next
  case (Cons x xs)
  have "snd (run accept (fst (accept w x)) xs) = replay_spec_run (unat (window_size w))
      (if snd (accept w x) then insert x S else S) xs"
    using Cons.IH [OF conjunct2 [OF accept_exact [OF Cons.prems, of x]]] by simp
  then show ?case
    using accept_exact [OF Cons.prems, of x] by (simp add: case_prod_unfold Let_def)
qed

lemma length_replay_spec_run [simp]: "length (replay_spec_run sz S xs) = length xs"
  by (induction xs arbitrary: S) (simp_all add: Let_def)

text \<open>C14: on every sequence of calls, \<^verbatim>\<open>ReplayWindow::accept\<close> answers as the specification that remembers
  the whole set of accepted sequence numbers: a number is accepted when it is the first one, higher
  than all accepted ones, or new and less than the window size below the highest.  The window size is
  the configured one, clamped to 1..128.\<close>

theorem replay_window_exact:
  "snd (run accept (replay_new sz) xs) = replay_spec_run (unat (clamp 1 128 sz)) {} xs"
  using accept_run [OF replay_new_ok [of sz], of xs] by (simp add: replay_new_def)

section \<open>Frame authentication\<close>

record frame =
  f_sequence :: u64
  f_cid :: u64
  f_path_id :: u32
  f_payload :: bytes
  f_tag :: bytes

definition verify_frame :: "hmac_ops \<Rightarrow> frame_auth \<Rightarrow> frame \<Rightarrow> frame_auth \<times> (crypto_error + unit)" where
  "verify_frame H a f = verify H a (f_sequence f) (f_cid f) (f_path_id f) (f_payload f) (f_tag f)"

definition genuine :: "hmac_ops \<Rightarrow> bytes \<Rightarrow> frame \<Rightarrow> bool" where
  "genuine H key f =
     (sign_inner H key (f_sequence f) (f_cid f) (f_path_id f) (f_payload f) = Inr (f_tag f))"

lemma verify_state [simp]:
  "fst (verify H a sequence cid path_id payload tag)
     = a\<lparr>fa_replay_window := fst (accept (fa_replay_window a) sequence)\<rparr>"
  by (simp add: verify_def case_prod_unfold Let_def split: sum.splits option.splits)

lemma verify_ok_iff:
  "snd (verify H a sequence cid path_id payload tag) = Inr () \<longleftrightarrow>
     snd (accept (fa_replay_window a) sequence)
     \<and> sign_inner H (fa_key a) sequence cid path_id payload = Inr tag"
  by (auto simp: verify_def sign_inner_def case_prod_unfold Let_def split: option.splits)

lemma mac_input_inject:
  "mac_input s c p pl = mac_input s' c' p' pl' \<longleftrightarrow> s = s' \<and> c = c' \<and> p = p' \<and> pl = pl'"
proof
  assume "mac_input s c p pl = mac_input s' c' p' pl'"
  then have "to_be_bytes 8 s = to_be_bytes 8 s'" "to_be_bytes 8 c = to_be_bytes 8 c'"
    "to_be_bytes 4 p = to_be_bytes 4 p'" "pl = pl'"
    by (simp_all add: mac_input_def)
  then show "s = s' \<and> c = c' \<and> p = p' \<and> pl = pl'"
    using from_to_be_bytes [where 'a = 64 and n = 8] from_to_be_bytes [where 'a = 32 and n = 4] by simp metis
qed simp

text \<open>C15: \<^verbatim>\<open>verify\<close> succeeds exactly when the replay window takes the sequence number and the tag is the one
  \<^verbatim>\<open>sign\<close> makes for the same sequence number, cid, path and payload; and the bytes that are
  authenticated determine these four, so a tag never covers a second frame by a shift of the field
  boundaries.\<close>

theorem frame_auth_exact:
  "(snd (verify H a sequence cid path_id payload tag) = Inr () \<longleftrightarrow>
      snd (accept (fa_replay_window a) sequence) \<and> sign H a sequence cid path_id payload = Inr tag)
   \<and> (mac_input sequence cid path_id payload = mac_input sequence' cid' path_id' payload' \<longleftrightarrow>
      sequence = sequence' \<and> cid = cid' \<and> path_id = path_id' \<and> payload = payload')"
  by (simp add: verify_ok_iff mac_input_inject sign_def)

lemma verify_run_key [simp]: "fa_key (fst (run (verify_frame H) a fs)) = fa_key a"
  by (induction fs arbitrary: a) (simp_all add: case_prod_unfold Let_def verify_frame_def)

lemma verify_run_window:
  "fa_replay_window (fst (run (verify_frame H) a fs))
     = fst (run accept (fa_replay_window a) (map f_sequence fs))"
  by (induction fs arbitrary: a) (simp_all add: case_prod_unfold Let_def verify_frame_def)

lemma verify_run_result:
  "snd (run (verify_frame H) a fs) ! i = Inr () \<longleftrightarrow>
     snd (run accept (fa_replay_window a) (map f_sequence fs)) ! i \<and> genuine H (fa_key a) (fs ! i)"
  if "i < length fs"
  using that
proof (induction fs arbitrary: a i)
  case Nil
  then show ?case by simp
next
  case (Cons f fs)
  show ?case
  proof (cases i)
    case 0
    then show ?thesis by (simp add: case_prod_unfold Let_def verify_frame_def verify_ok_iff genuine_def)
  next
    case (Suc j)
    then show ?thesis
      using Cons.IH [of j "fst (verify_frame H a f)"] Cons.prems
      by (simp add: case_prod_unfold Let_def verify_frame_def)
  qed
qed

lemma replay_spec_run_fresh:
  "i < length xs \<Longrightarrow> replay_spec_run sz S xs ! i \<Longrightarrow> xs ! i \<notin> S
     \<and> (\<forall>j < i. replay_spec_run sz S xs ! j \<longrightarrow> xs ! j \<noteq> xs ! i)"
proof (induction xs arbitrary: S i)
  case Nil
  then show ?case by simp
next
  case (Cons x xs)
  let ?S = "if replay_spec sz S x then insert x S else S"
  show ?case
  proof (cases i)
    case 0
    then show ?thesis using Cons.prems by (auto simp: Let_def replay_spec_def)
  next
    case (Suc k)
    then have IH: "xs ! k \<notin> ?S \<and> (\<forall>j < k. replay_spec_run sz ?S xs ! j \<longrightarrow> xs ! j \<noteq> xs ! k)"
      using Cons.IH [of k ?S] Cons.prems by (simp add: Let_def)
    have "(x # xs) ! j \<noteq> xs ! k" if "j < i" "replay_spec_run sz S (x # xs) ! j" for j
      using that IH Suc by (cases j) (auto simp: Let_def split: if_splits)
    then show ?thesis using IH Suc by (auto split: if_splits)
  qed
qed

text \<open>C16: over any sequence of frames, genuine, forged or replayed, no two frames that verify carry the same
  sequence number.\<close>

theorem no_sequence_verifies_twice:
  assumes "i < j" and "j < length fs"
    and "snd (run (verify_frame H) (frame_auth_new key sz) fs) ! i = Inr ()"
    and "snd (run (verify_frame H) (frame_auth_new key sz) fs) ! j = Inr ()"
  shows "f_sequence (fs ! i) \<noteq> f_sequence (fs ! j)"
proof -
  let ?spec = "replay_spec_run (unat (window_size (replay_new sz))) {} (map f_sequence fs)"
  have "?spec ! i" "?spec ! j"
    using assms verify_run_result [of i fs H "frame_auth_new key sz"]
      verify_run_result [of j fs H "frame_auth_new key sz"] accept_run [OF replay_new_ok [of sz]]
    by (simp_all add: frame_auth_new_def)
  then show ?thesis
    using replay_spec_run_fresh [of j "map f_sequence fs"] assms(1,2) by fastforce
qed

text \<open>A stand-in for HMAC in the concrete examples: it accepts every key and appends the message to it.\<close>

definition concat_hmac :: hmac_ops where
  "concat_hmac = \<lparr>hmac_init = \<lambda>_. None, hmac_tag = \<lambda>k m. k @ m\<rparr>"

definition sample_frame :: "u64 \<Rightarrow> frame" where
  "sample_frame n = \<lparr>f_sequence = n, f_cid = 7, f_path_id = 1, f_payload = [9], f_tag = mac_input n 7 1 [9]\<rparr>"

lemma sample_genuine: "genuine concat_hmac [] (sample_frame n)"
  by (simp add: genuine_def sign_inner_def concat_hmac_def sample_frame_def)

lemma sample_frames_verify:
  "i < 2 \<Longrightarrow> snd (run (verify_frame concat_hmac) (frame_auth_new [] 64) [sample_frame 5, sample_frame 3]) ! i = Inr ()"
  by (subst verify_run_result)
    (auto simp: less_2_cases_iff frame_auth_new_def sample_genuine replay_new_def clamp_def accept_def
      sample_frame_def [of 5, THEN arg_cong [of _ _ f_sequence]] sample_frame_def [of 3, THEN arg_cong [of _ _ f_sequence]])

theorem no_sequence_verifies_twice_witness:
  "f_sequence ([sample_frame 5, sample_frame 3] ! 0) \<noteq> f_sequence ([sample_frame 5, sample_frame 3] ! 1)"
  by (rule no_sequence_verifies_twice [where H = concat_hmac and key = "[]" and sz = 64])
    (use sample_frames_verify in simp_all)

lemma accept_run_ok:
  "replay_ok S w \<Longrightarrow> \<exists>S'. S' \<subseteq> S \<union> set xs \<and> replay_ok S' (fst (run accept w xs))
     \<and> window_size (fst (run accept w xs)) = window_size w"
proof (induction xs arbitrary: S w)
  case Nil
  then show ?case by auto
next
  case (Cons x xs)
  from Cons.IH [OF conjunct2 [OF accept_exact [OF Cons.prems, of x]]] obtain S' where
    "S' \<subseteq> (if snd (accept w x) then insert x S else S) \<union> set xs"
    "replay_ok S' (fst (run accept (fst (accept w x)) xs))"
    "window_size (fst (run accept (fst (accept w x)) xs)) = window_size w"
    by auto
  then show ?case by (intro exI [of _ S']) (auto simp: case_prod_unfold Let_def split: if_splits)
qed

lemma replay_spec_run_blocked:
  "m \<in> S \<Longrightarrow> \<forall>x \<in> set xs. unat x + sz \<le> unat m \<Longrightarrow> b \<in> set (replay_spec_run sz S xs) \<Longrightarrow> \<not> b"
proof (induction xs arbitrary: S)
  case Nil
  then show ?case by simp
next
  case (Cons x xs)
  have "\<not> replay_spec sz S x"
    using Cons.prems(1,2) by (force simp: replay_spec_def word_less_nat_alt)
  then show ?case using Cons by (auto simp: Let_def)
qed

lemma accept_top:
  assumes "replay_ok S w" and "\<forall>s \<in> S. s < seq"
  shows "replay_ok (insert seq S) (fst (accept w seq))"
  using accept_exact [OF assms(1), of seq] assms(2) by (auto simp: replay_spec_def)

text \<open>\<^verbatim>\<open>verify\<close> moves the replay window before it checks the tag.  In any state of the authenticator that has
  not accepted sequence number \<open>high\<close> or a higher one, a single frame with number \<open>high\<close> and a wrong tag,
  which is reported as a tag mismatch, makes every later frame numbered at least the window size (at
  most 128) below \<open>high\<close> fail, genuine or not.\<close>

theorem forged_frame_blocks_genuine:
  assumes "a = fst (run (verify_frame H) (frame_auth_new key sz) before)"
    and "\<forall>f \<in> set before. f_sequence f < high"
    and "f_sequence forged = high" and "hmac_init H key = None" and "\<not> genuine H key forged"
    and "\<forall>f \<in> set later. unat (f_sequence f) + 128 \<le> unat high"
  shows "snd (verify_frame H a forged) = Inl (AuthFailed ''frame auth tag mismatch'')
    \<and> (\<forall>r \<in> set (snd (run (verify_frame H) (fst (verify_frame H a forged)) later)). r \<noteq> Inr ())"
proof -
  have win: "fa_replay_window a = fst (run accept (replay_new sz) (map f_sequence before))"
    and key: "fa_key a = key"
    using assms(1) by (simp_all add: verify_run_window frame_auth_new_def)
  obtain S where S: "S \<subseteq> set (map f_sequence before)" "replay_ok S (fa_replay_window a)"
    using accept_run_ok [OF replay_new_ok [of sz], of "map f_sequence before"] unfolding win by auto
  have new: "\<forall>s \<in> S. s < high" using S(1) assms(2) by auto
  let ?a = "fst (verify_frame H a forged)"
  have a: "?a = a\<lparr>fa_replay_window := fst (accept (fa_replay_window a) high)\<rparr>"
    using assms(3) by (simp add: verify_frame_def)
  have ok: "replay_ok (insert high S) (fa_replay_window ?a)"
    unfolding a using accept_top [OF S(2) new] by simp
  have taken: "snd (accept (fa_replay_window a) high)"
    using accept_exact [OF S(2), of high] new by (simp add: replay_spec_def)
  have "snd (verify_frame H a forged) = Inl (AuthFailed ''frame auth tag mismatch'')"
    using taken assms(3-5) key
    by (simp add: verify_frame_def verify_def genuine_def sign_inner_def case_prod_unfold Let_def)
  moreover have "r \<noteq> Inr ()" if r: "r \<in> set (snd (run (verify_frame H) ?a later))" for r
  proof -
    obtain i where i: "i < length later" "r = snd (run (verify_frame H) ?a later) ! i"
      using r by (auto simp: in_set_conv_nth)
    have "unat (window_size (fa_replay_window ?a)) \<le> 128" using ok by (simp add: replay_ok_def)
    then have far: "\<forall>x \<in> set (map f_sequence later). unat x + unat (window_size (fa_replay_window ?a)) \<le> unat high"
      using assms(6) by fastforce
    have "\<not> replay_spec_run (unat (window_size (fa_replay_window ?a))) (insert high S) (map f_sequence later) ! i"
      using replay_spec_run_blocked [OF insertI1 far nth_mem] i(1) by simp
    then have "\<not> snd (run accept (fa_replay_window ?a) (map f_sequence later)) ! i"
      using accept_run [OF ok] by simp
    then show ?thesis using verify_run_result [OF i(1), of H ?a] i(2) by simp
  qed
  ultimately show ?thesis by blast
qed

theorem forged_frame_blocks_genuine_witness:
  "let H = concat_hmac; forged = (sample_frame (- 1))\<lparr>f_tag := []\<rparr>;
       a = fst (verify_frame H (frame_auth_new [] 64) forged)
   in genuine H [] (sample_frame 1) \<and> snd (run (verify_frame H) a [sample_frame 1]) \<noteq> [Inr ()]"
proof -
  have "\<not> genuine concat_hmac [] ((sample_frame (- 1))\<lparr>f_tag := []\<rparr>)"
    by (simp add: genuine_def sign_inner_def concat_hmac_def sample_frame_def mac_input_def to_be_bytes_def)
  with forged_frame_blocks_genuine [where a = "frame_auth_new [] 64" and H = concat_hmac and key = "[]"
      and sz = 64 and before = "[]" and high = "- 1" and forged = "(sample_frame (- 1))\<lparr>f_tag := []\<rparr>"
      and later = "[sample_frame 1]"] show ?thesis
    by (auto simp: Let_def sample_genuine) (simp_all add: sample_frame_def concat_hmac_def unat_max_word)
qed

section \<open>Anti-amplification\<close>

text \<open>While the budget stays below the saturation point, the gate's counters are the true sums.\<close>

definition gate_ok :: "nat \<Rightarrow> nat \<Rightarrow> nat \<Rightarrow> amplification_gate \<Rightarrow> bool" where
  "gate_ok k rcvd sent g \<longleftrightarrow> \<not> authenticated g \<and> unat (amplification_factor g) = k
     \<and> unat (bytes_in g) = rcvd \<and> unat (bytes_out g) = sent \<and> 1 \<le> k \<and> sent \<le> k * rcvd"

lemma gate_new_ok: "gate_ok (max 1 (unat f)) 0 0 (gate_new f)"
  by (auto simp: gate_ok_def gate_new_def word_less_nat_alt max_def)

lemma can_send_exact:
  assumes "gate_ok k rcvd sent g" and "k * rcvd < 2 ^ 64 - 1"
  shows "can_send g n \<longleftrightarrow> sent + unat n \<le> k * rcvd"
  using assms by (auto simp: gate_ok_def can_send_def word_le_nat_alt sat_simps mult.commute)

lemma gate_step_ok:
  assumes ok: "gate_ok k rcvd sent g" and b: "k * (rcvd + received [op]) < 2 ^ 64 - 1"
  shows "gate_ok k (rcvd + received [op]) (sent + snd (gate_step g op)) (fst (gate_step g op))"
proof (cases op)
  case (Receive n)
  have "rcvd + unat n \<le> k * (rcvd + unat n)" using ok by (cases k) (simp_all add: gate_ok_def)
  also have "\<dots> < 2 ^ 64 - 1" using b Receive by simp
  finally have "rcvd + unat n < 2 ^ 64 - 1" .
  then have "unat (bytes_in (on_receive g n)) = rcvd + unat n"
    using ok by (simp add: gate_ok_def on_receive_def sat_simps)
  moreover have "sent \<le> k * (rcvd + unat n)"
    using ok by (auto simp: gate_ok_def intro: order_trans [OF _ mult_le_mono2])
  ultimately show ?thesis using ok Receive by (simp add: gate_ok_def on_receive_def)
next
  case (Send n)
  have "k * rcvd < 2 ^ 64 - 1" using b Send by simp
  then show ?thesis using ok can_send_exact [OF ok, of n] Send
    by (auto simp: gate_ok_def on_send_def sat_simps)
qed

lemma gate_run_ok:
  "gate_ok k rcvd sent g \<Longrightarrow> k * (rcvd + received ops) < 2 ^ 64 - 1 \<Longrightarrow>
   gate_ok k (rcvd + received ops) (sent + sum_list (snd (run gate_step g ops))) (fst (run gate_step g ops))"
proof (induction ops arbitrary: rcvd sent g)
  case Nil
  then show ?case by simp
next
  case (Cons op ops)
  have split: "received (op # ops) = received [op] + received ops" by (cases op) simp_all
  have "k * (rcvd + received [op]) \<le> k * (rcvd + received (op # ops))" by (simp add: split)
  then have "k * (rcvd + received [op]) < 2 ^ 64 - 1" using Cons.prems(2) by linarith
  from Cons.IH [OF gate_step_ok [OF Cons.prems(1) this]] Cons.prems(2) show ?case
    by (simp add: split add.assoc case_prod_unfold Let_def)
qed

text \<open>C38: before authentication, over any interleaving of receptions and send attempts, the bytes the gate
  lets out never exceed the factor times the bytes received, and it lets out everything within that
  budget.  The hypothesis keeps the budget below the largest \<^verbatim>\<open>u64\<close>, where the saturating
  counters would stop counting.\<close>

theorem amplification_bounded:
  assumes "max 1 (unat factor) * received ops < 2 ^ 64 - 1"
  shows "let (g, sent) = run gate_step (gate_new factor) ops; budget = max 1 (unat factor) * received ops
    in sum_list sent \<le> budget \<and> (\<forall>n. can_send g n = (sum_list sent + unat n \<le> budget))"
proof -
  let ?g = "fst (run gate_step (gate_new factor) ops)"
  have ok: "gate_ok (max 1 (unat factor)) (received ops) (sum_list (snd (run gate_step (gate_new factor) ops))) ?g"
    using gate_run_ok [OF gate_new_ok] assms by simp
  then show ?thesis
    using can_send_exact [OF ok assms] by (simp add: case_prod_unfold Let_def gate_ok_def)
qed

theorem amplification_bounded_witness:
  "let ops = [Receive 100, Send 250, Send 51, Send 50]; (g, sent) = run gate_step (gate_new 3) ops
   in sent = [0, 250, 0, 50] \<and> sum_list sent \<le> 300 \<and> can_send g 1 = (sum_list sent + unat (1 :: u64) \<le> 300)"
proof -
  have "snd (run gate_step (gate_new 3) [Receive 100, Send 250, Send 51, Send 50]) = [0, 250, 0, 50]"
    by (simp add: gate_new_def on_receive_def on_send_def can_send_def saturating_add_def saturating_mul_def)
  with amplification_bounded [of 3 "[Receive 100, Send 250, Send 51, Send 50]"] show ?thesis
    by (simp add: case_prod_unfold Let_def)
qed

section \<open>Certificate expiry, rotation and revocation\<close>

text \<open>The alarm levels in the order of urgency.\<close>

fun alarm_rank :: "alarm_level \<Rightarrow> nat" where
  "alarm_rank AlarmNone = 0"
| "alarm_rank Warning30d = 1"
| "alarm_rank High14d = 2"
| "alarm_rank Critical7d = 3"
| "alarm_rank Expired = 4"

lemma alarm_rank_inject: "alarm_rank x = alarm_rank y \<Longrightarrow> x = y"
  by (cases x; cases y) simp_all

instantiation alarm_level :: linorder
begin

definition less_eq_alarm_level :: "alarm_level \<Rightarrow> alarm_level \<Rightarrow> bool" where
  "less_eq_alarm_level x y \<longleftrightarrow> alarm_rank x \<le> alarm_rank y"

definition less_alarm_level :: "alarm_level \<Rightarrow> alarm_level \<Rightarrow> bool" where
  "less_alarm_level x y \<longleftrightarrow> alarm_rank x < alarm_rank y"

instance
  by standard (auto simp: less_eq_alarm_level_def less_alarm_level_def alarm_rank_inject)

end

definition valid_at :: "nat \<Rightarrow> cert_metadata \<Rightarrow> bool" where
  "valid_at t c \<longleftrightarrow> unat (not_before_ms c) \<le> t \<and> t < unat (not_after_ms c)"

lemma DAY_MS_val: "unat DAY_MS = 86400000" "unat (7 * DAY_MS) = 604800000"
  "unat (14 * DAY_MS) = 1209600000" "unat (30 * DAY_MS) = 2592000000"
  by (simp_all add: DAY_MS_def)

lemma alarm_rank_level:
  "alarm_rank (expiry_alarm_level now c) =
     (let e = unat (not_after_ms c); n = unat now in
      if e \<le> n then 4 else if e \<le> n + 604800000 then 3 else if e \<le> n + 1209600000 then 2
      else if e \<le> n + 2592000000 then 1 else 0)"
  by (auto simp: expiry_alarm_level_def Let_def word_le_nat_alt sat_simps DAY_MS_val)

text \<open>As time passes the alarm of a certificate only becomes more urgent, and it is \<open>Expired\<close> exactly from
  the instant \<open>not_after_ms\<close> on.\<close>

theorem alarm_monotone:
  assumes "now \<le> later"
  shows "expiry_alarm_level now c \<le> expiry_alarm_level later c
    \<and> (expiry_alarm_level now c = Expired \<longleftrightarrow> not_after_ms c \<le> now)"
proof -
  have "unat now \<le> unat later"
    using assms by (simp add: word_le_nat_alt)
  then have "expiry_alarm_level now c \<le> expiry_alarm_level later c"
    by (simp add: less_eq_alarm_level_def alarm_rank_level Let_def)
  then show ?thesis by (auto simp: expiry_alarm_level_def Let_def)
qed

theorem alarm_monotone_witness:
  "let c = \<lparr>cert_id = ''a'', fingerprint_sha256_hex = ''00'', not_before_ms = 0, not_after_ms = 1000000000\<rparr>
   in expiry_alarm_level 0 c \<le> expiry_alarm_level 1000000000 c \<and> expiry_alarm_level 0 c = High14d"
  using alarm_monotone [of 0 1000000000
      "\<lparr>cert_id = ''a'', fingerprint_sha256_hex = ''00'', not_before_ms = 0, not_after_ms = 1000000000\<rparr>"]
  by (simp add: expiry_alarm_level_def DAY_MS_def saturating_sub_def)

text \<open>For a positive minimum overlap, \<^verbatim>\<open>plan_rotation\<close> reports a rotation without downtime exactly when there
  is a period of at least that length, not before now, throughout which both certificates are valid.\<close>

theorem rotation_exact:
  assumes "0 < min_overlap_ms"
  shows "can_rotate_without_downtime (plan_rotation now old new min_overlap_ms) \<longleftrightarrow>
    (\<exists>t \<ge> unat now. \<forall>u. t \<le> u \<and> u < t + unat min_overlap_ms \<longrightarrow> valid_at u old \<and> valid_at u new)"
proof -
  define a where "a = max (max (unat (not_before_ms old)) (unat (not_before_ms new))) (unat now)"
  define b where "b = min (unat (not_after_ms old)) (unat (not_after_ms new))"
  have m: "0 < unat min_overlap_ms" using assms by (simp add: word_less_nat_alt)
  have un: "unat (max x y) = max (unat x) (unat y)" "unat (min x y) = min (unat x) (unat y)" for x y :: u64
    by (auto simp: max_def min_def word_le_nat_alt)
  have "can_rotate_without_downtime (plan_rotation now old new min_overlap_ms) \<longleftrightarrow> unat min_overlap_ms \<le> b - a"
    by (simp add: plan_rotation_def Let_def word_le_nat_alt sat_simps un a_def b_def)
  also have "\<dots> \<longleftrightarrow> a + unat min_overlap_ms \<le> b" using m by arith
  also have "\<dots> \<longleftrightarrow> (\<exists>t \<ge> unat now. \<forall>u. t \<le> u \<and> u < t + unat min_overlap_ms \<longrightarrow> valid_at u old \<and> valid_at u new)"
  proof
    assume "a + unat min_overlap_ms \<le> b"
    then show "\<exists>t \<ge> unat now. \<forall>u. t \<le> u \<and> u < t + unat min_overlap_ms \<longrightarrow> valid_at u old \<and> valid_at u new"
      by (intro exI [of _ a]) (auto simp: a_def b_def valid_at_def)
  next
    assume "\<exists>t \<ge> unat now. \<forall>u. t \<le> u \<and> u < t + unat min_overlap_ms \<longrightarrow> valid_at u old \<and> valid_at u new"
    then obtain t where t: "unat now \<le> t"
      "\<And>u. t \<le> u \<Longrightarrow> u < t + unat min_overlap_ms \<Longrightarrow> valid_at u old \<and> valid_at u new" by blast
    from t(2) [of t] t(2) [of "t + unat min_overlap_ms - 1"] t(1) m
    have "a \<le> t" "t + unat min_overlap_ms \<le> b" by (simp_all add: a_def b_def valid_at_def) linarith+
    then show "a + unat min_overlap_ms \<le> b" by simp
  qed
  finally show ?thesis .
qed

theorem rotation_exact_witness:
  "let old = \<lparr>cert_id = ''a'', fingerprint_sha256_hex = ''00'', not_before_ms = 0, not_after_ms = 100\<rparr>;
       new = \<lparr>cert_id = ''b'', fingerprint_sha256_hex = ''01'', not_before_ms = 50, not_after_ms = 200\<rparr>
   in \<exists>t \<ge> 10. \<forall>u. t \<le> u \<and> u < t + 40 \<longrightarrow> valid_at u old \<and> valid_at u new"
  using rotation_exact [of 40 10
      "\<lparr>cert_id = ''a'', fingerprint_sha256_hex = ''00'', not_before_ms = 0, not_after_ms = 100\<rparr>"
      "\<lparr>cert_id = ''b'', fingerprint_sha256_hex = ''01'', not_before_ms = 50, not_after_ms = 200\<rparr>"]
  by (simp add: plan_rotation_def saturating_sub_def Let_def)

text \<open>A fingerprint is reported revoked exactly when one that differs from it at most in the case of its
  letters was revoked before, and the list never holds a fingerprint twice.\<close>

theorem revocation_exact:
  "let l = foldl revoke_fingerprint [] fps in
   (is_revoked l fp \<longleftrightarrow> (\<exists>f \<in> set fps. to_ascii_lowercase f = to_ascii_lowercase fp)) \<and> distinct l"
proof -
  have "set (foldl revoke_fingerprint l fps) = set l \<union> to_ascii_lowercase ` set fps
      \<and> (distinct l \<longrightarrow> distinct (foldl revoke_fingerprint l fps))" for l
    by (induction fps arbitrary: l) (auto simp: revoke_fingerprint_def Let_def)
  from this [of "[]"] show ?thesis by (auto simp: Let_def is_revoked_def) (metis image_eqI)
qed

end
