(* ===== verification/Handshake.thy ===== *)
theory Handshake
  imports Crypto
begin

text \<open>
  The handshake adapters of \<^verbatim>\<open>v3-crypto/src/lib.rs\<close>: the configuration and its validation, the
  deterministic \<^verbatim>\<open>DtlsBackendAdapter\<close>, the \<^verbatim>\<open>OpenSslDtlsAdapter\<close> with its cookie exchange and
  retransmission, and the contract \<open>handshake_provider\<close> of the trait \<^verbatim>\<open>HandshakeProvider\<close>, which both
  fulfil.  The calls into OpenSSL are parameters (\<open>openssl_ops\<close>); the context they build up is the
  record \<open>ssl_context\<close>.
\<close>

section \<open>Configuration\<close>

datatype dtls_version = Dtls12 | Dtls13

datatype auth_profile = ServerAuth | MutualTls

record cipher_policy =
  min_dtls_version :: dtls_version
  allow_weak_suites :: bool

definition cipher_policy_default :: cipher_policy where
  "cipher_policy_default = \<lparr>min_dtls_version = Dtls12, allow_weak_suites = False\<rparr>"

record trust_config =
  trust_anchor_pems :: "bytes list"
  require_hostname_verification :: bool

definition trust_config_default :: trust_config where
  "trust_config_default = \<lparr>trust_anchor_pems = [], require_hostname_verification = True\<rparr>"

record client_identity_ref =
  key_id :: string
  cert_chain_ids :: "string list"

record handshake_config =
  hc_profile :: auth_profile
  hc_cipher_policy :: cipher_policy
  hc_trust :: trust_config
  hc_client_identity :: "client_identity_ref option"
  hc_expected_server_name :: "string option"

record peer_identity =
  pi_subject :: string
  pi_cert_fingerprint_sha256 :: bytes

record exporter_binding =
  eb_cid :: u64
  eb_path_id :: u32
  eb_context_hash :: bytes

type_synonym handshake_datagram = bytes

record handshake_output =
  outbound_datagrams :: "handshake_datagram list"
  ho_established :: bool
  ho_peer_identity :: "peer_identity option"
  ho_binding :: "exporter_binding option"

datatype adapter_role = ClientRole | ServerRole

definition str :: "string option \<Rightarrow> string" where
  "str s = (case s of None \<Rightarrow> '''' | Some x \<Rightarrow> x)"

definition validate_cfg :: "handshake_config \<Rightarrow> crypto_error + unit" where
  "validate_cfg cfg =
     (if allow_weak_suites (hc_cipher_policy cfg) then Inl (InvalidConfig ''weak cipher suites are not allowed'')
      else if require_hostname_verification (hc_trust cfg)
        \<and> blank_line (string_bytes (str (hc_expected_server_name cfg)))
      then Inl (InvalidConfig ''expected_server_name required when hostname verification is enabled'')
      else if hc_profile cfg = MutualTls \<and> hc_client_identity cfg = None
      then Inl (InvalidConfig ''client identity required for mutual TLS profile'')
      else Inr ())"

definition quiet :: "bool \<Rightarrow> handshake_output" where
  "quiet est = \<lparr>outbound_datagrams = [], ho_established = est, ho_peer_identity = None, ho_binding = None\<rparr>"

definition established_output :: "handshake_config \<Rightarrow> handshake_output" where
  "established_output cfg =
     \<lparr>outbound_datagrams = [], ho_established = True,
      ho_peer_identity = Some \<lparr>pi_subject = (case hc_expected_server_name cfg of None \<Rightarrow> ''peer'' | Some n \<Rightarrow> n),
        pi_cert_fingerprint_sha256 = replicate 32 7\<rparr>,
      ho_binding = Some \<lparr>eb_cid = 0, eb_path_id = 0, eb_context_hash = replicate 32 9\<rparr>\<rparr>"

definition server_output :: "bytes \<Rightarrow> handshake_output" where
  "server_output datagram =
     \<lparr>outbound_datagrams = [datagram], ho_established = True,
      ho_peer_identity = Some \<lparr>pi_subject = ''client'', pi_cert_fingerprint_sha256 = replicate 32 5\<rparr>,
      ho_binding = Some \<lparr>eb_cid = 0, eb_path_id = 0, eb_context_hash = replicate 32 11\<rparr>\<rparr>"

section \<open>The deterministic adapter\<close>

record dtls_adapter =
  da_role :: "adapter_role option"
  da_cfg :: "handshake_config option"
  da_established :: bool

definition dtls_new :: dtls_adapter where
  "dtls_new = \<lparr>da_role = None, da_cfg = None, da_established = False\<rparr>"

definition dtls_start_client ::
    "dtls_adapter \<Rightarrow> handshake_config \<Rightarrow> dtls_adapter \<times> (crypto_error + handshake_output)" where
  "dtls_start_client a cfg =
     (case validate_cfg cfg of
        Inl e \<Rightarrow> (a, Inl e)
      | Inr _ \<Rightarrow> (a\<lparr>da_role := Some ClientRole, da_cfg := Some cfg, da_established := False\<rparr>,
          Inr ((quiet False)\<lparr>outbound_datagrams := [string_bytes ''DTLS_CLIENT_HELLO'']\<rparr>)))"

definition dtls_start_server ::
    "dtls_adapter \<Rightarrow> handshake_config \<Rightarrow> dtls_adapter \<times> (crypto_error + handshake_output)" where
  "dtls_start_server a cfg =
     (case validate_cfg cfg of
        Inl e \<Rightarrow> (a, Inl e)
      | Inr _ \<Rightarrow> (a\<lparr>da_role := Some ServerRole, da_cfg := Some cfg, da_established := False\<rparr>,
          Inr (quiet False)))"

definition dtls_on_datagram ::
    "dtls_adapter \<Rightarrow> bytes \<Rightarrow> dtls_adapter \<times> (crypto_error + handshake_output)" where
  "dtls_on_datagram a datagram =
     (case da_role a of
        None \<Rightarrow> (a, Inl (Provider ''handshake not started''))
      | Some role \<Rightarrow>
         (case da_cfg a of
            None \<Rightarrow> (a, Inl (Provider ''missing config''))
          | Some cfg \<Rightarrow>
              if da_established a then (a, Inr (established_output cfg))
              else case role of
                ClientRole \<Rightarrow>
                  if datagram = string_bytes ''DTLS_SERVER_HELLO''
                  then (a\<lparr>da_established := True\<rparr>, Inr (established_output cfg))
                  else (a, Inl (AuthFailed ''unexpected handshake response''))
              | ServerRole \<Rightarrow>
                  if datagram = string_bytes ''DTLS_CLIENT_HELLO''
                  then (a\<lparr>da_established := True\<rparr>, Inr (server_output (string_bytes ''DTLS_SERVER_HELLO'')))
                  else (a, Inl (AuthFailed ''unexpected client hello''))))"

definition dtls_on_timeout :: "dtls_adapter \<Rightarrow> u64 \<Rightarrow> dtls_adapter \<times> (crypto_error + handshake_output)" where
  "dtls_on_timeout a now =
     (if da_established a then (a, Inr (quiet True))
      else (a, Inl (Provider ''handshake timed out'')))"

section \<open>The OpenSSL adapter\<close>

text \<open>What the context builder has been told.\<close>

record ssl_context =
  ctx_method :: adapter_role
  ctx_verify_peer :: bool
  ctx_fail_if_no_peer_cert :: bool
  ctx_cipher_list :: "string option"
  ctx_cert_store :: "bytes list option"
  ctx_certificate_file :: "string option"
  ctx_private_key_file :: "string option"

text \<open>The OpenSSL calls: \<open>None\<close> or \<open>Inr\<close> is success, otherwise the error's text.\<close>

record openssl_ops =
  ssl_builder_new :: "adapter_role \<Rightarrow> string option"
  ssl_set_cipher_list :: "string \<Rightarrow> string option"
  ssl_store_new :: "string option"
  ssl_stack_from_pem :: "bytes \<Rightarrow> string + bytes list"
  ssl_add_cert :: "bytes list \<Rightarrow> bytes \<Rightarrow> string option"
  ssl_set_certificate_file :: "ssl_context \<Rightarrow> string \<Rightarrow> string option"
  ssl_set_private_key_file :: "ssl_context \<Rightarrow> string \<Rightarrow> string option"
  ssl_new :: "ssl_context \<Rightarrow> string option"

fun add_certs :: "openssl_ops \<Rightarrow> nat \<Rightarrow> bytes list \<Rightarrow> bytes list \<Rightarrow> crypto_error + bytes list" where
  "add_certs X index [] st = Inr st"
| "add_certs X index (cert # certs) st =
     (case ssl_add_cert X st cert of
        Some e \<Rightarrow> Inl (InvalidConfig (''failed to add trust anchor certificate at index '' @ decimal index @ '': '' @ e))
      | None \<Rightarrow> add_certs X index certs (st @ [cert]))"

fun add_anchors :: "openssl_ops \<Rightarrow> nat \<Rightarrow> bytes list \<Rightarrow> bytes list \<Rightarrow> crypto_error + bytes list" where
  "add_anchors X index [] st = Inr st"
| "add_anchors X index (pem # pems) st =
     (case ssl_stack_from_pem X pem of
        Inl e \<Rightarrow> Inl (InvalidConfig (''invalid trust anchor bundle at index '' @ decimal index @ '': '' @ e))
      | Inr certs \<Rightarrow>
          if certs = []
          then Inl (InvalidConfig (''trust anchor bundle at index '' @ decimal index
            @ '' does not contain any certificates''))
          else case add_certs X index certs st of
            Inl e \<Rightarrow> Inl e
          | Inr st' \<Rightarrow> add_anchors X (Suc index) pems st')"

definition set_identity ::
    "openssl_ops \<Rightarrow> client_identity_ref option \<Rightarrow> ssl_context \<Rightarrow> crypto_error + ssl_context" where
  "set_identity X identity ctx =
     (case identity of
        None \<Rightarrow> Inr ctx
      | Some ident \<Rightarrow>
          case (case cert_chain_ids ident of
                  [] \<Rightarrow> Inr ctx
                | path # _ \<Rightarrow>
                   (case ssl_set_certificate_file X ctx path of
                      Some e \<Rightarrow> Inl (InvalidConfig (''invalid client certificate file '' @ [CHR 0x27] @ path
                        @ [CHR 0x27] @ '': '' @ e))
                    | None \<Rightarrow> Inr (ctx\<lparr>ctx_certificate_file := Some path\<rparr>))) of
            Inl e \<Rightarrow> Inl e
          | Inr ctx \<Rightarrow>
             (case ssl_set_private_key_file X ctx (key_id ident) of
                Some e \<Rightarrow> Inl (InvalidConfig (''invalid client private key file '' @ [CHR 0x27] @ key_id ident
                  @ [CHR 0x27] @ '': '' @ e))
              | None \<Rightarrow> Inr (ctx\<lparr>ctx_private_key_file := Some (key_id ident)\<rparr>)))"

definition set_trust_store ::
    "openssl_ops \<Rightarrow> bytes list \<Rightarrow> ssl_context \<Rightarrow> crypto_error + ssl_context" where
  "set_trust_store X pems ctx =
     (if pems = [] then Inr ctx
      else case ssl_store_new X of
        Some e \<Rightarrow> Inl (Provider (''openssl trust store build failed: '' @ e))
      | None \<Rightarrow>
         (case add_anchors X 0 pems [] of
            Inl e \<Rightarrow> Inl e
          | Inr st \<Rightarrow> Inr (ctx\<lparr>ctx_cert_store := Some st\<rparr>)))"

definition set_ciphers :: "openssl_ops \<Rightarrow> bool \<Rightarrow> ssl_context \<Rightarrow> crypto_error + ssl_context" where
  "set_ciphers X weak ctx =
     (if weak then Inr ctx
      else case ssl_set_cipher_list X ''HIGH:!aNULL:!MD5:!RC4:!DES:!3DES'' of
        Some e \<Rightarrow> Inl (InvalidConfig (''cipher policy reject: '' @ e))
      | None \<Rightarrow> Inr (ctx\<lparr>ctx_cipher_list := Some ''HIGH:!aNULL:!MD5:!RC4:!DES:!3DES''\<rparr>))"

definition build_context ::
    "openssl_ops \<Rightarrow> adapter_role \<Rightarrow> handshake_config \<Rightarrow> crypto_error + ssl_context" where
  "build_context X role cfg =
     (case validate_cfg cfg of
        Inl e \<Rightarrow> Inl e
      | Inr _ \<Rightarrow>
          if min_dtls_version (hc_cipher_policy cfg) = Dtls13
          then Inl (InvalidConfig ''DTLS 1.3 policy requested but OpenSSL adapter currently targets DTLS 1.2'')
          else case ssl_builder_new X role of
            Some e \<Rightarrow> Inl (Provider (''openssl context build failed: '' @ e))
          | None \<Rightarrow>
              let ctx = \<lparr>ctx_method = role, ctx_verify_peer = True,
                    ctx_fail_if_no_peer_cert = (hc_profile cfg = MutualTls), ctx_cipher_list = None,
                    ctx_cert_store = None, ctx_certificate_file = None, ctx_private_key_file = None\<rparr>
              in if role = ClientRole \<and> trust_anchor_pems (hc_trust cfg) = []
                 then Inl (InvalidConfig ''at least one trust anchor is required for client TLS'')
                 else case set_ciphers X (allow_weak_suites (hc_cipher_policy cfg)) ctx of
                   Inl e \<Rightarrow> Inl e
                 | Inr ctx \<Rightarrow>
                    (case set_trust_store X (trust_anchor_pems (hc_trust cfg)) ctx of
                       Inl e \<Rightarrow> Inl e
                     | Inr ctx \<Rightarrow> set_identity X (hc_client_identity cfg) ctx))"

record openssl_adapter =
  oa_role :: "adapter_role option"
  oa_cfg :: "handshake_config option"
  oa_established :: bool
  oa_ctx :: "ssl_context option"
  oa_ssl :: "ssl_context option"
  oa_last_flight :: "handshake_datagram list"
  oa_next_retransmit_at_ms :: "u64 option"
  oa_flight_rto_ms :: u64
  oa_issued_cookie :: "string option"

definition openssl_new :: openssl_adapter where
  "openssl_new = \<lparr>oa_role = None, oa_cfg = None, oa_established = False, oa_ctx = None, oa_ssl = None,
     oa_last_flight = [], oa_next_retransmit_at_ms = None, oa_flight_rto_ms = 1000, oa_issued_cookie = None\<rparr>"

definition queue_flight ::
    "openssl_adapter \<Rightarrow> u64 \<Rightarrow> handshake_datagram list \<Rightarrow> openssl_adapter \<times> handshake_output" where
  "queue_flight a now datagrams =
     (a\<lparr>oa_last_flight := datagrams,
        oa_next_retransmit_at_ms := Some (saturating_add now (oa_flight_rto_ms a))\<rparr>,
      (quiet (oa_established a))\<lparr>outbound_datagrams := datagrams\<rparr>)"

definition adapter_cfg :: "openssl_adapter \<Rightarrow> crypto_error + handshake_config" where
  "adapter_cfg a = (case oa_cfg a of None \<Rightarrow> Inl (Provider ''missing config'') | Some cfg \<Rightarrow> Inr cfg)"

text \<open>\<^verbatim>\<open>parse_kv\<close> reads a datagram that is not UTF-8 as the empty string.\<close>

definition parse_kv :: "bytes \<Rightarrow> string \<times> string option" where
  "parse_kv datagram =
     (let raw = (if valid_utf8 datagram then bytes_string datagram else '''') in
      case split_once ''|'' raw of
        Some (head, tail) \<Rightarrow> (head, Some (dropWhile (\<lambda>c. c = CHR ''|'') tail))
      | None \<Rightarrow> (raw, None))"

definition kv_value :: "string \<Rightarrow> string option \<Rightarrow> string option" where
  "kv_value key kv = (case kv of None \<Rightarrow> None | Some k \<Rightarrow> map_option snd (split_once key k))"

definition openssl_start_client ::
    "openssl_ops \<Rightarrow> openssl_adapter \<Rightarrow> handshake_config \<Rightarrow> openssl_adapter \<times> (crypto_error + handshake_output)" where
  "openssl_start_client X a cfg =
     (case build_context X ClientRole cfg of
        Inl e \<Rightarrow> (a, Inl e)
      | Inr ctx \<Rightarrow>
         (case ssl_new X ctx of
            Some e \<Rightarrow> (a, Inl (Provider (''openssl ssl init failed: '' @ e)))
          | None \<Rightarrow>
              let a = a\<lparr>oa_role := Some ClientRole, oa_cfg := Some cfg, oa_established := False,
                    oa_ctx := Some ctx, oa_ssl := Some ctx\<rparr>;
                  sni = (case hc_expected_server_name cfg of None \<Rightarrow> ''peer'' | Some n \<Rightarrow> n);
                  (a, out) = queue_flight a 0 [string_bytes (''DTLS_CLIENT_HELLO|sni='' @ sni)]
              in (a, Inr out)))"

definition openssl_start_server ::
    "openssl_ops \<Rightarrow> openssl_adapter \<Rightarrow> handshake_config \<Rightarrow> openssl_adapter \<times> (crypto_error + handshake_output)" where
  "openssl_start_server X a cfg =
     (case build_context X ServerRole cfg of
        Inl e \<Rightarrow> (a, Inl e)
      | Inr ctx \<Rightarrow>
         (case ssl_new X ctx of
            Some e \<Rightarrow> (a, Inl (Provider (''openssl ssl init failed: '' @ e)))
          | None \<Rightarrow>
              (a\<lparr>oa_role := Some ServerRole, oa_cfg := Some cfg, oa_established := False,
                 oa_ctx := Some ctx, oa_ssl := Some ctx, oa_last_flight := [],
                 oa_next_retransmit_at_ms := None, oa_issued_cookie := None\<rparr>,
               Inr (quiet False))))"

definition client_on_datagram ::
    "openssl_adapter \<Rightarrow> handshake_config \<Rightarrow> string \<Rightarrow> string option
      \<Rightarrow> openssl_adapter \<times> (crypto_error + handshake_output)" where
  "client_on_datagram a cfg head kv =
     (if head = ''DTLS_HELLO_VERIFY'' then
        (case kv_value ''cookie='' kv of
           None \<Rightarrow> (a, Inl (AuthFailed ''missing hello-verify cookie''))
         | Some cookie \<Rightarrow>
             let (a, out) = queue_flight a 0 [string_bytes (''DTLS_CLIENT_HELLO_COOKIE|cookie='' @ cookie)]
             in (a, Inr out))
      else if head = ''DTLS_SERVER_HELLO'' then
        let sni = str (kv_value ''sni='' kv); expected = str (hc_expected_server_name cfg) in
        if require_hostname_verification (hc_trust cfg) \<and> sni \<noteq> expected
        then (a, Inl (AuthFailed (''server identity mismatch expected '' @ [CHR 0x27] @ expected
          @ [CHR 0x27] @ '' got '' @ [CHR 0x27] @ sni @ [CHR 0x27])))
        else (a\<lparr>oa_established := True, oa_next_retransmit_at_ms := None\<rparr>, Inr (established_output cfg))
      else (a, Inl (AuthFailed ''unexpected handshake response'')))"

definition server_on_datagram ::
    "openssl_adapter \<Rightarrow> handshake_config \<Rightarrow> string \<Rightarrow> string option
      \<Rightarrow> openssl_adapter \<times> (crypto_error + handshake_output)" where
  "server_on_datagram a cfg head kv =
     (if head = ''DTLS_CLIENT_HELLO'' then
        let cookie = ''cookie-v3'';
            (a, out) = queue_flight (a\<lparr>oa_issued_cookie := Some cookie\<rparr>) 0
              [string_bytes (''DTLS_HELLO_VERIFY|cookie='' @ cookie)]
        in (a, Inr out)
      else if head = ''DTLS_CLIENT_HELLO_COOKIE'' then
        let cookie = str (kv_value ''cookie='' kv) in
        if str (oa_issued_cookie a) \<noteq> cookie
        then (a, Inl (AuthFailed ''invalid or missing hello-verify cookie''))
        else
          let sni = (case hc_expected_server_name cfg of None \<Rightarrow> ''peer'' | Some n \<Rightarrow> n) in
          (a\<lparr>oa_established := True, oa_next_retransmit_at_ms := None\<rparr>,
           Inr (server_output (string_bytes (''DTLS_SERVER_HELLO|sni='' @ sni))))
      else (a, Inl (AuthFailed ''unexpected client hello'')))"

definition openssl_on_datagram ::
    "openssl_adapter \<Rightarrow> bytes \<Rightarrow> openssl_adapter \<times> (crypto_error + handshake_output)" where
  "openssl_on_datagram a datagram =
     (if oa_ctx a = None \<or> oa_ssl a = None then (a, Inl (Provider ''openssl context not initialized''))
      else case oa_role a of
        None \<Rightarrow> (a, Inl (Provider ''handshake not started''))
      | Some role \<Rightarrow>
         (case adapter_cfg a of
            Inl e \<Rightarrow> (a, Inl e)
          | Inr cfg \<Rightarrow>
              if oa_established a then (a, Inr (established_output cfg))
              else
                let (head, kv) = parse_kv datagram in
                case role of
                  ClientRole \<Rightarrow> client_on_datagram a cfg head kv
                | ServerRole \<Rightarrow> server_on_datagram a cfg head kv))"

definition openssl_on_timeout :: "openssl_adapter \<Rightarrow> u64 \<Rightarrow> openssl_adapter \<times> (crypto_error + handshake_output)" where
  "openssl_on_timeout a now =
     (if oa_established a then (a, Inr (quiet True))
      else case oa_next_retransmit_at_ms a of
        None \<Rightarrow> (a, Inl (Provider ''handshake timed out''))
      | Some deadline \<Rightarrow>
          if now < deadline then (a, Inr (quiet False))
          else if oa_last_flight a = [] then (a, Inl (Provider ''handshake timed out''))
          else let (a, out) = queue_flight a now (oa_last_flight a) in (a, Inr out))"

section \<open>The contract of a handshake provider\<close>

datatype handshake_call =
    StartClient handshake_config
  | StartServer handshake_config
  | OnDatagram bytes
  | OnTimeout u64

fun starts :: "handshake_call \<Rightarrow> (adapter_role \<times> handshake_config) option" where
  "starts (StartClient cfg) = Some (ClientRole, cfg)"
| "starts (StartServer cfg) = Some (ServerRole, cfg)"
| "starts _ = None"

fun dtls_step :: "dtls_adapter \<Rightarrow> handshake_call \<Rightarrow> dtls_adapter \<times> (crypto_error + handshake_output)" where
  "dtls_step a (StartClient cfg) = dtls_start_client a cfg"
| "dtls_step a (StartServer cfg) = dtls_start_server a cfg"
| "dtls_step a (OnDatagram d) = dtls_on_datagram a d"
| "dtls_step a (OnTimeout now) = dtls_on_timeout a now"

fun openssl_step ::
    "openssl_ops \<Rightarrow> openssl_adapter \<Rightarrow> handshake_call \<Rightarrow> openssl_adapter \<times> (crypto_error + handshake_output)" where
  "openssl_step X a (StartClient cfg) = openssl_start_client X a cfg"
| "openssl_step X a (StartServer cfg) = openssl_start_server X a cfg"
| "openssl_step X a (OnDatagram d) = openssl_on_datagram a d"
| "openssl_step X a (OnTimeout now) = openssl_on_timeout a now"

text \<open>A provider's state is sound when it is established only under a validated configuration.\<close>

definition sound_state :: "('s \<Rightarrow> bool) \<Rightarrow> ('s \<Rightarrow> handshake_config option) \<Rightarrow> 's \<Rightarrow> bool" where
  "sound_state est config s =
     (case config s of None \<Rightarrow> \<not> est s | Some cfg \<Rightarrow> validate_cfg cfg = Inr ())"

text \<open>What every implementation of \<^verbatim>\<open>HandshakeProvider\<close> promises: a call that fails changes nothing, the
  output reports the state, a start resets the state under a validated configuration, and only a
  datagram establishes.\<close>

locale handshake_provider =
  fixes step :: "'s \<Rightarrow> handshake_call \<Rightarrow> 's \<times> (crypto_error + handshake_output)"
    and est :: "'s \<Rightarrow> bool"
    and config :: "'s \<Rightarrow> handshake_config option"
    and side :: "'s \<Rightarrow> adapter_role option"
  assumes failed_call: "snd (step s c) = Inl e \<Longrightarrow> fst (step s c) = s"
    and reported: "snd (step s c) = Inr out \<Longrightarrow> ho_established out = est (fst (step s c))"
    and started: "starts c = Some (r, cfg) \<Longrightarrow> snd (step s c) = Inr out \<Longrightarrow>
      \<not> est (fst (step s c)) \<and> config (fst (step s c)) = Some cfg \<and> side (fst (step s c)) = Some r
      \<and> validate_cfg cfg = Inr ()"
    and kept: "starts c = None \<Longrightarrow> config (fst (step s c)) = config s \<and> side (fst (step s c)) = side s
      \<and> (est s \<longrightarrow> est (fst (step s c)))"
    and by_datagram: "\<not> est s \<Longrightarrow> est (fst (step s c)) \<Longrightarrow> config s \<noteq> None \<and> (\<exists>d. c = OnDatagram d)"
begin

lemma step_sound: "sound_state est config s \<Longrightarrow> sound_state est config (fst (step s c))"
proof (cases "snd (step s c)")
  case (Inl e)
  then show "sound_state est config s \<Longrightarrow> ?thesis" by (simp add: failed_call)
next
  case (Inr out)
  assume ok: "sound_state est config s"
  show ?thesis
  proof (cases "starts c")
    case None
    then show ?thesis using ok kept [OF None, of s] by_datagram [of s c]
      by (auto simp: sound_state_def split: option.splits)
  next
    case (Some p)
    then show ?thesis using started [of c "fst p" "snd p" s out] Inr by (simp add: sound_state_def)
  qed
qed

text \<open>The datagram that established the current session, with the configuration still in force.\<close>

lemma established_by:
  "est (fst (run step s cs)) \<Longrightarrow> \<not> est s \<Longrightarrow>
   \<exists>pre d post. cs = pre @ OnDatagram d # post
     \<and> \<not> est (fst (run step s pre)) \<and> est (fst (step (fst (run step s pre)) (OnDatagram d)))
     \<and> config (fst (run step s pre)) = config (fst (run step s cs))
     \<and> side (fst (run step s pre)) = side (fst (run step s cs))"
proof (induction cs rule: rev_induct)
  case Nil
  then show ?case by simp
next
  case (snoc c cs)
  let ?s = "fst (run step s cs)"
  have last: "fst (run step s (cs @ [c])) = fst (step ?s c)"
    by (simp add: run_snoc case_prod_unfold Let_def)
  show ?case
  proof (cases "est ?s")
    case True
    have "config (fst (step ?s c)) = config ?s \<and> side (fst (step ?s c)) = side ?s"
    proof (cases "starts c")
      case None
      then show ?thesis using kept by blast
    next
      case (Some p)
      then have "\<exists>e. snd (step ?s c) = Inl e"
        using started [of c "fst p" "snd p" ?s] snoc.prems(1) last
        by (cases "snd (step ?s c)") auto
      then show ?thesis using failed_call by metis
    qed
    moreover obtain pre d post where "cs = pre @ OnDatagram d # post"
      "\<not> est (fst (run step s pre))" "est (fst (step (fst (run step s pre)) (OnDatagram d)))"
      "config (fst (run step s pre)) = config ?s" "side (fst (run step s pre)) = side ?s"
      using snoc.IH [OF True snoc.prems(2)] by blast
    ultimately show ?thesis
      unfolding last by (intro exI [of _ pre] exI [of _ d] exI [of _ "post @ [c]"]) auto
  next
    case False
    then obtain d where d: "c = OnDatagram d" using by_datagram [of ?s c] snoc.prems(1) last by auto
    then show ?thesis
      unfolding last using False snoc.prems(1) last kept [of c ?s]
      by (intro exI [of _ cs] exI [of _ d] exI [of _ "[]"]) auto
  qed
qed

end

sublocale handshake_provider \<subseteq> sound: step_invariant step "sound_state est config"
  by unfold_locales (rule step_sound)

lemmas dtls_defs = dtls_start_client_def dtls_start_server_def dtls_on_datagram_def dtls_on_timeout_def
  quiet_def established_output_def server_output_def

interpretation dtls: handshake_provider dtls_step da_established da_cfg da_role
proof
  show "fst (dtls_step s c) = s" if "snd (dtls_step s c) = Inl e" for s c e
    using that by (cases c) (auto simp: dtls_defs split: sum.splits option.splits adapter_role.splits if_splits)
  show "ho_established out = da_established (fst (dtls_step s c))" if "snd (dtls_step s c) = Inr out" for s c out
    using that by (cases c) (auto simp: dtls_defs split: sum.splits option.splits adapter_role.splits if_splits)
  show "\<not> da_established (fst (dtls_step s c)) \<and> da_cfg (fst (dtls_step s c)) = Some cfg
      \<and> da_role (fst (dtls_step s c)) = Some r \<and> validate_cfg cfg = Inr ()"
    if "starts c = Some (r, cfg)" "snd (dtls_step s c) = Inr out" for s c r cfg out
    using that by (cases c) (auto simp: dtls_defs split: sum.splits)
  show "da_cfg (fst (dtls_step s c)) = da_cfg s \<and> da_role (fst (dtls_step s c)) = da_role s
      \<and> (da_established s \<longrightarrow> da_established (fst (dtls_step s c)))" if "starts c = None" for s c
    using that by (cases c) (auto simp: dtls_defs split: option.splits adapter_role.splits)
  show "da_cfg s \<noteq> None \<and> (\<exists>d. c = OnDatagram d)"
    if "\<not> da_established s" "da_established (fst (dtls_step s c))" for s c
    using that by (cases c) (auto simp: dtls_defs split: sum.splits option.splits adapter_role.splits)
qed

lemma queue_flight_state [simp]:
  "oa_established (fst (queue_flight a now ds)) = oa_established a"
  "oa_cfg (fst (queue_flight a now ds)) = oa_cfg a"
  "oa_role (fst (queue_flight a now ds)) = oa_role a"
  "oa_ctx (fst (queue_flight a now ds)) = oa_ctx a"
  "oa_ssl (fst (queue_flight a now ds)) = oa_ssl a"
  "oa_issued_cookie (fst (queue_flight a now ds)) = oa_issued_cookie a"
  "ho_established (snd (queue_flight a now ds)) = oa_established a"
  "outbound_datagrams (snd (queue_flight a now ds)) = ds"
  by (simp_all add: queue_flight_def quiet_def)

lemma build_context_valid: "build_context X r cfg = Inr ctx \<Longrightarrow> validate_cfg cfg = Inr ()"
  by (auto simp: build_context_def split: sum.splits)

lemmas openssl_start_defs = openssl_start_client_def openssl_start_server_def

lemma openssl_start_cases:
  assumes "starts c = Some (r, cfg)"
  shows "(\<exists>e. openssl_step X a c = (a, Inl e)) \<or>
    (\<exists>out ctx a'. openssl_step X a c = (a', Inr out) \<and> build_context X r cfg = Inr ctx \<and> ssl_new X ctx = None
      \<and> \<not> ho_established out \<and> \<not> oa_established a' \<and> oa_cfg a' = Some cfg \<and> oa_role a' = Some r
      \<and> oa_ctx a' = Some ctx \<and> oa_ssl a' = Some ctx)"
  using assms by (cases c)
    (auto simp: openssl_start_defs case_prod_unfold Let_def quiet_def split: sum.splits option.splits)

lemma client_datagram_cases:
  "\<not> oa_established a \<Longrightarrow> (\<exists>e. client_on_datagram a cfg h kv = (a, Inl e)) \<or>
   (\<exists>out a'. client_on_datagram a cfg h kv = (a', Inr out) \<and> ho_established out = oa_established a'
     \<and> oa_cfg a' = oa_cfg a \<and> oa_role a' = oa_role a
     \<and> (oa_established a' \<longrightarrow> h = ''DTLS_SERVER_HELLO'' \<and>
          (require_hostname_verification (hc_trust cfg) \<longrightarrow>
             str (kv_value ''sni='' kv) = str (hc_expected_server_name cfg))))"
  by (auto simp: client_on_datagram_def case_prod_unfold Let_def established_output_def split: option.splits)

lemma server_datagram_cases:
  "\<not> oa_established a \<Longrightarrow> (\<exists>e. server_on_datagram a cfg h kv = (a, Inl e)) \<or>
   (\<exists>out a'. server_on_datagram a cfg h kv = (a', Inr out) \<and> ho_established out = oa_established a'
     \<and> oa_cfg a' = oa_cfg a \<and> oa_role a' = oa_role a
     \<and> (oa_established a' \<longrightarrow> h = ''DTLS_CLIENT_HELLO_COOKIE'' \<and>
          str (oa_issued_cookie a) = str (kv_value ''cookie='' kv)))"
  by (auto simp: server_on_datagram_def case_prod_unfold Let_def server_output_def split: option.splits)

lemma openssl_datagram_cases:
  "(\<exists>e. openssl_on_datagram a d = (a, Inl e)) \<or>
   (\<exists>out a'. openssl_on_datagram a d = (a', Inr out) \<and> ho_established out = oa_established a'
     \<and> oa_cfg a' = oa_cfg a \<and> oa_role a' = oa_role a \<and> oa_cfg a \<noteq> None
     \<and> (oa_established a \<longrightarrow> oa_established a'))"
proof (cases "oa_established a")
  case True
  then show ?thesis
    by (auto simp: openssl_on_datagram_def adapter_cfg_def established_output_def split: option.splits)
next
  case False
  show ?thesis
    using client_datagram_cases [OF False, of "the (oa_cfg a)" "fst (parse_kv d)" "snd (parse_kv d)"]
      server_datagram_cases [OF False, of "the (oa_cfg a)" "fst (parse_kv d)" "snd (parse_kv d)"] False
    by (auto simp: openssl_on_datagram_def adapter_cfg_def case_prod_unfold Let_def
        split: option.splits adapter_role.splits)
qed

lemma openssl_timeout_cases:
  "(\<exists>e. openssl_on_timeout a now = (a, Inl e)) \<or>
   (\<exists>out a'. openssl_on_timeout a now = (a', Inr out) \<and> ho_established out = oa_established a'
     \<and> oa_cfg a' = oa_cfg a \<and> oa_role a' = oa_role a \<and> oa_established a' = oa_established a)"
  by (auto simp: openssl_on_timeout_def case_prod_unfold Let_def quiet_def split: option.splits)

lemma openssl_other_cases:
  assumes "starts c = None"
  shows "(\<exists>e. openssl_step X a c = (a, Inl e)) \<or>
    (\<exists>out a'. openssl_step X a c = (a', Inr out) \<and> ho_established out = oa_established a'
      \<and> oa_cfg a' = oa_cfg a \<and> oa_role a' = oa_role a \<and> (oa_established a \<longrightarrow> oa_established a')
      \<and> (oa_established a' \<longrightarrow> oa_established a \<or> oa_cfg a \<noteq> None \<and> (\<exists>d. c = OnDatagram d)))"
proof (cases c)
  case (OnDatagram d)
  then show ?thesis using openssl_datagram_cases [of a d] by auto
next
  case (OnTimeout now)
  then show ?thesis using openssl_timeout_cases [of a now] by auto
qed (use assms in simp_all)

lemma openssl_step_outcome:
  obtains (failed) e where "openssl_step X a c = (a, Inl e)"
  | (started) out a' r cfg where "openssl_step X a c = (a', Inr out)" "starts c = Some (r, cfg)"
      "validate_cfg cfg = Inr ()" "\<not> ho_established out" "\<not> oa_established a'" "oa_cfg a' = Some cfg" "oa_role a' = Some r"
  | (progress) out a' where "openssl_step X a c = (a', Inr out)" "starts c = None"
      "ho_established out = oa_established a'" "oa_cfg a' = oa_cfg a" "oa_role a' = oa_role a"
      "oa_established a \<longrightarrow> oa_established a'"
      "oa_established a' \<longrightarrow> oa_established a \<or> oa_cfg a \<noteq> None \<and> (\<exists>d. c = OnDatagram d)"
proof (cases "starts c")
  case None
  then show ?thesis using openssl_other_cases [of c X a] failed progress by blast
next
  case (Some p)
  obtain r cfg where p: "starts c = Some (r, cfg)" using Some by (cases p) simp
  show ?thesis using openssl_start_cases [OF p, of X a] build_context_valid failed started p by blast
qed

interpretation openssl: handshake_provider "openssl_step X" oa_established oa_cfg oa_role for X
proof
  fix s c
  show "fst (openssl_step X s c) = s" if "snd (openssl_step X s c) = Inl e" for e
    using that by (cases rule: openssl_step_outcome [of X s c]) simp_all
  show "ho_established out = oa_established (fst (openssl_step X s c))" if "snd (openssl_step X s c) = Inr out" for out
    using that by (cases rule: openssl_step_outcome [of X s c]) simp_all
  show "\<not> oa_established (fst (openssl_step X s c)) \<and> oa_cfg (fst (openssl_step X s c)) = Some cfg
      \<and> oa_role (fst (openssl_step X s c)) = Some r \<and> validate_cfg cfg = Inr ()"
    if "starts c = Some (r, cfg)" "snd (openssl_step X s c) = Inr out" for r cfg out
    using that by (cases rule: openssl_step_outcome [of X s c]) simp_all
  show "oa_cfg (fst (openssl_step X s c)) = oa_cfg s \<and> oa_role (fst (openssl_step X s c)) = oa_role s
      \<and> (oa_established s \<longrightarrow> oa_established (fst (openssl_step X s c)))" if "starts c = None"
    using that by (cases rule: openssl_step_outcome [of X s c]) simp_all
  show "oa_cfg s \<noteq> None \<and> (\<exists>d. c = OnDatagram d)"
    if "\<not> oa_established s" "oa_established (fst (openssl_step X s c))"
    using that by (cases rule: openssl_step_outcome [of X s c]) auto
qed

section \<open>Properties\<close>

text \<open>A stand-in for OpenSSL in the concrete examples: every call succeeds, a bundle holds one certificate.\<close>

definition accepting_openssl :: openssl_ops where
  "accepting_openssl = \<lparr>ssl_builder_new = \<lambda>_. None, ssl_set_cipher_list = \<lambda>_. None, ssl_store_new = None,
     ssl_stack_from_pem = \<lambda>pem. Inr [pem], ssl_add_cert = \<lambda>_ _. None,
     ssl_set_certificate_file = \<lambda>_ _. None, ssl_set_private_key_file = \<lambda>_ _. None, ssl_new = \<lambda>_. None\<rparr>"

definition sample_cfg :: handshake_config where
  "sample_cfg = \<lparr>hc_profile = ServerAuth, hc_cipher_policy = cipher_policy_default,
     hc_trust = trust_config_default\<lparr>trust_anchor_pems := [[1]]\<rparr>, hc_client_identity = None,
     hc_expected_server_name = Some ''node''\<rparr>"

lemma sample_context: "\<exists>ctx. build_context accepting_openssl r sample_cfg = Inr ctx"
  by (simp add: build_context_def validate_cfg_def sample_cfg_def cipher_policy_default_def
      trust_config_default_def str_def string_bytes_def accepting_openssl_def set_ciphers_def
      set_trust_store_def set_identity_def)

lemma accepting_ssl_new [simp]: "ssl_new accepting_openssl ctx = None"
  by (simp add: accepting_openssl_def)

lemma openssl_start_ok:
  assumes "build_context X r cfg = Inr ctx" and "ssl_new X ctx = None" and "starts c = Some (r, cfg)"
  shows "\<exists>out a'. openssl_step X a c = (a', Inr out) \<and> \<not> oa_established a' \<and> oa_cfg a' = Some cfg
    \<and> oa_role a' = Some r \<and> oa_ctx a' = Some ctx \<and> oa_ssl a' = Some ctx"
  using assms by (cases c) (auto simp: openssl_start_defs case_prod_unfold Let_def)

lemma openssl_client_establishes:
  assumes "oa_role a = Some ClientRole" and "oa_cfg a = Some cfg" and "\<not> oa_established a"
    and "oa_established (fst (openssl_on_datagram a d))"
  shows "fst (parse_kv d) = ''DTLS_SERVER_HELLO'' \<and> (require_hostname_verification (hc_trust cfg) \<longrightarrow>
    str (kv_value ''sni='' (snd (parse_kv d))) = str (hc_expected_server_name cfg))"
proof -
  have "openssl_on_datagram a d = client_on_datagram a cfg (fst (parse_kv d)) (snd (parse_kv d))"
    using assms by (auto simp: openssl_on_datagram_def adapter_cfg_def case_prod_unfold Let_def split: if_splits)
  then show ?thesis
    using client_datagram_cases [OF assms(3), of cfg "fst (parse_kv d)" "snd (parse_kv d)"] assms(3,4)
    by auto
qed

lemma validated_name:
  assumes "validate_cfg cfg = Inr ()" and "require_hostname_verification (hc_trust cfg)"
  shows "\<exists>name. hc_expected_server_name cfg = Some name \<and> name \<noteq> []"
  using assms by (cases "hc_expected_server_name cfg")
    (auto simp: validate_cfg_def str_def string_bytes_def split: if_splits)

lemma established_client_saw_name:
  assumes "a = fst (run (openssl_step X) openssl_new calls)" and "oa_established a"
    and "oa_role a = Some ClientRole" and "oa_cfg a = Some cfg"
    and "require_hostname_verification (hc_trust cfg)"
  shows "validate_cfg cfg = Inr () \<and> (\<exists>d name. OnDatagram d \<in> set calls
    \<and> fst (parse_kv d) = ''DTLS_SERVER_HELLO'' \<and> hc_expected_server_name cfg = Some name \<and> name \<noteq> []
    \<and> kv_value ''sni='' (snd (parse_kv d)) = Some name)"
proof -
  have new: "\<not> oa_established openssl_new" "sound_state oa_established oa_cfg openssl_new"
    by (simp_all add: openssl_new_def sound_state_def)
  have valid: "validate_cfg cfg = Inr ()"
    using openssl.sound.run_inv [OF new(2), of X calls] assms(1,4) by (simp add: sound_state_def)
  obtain pre d post where d: "calls = pre @ OnDatagram d # post"
      "\<not> oa_established (fst (run (openssl_step X) openssl_new pre))"
      "oa_established (fst (openssl_on_datagram (fst (run (openssl_step X) openssl_new pre)) d))"
      "oa_cfg (fst (run (openssl_step X) openssl_new pre)) = Some cfg"
      "oa_role (fst (run (openssl_step X) openssl_new pre)) = Some ClientRole"
    using openssl.established_by [of X openssl_new calls] assms(1-4) new(1) by auto
  obtain name where "hc_expected_server_name cfg = Some name" "name \<noteq> []"
    using validated_name [OF valid assms(5)] by blast
  then show ?thesis
    using openssl_client_establishes [OF d(5,4,2,3)] assms(5) valid d(1)
    by (cases "kv_value ''sni='' (snd (parse_kv d))") (auto simp: str_def)
qed

text \<open>Whatever calls are made on a new \<^verbatim>\<open>OpenSslDtlsAdapter\<close>, failing ones included: when it is an
  established client that verifies host names, its configuration passed validation and some datagram it was
  given is a server hello that carries exactly the expected, non-empty server name.\<close>

theorem client_saw_expected_name:
  assumes "a = fst (run (openssl_step X) openssl_new calls)" and "oa_established a"
    and "oa_role a = Some ClientRole" and "oa_cfg a = Some cfg"
    and "require_hostname_verification (hc_trust cfg)"
  shows "validate_cfg cfg = Inr () \<and> (\<exists>d name. OnDatagram d \<in> set calls
    \<and> fst (parse_kv d) = ''DTLS_SERVER_HELLO'' \<and> hc_expected_server_name cfg = Some name \<and> name \<noteq> []
    \<and> kv_value ''sni='' (snd (parse_kv d)) = Some name)"
  by (rule established_client_saw_name [OF assms])

text \<open>The wire format of the hellos.\<close>

lemma valid_utf8_append_ascii:
  "(\<And>b. b \<in> set bs \<Longrightarrow> unat b < 128) \<Longrightarrow> valid_utf8 (bs @ cs) = valid_utf8 cs"
  by (induction bs) (auto simp: word_less_nat_alt)

lemma split_once_first: "split_once [c] (pre @ c # post) = Some (pre, post)" if "c \<notin> set pre"
  using that by (induction pre) auto

lemma parse_hello:
  assumes ascii: "\<forall>c \<in> set (h @ [CHR ''|''] @ key). of_char c < (128 :: nat)" and "CHR ''|'' \<notin> set h"
    and "key \<noteq> []" and "hd key \<noteq> CHR ''|''" and "valid_utf8 (string_bytes v)"
  shows "fst (parse_kv (string_bytes (h @ [CHR ''|''] @ key @ v))) = h
    \<and> kv_value key (snd (parse_kv (string_bytes (h @ [CHR ''|''] @ key @ v)))) = Some v"
proof -
  let ?m = "h @ CHR ''|'' # (key @ v)"
  have "valid_utf8 (string_bytes (h @ [CHR ''|''] @ key) @ string_bytes v)"
    by (subst valid_utf8_append_ascii) (use ascii assms(5) in \<open>auto simp: string_bytes_def unat_of_nat\<close>)
  then have u: "valid_utf8 (string_bytes ?m)" by (simp add: string_bytes_def)
  have k: "dropWhile (\<lambda>c. c = CHR ''|'') (key @ v) = key @ v"
    using assms(3,4) by (cases key) auto
  have s: "split_once key (key @ v) = Some ([], v)"
    using assms(3) by (cases key) auto
  have "parse_kv (string_bytes ?m) = (h, Some (key @ v))"
    using u split_once_first [OF assms(2), of "key @ v"] by (simp add: parse_kv_def k)
  then show ?thesis using s by (simp add: kv_value_def)
qed

lemma parse_bare:
  assumes "\<forall>c \<in> set h. of_char c < (128 :: nat)" and "CHR ''|'' \<notin> set h"
  shows "parse_kv (string_bytes h) = (h, None)"
proof -
  have "valid_utf8 (string_bytes h)"
    by (rule ascii_valid) (use assms(1) in \<open>auto simp: string_bytes_def unat_of_nat\<close>)
  moreover have "split_once ''|'' h = None" using assms(2) by (induction h) auto
  ultimately show ?thesis by (simp add: parse_kv_def)
qed

definition name_of :: "handshake_config \<Rightarrow> string" where
  "name_of cfg = (case hc_expected_server_name cfg of None \<Rightarrow> ''peer'' | Some n \<Rightarrow> n)"

lemma parse_client_hello: "valid_utf8 (string_bytes v) \<Longrightarrow>
    fst (parse_kv (string_bytes (''DTLS_CLIENT_HELLO|sni='' @ v))) = ''DTLS_CLIENT_HELLO''"
  using parse_hello [of "''DTLS_CLIENT_HELLO''" "''sni=''" v] by simp

lemma parse_hello_verify: "valid_utf8 (string_bytes v) \<Longrightarrow>
    fst (parse_kv (string_bytes (''DTLS_HELLO_VERIFY|cookie='' @ v))) = ''DTLS_HELLO_VERIFY''
    \<and> kv_value ''cookie='' (snd (parse_kv (string_bytes (''DTLS_HELLO_VERIFY|cookie='' @ v)))) = Some v"
  using parse_hello [of "''DTLS_HELLO_VERIFY''" "''cookie=''" v] by simp

lemma parse_client_cookie: "valid_utf8 (string_bytes v) \<Longrightarrow>
    fst (parse_kv (string_bytes (''DTLS_CLIENT_HELLO_COOKIE|cookie='' @ v))) = ''DTLS_CLIENT_HELLO_COOKIE''
    \<and> kv_value ''cookie='' (snd (parse_kv (string_bytes (''DTLS_CLIENT_HELLO_COOKIE|cookie='' @ v)))) = Some v"
  using parse_hello [of "''DTLS_CLIENT_HELLO_COOKIE''" "''cookie=''" v] by simp

lemma parse_server_hello: "valid_utf8 (string_bytes v) \<Longrightarrow>
    fst (parse_kv (string_bytes (''DTLS_SERVER_HELLO|sni='' @ v))) = ''DTLS_SERVER_HELLO''
    \<and> kv_value ''sni='' (snd (parse_kv (string_bytes (''DTLS_SERVER_HELLO|sni='' @ v)))) = Some v"
  using parse_hello [of "''DTLS_SERVER_HELLO''" "''sni=''" v] by simp

lemma cookie_utf8: "valid_utf8 (string_bytes ''cookie-v3'')"
  by (simp add: string_bytes_def)

text \<open>The datagrams of a result, and a delivery: what one side sent is given to the other.\<close>

definition sent :: "crypto_error + handshake_output \<Rightarrow> bytes list" where
  "sent r = (case r of Inl _ \<Rightarrow> [] | Inr out \<Rightarrow> outbound_datagrams out)"

definition deliver :: "openssl_adapter \<Rightarrow> crypto_error + handshake_output
    \<Rightarrow> openssl_adapter \<times> (crypto_error + handshake_output)" where
  "deliver a r = openssl_on_datagram a (hd (sent r))"

definition ready :: "openssl_adapter \<Rightarrow> adapter_role \<Rightarrow> handshake_config \<Rightarrow> bool" where
  "ready a r cfg \<longleftrightarrow> oa_role a = Some r \<and> oa_cfg a = Some cfg \<and> \<not> oa_established a
     \<and> oa_ctx a \<noteq> None \<and> oa_ssl a \<noteq> None"

lemma ready_on_datagram:
  "ready a r cfg \<Longrightarrow> openssl_on_datagram a d =
     (case r of ClientRole \<Rightarrow> client_on_datagram a cfg (fst (parse_kv d)) (snd (parse_kv d))
      | ServerRole \<Rightarrow> server_on_datagram a cfg (fst (parse_kv d)) (snd (parse_kv d)))"
  by (auto simp: ready_def openssl_on_datagram_def adapter_cfg_def case_prod_unfold Let_def)

lemma client_start_sends:
  assumes "build_context X ClientRole cfg = Inr ctx" and "ssl_new X ctx = None"
    and "openssl_start_client X a cfg = (c, r)"
  shows "ready c ClientRole cfg \<and> sent r = [string_bytes (''DTLS_CLIENT_HELLO|sni='' @ name_of cfg)]"
  using assms by (auto simp: openssl_start_client_def case_prod_unfold Let_def ready_def sent_def name_of_def)

lemma server_start_ready:
  assumes "build_context X ServerRole cfg = Inr ctx" and "ssl_new X ctx = None"
    and "openssl_start_server X a cfg = (c, r)"
  shows "ready c ServerRole cfg \<and> oa_issued_cookie c = None"
  using assms by (auto simp: openssl_start_server_def ready_def)

lemma server_answers_hello:
  assumes "ready s ServerRole cfg" and "valid_utf8 (string_bytes v)"
  shows "\<exists>s' r. openssl_on_datagram s (string_bytes (''DTLS_CLIENT_HELLO|sni='' @ v)) = (s', r)
    \<and> ready s' ServerRole cfg \<and> oa_issued_cookie s' = Some ''cookie-v3''
    \<and> sent r = [string_bytes (''DTLS_HELLO_VERIFY|cookie='' @ ''cookie-v3'')]"
  using assms parse_client_hello [OF assms(2)]
  by (auto simp: ready_on_datagram server_on_datagram_def case_prod_unfold Let_def ready_def sent_def)

lemma client_answers_verify:
  assumes "ready c ClientRole cfg" and "valid_utf8 (string_bytes v)"
  shows "\<exists>c' r. openssl_on_datagram c (string_bytes (''DTLS_HELLO_VERIFY|cookie='' @ v)) = (c', r)
    \<and> ready c' ClientRole cfg \<and> sent r = [string_bytes (''DTLS_CLIENT_HELLO_COOKIE|cookie='' @ v)]"
  using assms parse_hello_verify [OF assms(2)]
  by (auto simp: ready_on_datagram client_on_datagram_def case_prod_unfold Let_def ready_def sent_def)

lemma server_accepts_cookie:
  assumes "ready s ServerRole cfg" and "oa_issued_cookie s = Some v" and "valid_utf8 (string_bytes v)"
  shows "\<exists>s' r. openssl_on_datagram s (string_bytes (''DTLS_CLIENT_HELLO_COOKIE|cookie='' @ v)) = (s', r)
    \<and> oa_established s' \<and> sent r = [string_bytes (''DTLS_SERVER_HELLO|sni='' @ name_of cfg)]"
  using assms parse_client_cookie [OF assms(3)]
  by (auto simp: ready_on_datagram server_on_datagram_def Let_def sent_def name_of_def server_output_def str_def)

lemma client_accepts_name:
  assumes "ready c ClientRole cfg" and "valid_utf8 (string_bytes v)"
    and "require_hostname_verification (hc_trust cfg) \<longrightarrow> hc_expected_server_name cfg = Some v"
  shows "\<exists>c' r. openssl_on_datagram c (string_bytes (''DTLS_SERVER_HELLO|sni='' @ v)) = (c', Inr r)
    \<and> oa_established c' \<and> ho_established r"
  using assms parse_server_hello [OF assms(2)]
  by (auto simp: ready_on_datagram client_on_datagram_def Let_def str_def established_output_def)

text \<open>When both sides start and the client expects the server's name (or does not verify it), the four
  datagrams hello, hello-verify, hello with cookie and server hello establish both sides.\<close>

theorem handshake_completes:
  assumes "build_context X ClientRole ccfg = Inr cctx" and "ssl_new X cctx = None"
    and "build_context X ServerRole scfg = Inr sctx" and "ssl_new X sctx = None"
    and "valid_utf8 (string_bytes (name_of ccfg))" and "valid_utf8 (string_bytes (name_of scfg))"
    and "require_hostname_verification (hc_trust ccfg) \<longrightarrow> hc_expected_server_name ccfg = Some (name_of scfg)"
  shows "let (c0, hello) = openssl_start_client X c ccfg; (s0, _) = openssl_start_server X s scfg;
      (s1, verify_request) = deliver s0 hello; (c1, hello_cookie) = deliver c0 verify_request;
      (s2, server_hello) = deliver s1 hello_cookie; (c2, _) = deliver c1 server_hello
    in oa_established s2 \<and> oa_established c2"
proof -
  obtain c0 hello where c0: "openssl_start_client X c ccfg = (c0, hello)" by fastforce
  obtain s0 r0 where s0: "openssl_start_server X s scfg = (s0, r0)" by fastforce
  have c0r: "ready c0 ClientRole ccfg" "sent hello = [string_bytes (''DTLS_CLIENT_HELLO|sni='' @ name_of ccfg)]"
    using client_start_sends [OF assms(1,2) c0] by auto
  have s0r: "ready s0 ServerRole scfg" using server_start_ready [OF assms(3,4) s0] by simp
  obtain s1 r1 where s1: "deliver s0 hello = (s1, r1)" "ready s1 ServerRole scfg"
      "oa_issued_cookie s1 = Some ''cookie-v3''" "sent r1 = [string_bytes (''DTLS_HELLO_VERIFY|cookie='' @ ''cookie-v3'')]"
    using server_answers_hello [OF s0r assms(5)] unfolding deliver_def c0r(2) list.sel by metis
  obtain c1 r2 where c1: "deliver c0 r1 = (c1, r2)" "ready c1 ClientRole ccfg"
      "sent r2 = [string_bytes (''DTLS_CLIENT_HELLO_COOKIE|cookie='' @ ''cookie-v3'')]"
    using client_answers_verify [OF c0r(1) cookie_utf8] unfolding deliver_def s1(4) list.sel by metis
  obtain s2 r3 where s2: "deliver s1 r2 = (s2, r3)" "oa_established s2"
      "sent r3 = [string_bytes (''DTLS_SERVER_HELLO|sni='' @ name_of scfg)]"
    using server_accepts_cookie [OF s1(2,3) cookie_utf8] unfolding deliver_def c1(3) list.sel by metis
  obtain c2 r4 where "deliver c1 r3 = (c2, Inr r4)" "oa_established c2"
    using client_accepts_name [OF c1(2) assms(6,7)] unfolding deliver_def s2(3) list.sel by metis
  then show ?thesis using c0 s0 s1(1) c1(1) s2(1,2) by simp
qed

lemma sample_name: "name_of sample_cfg = ''node''" "hc_expected_server_name sample_cfg = Some ''node''"
  by (simp_all add: name_of_def sample_cfg_def)

theorem handshake_completes_witness:
  "let X = accepting_openssl; (c0, hello) = openssl_start_client X openssl_new sample_cfg;
      (s0, _) = openssl_start_server X openssl_new sample_cfg;
      (s1, verify_request) = deliver s0 hello; (c1, hello_cookie) = deliver c0 verify_request;
      (s2, server_hello) = deliver s1 hello_cookie; (c2, _) = deliver c1 server_hello
    in oa_established s2 \<and> oa_established c2"
proof -
  obtain ctx sctx where "build_context accepting_openssl ClientRole sample_cfg = Inr ctx"
      "build_context accepting_openssl ServerRole sample_cfg = Inr sctx"
    using sample_context by blast
  then show ?thesis
    using handshake_completes [of accepting_openssl sample_cfg ctx sample_cfg sctx openssl_new openssl_new]
    by (simp add: sample_name string_bytes_def)
qed

theorem client_saw_expected_name_witness:
  "let calls = [StartClient sample_cfg, OnDatagram (string_bytes (''DTLS_SERVER_HELLO|sni='' @ ''node''))]
   in oa_established (fst (run (openssl_step accepting_openssl) openssl_new calls)) \<and>
      (\<exists>d name. OnDatagram d \<in> set calls \<and> fst (parse_kv d) = ''DTLS_SERVER_HELLO''
        \<and> hc_expected_server_name sample_cfg = Some name \<and> name \<noteq> [] \<and> kv_value ''sni='' (snd (parse_kv d)) = Some name)"
proof -
  let ?d = "string_bytes (''DTLS_SERVER_HELLO|sni='' @ ''node'')"
  obtain ctx where ctx: "build_context accepting_openssl ClientRole sample_cfg = Inr ctx"
    using sample_context by blast
  obtain c r where c: "openssl_start_client accepting_openssl openssl_new sample_cfg = (c, r)" by fastforce
  have rd: "ready c ClientRole sample_cfg" using client_start_sends [OF ctx _ c] by simp
  obtain c' out where c': "openssl_on_datagram c ?d = (c', out)" "oa_established c'"
    using client_accepts_name [OF rd, of "''node''"] by (auto simp: sample_name string_bytes_def)
  have kept: "oa_role c' = Some ClientRole" "oa_cfg c' = Some sample_cfg"
    using openssl.kept [of "OnDatagram ?d" accepting_openssl c] rd c' by (simp_all add: ready_def)
  have run: "fst (run (openssl_step accepting_openssl) openssl_new [StartClient sample_cfg, OnDatagram ?d]) = c'"
    using c c' by simp
  have host: "require_hostname_verification (hc_trust sample_cfg)"
    by (simp add: sample_cfg_def trust_config_default_def)
  show ?thesis
    using client_saw_expected_name [OF run [symmetric] c'(2) kept host] run c'(2) unfolding Let_def by auto
qed

text \<open>A server that has just started, and so has issued no cookie, is established by the single datagram
  \<^verbatim>\<open>DTLS_CLIENT_HELLO_COOKIE\<close> without any cookie: the missing cookie and the one never issued both read
  as the empty string.  The address check of the hello-verify exchange is skipped.\<close>

theorem cookie_exchange_bypassed:
  assumes "build_context X ServerRole cfg = Inr ctx" and "ssl_new X ctx = None"
  shows "let (s0, _) = openssl_start_server X s cfg;
      (s1, r) = openssl_on_datagram s0 (string_bytes ''DTLS_CLIENT_HELLO_COOKIE'')
    in oa_established s1 \<and> sent r = [string_bytes (''DTLS_SERVER_HELLO|sni='' @ name_of cfg)]"
proof -
  obtain s0 r0 where s0: "openssl_start_server X s cfg = (s0, r0)" by fastforce
  have "ready s0 ServerRole cfg" "oa_issued_cookie s0 = None"
    using server_start_ready [OF assms s0] by auto
  then show ?thesis
    by (simp add: s0 ready_on_datagram parse_bare server_on_datagram_def str_def kv_value_def Let_def
        sent_def server_output_def name_of_def)
qed

theorem cookie_exchange_bypassed_witness:
  "let (s0, _) = openssl_start_server accepting_openssl openssl_new sample_cfg;
      (s1, r) = openssl_on_datagram s0 (string_bytes ''DTLS_CLIENT_HELLO_COOKIE'')
    in oa_established s1 \<and> sent r = [string_bytes (''DTLS_SERVER_HELLO|sni='' @ name_of sample_cfg)]"
proof -
  obtain ctx where "build_context accepting_openssl ServerRole sample_cfg = Inr ctx"
    using sample_context by blast
  then show ?thesis using cookie_exchange_bypassed [of accepting_openssl sample_cfg ctx openssl_new] by simp
qed

end
