(* ===== verification/Engine.thy ===== *)
theory Engine
  imports Client_Runtime Server_Store Handshake
begin

text \<open>
  The engine of \<^verbatim>\<open>v3-ffi/src/lib.rs\<close>: a registry of handles, each a client or a server runtime behind a
  handshake adapter, with an output buffer and the text of the last error.  Every exported function is a
  function on the registry; a pointer with a length is the bytes it points to, or \<open>None\<close> for the null
  pointer, and a copy into a caller's buffer is the bytes written there.  The tracing of packets to
  standard error is in \<open>Packet_Trace\<close>, the JNI wrappers are in \<open>Jni\<close>.  A call that panics aborts the process: it has no result
  (\<open>None\<close>).  The texts of errors and events come from derived code and from \<^verbatim>\<open>serde_json\<close>: parameters, as
  are the calls into OpenSSL and the existence of files.
\<close>

section \<open>Data\<close>

datatype engine_kind =
    ClientEngine client_runtime
  | ServerEngine "memory_store server_runtime"

record client_tls_state =
  ct_adapter :: openssl_adapter
  ct_cfg :: handshake_config
  ct_established :: bool
  ct_core_started :: bool

record server_path_tls_state =
  sp_adapter :: openssl_adapter
  sp_established :: bool

record server_tls_state =
  stls_server_name :: string
  stls_cert_path :: string
  stls_key_path :: string
  stls_sessions_by_path :: "(u32, server_path_tls_state) bmap"

datatype tls_mode =
    TlsDisabled
  | TlsClient client_tls_state
  | TlsServer server_tls_state

record output_buffer =
  ob_datagrams :: "(u32 \<times> bytes) list"
  ob_events :: "string list"

definition empty_buffer :: output_buffer where
  "empty_buffer = \<lparr>ob_datagrams = [], ob_events = []\<rparr>"

record engine_handle =
  eh_kind :: engine_kind
  eh_tls :: tls_mode
  eh_output :: output_buffer
  eh_last_error :: "string option"

record registry =
  rg_handles :: "(u64, engine_handle) bmap"
  rg_next_handle :: u64

definition registry_default :: registry where
  "registry_default = \<lparr>rg_handles = [], rg_next_handle = 1\<rparr>"

datatype json = JsonText string | JsonNumber nat | JsonBool bool

text \<open>What the engine uses of other code: OpenSSL, the store's clock and the \<^verbatim>\<open>base64\<close> encoder of the runtimes,
  \<^verbatim>\<open>Path::exists\<close>, the derived \<^verbatim>\<open>Debug\<close> and \<^verbatim>\<open>Display\<close> texts, and the serialisation of a JSON object.\<close>

record engine_env =
  ee_openssl :: openssl_ops
  ee_elapsed_us :: "memory_store \<Rightarrow> u64 \<times> store_op \<Rightarrow> u64"
  ee_base64 :: "bytes \<Rightarrow> string"
  ee_path_exists :: "string \<Rightarrow> bool"
  ee_debug_event :: "event \<Rightarrow> string"
  ee_debug_client_event :: "client_runtime_event \<Rightarrow> string"
  ee_debug_turn :: "turn_action \<Rightarrow> string"
  ee_debug_consent :: "consent_action \<Rightarrow> string"
  ee_client_error_text :: "client_runtime_error \<Rightarrow> string"
  ee_server_error_text :: "server_runtime_error \<Rightarrow> string"
  ee_crypto_error_text :: "crypto_error \<Rightarrow> string"
  ee_utf8_error_text :: "bytes \<Rightarrow> string"
  ee_json :: "(string \<times> json) list \<Rightarrow> string"

abbreviation ee_server :: "engine_env \<Rightarrow> memory_store server_env" where
  "ee_server E \<equiv> memory_env (ee_elapsed_us E) (ee_base64 E)"

type_synonym i32 = int

lemmas runtime_noops [simp] = client_set_relay_policy_def client_on_nat_tick_def server_on_nat_tick_def

section \<open>Output\<close>

definition dgram_pair :: "outbound_datagram \<Rightarrow> u32 \<times> bytes" where
  "dgram_pair d = (dgram_path_id d, dgram_bytes d)"

definition client_event_text :: "engine_env \<Rightarrow> client_runtime_event \<Rightarrow> string" where
  "client_event_text E e =
     (case e of
        ClientCore inner \<Rightarrow>
          (case inner of
             MessageReceived msg_id payload \<Rightarrow> ee_json E [(''kind'', JsonText ''client_deliver''),
               (''msg_id'', JsonNumber (unat msg_id)), (''payload_b64'', JsonText (ee_base64 E payload))]
           | _ \<Rightarrow> ee_json E [(''kind'', JsonText ''client_core''), (''event'', JsonText (ee_debug_event E inner))])
      | NatPairNominated li ri path_id \<Rightarrow> ee_json E [(''kind'', JsonText ''client_nat_nomination''),
          (''local_index'', JsonNumber li), (''remote_index'', JsonNumber ri),
          (''path_id'', JsonNumber (unat path_id))]
      | ClientTurnAction action \<Rightarrow> ee_json E [(''kind'', JsonText ''client_turn''), (''action'', JsonText (ee_debug_turn E action))]
      | ClientConsentAction action \<Rightarrow> ee_json E [(''kind'', JsonText ''client_consent''), (''action'', JsonText (ee_debug_consent E action))])"

definition server_event_text :: "engine_env \<Rightarrow> runtime_event \<Rightarrow> string" where
  "server_event_text E e =
     (case e of
        RuntimeParseError \<Rightarrow> ee_json E [(''kind'', JsonText ''server_parse_error'')]
      | RuntimeCoreEvent cid event \<Rightarrow> ee_json E [(''kind'', JsonText ''server_core''), (''cid'', JsonNumber (unat cid)),
          (''event'', JsonText (ee_debug_event E event))]
      | RuntimeNatPairNominated cid li ri \<Rightarrow> ee_json E [(''kind'', JsonText ''server_nat_nomination''),
          (''cid'', JsonNumber (unat cid)), (''local_index'', JsonNumber li), (''remote_index'', JsonNumber ri)]
      | RuntimeTurnAction cid action \<Rightarrow> ee_json E [(''kind'', JsonText ''server_turn''), (''cid'', JsonNumber (unat cid)),
          (''action'', JsonText (ee_debug_turn E action))]
      | VhostPathBound cid vhost path_id \<Rightarrow> ee_json E [(''kind'', JsonText ''server_vhost_path''), (''cid'', JsonNumber (unat cid)),
          (''vhost'', JsonText vhost), (''path_id'', JsonNumber (unat path_id))]
      | RuntimeMessageReceived cid msg_id payload_b64 \<Rightarrow> ee_json E [(''kind'', JsonText ''server_deliver''),
          (''cid'', JsonNumber (unat cid)), (''msg_id'', JsonNumber (unat msg_id)), (''payload_b64'', JsonText payload_b64)])"

definition normalize_client_output :: "engine_env \<Rightarrow> client_runtime_output \<Rightarrow> output_buffer" where
  "normalize_client_output E out =
     \<lparr>ob_datagrams = map dgram_pair (cro_outbound_datagrams out), ob_events = map (client_event_text E) (cro_events out)\<rparr>"

definition normalize_server_output :: "engine_env \<Rightarrow> server_runtime_output \<Rightarrow> output_buffer" where
  "normalize_server_output E out =
     \<lparr>ob_datagrams = map dgram_pair (sro_outbound_datagrams out), ob_events = map (server_event_text E) (sro_events out)\<rparr>"

definition bytes_from_ptr :: "bytes option \<Rightarrow> bytes" where
  "bytes_from_ptr p = (case p of None \<Rightarrow> [] | Some bs \<Rightarrow> bs)"

definition set_error :: "engine_handle \<Rightarrow> string \<Rightarrow> engine_handle \<times> i32" where
  "set_error h err = (h\<lparr>eh_last_error := Some err\<rparr>, - 1)"

definition is_dtls_packet :: "bytes \<Rightarrow> bool" where
  "is_dtls_packet bs = (take 5 bs = string_bytes ''DTLS_'')"

text \<open>\<^verbatim>\<open>std::str::from_utf8\<close>.\<close>

definition from_utf8 :: "bytes \<Rightarrow> string option" where
  "from_utf8 bs = (if valid_utf8 bs then Some (bytes_string bs) else None)"

section \<open>Configurations\<close>

text \<open>\<^verbatim>\<open>str::trim\<close> on the UTF-8 bytes: the characters of \<open>blank_line\<close> at the start, then at the end.\<close>

fun trim_start :: "bytes \<Rightarrow> bytes" where
  "trim_start [] = []"
| "trim_start (a # bs) =
     (if 9 \<le> a \<and> a \<le> 13 \<or> a = 32 then trim_start bs
      else if a = 0xC2 then
        (case bs of b # r \<Rightarrow> if b \<in> {0x85, 0xA0} then trim_start r else a # bs | _ \<Rightarrow> a # bs)
      else
        (case bs of
           b # c # r \<Rightarrow> if blank_line [a, b, c] then trim_start r else a # bs
         | _ \<Rightarrow> a # bs))"

fun trim_end :: "bytes \<Rightarrow> bytes" where
  "trim_end [] = []"
| "trim_end (a # bs) = (if blank_line (a # bs) then [] else a # trim_end bs)"

definition trim :: "string \<Rightarrow> string" where
  "trim s = bytes_string (trim_end (trim_start (string_bytes s)))"

definition trimmed_empty :: "string \<Rightarrow> bool" where
  "trimmed_empty s = blank_line (string_bytes s)"

definition build_client_tls_cfg :: "string \<Rightarrow> string + handshake_config" where
  "build_client_tls_cfg expected_server_name =
     (if trimmed_empty expected_server_name then Inl ''expected_server_name is required for TLS''
      else Inr \<lparr>hc_profile = ServerAuth, hc_cipher_policy = cipher_policy_default,
        hc_trust = \<lparr>trust_anchor_pems = [], require_hostname_verification = True\<rparr>,
        hc_client_identity = None, hc_expected_server_name = Some expected_server_name\<rparr>)"

definition build_server_tls_cfg :: "engine_env \<Rightarrow> string \<Rightarrow> string \<Rightarrow> string \<Rightarrow> string + handshake_config" where
  "build_server_tls_cfg E server_name cert_path key_path =
     (if trimmed_empty server_name then Inl ''server_name is required for TLS''
      else if trimmed_empty cert_path \<or> trimmed_empty key_path then Inl ''server TLS cert/key paths are required''
      else if \<not> ee_path_exists E cert_path then Inl (''server cert path does not exist: '' @ cert_path)
      else if \<not> ee_path_exists E key_path then Inl (''server key path does not exist: '' @ key_path)
      else Inr \<lparr>hc_profile = ServerAuth, hc_cipher_policy = cipher_policy_default,
        hc_trust = \<lparr>trust_anchor_pems = [], require_hostname_verification = False\<rparr>,
        hc_client_identity = Some \<lparr>key_id = trim key_path, cert_chain_ids = [trim cert_path]\<rparr>,
        hc_expected_server_name = Some server_name\<rparr>)"

section \<open>The registry\<close>

definition v3_ffi_abi_version :: u32 where
  "v3_ffi_abi_version = 1"

text \<open>\<^verbatim>\<open>let Some(handle) = reg.handles.get_mut(&handle_id) else { return -1 }\<close>\<close>

definition with_handle ::
    "registry \<Rightarrow> u64 \<Rightarrow> (engine_handle \<Rightarrow> (engine_handle \<times> i32) option) \<Rightarrow> (registry \<times> i32) option" where
  "with_handle g i f =
     (case bmap_get (rg_handles g) i of
        None \<Rightarrow> Some (g, - 1)
      | Some h \<Rightarrow>
         (case f h of
            None \<Rightarrow> None
          | Some (h', rc) \<Rightarrow> Some (g\<lparr>rg_handles := bmap_insert i h' (rg_handles g)\<rparr>, rc)))"

definition new_handle :: "engine_kind \<Rightarrow> engine_handle" where
  "new_handle k = \<lparr>eh_kind = k, eh_tls = TlsDisabled, eh_output = empty_buffer, eh_last_error = None\<rparr>"

definition add_handle :: "registry \<Rightarrow> engine_kind \<Rightarrow> registry \<times> u64" where
  "add_handle g k =
     (\<lparr>rg_handles = bmap_insert (rg_next_handle g) (new_handle k) (rg_handles g), rg_next_handle = rg_next_handle g + 1\<rparr>,
      rg_next_handle g)"

definition ffi_cfg :: "u64 \<Rightarrow> u64 \<Rightarrow> u64 \<Rightarrow> core_config" where
  "ffi_cfg msr miss disconnect = \<lparr>msr_interval_ms = msr, miss_window_count = miss, disconnect_window_ms = disconnect\<rparr>"

lemmas ffi_cfg_simp [simp] = ffi_cfg_def

definition v3_ffi_new_client :: "registry \<Rightarrow> u64 \<Rightarrow> u64 \<Rightarrow> u64 \<Rightarrow> u64 \<Rightarrow> registry \<times> u64" where
  "v3_ffi_new_client g cid msr miss disconnect =
     add_handle g (ClientEngine (client_new cid (ffi_cfg msr miss disconnect)))"

definition v3_ffi_new_server :: "registry \<Rightarrow> u64 \<Rightarrow> u64 \<Rightarrow> u64 \<Rightarrow> registry \<times> u64" where
  "v3_ffi_new_server g msr miss disconnect =
     add_handle g (ServerEngine (server_new (ffi_cfg msr miss disconnect) (replicate DEFAULT_SHARD_COUNT [])))"

definition v3_ffi_free :: "registry \<Rightarrow> u64 \<Rightarrow> registry" where
  "v3_ffi_free g i = g\<lparr>rg_handles := bmap_remove i (rg_handles g)\<rparr>"

section \<open>Calls\<close>

text \<open>\<^verbatim>\<open>Ok(out) => { normalize(out, &mut handle.output); 0 }, Err(e) => set_error(handle, e.to_string())\<close>, after the
  call has changed the runtime.\<close>

definition client_result :: "engine_env \<Rightarrow> engine_handle \<Rightarrow> client_result \<Rightarrow> engine_handle \<times> i32" where
  "client_result E h res =
     (case res of
        (r, Inl e) \<Rightarrow> set_error (h\<lparr>eh_kind := ClientEngine r\<rparr>) (ee_client_error_text E e)
      | (r, Inr out) \<Rightarrow> (h\<lparr>eh_kind := ClientEngine r, eh_output := normalize_client_output E out\<rparr>, 0))"

definition server_result :: "engine_env \<Rightarrow> engine_handle \<Rightarrow> memory_store server_result \<Rightarrow> engine_handle \<times> i32" where
  "server_result E h res =
     (case res of
        (r, Inl e) \<Rightarrow> set_error (h\<lparr>eh_kind := ServerEngine r\<rparr>) (ee_server_error_text E e)
      | (r, Inr out) \<Rightarrow> (h\<lparr>eh_kind := ServerEngine r, eh_output := normalize_server_output E out\<rparr>, 0))"

definition engine_begin_handshake :: "engine_env \<Rightarrow> u64 \<Rightarrow> engine_handle \<Rightarrow> engine_handle \<times> i32" where
  "engine_begin_handshake E now h =
     (case eh_kind h of
        ServerEngine _ \<Rightarrow> (h, 0)
      | ClientEngine r \<Rightarrow>
         (case eh_tls h of
            TlsClient tls \<Rightarrow>
              if \<not> ct_established tls then
                let (adapter, hs) = openssl_start_client (ee_openssl E) (ct_adapter tls) (ct_cfg tls);
                    h = h\<lparr>eh_tls := TlsClient (tls\<lparr>ct_adapter := adapter\<rparr>)\<rparr>
                in case hs of
                     Inl e \<Rightarrow> set_error h (''tls start failed: '' @ ee_crypto_error_text E e)
                   | Inr out \<Rightarrow> (h\<lparr>eh_output := \<lparr>ob_datagrams = map (Pair 0) (Handshake.outbound_datagrams out),
                       ob_events = [ee_json E [(''kind'', JsonText ''client_tls''), (''event'', JsonText ''handshake_started'')]]\<rparr>\<rparr>, 0)
              else client_result E h (client_begin_handshake r now)
          | _ \<Rightarrow> client_result E h (client_begin_handshake r now)))"

definition tls_established_event :: "engine_env \<Rightarrow> string" where
  "tls_established_event E = ee_json E [(''kind'', JsonText ''client_tls''), (''event'', JsonText ''handshake_established'')]"

text \<open>The adapter reports that it is established: once, the core handshake is begun and its output appended.\<close>

definition client_tls_established ::
    "engine_env \<Rightarrow> u64 \<Rightarrow> client_runtime \<Rightarrow> client_tls_state \<Rightarrow> engine_handle \<Rightarrow> engine_handle \<times> i32" where
  "client_tls_established E now r tls h =
     (let tls = tls\<lparr>ct_established := True\<rparr>;
          h = h\<lparr>eh_tls := TlsClient tls,
                eh_output := (eh_output h)\<lparr>ob_events := ob_events (eh_output h) @ [tls_established_event E]\<rparr>\<rparr>
      in if ct_core_started tls then (h, 0)
         else
           let (r, res) = client_begin_handshake r now;
               h = h\<lparr>eh_kind := ClientEngine r, eh_tls := TlsClient (tls\<lparr>ct_core_started := True\<rparr>)\<rparr>
           in case res of
                Inl e \<Rightarrow> set_error h (ee_client_error_text E e)
              | Inr core_out \<Rightarrow>
                  (h\<lparr>eh_output :=
                     \<lparr>ob_datagrams = ob_datagrams (eh_output h) @ map dgram_pair (cro_outbound_datagrams core_out),
                      ob_events = ob_events (eh_output h) @ map (\<lambda>e. ee_json E [(''kind'', JsonText ''client_core''),
                        (''event'', JsonText (ee_debug_client_event E e))]) (cro_events core_out)\<rparr>\<rparr>, 0))"

definition client_tls_datagram ::
    "engine_env \<Rightarrow> u64 \<Rightarrow> u32 \<Rightarrow> bytes \<Rightarrow> client_runtime \<Rightarrow> client_tls_state \<Rightarrow> engine_handle \<Rightarrow> engine_handle \<times> i32" where
  "client_tls_datagram E now path_id bs r tls h =
     (let (adapter, hs) = openssl_on_datagram (ct_adapter tls) bs;
          tls = tls\<lparr>ct_adapter := adapter\<rparr>;
          h = h\<lparr>eh_tls := TlsClient tls\<rparr>
      in case hs of
           Inl e \<Rightarrow> set_error h (''tls datagram failed: '' @ ee_crypto_error_text E e)
         | Inr out \<Rightarrow>
             let h = h\<lparr>eh_output := \<lparr>ob_datagrams = map (Pair path_id) (Handshake.outbound_datagrams out), ob_events = []\<rparr>\<rparr>
             in if ho_established out then client_tls_established E now r tls h else (h, 0))"

definition client_engine_datagram ::
    "engine_env \<Rightarrow> u64 \<Rightarrow> u32 \<Rightarrow> bytes \<Rightarrow> client_runtime \<Rightarrow> engine_handle \<Rightarrow> engine_handle \<times> i32" where
  "client_engine_datagram E now path_id bs r h =
     (let core = client_result E h (client_runtime_on_datagram r now path_id bs) in
      case eh_tls h of
        TlsClient tls \<Rightarrow>
          if \<not> ct_established tls then client_tls_datagram E now path_id bs r tls h
          else if is_dtls_packet bs then (h\<lparr>eh_output := empty_buffer\<rparr>, 0)
          else core
      | _ \<Rightarrow> core)"

text \<open>The adapter of a path, started at the first datagram from it; \<^verbatim>\<open>expect("validated tls config")\<close> panics
  when the files are gone.\<close>

definition path_session :: "engine_env \<Rightarrow> server_tls_state \<Rightarrow> u32 \<Rightarrow> server_path_tls_state option" where
  "path_session E tls path_id =
     (case bmap_get (stls_sessions_by_path tls) path_id of
        Some session \<Rightarrow> Some session
      | None \<Rightarrow>
         (case build_server_tls_cfg E (stls_server_name tls) (stls_cert_path tls) (stls_key_path tls) of
            Inl _ \<Rightarrow> None
          | Inr cfg \<Rightarrow> Some \<lparr>sp_adapter = fst (openssl_start_server (ee_openssl E) openssl_new cfg), sp_established = False\<rparr>))"

definition set_path_session :: "server_tls_state \<Rightarrow> u32 \<Rightarrow> server_path_tls_state \<Rightarrow> engine_handle \<Rightarrow> engine_handle" where
  "set_path_session tls path_id session h =
     h\<lparr>eh_tls := TlsServer (tls\<lparr>stls_sessions_by_path := bmap_insert path_id session (stls_sessions_by_path tls)\<rparr>)\<rparr>"

definition server_tls_datagram ::
    "engine_env \<Rightarrow> u32 \<Rightarrow> bytes \<Rightarrow> server_tls_state \<Rightarrow> server_path_tls_state \<Rightarrow> engine_handle \<Rightarrow> engine_handle \<times> i32" where
  "server_tls_datagram E path_id bs tls session h =
     (let (adapter, res) = openssl_on_datagram (sp_adapter session) bs;
          session = session\<lparr>sp_adapter := adapter\<rparr>
      in case res of
           Inl e \<Rightarrow> set_error (set_path_session tls path_id session h)
             (''server tls datagram failed: '' @ ee_crypto_error_text E e)
         | Inr out \<Rightarrow>
             let session = session\<lparr>sp_established := sp_established session \<or> ho_established out\<rparr>
             in ((set_path_session tls path_id session h)\<lparr>eh_output :=
                   \<lparr>ob_datagrams = map (Pair path_id) (Handshake.outbound_datagrams out),
                    ob_events = (if ho_established out then [ee_json E [(''kind'', JsonText ''server_tls''),
                      (''event'', JsonText ''handshake_established''), (''path_id'', JsonNumber (unat path_id))]] else [])\<rparr>\<rparr>, 0))"

definition server_engine_datagram ::
    "engine_env \<Rightarrow> u64 \<Rightarrow> u32 \<Rightarrow> bytes \<Rightarrow> memory_store server_runtime \<Rightarrow> engine_handle \<Rightarrow> (engine_handle \<times> i32) option" where
  "server_engine_datagram E now path_id bs r h =
     (let core = (\<lambda>h. server_result E h (server_runtime_on_datagram (ee_server E) r now path_id bs)) in
      case eh_tls h of
        TlsServer tls \<Rightarrow>
         (case path_session E tls path_id of
            None \<Rightarrow> None
          | Some session \<Rightarrow> Some
             (if is_dtls_packet bs then server_tls_datagram E path_id bs tls session h
              else if \<not> sp_established session then ((set_path_session tls path_id session h)\<lparr>eh_output := empty_buffer\<rparr>, 0)
              else core (set_path_session tls path_id session h)))
      | _ \<Rightarrow> Some (core h))"

definition engine_on_datagram ::
    "engine_env \<Rightarrow> u64 \<Rightarrow> u32 \<Rightarrow> bytes \<Rightarrow> engine_handle \<Rightarrow> (engine_handle \<times> i32) option" where
  "engine_on_datagram E now path_id bs h =
     (case eh_kind h of
        ClientEngine r \<Rightarrow> Some (client_engine_datagram E now path_id bs r h)
      | ServerEngine r \<Rightarrow> server_engine_datagram E now path_id bs r h)"

definition engine_send_message :: "engine_env \<Rightarrow> bytes \<Rightarrow> engine_handle \<Rightarrow> engine_handle \<times> i32" where
  "engine_send_message E bs h =
     (case eh_kind h of
        ClientEngine r \<Rightarrow> client_result E h (client_send_message r bs)
      | ServerEngine _ \<Rightarrow> (h, - 1))"

definition engine_close_session :: "engine_env \<Rightarrow> engine_handle \<Rightarrow> engine_handle \<times> i32" where
  "engine_close_session E h =
     (case eh_kind h of
        ClientEngine r \<Rightarrow> client_result E h (client_close_session r)
      | ServerEngine _ \<Rightarrow> (h, - 1))"

definition engine_server_send_message :: "engine_env \<Rightarrow> u64 \<Rightarrow> bytes \<Rightarrow> u64 \<Rightarrow> engine_handle \<Rightarrow> engine_handle \<times> i32" where
  "engine_server_send_message E cid bs now h =
     (case eh_kind h of
        ClientEngine _ \<Rightarrow> (h, - 1)
      | ServerEngine r \<Rightarrow> server_result E h (server_send_message (ee_server E) r cid bs now))"

definition engine_poll_timers :: "engine_env \<Rightarrow> u64 \<Rightarrow> nat \<Rightarrow> engine_handle \<Rightarrow> engine_handle \<times> i32" where
  "engine_poll_timers E now limit h =
     (case eh_kind h of
        ClientEngine r \<Rightarrow> client_result E h (client_poll_timers r now limit)
      | ServerEngine r \<Rightarrow> server_result E h (server_poll_timers (ee_server E) r now limit))"

definition engine_poll_nat :: "engine_env \<Rightarrow> u64 \<Rightarrow> engine_handle \<Rightarrow> engine_handle \<times> i32" where
  "engine_poll_nat E now h =
     (case eh_kind h of
        ClientEngine r \<Rightarrow>
          let (r, out) = client_on_nat_tick r now
          in (h\<lparr>eh_kind := ClientEngine r, eh_output := normalize_client_output E out\<rparr>, 0)
      | ServerEngine r \<Rightarrow>
          let (r, out) = server_on_nat_tick r now
          in (h\<lparr>eh_kind := ServerEngine r, eh_output := normalize_server_output E out\<rparr>, 0))"

definition utf8_arg ::
    "engine_env \<Rightarrow> string \<Rightarrow> bytes option \<Rightarrow> engine_handle \<Rightarrow> (string \<Rightarrow> engine_handle \<times> i32) \<Rightarrow> engine_handle \<times> i32" where
  "utf8_arg E what p h k =
     (case from_utf8 (bytes_from_ptr p) of
        None \<Rightarrow> set_error h (''invalid '' @ what @ '' utf8: '' @ ee_utf8_error_text E (bytes_from_ptr p))
      | Some s \<Rightarrow> k s)"

definition engine_configure_nat ::
    "engine_env \<Rightarrow> i32 \<Rightarrow> bytes option \<Rightarrow> bytes option \<Rightarrow> bytes option \<Rightarrow> bytes option \<Rightarrow> bytes option
      \<Rightarrow> engine_handle \<Rightarrow> engine_handle \<times> i32" where
  "engine_configure_nat E relay stun turn realm username password h =
     utf8_arg E ''stun_uri'' stun h (\<lambda>stun_uri.
     utf8_arg E ''turn_uri'' turn h (\<lambda>turn_uri.
     utf8_arg E ''turn_realm'' realm h (\<lambda>turn_realm.
     utf8_arg E ''turn_username'' username h (\<lambda>turn_username.
     utf8_arg E ''turn_password'' password h (\<lambda>turn_password.
       let policy = (if relay = 1 then RelayOnly else PreferDirect);
           kind = (case eh_kind h of
             ClientEngine r \<Rightarrow> ClientEngine (client_set_relay_policy r policy)
           | ServerEngine r \<Rightarrow> ServerEngine (server_set_relay_policy r policy))
       in (h\<lparr>eh_kind := kind,
             eh_output := \<lparr>ob_datagrams = [], ob_events = [ee_json E
              [(''kind'', JsonText ''nat_config''),
               (''relay_policy'', JsonText (if relay = 1 then ''relay_only'' else ''prefer_direct'')),
               (''stun_uri'', JsonText stun_uri), (''turn_uri'', JsonText turn_uri),
               (''turn_realm'', JsonText turn_realm), (''turn_username'', JsonText turn_username),
               (''turn_password_set'', JsonBool (turn_password \<noteq> []))]]\<rparr>\<rparr>, 0))))))"

definition engine_configure_client_tls :: "engine_env \<Rightarrow> bytes option \<Rightarrow> engine_handle \<Rightarrow> engine_handle \<times> i32" where
  "engine_configure_client_tls E p h =
     utf8_arg E ''expected_server_name'' p h (\<lambda>expected.
       case build_client_tls_cfg expected of
         Inl e \<Rightarrow> set_error h e
       | Inr cfg \<Rightarrow>
          (case eh_kind h of
             ClientEngine _ \<Rightarrow> (h\<lparr>eh_tls := TlsClient
               \<lparr>ct_adapter = openssl_new, ct_cfg = cfg, ct_established = False, ct_core_started = False\<rparr>\<rparr>, 0)
           | ServerEngine _ \<Rightarrow> set_error h ''client tls can only be configured on client handle''))"

text \<open>\<^verbatim>\<open>match &mut handle.tls\<close> of the two calls that change the trust anchors.\<close>

definition change_anchors :: "(bytes list \<Rightarrow> bytes list) \<Rightarrow> engine_handle \<Rightarrow> engine_handle \<times> i32" where
  "change_anchors f h =
     (case eh_tls h of
        TlsClient tls \<Rightarrow>
          if ct_established tls \<or> ct_core_started tls
          then set_error h ''trust anchors can only be changed before handshake start''
          else (h\<lparr>eh_tls := TlsClient (tls\<lparr>ct_cfg := (ct_cfg tls)
                  \<lparr>hc_trust := (hc_trust (ct_cfg tls))\<lparr>trust_anchor_pems := f (trust_anchor_pems (hc_trust (ct_cfg tls)))\<rparr>\<rparr>\<rparr>)\<rparr>, 0)
      | TlsDisabled \<Rightarrow> set_error h ''client tls must be configured before setting trust anchors''
      | TlsServer _ \<Rightarrow> set_error h ''trust anchors can only be changed on client tls'')"

definition engine_tls_clear_anchors :: "engine_handle \<Rightarrow> engine_handle \<times> i32" where
  "engine_tls_clear_anchors h = change_anchors (\<lambda>_. []) h"

definition engine_tls_add_anchor_pem :: "bytes option \<Rightarrow> engine_handle \<Rightarrow> engine_handle \<times> i32" where
  "engine_tls_add_anchor_pem p h =
     (let pem = bytes_from_ptr p in
      if pem = [] then set_error h ''trust anchor pem bytes are empty''
      else change_anchors (\<lambda>pems. pems @ [pem]) h)"

definition engine_configure_server_tls ::
    "engine_env \<Rightarrow> bytes option \<Rightarrow> bytes option \<Rightarrow> bytes option \<Rightarrow> engine_handle \<Rightarrow> engine_handle \<times> i32" where
  "engine_configure_server_tls E name cert key h =
     utf8_arg E ''server_name'' name h (\<lambda>server_name.
     utf8_arg E ''cert_path'' cert h (\<lambda>cert_path.
     utf8_arg E ''key_path'' key h (\<lambda>key_path.
       case build_server_tls_cfg E server_name cert_path key_path of
         Inl e \<Rightarrow> set_error h e
       | Inr _ \<Rightarrow>
          (case eh_kind h of
             ServerEngine _ \<Rightarrow> (h\<lparr>eh_tls := TlsServer
               \<lparr>stls_server_name = server_name, stls_cert_path = cert_path, stls_key_path = key_path,
                stls_sessions_by_path = []\<rparr>\<rparr>, 0)
           | ClientEngine _ \<Rightarrow> set_error h ''server tls can only be configured on server handle''))))"

definition engine_clear_output :: "engine_handle \<Rightarrow> engine_handle" where
  "engine_clear_output h = h\<lparr>eh_output := empty_buffer\<rparr>"

section \<open>The exported calls\<close>

datatype engine_call =
    BeginHandshake u64
  | Datagram u64 u32 "bytes option"
  | SendMessage "bytes option"
  | CloseSession
  | ConfigureNat i32 "bytes option" "bytes option" "bytes option" "bytes option" "bytes option"
  | ServerSendMessage u64 "bytes option" u64
  | PollTimers u64 nat
  | PollNat u64
  | ConfigureClientTls "bytes option"
  | TlsClearAnchors
  | TlsAddAnchorPem "bytes option"
  | ConfigureServerTls "bytes option" "bytes option" "bytes option"
  | ClearOutput

text \<open>A call on one engine: its new state and the code it returns, or an abort.\<close>

fun engine_step :: "engine_env \<Rightarrow> engine_handle \<Rightarrow> engine_call \<Rightarrow> (engine_handle \<times> i32) option" where
  "engine_step E h (BeginHandshake now) = Some (engine_begin_handshake E now h)"
| "engine_step E h (Datagram now path_id p) = engine_on_datagram E now path_id (bytes_from_ptr p) h"
| "engine_step E h (SendMessage p) = Some (engine_send_message E (bytes_from_ptr p) h)"
| "engine_step E h CloseSession = Some (engine_close_session E h)"
| "engine_step E h (ConfigureNat relay stun turn realm username password) =
     Some (engine_configure_nat E relay stun turn realm username password h)"
| "engine_step E h (ServerSendMessage cid p now) = Some (engine_server_send_message E cid (bytes_from_ptr p) now h)"
| "engine_step E h (PollTimers now limit) = Some (engine_poll_timers E now limit h)"
| "engine_step E h (PollNat now) = Some (engine_poll_nat E now h)"
| "engine_step E h (ConfigureClientTls p) = Some (engine_configure_client_tls E p h)"
| "engine_step E h TlsClearAnchors = Some (engine_tls_clear_anchors h)"
| "engine_step E h (TlsAddAnchorPem p) = Some (engine_tls_add_anchor_pem p h)"
| "engine_step E h (ConfigureServerTls name cert key) = Some (engine_configure_server_tls E name cert key h)"
| "engine_step E h ClearOutput = Some (engine_clear_output h, 0)"

definition v3_ffi_call :: "engine_env \<Rightarrow> registry \<Rightarrow> u64 \<Rightarrow> engine_call \<Rightarrow> (registry \<times> i32) option" where
  "v3_ffi_call E g i c = with_handle g i (\<lambda>h. engine_step E h c)"

datatype ffi_call =
    NewClient u64 u64 u64 u64
  | NewServer u64 u64 u64
  | FreeHandle u64
  | Call u64 engine_call

fun ffi_step :: "engine_env \<Rightarrow> registry \<Rightarrow> ffi_call \<Rightarrow> registry option" where
  "ffi_step E g (NewClient cid msr miss disconnect) = Some (fst (v3_ffi_new_client g cid msr miss disconnect))"
| "ffi_step E g (NewServer msr miss disconnect) = Some (fst (v3_ffi_new_server g msr miss disconnect))"
| "ffi_step E g (FreeHandle i) = Some (v3_ffi_free g i)"
| "ffi_step E g (Call i c) = map_option fst (v3_ffi_call E g i c)"

fun ffi_run :: "engine_env \<Rightarrow> registry \<Rightarrow> ffi_call list \<Rightarrow> registry option" where
  "ffi_run E g [] = Some g"
| "ffi_run E g (c # cs) = (case ffi_step E g c of None \<Rightarrow> None | Some g \<Rightarrow> ffi_run E g cs)"

fun engine_run :: "engine_env \<Rightarrow> engine_handle \<Rightarrow> engine_call list \<Rightarrow> engine_handle option" where
  "engine_run E h [] = Some h"
| "engine_run E h (c # cs) = (case engine_step E h c of None \<Rightarrow> None | Some (h, _) \<Rightarrow> engine_run E h cs)"

section \<open>Reading the output\<close>

definition out_datagrams :: "registry \<Rightarrow> u64 \<Rightarrow> (u32 \<times> bytes) list" where
  "out_datagrams g i = (case bmap_get (rg_handles g) i of None \<Rightarrow> [] | Some h \<Rightarrow> ob_datagrams (eh_output h))"

definition out_events :: "registry \<Rightarrow> u64 \<Rightarrow> string list" where
  "out_events g i = (case bmap_get (rg_handles g) i of None \<Rightarrow> [] | Some h \<Rightarrow> ob_events (eh_output h))"

text \<open>\<^verbatim>\<open>slice::get\<close>.\<close>

definition list_get :: "'a list \<Rightarrow> nat \<Rightarrow> 'a option" where
  "list_get xs k = (if k < length xs then Some (xs ! k) else None)"

definition out_datagram_count :: "registry \<Rightarrow> u64 \<Rightarrow> nat" where
  "out_datagram_count g i = length (out_datagrams g i)"

definition out_datagram_len :: "registry \<Rightarrow> u64 \<Rightarrow> nat \<Rightarrow> nat" where
  "out_datagram_len g i k = (case list_get (out_datagrams g i) k of None \<Rightarrow> 0 | Some (_, d) \<Rightarrow> length d)"

definition out_datagram_path_id :: "registry \<Rightarrow> u64 \<Rightarrow> nat \<Rightarrow> u32" where
  "out_datagram_path_id g i k = (case list_get (out_datagrams g i) k of None \<Rightarrow> 0 | Some (path_id, _) \<Rightarrow> path_id)"

text \<open>A caller's buffer, \<open>None\<close> for the null pointer, after the copy, and the number of bytes reported.\<close>

definition copy_out :: "bytes option \<Rightarrow> bytes option \<Rightarrow> bytes option \<times> nat" where
  "copy_out src dst =
     (case dst of
        None \<Rightarrow> (dst, 0)
      | Some buf \<Rightarrow>
          if buf = [] then (dst, 0)
          else case src of
            None \<Rightarrow> (dst, 0)
          | Some bs \<Rightarrow> let n = min (length bs) (length buf) in (Some (take n bs @ drop n buf), n))"

definition out_datagram_copy :: "registry \<Rightarrow> u64 \<Rightarrow> nat \<Rightarrow> bytes option \<Rightarrow> bytes option \<times> nat" where
  "out_datagram_copy g i k dst = copy_out (map_option snd (list_get (out_datagrams g i) k)) dst"

definition out_event_count :: "registry \<Rightarrow> u64 \<Rightarrow> nat" where
  "out_event_count g i = length (out_events g i)"

definition out_event_len :: "registry \<Rightarrow> u64 \<Rightarrow> nat \<Rightarrow> nat" where
  "out_event_len g i k = (case list_get (out_events g i) k of None \<Rightarrow> 0 | Some e \<Rightarrow> length (string_bytes e))"

definition out_event_copy :: "registry \<Rightarrow> u64 \<Rightarrow> nat \<Rightarrow> bytes option \<Rightarrow> bytes option \<times> nat" where
  "out_event_copy g i k dst = copy_out (map_option string_bytes (list_get (out_events g i) k)) dst"

definition last_error_of :: "registry \<Rightarrow> u64 \<Rightarrow> bytes option" where
  "last_error_of g i =
     (case bmap_get (rg_handles g) i of None \<Rightarrow> None | Some h \<Rightarrow> map_option string_bytes (eh_last_error h))"

definition last_error_len :: "registry \<Rightarrow> u64 \<Rightarrow> nat" where
  "last_error_len g i = (case last_error_of g i of None \<Rightarrow> 0 | Some e \<Rightarrow> length e)"

definition last_error_copy :: "registry \<Rightarrow> u64 \<Rightarrow> bytes option \<Rightarrow> bytes option \<times> nat" where
  "last_error_copy g i dst = copy_out (last_error_of g i) dst"

text \<open>How a caller drains the output: the length, a zeroed buffer of that length, the copy, cut to the number of
  bytes copied.\<close>

definition take_datagrams :: "registry \<Rightarrow> u64 \<Rightarrow> (u32 \<times> bytes) list" where
  "take_datagrams g i = map (\<lambda>k.
     let (buf, copied) = out_datagram_copy g i k (Some (replicate (out_datagram_len g i k) 0))
     in (out_datagram_path_id g i k, take copied (case buf of None \<Rightarrow> [] | Some b \<Rightarrow> b))) [0..<out_datagram_count g i]"

definition take_events :: "registry \<Rightarrow> u64 \<Rightarrow> bytes list" where
  "take_events g i = map (\<lambda>k.
     let (buf, copied) = out_event_copy g i k (Some (replicate (out_event_len g i k) 0))
     in take copied (case buf of None \<Rightarrow> [] | Some b \<Rightarrow> b)) [0..<out_event_count g i]"

end
