(* ===== verification/Registry.thy ===== *)
theory Registry
  imports Engine
begin

text \<open>
  The handles of \<^verbatim>\<open>v3-ffi\<close>: every handle is an engine of its own, whatever the calls on the others, each
  engine keeps the invariants of its runtime and its adapters, a call that fails leaves the output where it
  was, and the calls that read the output give it back byte for byte.
\<close>

section \<open>Handles are independent engines\<close>

fun calls_of :: "u64 \<Rightarrow> ffi_call list \<Rightarrow> engine_call list" where
  "calls_of i [] = []"
| "calls_of i (Call j c # cs) = (if j = i then c # calls_of i cs else calls_of i cs)"
| "calls_of i (_ # cs) = calls_of i cs"

fun new_engine :: "ffi_call \<Rightarrow> engine_kind option" where
  "new_engine (NewClient cid msr miss disconnect) = Some (ClientEngine (client_new cid
     \<lparr>msr_interval_ms = msr, miss_window_count = miss, disconnect_window_ms = disconnect\<rparr>))"
| "new_engine (NewServer msr miss disconnect) = Some (ServerEngine (server_new
     \<lparr>msr_interval_ms = msr, miss_window_count = miss, disconnect_window_ms = disconnect\<rparr>
     (replicate DEFAULT_SHARD_COUNT [])))"
| "new_engine _ = None"

lemma ffi_step_new: "new_engine c = Some k \<Longrightarrow> ffi_step E g c = Some (fst (add_handle g k))"
  by (cases c) (auto simp: v3_ffi_new_client_def v3_ffi_new_server_def)

text \<open>What one call does to the handle \<open>i\<close>, and to the next identifier.\<close>

lemma ffi_step_other:
  assumes "ffi_step E g c = Some g'" and "rg_next_handle g \<noteq> i \<or> new_engine c = None" and "c \<noteq> FreeHandle i"
    and "\<forall>e. c \<noteq> Call i e"
  shows "bmap_get (rg_handles g') i = bmap_get (rg_handles g) i"
  using assms by (cases c)
    (auto simp: v3_ffi_new_client_def v3_ffi_new_server_def add_handle_def v3_ffi_free_def v3_ffi_call_def
      with_handle_def split: option.splits)

lemma ffi_step_next:
  "ffi_step E g c = Some g' \<Longrightarrow>
   rg_next_handle g' = (if new_engine c = None then rg_next_handle g else rg_next_handle g + 1)"
  by (cases c) (auto simp: v3_ffi_new_client_def v3_ffi_new_server_def add_handle_def v3_ffi_free_def
      v3_ffi_call_def with_handle_def split: option.splits)

lemma ffi_step_call:
  assumes "ffi_step E g (Call i c) = Some g'" and "bmap_get (rg_handles g) i = Some h"
  shows "\<exists>h' rc. engine_step E h c = Some (h', rc) \<and> bmap_get (rg_handles g') i = Some h'"
  using assms by (auto simp: v3_ffi_call_def with_handle_def split: option.splits)

lemma next_handle_grows:
  assumes "ffi_step E g c = Some g'" and "unat (rg_next_handle g) + 1 < 2 ^ 64"
  shows "rg_next_handle g \<le> rg_next_handle g' \<and> unat (rg_next_handle g') \<le> unat (rg_next_handle g) + 1"
proof -
  have "unat (rg_next_handle g + 1) = unat (rg_next_handle g) + 1"
    using assms(2) by (simp add: unat_word_ariths)
  then show ?thesis using ffi_step_next [OF assms(1)] by (auto simp: word_le_nat_alt)
qed

lemma ffi_run_engine:
  "ffi_run E g calls = Some g' \<Longrightarrow> bmap_get (rg_handles g) i = Some h \<Longrightarrow> FreeHandle i \<notin> set calls \<Longrightarrow>
   i < rg_next_handle g \<Longrightarrow> unat (rg_next_handle g) + length calls < 2 ^ 64 \<Longrightarrow>
   \<exists>h'. engine_run E h (calls_of i calls) = Some h' \<and> bmap_get (rg_handles g') i = Some h'"
proof (induction calls arbitrary: g h)
  case Nil
  then show ?case by simp
next
  case (Cons c calls)
  obtain g1 where g1: "ffi_step E g c = Some g1" "ffi_run E g1 calls = Some g'"
    using Cons.prems(1) by (auto split: option.splits)
  have grows: "rg_next_handle g \<le> rg_next_handle g1" "unat (rg_next_handle g1) \<le> unat (rg_next_handle g) + 1"
    using next_handle_grows [OF g1(1)] Cons.prems(5) by auto
  have small: "i < rg_next_handle g1" "unat (rg_next_handle g1) + length calls < 2 ^ 64"
    using grows Cons.prems(4,5) by auto
  have free: "FreeHandle i \<notin> set calls" using Cons.prems(3) by simp
  show ?case
  proof (cases "\<exists>e. c = Call i e")
    case True
    then obtain e where c: "c = Call i e" by blast
    then obtain h1 rc where "engine_step E h e = Some (h1, rc)" "bmap_get (rg_handles g1) i = Some h1"
      using ffi_step_call [of E g i e g1 h] g1(1) Cons.prems(2) by blast
    then show ?thesis using Cons.IH [OF g1(2) _ free small] by (simp add: c)
  next
    case False
    have "bmap_get (rg_handles g1) i = Some h"
      using ffi_step_other [OF g1(1), of i] False Cons.prems(2,3,4) by force
    moreover have "calls_of i (c # calls) = calls_of i calls" using False by (cases c) auto
    ultimately show ?thesis using Cons.IH [OF g1(2) _ free small] by simp
  qed
qed

text \<open>Identifiers are given out once: below \<open>rg_next_handle\<close> are those in use.\<close>

definition ids_below :: "registry \<Rightarrow> bool" where
  "ids_below g \<longleftrightarrow> (\<forall>i h. bmap_get (rg_handles g) i = Some h \<longrightarrow> i < rg_next_handle g)"

lemma ffi_step_ids:
  assumes "ffi_step E g c = Some g'" and "ids_below g" and "unat (rg_next_handle g) + 1 < 2 ^ 64"
  shows "ids_below g'"
  unfolding ids_below_def
proof (intro allI impI)
  fix i h
  assume h: "bmap_get (rg_handles g') i = Some h"
  have less: "rg_next_handle g < rg_next_handle g + 1"
    using assms(3) by (simp add: word_less_nat_alt unat_word_ariths)
  show "i < rg_next_handle g'"
  proof (cases "bmap_get (rg_handles g) i")
    case (Some h0)
    then show ?thesis using next_handle_grows [OF assms(1,3)] assms(2) by (auto simp: ids_below_def)
  next
    case None
    then have "new_engine c \<noteq> None \<and> i = rg_next_handle g"
      using assms(1) h by (cases c) (auto simp: v3_ffi_new_client_def v3_ffi_new_server_def add_handle_def
        v3_ffi_free_def v3_ffi_call_def with_handle_def split: option.splits if_splits)
    then show ?thesis using ffi_step_next [OF assms(1)] less by auto
  qed
qed

lemma ffi_run_ids:
  "ffi_run E g calls = Some g' \<Longrightarrow> ids_below g \<Longrightarrow> unat (rg_next_handle g) + length calls < 2 ^ 64 \<Longrightarrow>
   ids_below g' \<and> unat (rg_next_handle g') \<le> unat (rg_next_handle g) + length calls"
proof (induction calls arbitrary: g)
  case Nil
  then show ?case by simp
next
  case (Cons c calls)
  obtain g1 where g1: "ffi_step E g c = Some g1" "ffi_run E g1 calls = Some g'"
    using Cons.prems(1) by (auto split: option.splits)
  have "unat (rg_next_handle g1) \<le> unat (rg_next_handle g) + 1" "ids_below g1"
    using next_handle_grows [OF g1(1)] ffi_step_ids [OF g1(1) Cons.prems(2)] Cons.prems(3) by auto
  then show ?case using Cons.IH [OF g1(2)] Cons.prems(3) by auto
qed

text \<open>The identifier a call returns to its caller, and all the identifiers a sequence of calls returns.\<close>

fun new_id :: "registry \<Rightarrow> ffi_call \<Rightarrow> u64 option" where
  "new_id g (NewClient cid msr miss disconnect) = Some (snd (v3_ffi_new_client g cid msr miss disconnect))"
| "new_id g (NewServer msr miss disconnect) = Some (snd (v3_ffi_new_server g msr miss disconnect))"
| "new_id g _ = None"

fun ids_given :: "engine_env \<Rightarrow> registry \<Rightarrow> ffi_call list \<Rightarrow> u64 list" where
  "ids_given E g [] = []"
| "ids_given E g (c # cs) =
     (case new_id g c of None \<Rightarrow> [] | Some i \<Rightarrow> [i])
     @ (case ffi_step E g c of None \<Rightarrow> [] | Some g \<Rightarrow> ids_given E g cs)"

lemma new_id_next: "new_id g c = (if new_engine c = None then None else Some (rg_next_handle g))"
  by (cases c) (simp_all add: v3_ffi_new_client_def v3_ffi_new_server_def add_handle_def)

text \<open>Identifiers only grow, whatever is freed in between.\<close>

lemma ids_given_range:
  "ffi_run E g calls = Some g' \<Longrightarrow> unat (rg_next_handle g) + length calls < 2 ^ 64 \<Longrightarrow>
   rg_next_handle g \<le> rg_next_handle g' \<and> set (ids_given E g calls) \<subseteq> {rg_next_handle g..<rg_next_handle g'}"
proof (induction calls arbitrary: g)
  case Nil
  then show ?case by simp
next
  case (Cons c calls)
  obtain g1 where g1: "ffi_step E g c = Some g1" "ffi_run E g1 calls = Some g'"
    using Cons.prems(1) by (auto split: option.splits)
  have grows: "rg_next_handle g \<le> rg_next_handle g1" "unat (rg_next_handle g1) \<le> unat (rg_next_handle g) + 1"
    using next_handle_grows [OF g1(1)] Cons.prems(2) by auto
  have rest: "rg_next_handle g1 \<le> rg_next_handle g'"
      "set (ids_given E g1 calls) \<subseteq> {rg_next_handle g1..<rg_next_handle g'}"
    using Cons.IH [OF g1(2)] grows(2) Cons.prems(2) by auto
  have "rg_next_handle g < rg_next_handle g1" if "new_engine c \<noteq> None"
    using ffi_step_next [OF g1(1)] that Cons.prems(2) by (simp add: word_less_nat_alt unat_word_ariths)
  then have "set (case new_id g c of None \<Rightarrow> [] | Some i \<Rightarrow> [i]) \<subseteq> {rg_next_handle g..<rg_next_handle g1}"
    by (auto simp: new_id_next)
  then show ?case using rest grows(1) by (fastforce simp: g1(1))
qed

text \<open>C22: a handle is an engine of its own.  Whatever calls have been made, frees of handles among them, the identifier
  that a new client or server gets is not 0, belongs to no live handle, has been given to no handle before, and no
  later call gives it again, so an identifier kept after its handle was freed never reaches another engine.  After any
  further calls that do not free it, on this handle and on others, the handle is exactly the engine that its own calls
  alone would have made of it.  Fewer than 2 to the 64 calls are made in all: the counter of identifiers does not wrap.\<close>

theorem registry_refines_engines:
  assumes "ffi_run E registry_default before = Some g" and "new_engine c = Some k"
    and "ffi_step E g c = Some g1" and "new_id g c = Some i" and "ffi_run E g1 calls = Some g'"
    and "FreeHandle i \<notin> set calls" and "length before + length calls < 2 ^ 64 - 2"
  shows "i \<noteq> 0 \<and> bmap_get (rg_handles g) i = None
    \<and> i \<notin> set (ids_given E registry_default before) \<and> i \<notin> set (ids_given E g1 calls)
    \<and> (\<exists>h. engine_run E (new_handle k) (calls_of i calls) = Some h \<and> bmap_get (rg_handles g') i = Some h)"
proof -
  have i: "i = rg_next_handle g" using assms(2,4) by (simp add: new_id_next)
  have ids: "ids_below g" "unat i \<le> 1 + length before"
    using ffi_run_ids [OF assms(1)] assms(7) by (auto simp: i ids_below_def registry_default_def)
  then have new: "bmap_get (rg_handles g) i = None" by (fastforce simp: ids_below_def i)
  have older: "1 \<le> i" "set (ids_given E registry_default before) \<subseteq> {1..<i}"
    using ids_given_range [OF assms(1)] assms(7) by (auto simp: registry_default_def i)
  have g1: "g1 = fst (add_handle g k)" using ffi_step_new [OF assms(2), of E g] assms(3) by simp
  then have at: "bmap_get (rg_handles g1) i = Some (new_handle k)" by (simp add: add_handle_def i)
  have nxt: "rg_next_handle g1 = i + 1" by (simp add: g1 add_handle_def i)
  moreover have nat: "unat (i + 1) = unat i + 1" using ids(2) assms(7) by (simp add: unat_word_ariths)
  ultimately have less: "i < rg_next_handle g1" "unat (rg_next_handle g1) + length calls < 2 ^ 64"
    using ids(2) assms(7) by (auto simp: word_less_nat_alt)
  then have "i \<notin> set (ids_given E g1 calls)" using ids_given_range [OF assms(5)] by fastforce
  moreover have "i \<noteq> 0" using older(1) by auto
  ultimately show ?thesis using ffi_run_engine [OF assms(5) at assms(6) less] new older(2) by auto
qed

section \<open>What every engine keeps\<close>

text \<open>The configuration the engine builds for a client, up to its trust anchors.\<close>

definition client_cfg_for :: "string \<Rightarrow> handshake_config \<Rightarrow> bool" where
  "client_cfg_for name cfg \<longleftrightarrow>
     (\<exists>pems. cfg = \<lparr>hc_profile = ServerAuth, hc_cipher_policy = cipher_policy_default,
        hc_trust = \<lparr>trust_anchor_pems = pems, require_hostname_verification = True\<rparr>,
        hc_client_identity = None, hc_expected_server_name = Some name\<rparr>)"

definition client_tls_ok :: "string \<Rightarrow> client_tls_state \<Rightarrow> bool" where
  "client_tls_ok name tls \<longleftrightarrow> \<not> trimmed_empty name \<and> client_cfg_for name (ct_cfg tls)
     \<and> ct_established tls = oa_established (ct_adapter tls) \<and> ct_core_started tls = ct_established tls
     \<and> sound_state oa_established oa_cfg (ct_adapter tls)
     \<and> (\<forall>cfg. oa_cfg (ct_adapter tls) = Some cfg \<longrightarrow> client_cfg_for name cfg \<and> oa_role (ct_adapter tls) = Some ClientRole)"

definition server_path_ok :: "string \<Rightarrow> server_path_tls_state \<Rightarrow> bool" where
  "server_path_ok name session \<longleftrightarrow> sp_established session = oa_established (sp_adapter session)
     \<and> (sp_established session \<longrightarrow> oa_ctx (sp_adapter session) \<noteq> None \<and> oa_ssl (sp_adapter session) \<noteq> None
          \<and> oa_cfg (sp_adapter session) \<noteq> None)
     \<and> sound_state oa_established oa_cfg (sp_adapter session)
     \<and> (\<forall>cfg. oa_cfg (sp_adapter session) = Some cfg \<longrightarrow>
          hc_expected_server_name cfg = Some name \<and> oa_role (sp_adapter session) = Some ServerRole)"

definition server_tls_ok :: "server_tls_state \<Rightarrow> bool" where
  "server_tls_ok tls \<longleftrightarrow> \<not> trimmed_empty (stls_server_name tls) \<and> \<not> trimmed_empty (stls_cert_path tls)
     \<and> \<not> trimmed_empty (stls_key_path tls) \<and> (\<forall>path_id session.
     bmap_get (stls_sessions_by_path tls) path_id = Some session \<longrightarrow> server_path_ok (stls_server_name tls) session)"

fun kind_ok :: "engine_kind \<Rightarrow> bool" where
  "kind_ok (ClientEngine r) = client_ok r"
| "kind_ok (ServerEngine r) = (server_ok r \<and> memory_ok (sv_store r))"

fun mode_ok :: "engine_kind \<Rightarrow> tls_mode \<Rightarrow> bool" where
  "mode_ok _ TlsDisabled = True"
| "mode_ok (ClientEngine _) (TlsClient tls) = (\<exists>name. client_tls_ok name tls)"
| "mode_ok (ServerEngine _) (TlsServer tls) = server_tls_ok tls"
| "mode_ok _ _ = False"

definition engine_ok :: "engine_handle \<Rightarrow> bool" where
  "engine_ok h \<longleftrightarrow> kind_ok (eh_kind h) \<and> mode_ok (eh_kind h) (eh_tls h)"

fun same_kind :: "engine_kind \<Rightarrow> engine_kind \<Rightarrow> bool" where
  "same_kind (ClientEngine _) (ClientEngine _) = True"
| "same_kind (ServerEngine _) (ServerEngine _) = True"
| "same_kind _ _ = False"

lemma mode_ok_same: "same_kind k k' \<Longrightarrow> mode_ok k m = mode_ok k' m"
  by (cases k; cases k'; cases m) auto

text \<open>How a call changes the runtime: not at all, or by one of the runtime's own calls.\<close>

definition kind_step :: "engine_env \<Rightarrow> engine_kind \<Rightarrow> engine_kind \<Rightarrow> bool" where
  "kind_step E k k' \<longleftrightarrow> k' = k \<or> (\<exists>r i. k = ClientEngine r \<and> k' = ClientEngine (fst (client_step r i)))
     \<or> (\<exists>r i. k = ServerEngine r \<and> k' = ServerEngine (fst (server_step (ee_server E) r i)))
     \<or> (\<exists>r rp. k = ServerEngine r \<and> k' = ServerEngine (server_set_relay_policy r rp))"

lemma kind_step_refl [simp]: "kind_step E k k"
  by (simp add: kind_step_def)

lemma kind_step_same: "kind_step E k k' \<Longrightarrow> same_kind k k'"
  by (cases k; cases k') (auto simp: kind_step_def)

lemma set_relay_ok: "server_ok (server_set_relay_policy r rp) = server_ok r"
  by (simp add: server_ok_def server_set_relay_policy_def)

lemma kind_step_ok: "kind_step E k k' \<Longrightarrow> kind_ok k \<Longrightarrow> kind_ok k'"
  by (auto simp: kind_step_def client_step_ok server_step_ok memory_server.step_inv set_relay_ok)
    (auto simp: server_set_relay_policy_def)

lemma kind_step_client [simp]:
  "kind_step E (ClientEngine r) (ClientEngine (fst (client_begin_handshake r now)))"
  "kind_step E (ClientEngine r) (ClientEngine (fst (client_runtime_on_datagram r now path_id bs)))"
  "kind_step E (ClientEngine r) (ClientEngine (fst (client_send_message r payload)))"
  "kind_step E (ClientEngine r) (ClientEngine (fst (client_close_session r)))"
  "kind_step E (ClientEngine r) (ClientEngine (fst (client_poll_timers r now limit)))"
  unfolding kind_step_def
  by (metis client_step.simps)+

lemma kind_step_server [simp]:
  "kind_step E (ServerEngine r) (ServerEngine (fst (server_runtime_on_datagram (ee_server E) r now path_id bs)))"
  "kind_step E (ServerEngine r) (ServerEngine (fst (server_send_message (ee_server E) r cid payload now)))"
  "kind_step E (ServerEngine r) (ServerEngine (fst (server_poll_timers (ee_server E) r now limit)))"
  "kind_step E (ServerEngine r) (ServerEngine (server_set_relay_policy r rp))"
  unfolding kind_step_def
  by (metis server_step.simps)+

lemma client_result_fields [simp]:
  "eh_kind (fst (client_result E h res)) = ClientEngine (fst res)"
  "eh_tls (fst (client_result E h res)) = eh_tls h"
  by (auto simp: client_result_def set_error_def split: prod.split sum.split)

lemma server_result_fields [simp]:
  "eh_kind (fst (server_result E h res)) = ServerEngine (fst res)"
  "eh_tls (fst (server_result E h res)) = eh_tls h"
  by (auto simp: server_result_def set_error_def split: prod.split sum.split)

lemma set_error_fields [simp]:
  "eh_kind (fst (set_error h e)) = eh_kind h" "eh_tls (fst (set_error h e)) = eh_tls h"
  "eh_output (fst (set_error h e)) = eh_output h" "snd (set_error h e) = - 1"
  by (simp_all add: set_error_def)

lemma fst_case_Inl: "fst (case x of Inl e \<Rightarrow> f e | Inr y \<Rightarrow> g y) = (case x of Inl e \<Rightarrow> fst (f e) | Inr y \<Rightarrow> fst (g y))"
  by (simp split: sum.split)

lemma utf8_arg_cases:
  "utf8_arg E what p h k = set_error h (''invalid '' @ what @ '' utf8: '' @ ee_utf8_error_text E (bytes_from_ptr p))
   \<or> (\<exists>s. from_utf8 (bytes_from_ptr p) = Some s \<and> utf8_arg E what p h k = k s)"
  by (auto simp: utf8_arg_def split: option.split)

lemma begin_handshake_kind:
  "kind_step E (eh_kind h) (eh_kind (fst (engine_begin_handshake E now h)))"
  by (auto simp: engine_begin_handshake_def case_prod_unfold Let_def split: engine_kind.splits tls_mode.splits sum.splits)

lemma client_tls_established_kind:
  "eh_kind h = ClientEngine r \<Longrightarrow> kind_step E (ClientEngine r) (eh_kind (fst (client_tls_established E now r tls h)))"
  by (auto simp: client_tls_established_def case_prod_unfold Let_def split: sum.splits)

lemma client_engine_datagram_kind:
  "eh_kind h = ClientEngine r \<Longrightarrow> kind_step E (ClientEngine r) (eh_kind (fst (client_engine_datagram E now path_id bs r h)))"
  by (auto simp: client_engine_datagram_def client_tls_datagram_def case_prod_unfold Let_def
      intro!: client_tls_established_kind split: tls_mode.splits sum.splits)

lemma set_path_session_kind [simp]: "eh_kind (set_path_session tls path_id session h) = eh_kind h"
  by (simp add: set_path_session_def)

lemma server_tls_datagram_kind [simp]: "eh_kind (fst (server_tls_datagram E path_id bs tls session h)) = eh_kind h"
  by (auto simp: server_tls_datagram_def case_prod_unfold Let_def split: sum.splits)

lemma server_engine_datagram_kind:
  "eh_kind h = ServerEngine r \<Longrightarrow> server_engine_datagram E now path_id bs r h = Some (h', rc) \<Longrightarrow>
   kind_step E (ServerEngine r) (eh_kind h')"
  by (cases "eh_tls h")
    (auto simp: server_engine_datagram_def Let_def split: option.splits if_splits dest!: arg_cong [of _ _ fst])

lemma configure_nat_kind:
  "kind_step E (eh_kind h) (eh_kind (fst (engine_configure_nat E relay stun turn realm username password h)))"
  by (auto simp: engine_configure_nat_def utf8_arg_def Let_def split: option.splits engine_kind.splits)

lemma change_anchors_kind [simp]: "eh_kind (fst (change_anchors f h)) = eh_kind h"
  by (auto simp: change_anchors_def split: tls_mode.splits)

lemma configure_tls_kind [simp]:
  "eh_kind (fst (engine_configure_client_tls E p h)) = eh_kind h"
  "eh_kind (fst (engine_configure_server_tls E name cert key h)) = eh_kind h"
  by (auto simp: engine_configure_client_tls_def engine_configure_server_tls_def utf8_arg_def
      split: option.splits sum.splits engine_kind.splits)

lemma engine_step_kind:
  assumes "engine_step E h c = Some (h', rc)"
  shows "kind_step E (eh_kind h) (eh_kind h')"
proof (cases c)
  case (BeginHandshake now)
  then show ?thesis using assms begin_handshake_kind [of E h now] by simp
next
  case (Datagram now path_id p)
  then show ?thesis
    using assms client_engine_datagram_kind [of h _ E now path_id "bytes_from_ptr p"]
      server_engine_datagram_kind [of h _ E now path_id "bytes_from_ptr p" h' rc]
    by (auto simp: engine_on_datagram_def split: engine_kind.splits dest: arg_cong [of _ _ fst])
next
  case (ConfigureNat relay stun turn realm username password)
  then show ?thesis using assms configure_nat_kind [of E h relay stun turn realm username password] by simp
qed (use assms in \<open>auto simp: engine_send_message_def engine_close_session_def engine_server_send_message_def
      engine_poll_timers_def engine_poll_nat_def engine_tls_clear_anchors_def engine_tls_add_anchor_pem_def
      engine_clear_output_def Let_def split: engine_kind.splits if_splits dest!: arg_cong [of _ _ fst]\<close>)

text \<open>The adapters move by the steps of their contract.\<close>

lemma client_tls_ok_step:
  assumes ok: "client_tls_ok name tls" and step: "openssl_step X (ct_adapter tls) c = (a, res)"
    and c: "case c of StartClient cfg \<Rightarrow> client_cfg_for name cfg \<and> \<not> ct_established tls | StartServer _ \<Rightarrow> False | _ \<Rightarrow> True"
  shows "client_tls_ok name (tls\<lparr>ct_adapter := a, ct_established := oa_established a, ct_core_started := oa_established a\<rparr>)"
    and "res = Inl e \<Longrightarrow> a = ct_adapter tls" and "res = Inr out \<Longrightarrow> ho_established out = oa_established a"
proof -
  let ?a = "ct_adapter tls"
  have a: "a = fst (openssl_step X ?a c)" "res = snd (openssl_step X ?a c)" using step by simp_all
  have sound: "sound_state oa_established oa_cfg a"
    using openssl.step_sound [of ?a X c] ok by (simp add: a client_tls_ok_def)
  have "oa_cfg a = Some cfg \<longrightarrow> client_cfg_for name cfg \<and> oa_role a = Some ClientRole" for cfg
  proof (cases "starts c")
    case None
    then show ?thesis using openssl.kept [OF None, of X ?a] ok by (simp add: a client_tls_ok_def)
  next
    case (Some p)
    then obtain cfg' where cfg': "c = StartClient cfg'" "client_cfg_for name cfg'" using c by (cases c) auto
    then show ?thesis
      using openssl.started [of c ClientRole cfg' X ?a] openssl.failed_call [of X ?a c] ok
      by (cases res) (auto simp: a client_tls_ok_def)
  qed
  then show "client_tls_ok name (tls\<lparr>ct_adapter := a, ct_established := oa_established a, ct_core_started := oa_established a\<rparr>)"
    using ok sound by (simp add: client_tls_ok_def)
  show "res = Inl e \<Longrightarrow> a = ct_adapter tls" using openssl.failed_call [of X ?a c e] by (simp add: a)
  show "res = Inr out \<Longrightarrow> ho_established out = oa_established a" using openssl.reported [of X ?a c out] by (simp add: a)
qed

lemma begin_handshake_mode:
  assumes "mode_ok (eh_kind h) (eh_tls h)"
  shows "mode_ok (eh_kind h) (eh_tls (fst (engine_begin_handshake E now h)))"
proof (cases "\<exists>r tls. eh_kind h = ClientEngine r \<and> eh_tls h = TlsClient tls \<and> \<not> ct_established tls")
  case True
  then obtain r tls where h: "eh_kind h = ClientEngine r" "eh_tls h = TlsClient tls" "\<not> ct_established tls" by blast
  obtain name where ok: "client_tls_ok name tls" using assms h by auto
  obtain a res where s: "openssl_step (ee_openssl E) (ct_adapter tls) (StartClient (ct_cfg tls)) = (a, res)" by fastforce
  have next_ok: "client_tls_ok name (tls\<lparr>ct_adapter := a, ct_established := oa_established a, ct_core_started := oa_established a\<rparr>)"
    by (rule client_tls_ok_step(1) [OF ok s]) (use ok h(3) in \<open>simp add: client_tls_ok_def\<close>)
  have ne: "\<not> oa_established a"
    using openssl.by_datagram [of "ct_adapter tls" "ee_openssl E" "StartClient (ct_cfg tls)"] ok h(3) s
    by (auto simp: client_tls_ok_def)
  have "tls\<lparr>ct_adapter := a, ct_established := oa_established a, ct_core_started := oa_established a\<rparr> = tls\<lparr>ct_adapter := a\<rparr>"
    using ne h(3) ok by (cases tls) (simp add: client_tls_ok_def)
  then show ?thesis
    using next_ok h s by (auto simp: engine_begin_handshake_def Let_def split: sum.splits)
next
  case False
  then show ?thesis using assms by (auto simp: engine_begin_handshake_def split: engine_kind.splits tls_mode.splits)
qed

lemma begin_handshake_client_ok: "\<exists>r' out. client_begin_handshake r now = (r', Inr out)"
  by (simp add: client_begin_handshake_def begin_handshake_def client_call_def client_apply_core_output_def)

lemma client_begin_output:
  assumes "core_role (cr_core r) = Client"
  shows "\<exists>r' out. client_begin_handshake r now = (r', Inr out) \<and> cr_core r' = cr_core r
    \<and> map dgram_pair (cro_outbound_datagrams out) =
        [(current_path_id (cr_core r), frame_bytes ClientHello (core_cid (cr_core r)) [] [])]"
  using assms by (simp add: client_begin_handshake_def begin_handshake_def client_call_def client_apply_core_output_def
      dgram_pair_def)

lemma client_tls_established_fields:
  "eh_kind h = ClientEngine r \<Longrightarrow> eh_tls (fst (client_tls_established E now r tls h))
     = TlsClient (tls\<lparr>ct_established := True, ct_core_started := True\<rparr>)"
  "snd (client_tls_established E now r tls h) = 0"
  using begin_handshake_client_ok [of r now]
  by (auto simp: client_tls_established_def Let_def case_prod_unfold split: sum.split)

lemma client_tls_datagram_mode:
  assumes h: "eh_kind h = ClientEngine r" and ok: "client_tls_ok name tls" and ne: "\<not> ct_established tls"
  shows "\<exists>tls'. eh_tls (fst (client_tls_datagram E now path_id bs r tls h)) = TlsClient tls' \<and> client_tls_ok name tls'"
proof -
  obtain a res where s: "openssl_step (ee_openssl E) (ct_adapter tls) (Handshake.OnDatagram bs) = (a, res)" by fastforce
  let ?tls = "tls\<lparr>ct_adapter := a, ct_established := oa_established a, ct_core_started := oa_established a\<rparr>"
  have next_ok: "client_tls_ok name ?tls" by (rule client_tls_ok_step(1) [OF ok s]) simp
  show ?thesis
  proof (cases res)
    case (Inl e)
    then have "a = ct_adapter tls" by (rule client_tls_ok_step(2) [OF ok s, rotated]) simp
    then show ?thesis using ok s Inl by (auto simp: client_tls_datagram_def)
  next
    case (Inr out)
    have est: "ho_established out = oa_established a" by (rule client_tls_ok_step(3) [OF ok s _ Inr]) simp
    have "\<not> oa_established a \<Longrightarrow> ?tls = tls\<lparr>ct_adapter := a\<rparr>" using ok ne by (cases tls) (simp add: client_tls_ok_def)
    moreover have "oa_established a \<Longrightarrow> ?tls = tls\<lparr>ct_adapter := a, ct_established := True, ct_core_started := True\<rparr>"
      by simp
    ultimately show ?thesis
      using next_ok s Inr est h
      by (auto simp: client_tls_datagram_def Let_def client_tls_established_fields)
  qed
qed

lemma openssl_datagram_context:
  assumes "openssl_on_datagram a d = (a', res)"
  shows "oa_ctx a' = oa_ctx a \<and> oa_ssl a' = oa_ssl a
    \<and> (oa_established a' \<longrightarrow> oa_established a \<or> oa_ctx a \<noteq> None \<and> oa_ssl a \<noteq> None)"
  using assms by (auto simp: openssl_on_datagram_def client_on_datagram_def server_on_datagram_def queue_flight_def
      case_prod_unfold Let_def split: option.splits sum.splits adapter_role.splits if_splits)

lemma server_path_ok_step:
  assumes ok: "server_path_ok name session" and step: "openssl_on_datagram (sp_adapter session) bs = (a, res)"
  shows "server_path_ok name (session\<lparr>sp_adapter := a, sp_established := oa_established a\<rparr>)"
    and "res = Inl e \<Longrightarrow> a = sp_adapter session" and "res = Inr out \<Longrightarrow> ho_established out = oa_established a"
    and "sp_established session \<longrightarrow> oa_established a"
proof -
  let ?a = "sp_adapter session" and ?c = "Handshake.OnDatagram bs"
  have a: "a = fst (openssl_step X ?a ?c)" "res = snd (openssl_step X ?a ?c)" for X using step by simp_all
  have kept: "oa_cfg a = oa_cfg ?a \<and> oa_role a = oa_role ?a \<and> (oa_established ?a \<longrightarrow> oa_established a)"
    using openssl.kept [of ?c undefined ?a] a by simp
  have "sound_state oa_established oa_cfg a"
    using openssl.step_sound [of ?a undefined ?c] ok step by (simp add: server_path_ok_def)
  then show "server_path_ok name (session\<lparr>sp_adapter := a, sp_established := oa_established a\<rparr>)"
    using ok kept openssl_datagram_context [OF step] by (auto simp: server_path_ok_def sound_state_def split: option.splits)
  show "res = Inl e \<Longrightarrow> a = ?a" using openssl.failed_call [of undefined ?a ?c e] step by simp
  show "res = Inr out \<Longrightarrow> ho_established out = oa_established a"
    using openssl.reported [of undefined ?a ?c out] step by simp
  show "sp_established session \<longrightarrow> oa_established a" using kept ok by (simp add: server_path_ok_def)
qed

lemma build_server_tls_cfg_name:
  "build_server_tls_cfg E name cert key = Inr cfg \<Longrightarrow> hc_expected_server_name cfg = Some name \<and> \<not> trimmed_empty name
   \<and> \<not> trimmed_empty cert \<and> \<not> trimmed_empty key"
  by (auto simp: build_server_tls_cfg_def split: if_splits)

lemma path_session_ok:
  assumes "server_tls_ok tls" and "path_session E tls path_id = Some session"
  shows "server_path_ok (stls_server_name tls) session"
proof (cases "bmap_get (stls_sessions_by_path tls) path_id")
  case (Some s)
  then show ?thesis using assms by (simp add: path_session_def server_tls_ok_def)
next
  case None
  then obtain cfg where cfg: "build_server_tls_cfg E (stls_server_name tls) (stls_cert_path tls) (stls_key_path tls) = Inr cfg"
      "session = \<lparr>sp_adapter = fst (openssl_start_server (ee_openssl E) openssl_new cfg), sp_established = False\<rparr>"
    using assms(2) by (auto simp: path_session_def split: sum.splits)
  let ?c = "StartServer cfg" and ?X = "ee_openssl E"
  have new: "\<not> oa_established openssl_new" "sound_state oa_established oa_cfg openssl_new" "oa_cfg openssl_new = None"
    by (simp_all add: openssl_new_def sound_state_def)
  have "\<not> oa_established (fst (openssl_step ?X openssl_new ?c))"
    using openssl.by_datagram [OF new(1), of ?X ?c] by auto
  moreover have "sound_state oa_established oa_cfg (fst (openssl_step ?X openssl_new ?c))"
    by (rule openssl.step_sound [OF new(2)])
  moreover have "oa_cfg (fst (openssl_step ?X openssl_new ?c)) = Some c \<longrightarrow>
      c = cfg \<and> oa_role (fst (openssl_step ?X openssl_new ?c)) = Some ServerRole" for c
    using openssl.started [of ?c ServerRole cfg ?X openssl_new] openssl.failed_call [of ?X openssl_new ?c] new(3)
    by (cases "snd (openssl_step ?X openssl_new ?c)") auto
  ultimately show ?thesis
    using build_server_tls_cfg_name [OF cfg(1)] unfolding cfg(2) server_path_ok_def openssl_step.simps by auto
qed

lemma set_path_session_mode:
  assumes "server_tls_ok tls" and "server_path_ok (stls_server_name tls) session"
  shows "\<exists>tls'. eh_tls (set_path_session tls path_id session h) = TlsServer tls' \<and> server_tls_ok tls'"
  using assms by (auto simp: set_path_session_def server_tls_ok_def)

lemma server_tls_datagram_mode:
  assumes tls: "server_tls_ok tls" and ok: "server_path_ok (stls_server_name tls) session"
  shows "\<exists>tls'. eh_tls (fst (server_tls_datagram E path_id bs tls session h)) = TlsServer tls' \<and> server_tls_ok tls'"
proof -
  obtain a res where s: "openssl_on_datagram (sp_adapter session) bs = (a, res)" by fastforce
  note step = server_path_ok_step [OF ok s]
  show ?thesis
  proof (cases res)
    case (Inl e)
    then have "a = sp_adapter session" by (rule step(2))
    then show ?thesis using set_path_session_mode [OF tls ok, of path_id h] s Inl by (simp add: server_tls_datagram_def)
  next
    case (Inr out)
    have est: "(sp_established session \<or> ho_established out) = oa_established a"
      using step(3) [OF Inr] step(4) by auto
    show ?thesis
      using set_path_session_mode [OF tls step(1), of path_id h] s Inr est by (simp add: server_tls_datagram_def Let_def)
  qed
qed

lemma server_engine_datagram_mode:
  assumes h: "eh_kind h = ServerEngine r" and ok: "mode_ok (eh_kind h) (eh_tls h)"
    and "server_engine_datagram E now path_id bs r h = Some (h', rc)"
  shows "mode_ok (ServerEngine r) (eh_tls h')"
proof (cases "eh_tls h")
  case (TlsServer tls)
  then obtain session where s: "path_session E tls path_id = Some session"
    using assms(3) by (auto simp: server_engine_datagram_def split: option.splits)
  have tls: "server_tls_ok tls" using ok TlsServer h by simp
  note p = path_session_ok [OF tls s]
  show ?thesis
    using assms(3) s TlsServer server_tls_datagram_mode [OF tls p, of E path_id bs h]
      set_path_session_mode [OF tls p, of path_id h]
    by (auto simp: server_engine_datagram_def Let_def split: if_splits dest!: arg_cong [of _ _ fst])
qed (use assms in \<open>auto simp: server_engine_datagram_def dest!: arg_cong [of _ _ fst]\<close>)

lemma configure_nat_mode [simp]:
  "eh_tls (fst (engine_configure_nat E relay stun turn realm username password h)) = eh_tls h"
  by (auto simp: engine_configure_nat_def utf8_arg_def Let_def split: option.splits)

lemma change_anchors_mode:
  "mode_ok k (eh_tls h) \<Longrightarrow> mode_ok k (eh_tls (fst (change_anchors f h)))"
proof (cases "eh_tls h")
  case (TlsClient tls)
  assume ok: "mode_ok k (eh_tls h)"
  then obtain r name where k: "k = ClientEngine r" "client_tls_ok name tls" using TlsClient by (cases k) auto
  have "client_tls_ok name (tls\<lparr>ct_cfg := (ct_cfg tls)\<lparr>hc_trust := (hc_trust (ct_cfg tls))
      \<lparr>trust_anchor_pems := f (trust_anchor_pems (hc_trust (ct_cfg tls)))\<rparr>\<rparr>\<rparr>)"
    using k(2) by (auto simp: client_tls_ok_def client_cfg_for_def)
  then show ?thesis using ok k TlsClient by (auto simp: change_anchors_def)
qed (simp_all add: change_anchors_def)

lemma configure_client_tls_mode:
  assumes "mode_ok (eh_kind h) (eh_tls h)"
  shows "mode_ok (eh_kind h) (eh_tls (fst (engine_configure_client_tls E p h)))"
proof -
  have "client_tls_ok name \<lparr>ct_adapter = openssl_new, ct_cfg = cfg, ct_established = False, ct_core_started = False\<rparr>"
    if "build_client_tls_cfg name = Inr cfg" for name cfg
    using that by (auto simp: build_client_tls_cfg_def client_tls_ok_def client_cfg_for_def openssl_new_def
        sound_state_def split: if_splits)
  then show ?thesis
    using assms by (auto simp: engine_configure_client_tls_def utf8_arg_def split: option.splits sum.splits engine_kind.splits)
qed

lemma configure_server_tls_mode:
  assumes "mode_ok (eh_kind h) (eh_tls h)"
  shows "mode_ok (eh_kind h) (eh_tls (fst (engine_configure_server_tls E name cert key h)))"
  using assms by (auto simp: engine_configure_server_tls_def utf8_arg_def server_tls_ok_def
      dest: build_server_tls_cfg_name split: option.splits sum.splits engine_kind.splits)

lemma engine_step_ok:
  assumes ok: "engine_ok h" and step: "engine_step E h c = Some (h', rc)"
  shows "engine_ok h'"
proof -
  note kind = engine_step_kind [OF step]
  have mode: "mode_ok (eh_kind h) (eh_tls h)" using ok by (simp add: engine_ok_def)
  have "mode_ok (eh_kind h) (eh_tls h')"
  proof (cases c)
    case (BeginHandshake now)
    then show ?thesis using step begin_handshake_mode [OF mode, of E now] by simp
  next
    case (Datagram now path_id p)
    show ?thesis
    proof (cases "eh_kind h")
      case (ClientEngine r)
      then show ?thesis
        using step mode Datagram client_tls_datagram_mode [OF ClientEngine, of _ _ E now path_id "bytes_from_ptr p"]
        by (cases "eh_tls h")
          (fastforce simp: engine_on_datagram_def client_engine_datagram_def Let_def split: if_splits
            dest!: arg_cong [of _ _ fst])+
    next
      case (ServerEngine r)
      then show ?thesis
        using step Datagram server_engine_datagram_mode [OF ServerEngine mode] by (simp add: engine_on_datagram_def)
    qed
  next
    case (ConfigureClientTls p)
    then show ?thesis using step configure_client_tls_mode [OF mode, of E p] by simp
  next
    case (ConfigureServerTls name cert key)
    then show ?thesis using step configure_server_tls_mode [OF mode, of E name cert key] by simp
  next
    case TlsClearAnchors
    then show ?thesis using step change_anchors_mode [OF mode, of "\<lambda>_. []"] by (simp add: engine_tls_clear_anchors_def)
  next
    case (TlsAddAnchorPem p)
    then show ?thesis
      using step change_anchors_mode [OF mode, of "\<lambda>pems. pems @ [bytes_from_ptr p]"] mode
      by (auto simp: engine_tls_add_anchor_pem_def Let_def split: if_splits dest!: arg_cong [of _ _ fst])
  next
    case (ConfigureNat relay stun turn realm username password)
    then show ?thesis
      using step mode configure_nat_mode [of E relay stun turn realm username password h] by simp
  qed (use step mode in \<open>auto simp: engine_send_message_def engine_close_session_def engine_server_send_message_def
      engine_poll_timers_def engine_poll_nat_def engine_clear_output_def split: engine_kind.splits
      dest!: arg_cong [of _ _ fst]\<close>)
  then show ?thesis
    using ok mode_ok_same [OF kind_step_same [OF kind]] kind_step_ok [OF kind] by (auto simp: engine_ok_def)
qed

lemma memory_default_ok: "memory_ok (replicate DEFAULT_SHARD_COUNT [])"
proof -
  have "memory_new DEFAULT_SHARD_COUNT = Inr (replicate DEFAULT_SHARD_COUNT [])"
    by (simp add: memory_new_def DEFAULT_SHARD_COUNT_def)
  then show ?thesis using memory_new_ok by blast
qed

lemma new_engine_ok: "new_engine c = Some k \<Longrightarrow> engine_ok (new_handle k)"
  by (cases c) (auto simp: engine_ok_def new_handle_def client_new_ok server_new_def server_new_ok
      memory_default_ok server_new_with_nat_policy_def [of _ "replicate _ _", THEN arg_cong [of _ _ sv_store]])

definition registry_ok :: "registry \<Rightarrow> bool" where
  "registry_ok g \<longleftrightarrow> (\<forall>i h. bmap_get (rg_handles g) i = Some h \<longrightarrow> engine_ok h)"

lemma ffi_step_ok:
  assumes ok: "registry_ok g" and step: "ffi_step E g c = Some g'"
  shows "registry_ok g'"
proof (cases "new_engine c")
  case (Some k)
  then show ?thesis
    using ok step ffi_step_new [OF Some, of E g] new_engine_ok [OF Some]
    by (auto simp: registry_ok_def add_handle_def split: if_splits)
next
  case None
  then show ?thesis
    using ok step engine_step_ok
    by (cases c) (fastforce simp: registry_ok_def v3_ffi_free_def v3_ffi_call_def with_handle_def
      split: option.splits if_splits)+
qed

lemma ffi_run_ok: "registry_ok g \<Longrightarrow> ffi_run E g calls = Some g' \<Longrightarrow> registry_ok g'"
  by (induction calls arbitrary: g) (auto split: option.splits intro: ffi_step_ok)

lemma engine_run_ok: "engine_ok h \<Longrightarrow> engine_run E h calls = Some h' \<Longrightarrow> engine_ok h'"
  by (induction calls arbitrary: h) (auto split: option.splits intro: engine_step_ok)

text \<open>C23: after any calls, every handle is well-formed: a client engine has a client machine under its watchdog and
  at most a client's TLS state, a server engine guarded sessions over a sound store and at most a server's TLS
  state; each adapter belongs to the side and the server name it was configured for, and the flags the engine
  keeps beside an adapter agree with it.  In particular the core handshake counts as started exactly when the
  adapter is established.\<close>

theorem engines_well_formed:
  assumes "ffi_run E registry_default calls = Some g" and "bmap_get (rg_handles g) i = Some h"
  shows "engine_ok h"
proof -
  have "registry_ok registry_default" by (simp add: registry_ok_def registry_default_def)
  then show ?thesis using ffi_run_ok [OF _ assms(1)] assms(2) by (auto simp: registry_ok_def)
qed

section \<open>Failing calls and the output\<close>

definition code_ok :: "engine_handle \<Rightarrow> engine_handle \<times> i32 \<Rightarrow> bool" where
  "code_ok h res \<longleftrightarrow> (snd res = 0 \<and> eh_last_error (fst res) = eh_last_error h)
     \<or> (snd res = - 1 \<and> eh_output (fst res) = eh_output h)"

lemma code_ok_simps [simp]:
  "code_ok h (set_error h' e) = (eh_output h' = eh_output h)"
  "code_ok h (h', 0) = (eh_last_error h' = eh_last_error h)"
  "code_ok h (h, - 1)"
  by (auto simp: code_ok_def set_error_def)

lemma client_result_code [simp]:
  "eh_output h' = eh_output h \<Longrightarrow> eh_last_error h' = eh_last_error h \<Longrightarrow> code_ok h (client_result E h' res)"
  by (auto simp: client_result_def split: prod.split sum.split)

lemma server_result_code [simp]:
  "eh_output h' = eh_output h \<Longrightarrow> eh_last_error h' = eh_last_error h \<Longrightarrow> code_ok h (server_result E h' res)"
  by (auto simp: server_result_def split: prod.split sum.split)

lemma client_tls_established_code:
  "eh_last_error h' = eh_last_error h \<Longrightarrow> code_ok h (client_tls_established E now r tls h')"
  using begin_handshake_client_ok [of r now] by (auto simp: client_tls_established_def Let_def split: sum.split)

lemma client_engine_datagram_code: "code_ok h (client_engine_datagram E now path_id bs r h)"
  by (auto simp: client_engine_datagram_def client_tls_datagram_def client_tls_established_code Let_def case_prod_unfold
      split: tls_mode.split sum.split)

lemma server_tls_datagram_code: "code_ok h (server_tls_datagram E path_id bs tls session h)"
  by (auto simp: server_tls_datagram_def set_path_session_def Let_def case_prod_unfold split: sum.split)

lemma server_engine_datagram_code: "server_engine_datagram E now path_id bs r h = Some res \<Longrightarrow> code_ok h res"
  by (auto simp: server_engine_datagram_def server_tls_datagram_code set_path_session_def Let_def
      split: tls_mode.splits option.splits if_splits)

lemma utf8_arg_code [simp]: "(\<And>s. code_ok h (k s)) \<Longrightarrow> code_ok h (utf8_arg E what p h k)"
  by (simp add: utf8_arg_def split: option.split)

lemma engine_step_code: "engine_step E h c = Some res \<Longrightarrow> code_ok h res"
  by (cases c) (auto simp: engine_begin_handshake_def engine_on_datagram_def client_engine_datagram_code
      server_engine_datagram_code engine_send_message_def engine_close_session_def engine_configure_nat_def
      engine_server_send_message_def engine_poll_timers_def engine_poll_nat_def engine_configure_client_tls_def
      engine_tls_clear_anchors_def engine_tls_add_anchor_pem_def change_anchors_def engine_configure_server_tls_def
      engine_clear_output_def Let_def case_prod_unfold
      split: engine_kind.splits tls_mode.splits sum.splits)

text \<open>C29: a call returns 0 or -1.  One that fails leaves the output of every handle as it was, so the datagrams of
  the last successful call are still there to be sent again; one that succeeds leaves every handle's error text,
  so the text of an earlier failure is still there.\<close>

theorem failed_call_leaves_output:
  assumes "v3_ffi_call E g i c = Some (g', rc)"
  shows "(rc = 0 \<and> last_error_of g' j = last_error_of g j) \<or>
    (rc = - 1 \<and> out_datagrams g' j = out_datagrams g j \<and> out_events g' j = out_events g j)"
proof (cases "bmap_get (rg_handles g) i")
  case None
  then show ?thesis using assms by (simp add: v3_ffi_call_def with_handle_def)
next
  case (Some h)
  then obtain h' where h': "engine_step E h c = Some (h', rc)" "g' = g\<lparr>rg_handles := bmap_insert i h' (rg_handles g)\<rparr>"
    using assms by (auto simp: v3_ffi_call_def with_handle_def split: option.splits)
  then show ?thesis
    using engine_step_code [OF h'(1)] Some
    by (auto simp: code_ok_def last_error_of_def out_datagrams_def out_events_def)
qed

lemma copy_out_all: "copy_out (Some bs) (Some (replicate (length bs) 0)) = (Some bs, length bs)"
  by (cases bs) (simp_all add: copy_out_def Let_def)

text \<open>What a copy into a buffer of the caller does: the buffer keeps its length, the first bytes of the source are
  written, as many as fit, and every byte behind them is left as it was.\<close>

definition copies :: "bytes \<Rightarrow> bytes \<Rightarrow> bytes option \<times> nat \<Rightarrow> bool" where
  "copies src buf r \<longleftrightarrow>
     r = (Some (take (length buf) src @ drop (length src) buf), min (length src) (length buf))"

lemma copy_out_copies: "copies (case src of None \<Rightarrow> [] | Some bs \<Rightarrow> bs) buf (copy_out src (Some buf))"
  by (cases src) (auto simp: copies_def copy_out_def Let_def min_def)

text \<open>C31: reading count, lengths and bytes as the callers do gives back the output exactly: the datagrams with their
  paths and the events, in order.  Each of the three copying calls -- of a datagram, of an event, of the last error --
  writes the first bytes of its source, as many as the buffer holds, returns their number, which is the length the
  matching length call announces when the buffer is large enough, and leaves the rest of the buffer as it was; without
  a buffer, an output or an error it writes nothing.\<close>

theorem output_round_trip:
  "take_datagrams g i = out_datagrams g i \<and> take_events g i = map string_bytes (out_events g i)
   \<and> (\<forall>k buf. copies (case list_get (out_datagrams g i) k of None \<Rightarrow> [] | Some (_, d) \<Rightarrow> d) buf
        (out_datagram_copy g i k (Some buf)) \<and> out_datagram_copy g i k None = (None, 0))
   \<and> (\<forall>k buf. copies (case list_get (out_events g i) k of None \<Rightarrow> [] | Some e \<Rightarrow> string_bytes e) buf
        (out_event_copy g i k (Some buf)) \<and> out_event_copy g i k None = (None, 0))
   \<and> (\<forall>buf. copies (case last_error_of g i of None \<Rightarrow> [] | Some e \<Rightarrow> e) buf
        (last_error_copy g i (Some buf)) \<and> last_error_copy g i None = (None, 0))
   \<and> (\<forall>k n. snd (out_datagram_copy g i k (Some (replicate n 0))) = min (out_datagram_len g i k) n
        \<and> snd (out_event_copy g i k (Some (replicate n 0))) = min (out_event_len g i k) n
        \<and> snd (last_error_copy g i (Some (replicate n 0))) = min (last_error_len g i) n)"
proof (intro conjI allI)
  show "take_datagrams g i = out_datagrams g i"
    unfolding take_datagrams_def out_datagram_count_def
    by (rule nth_equalityI)
      (auto simp: out_datagram_copy_def out_datagram_len_def out_datagram_path_id_def list_get_def copy_out_all
        split: prod.split)
  show "take_events g i = map string_bytes (out_events g i)"
    unfolding take_events_def out_event_count_def
    by (rule nth_equalityI) (auto simp: out_event_copy_def out_event_len_def list_get_def copy_out_all)
  fix k buf
  show d: "copies (case list_get (out_datagrams g i) k of None \<Rightarrow> [] | Some (_, d) \<Rightarrow> d) buf
      (out_datagram_copy g i k (Some buf))" for buf
    using copy_out_copies [of "map_option snd (list_get (out_datagrams g i) k)" buf]
    by (auto simp: out_datagram_copy_def split: option.splits)
  show e: "copies (case list_get (out_events g i) k of None \<Rightarrow> [] | Some e \<Rightarrow> string_bytes e) buf
      (out_event_copy g i k (Some buf))" for buf
    using copy_out_copies [of "map_option string_bytes (list_get (out_events g i) k)" buf]
    by (auto simp: out_event_copy_def split: option.splits)
  show l: "copies (case last_error_of g i of None \<Rightarrow> [] | Some e \<Rightarrow> e) buf (last_error_copy g i (Some buf))" for buf
    using copy_out_copies [of "last_error_of g i" buf] by (simp add: last_error_copy_def)
  show "snd (out_datagram_copy g i k (Some (replicate n 0))) = min (out_datagram_len g i k) n" for n
    using d [of "replicate n 0"] by (auto simp: copies_def out_datagram_len_def split: option.splits)
  show "snd (out_event_copy g i k (Some (replicate n 0))) = min (out_event_len g i k) n" for n
    using e [of "replicate n 0"] by (auto simp: copies_def out_event_len_def split: option.splits)
  show "snd (last_error_copy g i (Some (replicate n 0))) = min (last_error_len g i) n" for n
    using l [of "replicate n 0"] by (auto simp: copies_def last_error_len_def split: option.splits)
qed (simp_all add: out_datagram_copy_def out_event_copy_def last_error_copy_def copy_out_def)

section \<open>Concrete engines\<close>

text \<open>A stand-in for what the engine takes from elsewhere: OpenSSL accepts everything, every file exists, texts are
  constant.\<close>

definition sample_env :: engine_env where
  "sample_env = \<lparr>ee_openssl = accepting_openssl, ee_elapsed_us = \<lambda>_ _. 0, ee_base64 = \<lambda>_. ''b64'',
     ee_path_exists = \<lambda>_. True, ee_debug_event = \<lambda>_. ''event'', ee_debug_client_event = \<lambda>_. ''event'',
     ee_debug_turn = \<lambda>_. ''turn'', ee_debug_consent = \<lambda>_. ''consent'', ee_client_error_text = \<lambda>_. ''client error'',
     ee_server_error_text = \<lambda>_. ''server error'', ee_crypto_error_text = \<lambda>_. ''crypto error'',
     ee_utf8_error_text = \<lambda>_. ''utf8'', ee_json = \<lambda>_. ''{}''\<rparr>"

definition sample_config :: core_config where
  "sample_config = \<lparr>msr_interval_ms = 100, miss_window_count = 2, disconnect_window_ms = 1000\<rparr>"

lemmas ffi_defs = v3_ffi_call_def with_handle_def v3_ffi_new_client_def v3_ffi_new_server_def add_handle_def
  registry_default_def new_handle_def

text \<open>A client is created and freed; the server created next gets another identifier, and keeps it to itself.\<close>

theorem registry_refines_engines_witness:
  "\<exists>g g1 g' h. ffi_run sample_env registry_default [NewClient 7 100 2 1000, FreeHandle 1] = Some g
    \<and> ffi_step sample_env g (NewClient 8 100 2 1000) = Some g1 \<and> new_id g (NewClient 8 100 2 1000) = Some 2
    \<and> ffi_run sample_env g1 [NewServer 100 2 1000, Call 2 (PollNat 5), Call 3 ClearOutput] = Some g'
    \<and> 2 \<notin> set (ids_given sample_env registry_default [NewClient 7 100 2 1000, FreeHandle 1])
    \<and> engine_run sample_env (new_handle (ClientEngine (client_new 8 sample_config))) [PollNat 5] = Some h
    \<and> bmap_get (rg_handles g') 2 = Some h"
proof -
  let ?b = "[NewClient 7 100 2 1000, FreeHandle 1]" and ?c = "NewClient 8 100 2 1000"
  let ?calls = "[NewServer 100 2 1000, Call 2 (PollNat 5), Call 3 ClearOutput]"
  obtain g where g: "ffi_run sample_env registry_default ?b = Some g" by simp
  then have i: "new_id g ?c = Some 2" by (auto simp: ffi_defs v3_ffi_free_def)
  obtain g1 where g1: "ffi_step sample_env g ?c = Some g1" by simp
  have "g = \<lparr>rg_handles = [], rg_next_handle = 2\<rparr>" using g by (simp add: ffi_defs v3_ffi_free_def bmap_remove_def)
  with g1 have g1': "g1 = \<lparr>rg_handles = [(2, new_handle (ClientEngine (client_new 8 (ffi_cfg 100 2 1000))))], rg_next_handle = 3\<rparr>"
    by (simp add: ffi_defs)
  have "\<exists>g'. ffi_run sample_env g1 ?calls = Some g'"
    unfolding g1' by (simp add: ffi_defs engine_poll_nat_def bmap_get_def)
  then obtain g' where g': "ffi_run sample_env g1 ?calls = Some g'" by blast
  have k: "new_engine ?c = Some (ClientEngine (client_new 8 sample_config))"
    by (simp add: sample_config_def)
  have "FreeHandle 2 \<notin> set ?calls" "length ?b + length ?calls < 2 ^ 64 - 2" by simp_all
  from registry_refines_engines [OF g k g1 i g' this] show ?thesis using g g1 i g' by auto
qed

theorem engines_well_formed_witness:
  "\<exists>g h. ffi_run sample_env registry_default [NewClient 7 100 2 1000, Call 1 (PollNat 5)] = Some g
    \<and> bmap_get (rg_handles g) 1 = Some h \<and> engine_ok h"
proof -
  let ?calls = "[NewClient 7 100 2 1000, Call 1 (PollNat 5)]"
  have "\<exists>g. ffi_run sample_env registry_default ?calls = Some g \<and> bmap_get (rg_handles g) 1 \<noteq> None"
    by (simp add: ffi_defs engine_poll_nat_def bmap_get_def)
  then obtain g h where g: "ffi_run sample_env registry_default ?calls = Some g" "bmap_get (rg_handles g) 1 = Some h"
    by blast
  show ?thesis using engines_well_formed [OF g] g by blast
qed

theorem failed_call_leaves_output_witness:
  "\<exists>g g'. ffi_run sample_env registry_default [NewClient 7 100 2 1000, Call 1 (BeginHandshake 0)] = Some g
    \<and> v3_ffi_call sample_env g 1 (ConfigureClientTls None) = Some (g', - 1)
    \<and> out_datagrams g' 1 = out_datagrams g 1 \<and> length (out_datagrams g 1) = 1"
proof -
  let ?calls = "[NewClient 7 100 2 1000, Call 1 (BeginHandshake 0)]"
  let ?r = "client_new 7 sample_config"
  obtain r' out where r': "client_begin_handshake ?r 0 = (r', Inr out)"
      "map dgram_pair (cro_outbound_datagrams out) = [(0, frame_bytes ClientHello 7 [] [])]"
    using client_begin_output [of ?r 0] by (auto simp: client_new_def new_machine_def)
  have "\<exists>g. ffi_run sample_env registry_default ?calls = Some g \<and> length (out_datagrams g 1) = 1
      \<and> bmap_get (rg_handles g) 1 \<noteq> None"
    using r' by (simp add: ffi_defs engine_begin_handshake_def sample_config_def bmap_get_def client_result_def
        normalize_client_output_def out_datagrams_def)
  then obtain g where g: "ffi_run sample_env registry_default ?calls = Some g" "length (out_datagrams g 1) = 1"
      "bmap_get (rg_handles g) 1 \<noteq> None"
    by blast
  obtain g' where g': "v3_ffi_call sample_env g 1 (ConfigureClientTls None) = Some (g', - 1)"
    using g(3) by (auto simp: v3_ffi_call_def with_handle_def engine_configure_client_tls_def utf8_arg_def bytes_from_ptr_def
        from_utf8_def build_client_tls_cfg_def trimmed_empty_def bytes_string_def string_bytes_def set_error_def)
  show ?thesis using failed_call_leaves_output [OF g', of 1] g g' by auto
qed

end
