(* ===== verification/Core_Exchange.thy ===== *)
theory Core_Exchange
  imports Core_Transfer
begin

text \<open>
  One message between two established machines, call by call: the sender advertises it, the receiver requests
  it, the sender answers with a data frame or with fragments, the receiver hands it over.  What every
  call returns is stated exactly, so that whole conversations can be run over it.
\<close>

section \<open>Machines in step\<close>

text \<open>An established machine of connection \<open>c\<close> that has queued the messages \<open>us\<close>, has handed over the first \<open>n\<close>
  messages of its peer, has requested \<open>q\<close> of them and is reassembling \<open>fs\<close>.\<close>

definition linked :: "role \<Rightarrow> u64 \<Rightarrow> core_machine \<Rightarrow> bool" where
  "linked r c m \<longleftrightarrow> core_role m = r \<and> core_cid m = c \<and> lifecycle m = Established"

definition caught_up :: "nat \<Rightarrow> nat \<Rightarrow> (u64, fragment_accumulator) bmap \<Rightarrow> core_machine \<Rightarrow> bool" where
  "caught_up n q fs m \<longleftrightarrow>
     last_requested_end m = word_of_nat q \<and> last_ordered_rx m = word_of_nat n \<and> received_ids m = {i. 1 \<le> unat i \<and> unat i \<le> n}
     \<and> received_buffer m = [] \<and> received_fragments m = fs"

definition in_step :: "role \<Rightarrow> u64 \<Rightarrow> bytes list \<Rightarrow> nat \<Rightarrow> nat \<Rightarrow> (u64, fragment_accumulator) bmap \<Rightarrow> core_machine \<Rightarrow> bool" where
  "in_step r c us n q fs m \<longleftrightarrow> linked r c m \<and> send_ok us m \<and> caught_up n q fs m"

text \<open>The datagrams that answer the request for message \<open>i\<close>.\<close>

definition answer_frames :: "u64 \<Rightarrow> u64 \<Rightarrow> bytes \<Rightarrow> tlv list \<Rightarrow> bytes list" where
  "answer_frames c i p ts =
     (if length p \<le> 992 then [frame_bytes Data c (data_payload i p) ts]
      else map (fragment_frame c i (message_chunks p) ts) [0..<length (message_chunks p)])"

text \<open>Feeding datagrams to a machine that must stay established: what it sends and the events, in order.\<close>

fun core_deliver :: "core_machine \<Rightarrow> u64 \<Rightarrow> u32 \<Rightarrow> bytes list \<Rightarrow> (core_machine \<times> bytes list \<times> event list) option" where
  "core_deliver m now path [] = Some (m, [], [])"
| "core_deliver m now path (d # ds) =
     (case on_datagram m now path d of
        (m, Inl _) \<Rightarrow> None
      | (m, Inr out) \<Rightarrow>
          if lifecycle m \<noteq> Established then None
          else case core_deliver m now path ds of
            None \<Rightarrow> None
          | Some (m, bs, es) \<Rightarrow> Some (m, map dgram_bytes (outbound_datagrams out) @ bs, events out @ es))"

section \<open>What calls keep\<close>

lemma in_step_established: "in_step r c us n q fs m \<Longrightarrow> lifecycle m = Established"
  by (simp add: in_step_def linked_def)

lemma in_step_accept: "in_step r c us n q fs m \<Longrightarrow> in_step r c us n q fs (accept_datagram m now path)"
  by (simp add: in_step_def linked_def send_ok_def caught_up_def accept_datagram_def on_valid_peer_datagram_def
      touch_disconnect_deadline_def)

lemma word_of_nat_le: "k \<le> q \<Longrightarrow> q < 2 ^ 64 \<Longrightarrow> word_of_nat k \<le> (word_of_nat q :: u64)"
  by (simp add: word_le_nat_alt unat_of_nat)

lemma unat_count: "k < 2 ^ 64 \<Longrightarrow> unat (word_of_nat k :: u64) = k"
  by (simp add: unat_of_nat)

lemma in_step_signal:
  assumes "in_step r c us n q fs m" and "k \<le> q" and "q < 2 ^ 64"
  shows "in_step r c us n q fs (after_signal m now (word_of_nat k) src)" and "signal_events m (word_of_nat k) = []"
  using assms word_of_nat_le [OF assms(2,3)]
  by (auto simp: in_step_def linked_def send_ok_def caught_up_def after_signal_def signal_events_def Let_def)

lemma last_greatest: "sorted_wrt (<) ks \<Longrightarrow> x \<in> set ks \<Longrightarrow> \<forall>i \<in> set ks. i \<le> x \<Longrightarrow> last ks = x" for x :: "'a::linorder"
  by (cases ks rule: rev_cases) (auto simp: sorted_wrt_append)

lemma max_pending_send_ok:
  assumes "send_ok us m" and "length us < 2 ^ 64"
  shows "max_pending_id m = word_of_nat (length us)"
proof -
  let ?ks = "bmap_keys (outbound_messages m)"
  have keys: "i \<in> set ?ks \<longleftrightarrow> 1 \<le> unat i \<and> unat i \<le> length us" for i
    using assms(1) by (auto simp: set_bmap_keys send_ok_def message_at_def split: if_splits)
  show ?thesis
  proof (cases us)
    case Nil
    then have "set ?ks = {}" by (intro equals0I) (auto simp: keys Nil)
    then have "?ks = []" by simp
    then show ?thesis by (simp add: Nil max_pending_id_def bmap_keys_def)
  next
    case (Cons u us')
    let ?n = "word_of_nat (length us) :: u64"
    have n: "unat ?n = length us" by (rule unat_count [OF assms(2)])
    then have "?n \<in> set ?ks" unfolding keys using Cons by simp
    moreover have "i \<le> ?n" if "i \<in> set ?ks" for i using that n by (simp add: keys word_le_nat_alt)
    moreover have "sorted_wrt (<) ?ks" using assms(1) by (simp add: send_ok_def bmap_ok_def)
    ultimately have "last ?ks = ?n" by (intro last_greatest) auto
    then show ?thesis using \<open>?n \<in> set ?ks\<close> by (auto simp: max_pending_id_def bmap_keys_def)
  qed
qed

section \<open>The calls of an exchange\<close>

text \<open>The signal that goes with every request and every answer.\<close>

abbreviation signal_of :: "nat \<Rightarrow> bytes list \<Rightarrow> tlv list" where
  "signal_of n us \<equiv> [encode_msr_signal_tlv (word_of_nat n) (word_of_nat (length us))]"

lemma send_advertises:
  assumes m: "in_step r c us n q fs m" and us: "length us + 1 < 2 ^ 64"
  obtains m' out x where "on_api_send m p = (m', Inr out)" and "in_step r c (us @ [p]) n q fs m'"
    and "map dgram_bytes (outbound_datagrams out) = [frame_bytes Msr c (encode_msr_payload x (word_of_nat (length us + 1))) []]"
    and "events out = (if r = Client then [QueueAdvertised (word_of_nat (length us + 1))] else [])"
proof -
  let ?m = "m\<lparr>next_outbound_id := next_outbound_id m + 1,
    outbound_messages := bmap_insert (next_outbound_id m) p (outbound_messages m)\<rparr>"
  have ok: "in_step r c (us @ [p]) n q fs ?m"
    using m us by (auto simp: in_step_def linked_def caught_up_def send_ok_def message_at_snoc algebra_simps)
  have pending: "max_pending_id ?m = word_of_nat (length us + 1)"
    using max_pending_send_ok [of "us @ [p]" ?m] ok us by (simp add: in_step_def)
  have l: "core_role m = r" "core_cid m = c" "lifecycle m = Established" using m by (simp_all add: in_step_def linked_def)
  show thesis
    using that [OF _ ok] l pending by (cases r) (simp_all add: on_api_send_def Let_def)
qed

lemma advert_requests:
  assumes m: "in_step r c us n n [] m" and n: "n + 1 < 2 ^ 64" and us: "length us < 2 ^ 64"
  defines "w \<equiv> word_of_nat (n + 1) :: u64"
  obtains m' out ka where "on_datagram m now path (frame_bytes Msr c (encode_msr_payload x w) []) = (m', Inr out)"
    and "in_step r c us n (n + 1) [] m'" and "events out = [RequestRangeSent w w]"
    and "map dgram_bytes (outbound_datagrams out) = ka @ [frame_bytes RequestRange c (encode_range w w) (signal_of n us)]"
    and "ka = [] \<or> r = Client \<and> ka = [frame_bytes Msr c (encode_msr_payload (word_of_nat n) (word_of_nat (length us))) []]"
proof -
  let ?a = "accept_datagram m now path"
  have a: "in_step r c us n n [] ?a" by (rule in_step_accept [OF m])
  then have l: "core_role ?a = r" "core_cid ?a = c" "lifecycle ?a = Established" "last_requested_end ?a = word_of_nat n"
      "last_ordered_rx ?a = word_of_nat n"
    by (simp_all add: in_step_def linked_def caught_up_def)
  have pending: "max_pending_id ?a = word_of_nat (length us)"
    using a us by (intro max_pending_send_ok) (simp_all add: in_step_def)
  have w: "word_of_nat n < w" "word_of_nat n + 1 = w"
    using n unat_count [of n] unat_count [of "n + 1"] by (simp_all add: w_def word_less_nat_alt add.commute)
  let ?m = "(after_signal ?a now w ControlMsrFrame)"
  have stp: "in_step r c us n (n + 1) [] ?m"
    using a w by (auto simp: in_step_def linked_def caught_up_def send_ok_def after_signal_def Let_def w_def add.commute)
  obtain out where out: "handle_msr_signal ?a now path w ControlMsrFrame empty_output = (?m, Inr out)"
      "events out = signal_events ?a w"
    using handle_msr_signal_result [of ?a now path w ControlMsrFrame empty_output] by (auto simp: empty_output_def)
  let ?ka = "if r = Client \<and> CLIENT_KEEPALIVE_EVERY_SERVER_MSR \<le> saturating_add (client_msr_rx ?a) 1
    then [frame_bytes Msr c (encode_msr_payload (word_of_nat n) (word_of_nat (length us))) []] else []"
  have "map dgram_bytes (outbound_datagrams (projr (snd (handle_msr_signal ?a now path w ControlMsrFrame empty_output))))
      = ?ka @ [frame_bytes RequestRange c (encode_range w w) (signal_of n us)]"
    using l w pending
    by (cases r) (auto simp: handle_msr_signal_def max_pending_id_def empty_output_def Let_def)
  then have sent: "map dgram_bytes (outbound_datagrams out) = ?ka @ [frame_bytes RequestRange c (encode_range w w) (signal_of n us)]"
    by (simp only: out(1) snd_conv sum.sel)
  have "on_datagram m now path (frame_bytes Msr c (encode_msr_payload x w) []) = (?m, Inr out)"
    using l out(1) by (simp add: on_datagram_frame dispatch_frame_def handle_msr_def)
  moreover have "events out = [RequestRangeSent w w]" using out(2) l w by (simp add: signal_events_def)
  ultimately show thesis by (rule that [OF _ stp _ sent]) auto
qed

text \<open>An advertisement of nothing new, such as a keepalive, is only taken note of.\<close>

lemma stale_advert:
  assumes m: "in_step r c us n q fs m" and k: "k \<le> q" "q < 2 ^ 64" and r: "r = Server"
  obtains m' out where "on_datagram m now path (frame_bytes Msr c (encode_msr_payload x (word_of_nat k)) []) = (m', Inr out)"
    and "in_step r c us n q fs m'" and "outbound_datagrams out = []" and "events out = []"
proof -
  let ?a = "accept_datagram m now path"
  have a: "in_step r c us n q fs ?a" by (rule in_step_accept [OF m])
  then have l: "core_role ?a = Server" "core_cid ?a = c" using r by (simp_all add: in_step_def linked_def)
  note sig = in_step_signal(1) [OF a k, of now ControlMsrFrame] in_step_signal(2) [OF a k]
  obtain out where out: "handle_msr_signal ?a now path (word_of_nat k) ControlMsrFrame empty_output
      = (after_signal ?a now (word_of_nat k) ControlMsrFrame, Inr out)" "events out = []"
    using handle_msr_signal_result [of ?a now path "word_of_nat k" ControlMsrFrame empty_output] sig(2)
    by (auto simp: empty_output_def)
  have "\<not> last_requested_end ?a < word_of_nat k"
    using a word_of_nat_le [OF k] by (simp add: in_step_def caught_up_def not_less)
  then have "outbound_datagrams out = []"
    using out(1) l by (auto simp: handle_msr_signal_def empty_output_def Let_def)
  moreover have "on_datagram m now path (frame_bytes Msr c (encode_msr_payload x (word_of_nat k)) [])
      = (after_signal ?a now (word_of_nat k) ControlMsrFrame, Inr out)"
    using l out(1) by (simp add: on_datagram_frame dispatch_frame_def handle_msr_def)
  ultimately show thesis using that sig(1) out(2) by blast
qed

text \<open>The signal on another frame when it announces nothing new.\<close>

lemma stale_signal:
  assumes m: "in_step r c us n q fs m" and k: "k \<le> q" "q < 2 ^ 64"
  shows "handle_msr_signal m now path (word_of_nat k) PiggybackTlv out = (after_signal m now (word_of_nat k) PiggybackTlv, Inr out)"
proof -
  have l: "core_role m = r" "lifecycle m = Established" "\<not> last_requested_end m < word_of_nat k"
    using m word_of_nat_le [OF k] by (simp_all add: in_step_def linked_def caught_up_def not_less)
  have "snd (handle_msr_signal m now path (word_of_nat k) PiggybackTlv out) = Inr out"
    using l by (cases r) (simp_all add: handle_msr_signal_def Let_def)
  then show ?thesis using handle_msr_signal_fst [of m now path "word_of_nat k" PiggybackTlv out] by (metis prod.collapse)
qed

text \<open>A frame of the session whose handler succeeds.\<close>

lemma session_frame:
  assumes m: "in_step r c us n q fs m" and p: "length p \<le> 1000" and k: "k \<le> q'" "q' < 2 ^ 64"
    and t: "t \<noteq> Msr"
    and handled: "dispatch_frame (accept_datagram m now path) now path
      (new_frame t 0 c p [encode_msr_signal_tlv a (word_of_nat k)]) empty_output = (m1, Inr out)"
    and m1: "in_step r c us' n' q' fs' m1"
  obtains m' where "on_datagram m now path (frame_bytes t c p [encode_msr_signal_tlv a (word_of_nat k)]) = (m', Inr out)"
    and "in_step r c us' n' q' fs' m'"
proof -
  have "core_cid m = c" using m by (simp add: in_step_def linked_def)
  then have "on_datagram m now path (frame_bytes t c p [encode_msr_signal_tlv a (word_of_nat k)])
      = (after_signal m1 now (word_of_nat k) PiggybackTlv, Inr out)"
    using t by (simp add: on_datagram_frame p handled stale_signal [OF m1 k])
  then show thesis using that in_step_signal(1) [OF m1 k] by blast
qed

text \<open>The request for a queued message is answered with all of it.\<close>

lemma request_is_answered:
  assumes m: "in_step r c us n q fs m" and us: "length us < 2 ^ 64" and k: "k \<le> q" "q < 2 ^ 64"
    and i: "i < length us" "length (message_chunks (us ! i)) \<le> 65535"
  defines "w \<equiv> word_of_nat (i + 1) :: u64"
  obtains m' out where "on_datagram m now path
        (frame_bytes RequestRange c (encode_range w w) [encode_msr_signal_tlv a (word_of_nat k)]) = (m', Inr out)"
    and "in_step r c us n q fs m'" and "events out = []"
    and "map dgram_bytes (outbound_datagrams out) = answer_frames c w (us ! i) (signal_of n us)"
proof -
  let ?a = "accept_datagram m now path" and ?p = "us ! i"
  have acc: "in_step r c us n q fs ?a" by (rule in_step_accept [OF m])
  then have l: "core_cid m = c" "lifecycle ?a = Established" "last_ordered_rx ?a = word_of_nat n"
    by (simp_all add: in_step_def linked_def caught_up_def)
  have pending: "max_pending_id ?a = word_of_nat (length us)"
    using acc us by (intro max_pending_send_ok) (simp_all add: in_step_def)
  have "unat w = i + 1" unfolding w_def using i us by (intro unat_count) simp
  then have get: "bmap_get (outbound_messages ?a) w = Some ?p"
    using acc i(1) by (simp add: in_step_def send_ok_def message_at_def)
  have "\<forall>ch \<in> set (message_chunks ?p). length ch \<le> 988" using chunk_size by (auto simp: message_chunks_def)
  from send_fragments_result [OF this, of ?a path w "word_of_nat (length (message_chunks ?p))" 0 empty_output] i(2)
  obtain o1 where o1: "send_fragments ?a path w (word_of_nat (length (message_chunks ?p))) 0 (message_chunks ?p) empty_output = (?a, Inr o1)"
    "events o1 = []" "outbound_datagrams o1 = map (\<lambda>(k, ch). \<lparr>dgram_path_id = path, dgram_bytes = frame_bytes Fragment c
        (fragment_payload w (word_of_nat k) (word_of_nat (length (message_chunks ?p))) ch) (signal_of n us)\<rparr>)
        (enumerate 0 (message_chunks ?p))"
    by (cases "send_fragments ?a path w (word_of_nat (length (message_chunks ?p))) 0 (message_chunks ?p) empty_output")
      (auto simp: l pending empty_output_def)
  have "map (\<lambda>(k, ch). f k ch) (enumerate 0 cs) = map (\<lambda>k. f k (cs ! k)) [0..<length cs]" for f :: "nat \<Rightarrow> bytes \<Rightarrow> bytes" and cs
    by (rule nth_equalityI) (simp_all add: nth_enumerate_eq)
  from this [of "\<lambda>k ch. frame_bytes Fragment c (fragment_payload w (word_of_nat k) (word_of_nat (length (message_chunks ?p))) ch) (signal_of n us)"]
  have frags: "map dgram_bytes (outbound_datagrams o1) = map (fragment_frame c w (message_chunks ?p) (signal_of n us)) [0..<length (message_chunks ?p)]"
    by (simp add: o1(3) fragment_frame_def comp_def case_prod_unfold)
  have "\<exists>out. handle_request_range ?a path (encode_range w w) empty_output = (?a, Inr out) \<and> events out = []
      \<and> map dgram_bytes (outbound_datagrams out) = answer_frames c w ?p (signal_of n us)"
  proof (cases "length ?p \<le> 992")
    case True
    then show ?thesis
      by (simp add: handle_request_range_def range_inclusive_def get send_one_message_alt answer_frames_def l pending empty_output_def)
  next
    case False
    then show ?thesis
      using o1(1,2) frags i(2) by (simp add: handle_request_range_def range_inclusive_def get send_one_message_alt answer_frames_def
          message_chunks_def [symmetric])
  qed
  then obtain out where out: "handle_request_range ?a path (encode_range w w) empty_output = (?a, Inr out)" "events out = []"
      "map dgram_bytes (outbound_datagrams out) = answer_frames c w ?p (signal_of n us)" by blast
  have handled: "dispatch_frame ?a now path (new_frame RequestRange 0 c (encode_range w w) [encode_msr_signal_tlv a (word_of_nat k)])
      empty_output = (?a, Inr out)"
    using l(2) out(1) by (simp add: dispatch_frame_def)
  obtain m' where "on_datagram m now path (frame_bytes RequestRange c (encode_range w w) [encode_msr_signal_tlv a (word_of_nat k)])
      = (m', Inr out)" "in_step r c us n q fs m'"
    by (rule session_frame [OF m _ k _ handled acc]) simp_all
  then show thesis using out(2,3) that by blast
qed

section \<open>The answer\<close>

text \<open>The next message handed over.\<close>

lemma flush_next:
  assumes "received_buffer m = [(w, p)]" and "last_ordered_rx m + 1 = w"
  shows "flush_ordered m out = (m\<lparr>received_buffer := [], last_ordered_rx := w\<rparr>,
    push_event (MessageReceived w p) (push_event (MessageDelivered w) out))"
  using assms by (subst flush_ordered.simps, subst flush_ordered.simps) (simp add: bmap_get_def bmap_remove_def)

lemma received_next:
  assumes "n + 1 < 2 ^ 64"
  shows "insert (word_of_nat (n + 1)) {i :: u64. 1 \<le> unat i \<and> unat i \<le> n} = {i. 1 \<le> unat i \<and> unat i \<le> n + 1}"
    and "word_of_nat (n + 1) \<notin> {i :: u64. 1 \<le> unat i \<and> unat i \<le> n}"
proof -
  have "unat i = n + 1 \<longleftrightarrow> i = word_of_nat (n + 1)" for i :: u64
    using unat_count [OF assms] by (simp add: word_unat_eq_iff del: of_nat_add of_nat_Suc)
  then show "insert (word_of_nat (n + 1)) {i :: u64. 1 \<le> unat i \<and> unat i \<le> n} = {i. 1 \<le> unat i \<and> unat i \<le> n + 1}"
    unfolding set_eq_iff insert_iff mem_Collect_eq by (metis le_Suc_eq le_add2 Suc_eq_plus1)
  show "word_of_nat (n + 1) \<notin> {i :: u64. 1 \<le> unat i \<and> unat i \<le> n}"
    using unat_count [OF assms] by (simp del: of_nat_add of_nat_Suc)
qed

lemma hand_over:
  assumes m: "in_step r c us n (n + 1) fs m" and n: "n + 1 < 2 ^ 64"
  defines "w \<equiv> word_of_nat (n + 1) :: u64"
  obtains m' where "flush_ordered (m\<lparr>received_ids := insert w (received_ids m), received_buffer := [(w, p)],
      received_fragments := []\<rparr>) empty_output
    = (m', push_event (MessageReceived w p) (push_event (MessageDelivered w) empty_output))"
    and "in_step r c us (n + 1) (n + 1) [] m'"
proof -
  let ?m = "m\<lparr>received_ids := insert w (received_ids m), received_buffer := [(w, p)], received_fragments := []\<rparr>"
  have "last_ordered_rx ?m + 1 = w" using m by (simp add: in_step_def caught_up_def w_def add.commute)
  then have f: "flush_ordered ?m empty_output = (?m\<lparr>received_buffer := [], last_ordered_rx := w\<rparr>,
      push_event (MessageReceived w p) (push_event (MessageDelivered w) empty_output))"
    by (intro flush_next) simp_all
  have "in_step r c us (n + 1) (n + 1) [] (?m\<lparr>received_buffer := [], last_ordered_rx := w\<rparr>)"
    using m received_next(1) [OF n] by (simp add: in_step_def linked_def send_ok_def caught_up_def w_def del: of_nat_add of_nat_Suc)
  with f show thesis using that by blast
qed

lemma data_frame_delivers:
  assumes m: "in_step r c us n (n + 1) [] m" and n: "n + 1 < 2 ^ 64" and p: "length p \<le> 992" and k: "k \<le> n + 1"
  defines "w \<equiv> word_of_nat (n + 1) :: u64"
  obtains m' out where "on_datagram m now path (frame_bytes Data c (data_payload w p) [encode_msr_signal_tlv a (word_of_nat k)])
      = (m', Inr out)"
    and "in_step r c us (n + 1) (n + 1) [] m'" and "outbound_datagrams out = []"
    and "events out = [MessageDelivered w, MessageReceived w p]"
proof -
  let ?a = "accept_datagram m now path"
  have acc: "in_step r c us n (n + 1) [] ?a" by (rule in_step_accept [OF m])
  then have l: "lifecycle ?a = Established" "received_ids ?a = {i. 1 \<le> unat i \<and> unat i \<le> n}" "received_buffer ?a = []"
      "received_fragments ?a = []"
    by (simp_all add: in_step_def linked_def caught_up_def)
  obtain m1 where m1: "flush_ordered (?a\<lparr>received_ids := insert w (received_ids ?a), received_buffer := [(w, p)],
        received_fragments := []\<rparr>) empty_output
      = (m1, push_event (MessageReceived w p) (push_event (MessageDelivered w) empty_output))"
      "in_step r c us (n + 1) (n + 1) [] m1"
    unfolding w_def by (rule hand_over [OF acc n])
  have fresh: "w \<notin> received_ids ?a" unfolding w_def l(2) by (rule received_next(2) [OF n])
  have "handle_data ?a (data_payload w p) empty_output
      = (m1, Inr (push_event (MessageReceived w p) (push_event (MessageDelivered w) empty_output)))"
    using l(3,4) m1(1) fresh by (simp add: handle_data_def bmap_remove_def Let_def)
  then have handled: "dispatch_frame ?a now path (new_frame Data 0 c (data_payload w p) [encode_msr_signal_tlv a (word_of_nat k)]) empty_output
      = (m1, Inr (push_event (MessageReceived w p) (push_event (MessageDelivered w) empty_output)))"
    using l(1) by (simp add: dispatch_frame_def)
  obtain m' where "on_datagram m now path (frame_bytes Data c (data_payload w p) [encode_msr_signal_tlv a (word_of_nat k)])
      = (m', Inr (push_event (MessageReceived w p) (push_event (MessageDelivered w) empty_output)))" "in_step r c us (n + 1) (n + 1) [] m'"
    by (rule session_frame [OF m _ k n _ handled m1(2)]) (use p in simp_all)
  then show thesis using that by (simp add: empty_output_def)
qed

text \<open>The fragments of a message, of which the first \<open>j\<close> have been stored.\<close>

definition assembling :: "u64 \<Rightarrow> bytes list \<Rightarrow> nat \<Rightarrow> (u64, fragment_accumulator) bmap \<Rightarrow> bool" where
  "assembling i cs j fs \<longleftrightarrow>
     (if j = 0 then fs = []
      else \<exists>a. fs = [(i, a)] \<and> frag_total a = word_of_nat (length cs) \<and> accumulator_ok (genuine_chunk cs) i a
        \<and> set (bmap_keys (frag_chunks a)) = word_of_nat ` {..<j})"

lemma assembling_slot:
  assumes fs: "assembling i cs j fs" "received_fragments m = fs" and j: "j < length cs" "length cs \<le> 65535"
  defines "n \<equiv> word_of_nat (length cs)"
  defines "a \<equiv> store_fragment (word_of_nat j) (cs ! j) (fragment_slot m i n)"
  shows "frag_total (fragment_slot m i n) = n" and "frag_total a = n" and "accumulator_ok (genuine_chunk cs) i a"
    and "set (bmap_keys (frag_chunks a)) = word_of_nat ` {..<Suc j}" and "length (frag_chunks a) = Suc j"
    and "bmap_insert i a fs = [(i, a)]"
proof -
  have small: "unat (word_of_nat k :: u16) = k" if "k \<le> length cs" for k
    by (rule unat_word_of_nat [OF refl]) (use j(2) that in simp)
  have n: "n \<noteq> 0" "(word_of_nat j :: u16) < n"
    using small [of j] small [of "length cs"] j(1) by (auto simp: n_def word_less_nat_alt unat_eq_0 [symmetric])
  let ?s = "fragment_slot m i n"
  have s: "frag_total ?s = n" "accumulator_ok (genuine_chunk cs) i ?s" "set (bmap_keys (frag_chunks ?s)) = word_of_nat ` {..<j}"
    using fs n(1) by (auto simp: assembling_def fragment_slot_def accumulator_ok_def bmap_get_def n_def Let_def
        split: if_splits)
       (auto simp: bmap_keys_def)
  then show "frag_total ?s = n" by simp
  then show t: "frag_total a = n" by (simp add: a_def store_fragment_def)
  have "genuine_chunk cs i n (word_of_nat j) (cs ! j)" using small [of j] j(1) by (simp add: genuine_chunk_def)
  then show acc: "accumulator_ok (genuine_chunk cs) i a"
    using accumulator_insert [OF s(2)] s n(2) by (simp add: a_def store_fragment_def)
  show keys: "set (bmap_keys (frag_chunks a)) = word_of_nat ` {..<Suc j}"
    unfolding a_def store_fragment_keys s(3) lessThan_Suc by simp
  have "inj_on (word_of_nat :: nat \<Rightarrow> u16) {..<Suc j}" by (rule inj_on_word_of_nat) (use j in simp)
  then show "length (frag_chunks a) = Suc j"
    using acc keys by (simp add: bmap_length_card accumulator_ok_def card_image)
  show "bmap_insert i a fs = [(i, a)]"
    using fs(1) by (auto simp: assembling_def split: if_splits)
qed

lemma fragment_frame_stored:
  assumes m: "in_step r c us n (n + 1) fs m" and n: "n + 1 < 2 ^ 64" and k: "k \<le> n + 1"
    and cs: "length cs \<le> 65535" "\<forall>ch \<in> set cs. length ch \<le> 988" and j: "j < length cs"
  defines "w \<equiv> word_of_nat (n + 1) :: u64"
  assumes fs: "assembling w cs j fs"
  obtains m' out fs' where "on_datagram m now path (fragment_frame c w cs [encode_msr_signal_tlv a (word_of_nat k)] j) = (m', Inr out)"
    and "outbound_datagrams out = []"
    and "if Suc j < length cs then events out = [] \<and> assembling w cs (Suc j) fs' \<and> in_step r c us n (n + 1) fs' m'
      else events out = [MessageDelivered w, MessageReceived w (concat cs)] \<and> in_step r c us (n + 1) (n + 1) [] m'"
proof -
  let ?a = "accept_datagram m now path" and ?n = "word_of_nat (length cs) :: u16" and ?ts = "[encode_msr_signal_tlv a (word_of_nat k)]"
  let ?p = "fragment_payload w (word_of_nat j) ?n (cs ! j)"
  have acc: "in_step r c us n (n + 1) fs ?a" by (rule in_step_accept [OF m])
  then have l: "lifecycle ?a = Established" "received_buffer ?a = []" "received_fragments ?a = fs"
      "received_ids ?a = {i. 1 \<le> unat i \<and> unat i \<le> n}"
    by (simp_all add: in_step_def linked_def caught_up_def)
  have fresh: "w \<notin> received_ids ?a" unfolding w_def l(4) by (rule received_next(2) [OF n])
  let ?acc = "store_fragment (word_of_nat j) (cs ! j) (fragment_slot ?a w ?n)"
  note slot = assembling_slot [OF fs l(3) j cs(1)]
  have small: "unat (word_of_nat i :: u16) = i" if "i \<le> length cs" for i
    by (rule unat_word_of_nat [OF refl]) (use cs(1) that in simp)
  have idx: "?n \<noteq> 0" "\<not> ?n \<le> word_of_nat j"
    using small [of j] small [of "length cs"] j by (auto simp: word_le_nat_alt unat_eq_0 [symmetric])
  have len: "length ?p \<le> 1000" using cs(2) j by simp
  note alt = handle_fragment_alt [of ?a ?p empty_output, unfolded fragment_payload_fields]
  show thesis
  proof (cases "Suc j < length cs")
    case True
    let ?m1 = "?a\<lparr>received_fragments := [(w, ?acc)]\<rparr>"
    have "\<not> fragment_complete ?acc" using slot(2,5) small [of "length cs"] True by (simp add: fragment_complete_def)
    then have "handle_fragment ?a ?p empty_output = (?m1, Inr empty_output)"
      using fresh idx slot(1,6) l(3) by (simp add: alt)
    then have handled: "dispatch_frame ?a now path (new_frame Fragment 0 c ?p ?ts) empty_output = (?m1, Inr empty_output)"
      using l(1) by (simp add: dispatch_frame_def)
    have m1: "in_step r c us n (n + 1) [(w, ?acc)] ?m1"
      using acc by (simp add: in_step_def linked_def send_ok_def caught_up_def)
    obtain m' where "on_datagram m now path (frame_bytes Fragment c ?p ?ts) = (m', Inr empty_output)"
        "in_step r c us n (n + 1) [(w, ?acc)] m'"
      by (rule session_frame [OF m len k n _ handled m1]) simp
    moreover have "assembling w cs (Suc j) [(w, ?acc)]" using slot(2-4) by (simp add: assembling_def)
    ultimately show thesis using True that by (simp add: fragment_frame_def empty_output_def)
  next
    case False
    then have last: "Suc j = length cs" using j by simp
    let ?out = "push_event (MessageReceived w (concat cs)) (push_event (MessageDelivered w) empty_output)"
    obtain m1 where m1: "flush_ordered (?a\<lparr>received_ids := insert w (received_ids ?a), received_buffer := [(w, concat cs)],
          received_fragments := []\<rparr>) empty_output = (m1, ?out)" "in_step r c us (n + 1) (n + 1) [] m1"
      unfolding w_def by (rule hand_over [OF acc n])
    have "fragment_complete ?acc" using slot(2,5) small [of "length cs"] last by (simp add: fragment_complete_def)
    moreover have "merge_chunks (frag_chunks ?acc) (indices (frag_total ?acc)) = Some (concat cs)"
      by (rule merged_chunks [OF slot(3,2) _ cs(1)]) (simp add: slot(5) last)
    ultimately have "handle_fragment ?a ?p empty_output = (m1, Inr ?out)"
      using fresh idx slot(1,6) l(2,3) m1(1) by (simp add: alt bmap_remove_def)
    then have handled: "dispatch_frame ?a now path (new_frame Fragment 0 c ?p ?ts) empty_output = (m1, Inr ?out)"
      using l(1) by (simp add: dispatch_frame_def)
    obtain m' where "on_datagram m now path (frame_bytes Fragment c ?p ?ts) = (m', Inr ?out)" "in_step r c us (n + 1) (n + 1) [] m'"
      by (rule session_frame [OF m len k n _ handled m1(2)]) simp
    then show thesis using False that by (simp add: fragment_frame_def empty_output_def)
  qed
qed

lemma fragments_deliver:
  assumes n: "n + 1 < 2 ^ 64" and k: "k \<le> n + 1" and cs: "length cs \<le> 65535" "\<forall>ch \<in> set cs. length ch \<le> 988"
  defines "w \<equiv> word_of_nat (n + 1) :: u64"
  shows "in_step r c us n (n + 1) fs m \<Longrightarrow> assembling w cs j fs \<Longrightarrow> j < length cs \<Longrightarrow>
    \<exists>m'. core_deliver m now path (map (fragment_frame c w cs [encode_msr_signal_tlv a (word_of_nat k)]) [j..<length cs])
        = Some (m', [], [MessageDelivered w, MessageReceived w (concat cs)]) \<and> in_step r c us (n + 1) (n + 1) [] m'"
proof (induction "length cs - j" arbitrary: j fs m)
  case 0
  then show ?case by simp
next
  case (Suc l)
  obtain m1 out fs' where m1: "on_datagram m now path (fragment_frame c w cs [encode_msr_signal_tlv a (word_of_nat k)] j) = (m1, Inr out)"
      "outbound_datagrams out = []"
      "if Suc j < length cs then events out = [] \<and> assembling w cs (Suc j) fs' \<and> in_step r c us n (n + 1) fs' m1
       else events out = [MessageDelivered w, MessageReceived w (concat cs)] \<and> in_step r c us (n + 1) (n + 1) [] m1"
    unfolding w_def by (rule fragment_frame_stored [OF Suc.prems(1) n k cs Suc.prems(3)]) (use Suc.prems(2) in \<open>simp add: w_def\<close>)
  have est: "lifecycle m1 = Established" using m1(3) in_step_established by (auto split: if_splits)
  have js: "[j..<length cs] = j # [Suc j..<length cs]" using Suc.prems(3) by (simp add: upt_conv_Cons)
  show ?case
  proof (cases "Suc j < length cs")
    case True
    have "l = length cs - Suc j" using Suc.hyps(2) by simp
    from Suc.hyps(1) [OF this _ _ True, of fs' m1] m1(3) True
    obtain m' where "core_deliver m1 now path (map (fragment_frame c w cs [encode_msr_signal_tlv a (word_of_nat k)]) [Suc j..<length cs])
        = Some (m', [], [MessageDelivered w, MessageReceived w (concat cs)])" "in_step r c us (n + 1) (n + 1) [] m'"
      by auto
    with m1 est True show ?thesis by (simp add: js)
  next
    case False
    then show ?thesis using m1 est by (simp add: js)
  qed
qed

lemma answer_delivers:
  assumes m: "in_step r c us n (n + 1) [] m" and n: "n + 1 < 2 ^ 64" and k: "k \<le> n + 1"
    and p: "length (message_chunks p) \<le> 65535"
  defines "w \<equiv> word_of_nat (n + 1) :: u64"
  obtains m' where "core_deliver m now path (answer_frames c w p [encode_msr_signal_tlv a (word_of_nat k)])
      = Some (m', [], [MessageDelivered w, MessageReceived w p])"
    and "in_step r c us (n + 1) (n + 1) [] m'"
proof (cases "length p \<le> 992")
  case True
  show thesis
    by (rule data_frame_delivers [OF m n True k, of now path a])
      (use True that in \<open>simp add: answer_frames_def w_def in_step_established del: of_nat_add of_nat_Suc\<close>)
next
  case False
  have chs: "\<forall>ch \<in> set (message_chunks p). length ch \<le> 988" using chunk_size by (auto simp: message_chunks_def)
  have p': "concat (message_chunks p) = p" by (simp add: message_chunks_def concat_chunks)
  then have "0 < length (message_chunks p)" using False by (cases "message_chunks p") auto
  from fragments_deliver [OF n k p chs m _ this, of now path a] p' False that show thesis
    by (auto simp: assembling_def answer_frames_def w_def)
qed

section \<open>A whole exchange\<close>

text \<open>A datagram that carries a frame of connection \<open>c\<close>.\<close>

definition framed :: "u64 \<Rightarrow> bytes \<Rightarrow> bool" where
  "framed c d \<longleftrightarrow> (\<exists>fr. decode d = Inr fr \<and> frame_cid fr = c)"

lemma framed_frame: "length p \<le> 1000 \<Longrightarrow> small_tlvs ts \<Longrightarrow> framed c (frame_bytes t c p ts)"
  by (auto simp: framed_def frame_bytes_ok)

lemma framed_answer:
  assumes "length ts \<le> 1" and "small_tlvs ts"
  shows "\<forall>d \<in> set (answer_frames c w p ts). framed c d"
proof -
  have "\<forall>ch \<in> set (message_chunks p). length ch \<le> 988" using chunk_size by (auto simp: message_chunks_def)
  then show ?thesis using assms(2) by (auto simp: answer_frames_def fragment_frame_def intro!: framed_frame)
qed

lemma core_deliver_append:
  assumes "core_deliver m now path xs = Some (m1, bs1, es1)" and "core_deliver m1 now path ys = Some (m2, bs2, es2)"
  shows "core_deliver m now path (xs @ ys) = Some (m2, bs1 @ bs2, es1 @ es2)"
  using assms by (induction xs arbitrary: m bs1 es1) (auto split: prod.splits sum.splits option.splits if_splits)

text \<open>The four calls of one message: from the sender, a machine of the role \<open>r\<close> with \<open>us\<close> sent and \<open>vs\<close> received, to
  its peer.\<close>

lemma message_exchanged:
  assumes a: "in_step r c us (length vs) (length vs) [] a" and b: "in_step r' c vs (length us) (length us) [] b"
    and roles: "r' = Client \<longrightarrow> r = Server" and us: "length us + 1 < 2 ^ 64" and vs: "length vs < 2 ^ 64"
    and p: "length (message_chunks p) \<le> 65535"
  defines "w \<equiv> word_of_nat (length us + 1) :: u64"
  obtains a1 out advert b1 request a2 answer b2
    where "on_api_send a p = (a1, Inr out)" and "map dgram_bytes (outbound_datagrams out) = advert"
    and "events out = (if r = Client then [QueueAdvertised w] else [])"
    and "core_deliver b now path' advert = Some (b1, request, [RequestRangeSent w w])"
    and "core_deliver a1 now path request = Some (a2, answer, [])"
    and "core_deliver b1 now path' answer = Some (b2, [], [MessageDelivered w, MessageReceived w p])"
    and "in_step r c (us @ [p]) (length vs) (length vs) [] a2" and "in_step r' c vs (length us + 1) (length us + 1) [] b2"
    and "lifecycle a1 = Established" and "\<forall>d \<in> set (advert @ request @ answer). framed c d"
proof -
  let ?n = "length us" and ?m = "length vs"
  obtain a1 out x where a1: "on_api_send a p = (a1, Inr out)" "in_step r c (us @ [p]) ?m ?m [] a1"
      "map dgram_bytes (outbound_datagrams out) = [frame_bytes Msr c (encode_msr_payload x w) []]"
      "events out = (if r = Client then [QueueAdvertised w] else [])"
    unfolding w_def by (rule send_advertises [OF a us])
  obtain b1 o1 ka where b1: "on_datagram b now path' (frame_bytes Msr c (encode_msr_payload x w) []) = (b1, Inr o1)"
      "in_step r' c vs ?n (?n + 1) [] b1" "events o1 = [RequestRangeSent w w]"
      "map dgram_bytes (outbound_datagrams o1) = ka @ [frame_bytes RequestRange c (encode_range w w) (signal_of ?n vs)]"
      "ka = [] \<or> r' = Client \<and> ka = [frame_bytes Msr c (encode_msr_payload (word_of_nat ?n) (word_of_nat ?m)) []]"
    unfolding w_def by (rule advert_requests [OF b us vs])
  have ka: "\<exists>a'. core_deliver a1 now path ka = Some (a', [], []) \<and> in_step r c (us @ [p]) ?m ?m [] a'"
  proof (cases "ka = []")
    case False
    then have r: "r = Server" "ka = [frame_bytes Msr c (encode_msr_payload (word_of_nat ?n) (word_of_nat ?m)) []]"
      using b1(5) roles by auto
    obtain a' o' where "on_datagram a1 now path (frame_bytes Msr c (encode_msr_payload (word_of_nat ?n) (word_of_nat ?m)) []) = (a', Inr o')"
        "in_step r c (us @ [p]) ?m ?m [] a'" "outbound_datagrams o' = []" "events o' = []"
      by (rule stale_advert [OF a1(2) order_refl vs r(1)])
    then show ?thesis by (simp add: r(2) in_step_established)
  qed (use a1(2) in simp)
  then obtain a' where a': "core_deliver a1 now path ka = Some (a', [], [])" "in_step r c (us @ [p]) ?m ?m [] a'" by blast
  obtain a2 o2 where a2: "on_datagram a' now path (frame_bytes RequestRange c (encode_range w w) (signal_of ?n vs)) = (a2, Inr o2)"
      "in_step r c (us @ [p]) ?m ?m [] a2" "events o2 = []"
      "map dgram_bytes (outbound_datagrams o2) = answer_frames c w p (signal_of ?m (us @ [p]))"
    unfolding w_def
    by (rule request_is_answered [OF a'(2) _ order_refl vs, of ?n]) (use us p in \<open>simp_all add: nth_append\<close>)
  obtain b2 where b2: "core_deliver b1 now path' (answer_frames c w p (signal_of ?m (us @ [p])))
      = Some (b2, [], [MessageDelivered w, MessageReceived w p])" "in_step r' c vs (?n + 1) (?n + 1) [] b2"
    unfolding w_def by (rule answer_delivers [OF b1(2) us _ p, of "length (us @ [p])" now path' "word_of_nat ?m"]) (simp_all del: of_nat_add of_nat_Suc)
  have request: "core_deliver a1 now path (ka @ [frame_bytes RequestRange c (encode_range w w) (signal_of ?n vs)])
      = Some (a2, answer_frames c w p (signal_of ?m (us @ [p])), [])"
    using core_deliver_append [OF a'(1), of "[frame_bytes RequestRange c (encode_range w w) (signal_of ?n vs)]" a2
        "answer_frames c w p (signal_of ?m (us @ [p]))" "[]"]
    by (simp add: a2(1,3,4) in_step_established [OF a2(2)])
  have advert: "core_deliver b now path' [frame_bytes Msr c (encode_msr_payload x w) []]
      = Some (b1, ka @ [frame_bytes RequestRange c (encode_range w w) (signal_of ?n vs)], [RequestRangeSent w w])"
    by (simp add: b1(1,3,4) in_step_established [OF b1(2)])
  have "\<forall>d \<in> set ([frame_bytes Msr c (encode_msr_payload x w) []] @ (ka @ [frame_bytes RequestRange c (encode_range w w) (signal_of ?n vs)])
      @ answer_frames c w p (signal_of ?m (us @ [p]))). framed c d"
    using framed_answer [of "signal_of ?m (us @ [p])" c w p] b1(5) by (auto simp: framed_frame)
  then show thesis
    by (intro that [OF a1(1,3,4) advert request b2(1) a2(2) b2(2) in_step_established [OF a1(2)]])
qed

section \<open>The start\<close>

text \<open>The machines are in step once the hellos have been exchanged.\<close>

lemma client_hello_in_step:
  "\<exists>m out. on_datagram (new_machine Client c cfg) now path (frame_bytes ServerHello c [] []) = (m, Inr out)
    \<and> in_step Client c [] 0 0 [] m \<and> map dgram_bytes (outbound_datagrams out) = [frame_bytes HelloAck c [] []]"
  by (simp add: on_datagram_frame dispatch_frame_def schedule_client_timers_def touch_disconnect_deadline_def Let_def)
    (auto simp: in_step_def linked_def send_ok_def caught_up_def message_at_def bmap_ok_def bmap_keys_def new_machine_def accept_datagram_def
      on_valid_peer_datagram_def touch_disconnect_deadline_def)

lemma server_hello_in_step:
  "\<exists>m out. on_datagram ((new_machine Server c cfg)\<lparr>current_path_id := path\<rparr>) now path (frame_bytes ClientHello c [] []) = (m, Inr out)
    \<and> in_step Server c [] 0 0 [] m \<and> map dgram_bytes (outbound_datagrams out) = [frame_bytes ServerHello c [] []]"
  by (simp add: on_datagram_frame dispatch_frame_def schedule_server_timers_def touch_disconnect_deadline_def Let_def)
    (auto simp: in_step_def linked_def send_ok_def caught_up_def message_at_def bmap_ok_def bmap_keys_def new_machine_def accept_datagram_def
      on_valid_peer_datagram_def touch_disconnect_deadline_def)

lemma hello_keeps:
  "\<exists>m out. on_datagram ((new_machine Server c cfg)\<lparr>current_path_id := path\<rparr>) now path (frame_bytes ClientHello c [] []) = (m, Inr out)
    \<and> lifecycle m \<noteq> Lost \<and> (in_step Server c [] 0 0 [] m \<and> map dgram_bytes (outbound_datagrams out) = [frame_bytes ServerHello c [] []])"
  using server_hello_in_step [of path c cfg now] in_step_established [of Server c "[]" 0 0 "[]"] by fastforce

end
