(* ===== verification/Server_Calls.thy ===== *)
theory Server_Calls
  imports Server_Store
begin

text \<open>
  What one call on a server runtime does to the session it is for, when the machine accepts it and stays: the
  machine makes its step, the datagrams go out as the machine made them, and the events are the translated events
  of the machine, in order.  Proved for every store that keeps its contract.
\<close>

section \<open>The machine of a session\<close>

text \<open>The machine of the session with no virtual host bound to it; nothing in the program binds one.\<close>

definition machine_at :: "(u64, session_runtime) bmap \<Rightarrow> u64 \<Rightarrow> core_machine option" where
  "machine_at m cid =
     (case bmap_get m cid of None \<Rightarrow> None | Some s \<Rightarrow> if sess_bound_vhost s = None then Some (sess_core s) else None)"

lemma machine_atD:
  assumes "machine_at m cid = Some core"
  obtains s where "bmap_get m cid = Some s" and "sess_core s = core" and "sess_bound_vhost s = None"
  using assms that by (auto simp: machine_at_def split: option.splits if_splits)

lemma machine_at_insert [simp]:
  "sess_bound_vhost s = None \<Longrightarrow> machine_at (bmap_insert cid s m) cid = Some (sess_core s)"
  by (simp add: machine_at_def)

lemma observed_machine [simp]: "machine_at (sv_sessions (server_observe_datagrams cid r ds)) k = machine_at (sv_sessions r) k"
proof -
  have id: "machine_at (sv_sessions (observe_data_id cid i r)) k = machine_at (sv_sessions r) k" for i and r :: "'a server_runtime"
    by (cases "bmap_get (sv_sessions r) cid") (simp_all add: observe_data_id_def machine_at_def)
  have one: "machine_at (sv_sessions (server_observe_datagram cid r d)) k = machine_at (sv_sessions r) k" for d and r :: "'a server_runtime"
    by (simp add: server_observe_datagram_def id Let_def split: sum.split message_type.split)
  show ?thesis
    unfolding server_observe_datagrams_def by (induction ds arbitrary: r) (simp_all add: one)
qed

section \<open>Calls that keep the session\<close>

text \<open>What a successful call returns and leaves, given the output of the machine.\<close>

definition server_served :: "'s server_env \<Rightarrow> ('s \<Rightarrow> bool) \<Rightarrow> u64 \<Rightarrow> core_machine \<Rightarrow> core_output \<Rightarrow> 's server_result \<Rightarrow> bool" where
  "server_served E ok cid m out res \<longleftrightarrow> (\<exists>r o'. res = (r, Inr o') \<and> ok (sv_store r) \<and> machine_at (sv_sessions r) cid = Some m
     \<and> map dgram_bytes (sro_outbound_datagrams o') = map dgram_bytes (outbound_datagrams out)
     \<and> sro_events o' = concat (map (translate_event E cid) (events out)))"

lemma server_servedD:
  assumes "server_served E ok cid m out res"
  obtains r o' where "res = (r, Inr o')" and "ok (sv_store r)" and "machine_at (sv_sessions r) cid = Some m"
    and "map dgram_bytes (sro_outbound_datagrams o') = map dgram_bytes (outbound_datagrams out)"
    and "sro_events o' = concat (map (translate_event E cid) (events out))"
  using assms that by (auto simp: server_served_def)

context runtime_store
begin

lemma persist_serves:
  assumes "inv (sv_store r)" and "machine_at (sv_sessions r) cid = Some m" and "lifecycle m \<noteq> Lost"
  obtains r' where "settle_session E cid now r = (r', Inr ())" and "inv (sv_store r')" and "machine_at (sv_sessions r') cid = Some m"
proof -
  obtain s where s: "bmap_get (sv_sessions r) cid = Some s" "sess_core s = m" "sess_bound_vhost s = None"
    by (rule machine_atD [OF assms(2)])
  obtain r' where r': "persist_session E cid now s r = (r', Inr ())" "stores_for entries inv now cid r r'"
    using persist_stores [OF assms(1) s(1), of now] by blast
  have "sv_sessions r' = sv_sessions r" using persist_session_effect(4) [of E cid now s r] r'(1) by simp
  then show thesis using that r' s assms(2,3) by (simp add: settle_session_def stores_for_def)
qed

lemma session_call_serves:
  assumes "inv (sv_store r)" and "sess_bound_vhost session = None" and "lifecycle m \<noteq> Lost"
  shows "server_served E inv cid m out (session_call E cid path now session (m, Inr out) r)"
proof -
  let ?r = "server_observe_datagrams cid ((bump (\<lambda>ms. foldl server_observe_event ms (events out))
      (r\<lparr>sv_sessions := bmap_insert cid (session\<lparr>sess_core := m\<rparr>) (sv_sessions r)\<rparr>))
    \<lparr>sv_timers := server_ingest_timers cid (timer_actions out) (sv_timers r)\<rparr>) (map (route_datagram path) (outbound_datagrams out))"
  have "inv (sv_store ?r)" "machine_at (sv_sessions ?r) cid = Some m" using assms(1,2) by simp_all
  then obtain r' where "settle_session E cid now ?r = (r', Inr ())" "inv (sv_store r')" "machine_at (sv_sessions r') cid = Some m"
    by (rule persist_serves [OF _ _ assms(3)])
  then show ?thesis
    by (simp add: server_served_def session_call_def server_apply_core_output_def route_datagram_def Let_def)
qed

lemma datagram_serves:
  assumes "inv (sv_store r)" and "decode bs = Inr fr" and "frame_cid fr = cid"
    and "ensure_session_loaded E cid path now r = (r1, Inr ())" and "inv (sv_store r1)"
    and "machine_at (sv_sessions r1) cid = Some m" and "on_datagram m now path bs = (m', Inr out)" and "lifecycle m' \<noteq> Lost"
  shows "server_served E inv cid m' out (server_runtime_on_datagram E r now path bs)"
proof -
  obtain s where s: "bmap_get (sv_sessions r1) cid = Some s" "sess_core s = m" "sess_bound_vhost s = None"
    by (rule machine_atD [OF assms(6)])
  have "vhost_events cid path s = []" using s(3) by (simp add: vhost_events_def)
  moreover have "server_served E inv cid m' out (session_call E cid path now s (m', Inr out) r1)"
    by (rule session_call_serves [OF assms(5) s(3) assms(8)])
  ultimately show ?thesis
    using assms(2-4,7) s(1,2) by (auto simp: server_runtime_on_datagram_def server_served_def Let_def)
qed

lemma known_datagram_serves:
  assumes "inv (sv_store r)" and "decode bs = Inr fr" and "frame_cid fr = cid"
    and m: "machine_at (sv_sessions r) cid = Some m" and "on_datagram m now path bs = (m', Inr out)" and "lifecycle m' \<noteq> Lost"
  shows "server_served E inv cid m' out (server_runtime_on_datagram E r now path bs)"
proof (rule datagram_serves [OF assms(1-3) _ assms(1) m assms(5,6)])
  have "seen r cid \<noteq> None" using m by (auto simp: machine_at_def seen_in_def split: option.splits)
  then show "ensure_session_loaded E cid path now r = (r, Inr ())" by (rule ensure_loaded)
qed

lemma send_serves:
  assumes "inv (sv_store r)" and m: "machine_at (sv_sessions r) cid = Some m"
    and "on_api_send m p = (m', Inr out)" and "lifecycle m' \<noteq> Lost"
  shows "server_served E inv cid m' out (server_send_message E r cid p now)"
proof -
  obtain s where s: "bmap_get (sv_sessions r) cid = Some s" "sess_core s = m" "sess_bound_vhost s = None"
    by (rule machine_atD [OF m])
  show ?thesis using session_call_serves [OF assms(1) s(3) assms(4)] s(1,2) assms(3) by (simp add: server_send_message_def)
qed

text \<open>A connection that is not known gets a fresh machine.\<close>

lemma unknown_enters:
  assumes "inv (sv_store r)" and "seen r cid = None"
  obtains r1 cfg where "ensure_session_loaded E cid path now r = (r1, Inr ())" and "inv (sv_store r1)"
    and "machine_at (sv_sessions r1) cid = Some ((new_machine Server cid cfg)\<lparr>current_path_id := path\<rparr>)"
proof -
  have new: "bmap_get (sv_sessions r) cid = None" using assms(2) by (simp add: seen_in_def)
  obtain s' where s': "st_load E (sv_store r) cid now = (s', Inr (map_option to_versioned (live now (entries (sv_store r)) cid)))"
      "inv s'" by (rule load_result [OF assms(1)])
  let ?v = "map_option to_versioned (live now (entries (sv_store r)) cid)"
  obtain cfg peer where init: "initial_session (sv_cfg r) path ?v = (cfg, peer)" by fastforce
  show thesis
    by (rule that [of _ cfg], simp add: ensure_session_loaded_def bmap_contains_def new s'(1) init on_path_event_def Let_def)
      (simp_all add: s'(2))
qed

lemma first_datagram_serves:
  assumes "inv (sv_store r)" and "seen r cid = None" and "decode bs = Inr fr" and "frame_cid fr = cid"
    and "\<And>cfg. \<exists>m' out. on_datagram ((new_machine Server cid cfg)\<lparr>current_path_id := path\<rparr>) now path bs = (m', Inr out)
      \<and> lifecycle m' \<noteq> Lost \<and> P m' out"
  shows "\<exists>m' out. server_served E inv cid m' out (server_runtime_on_datagram E r now path bs) \<and> P m' out"
proof -
  obtain r1 cfg where r1: "ensure_session_loaded E cid path now r = (r1, Inr ())" "inv (sv_store r1)"
      "machine_at (sv_sessions r1) cid = Some ((new_machine Server cid cfg)\<lparr>current_path_id := path\<rparr>)"
    by (rule unknown_enters [OF assms(1,2)])
  obtain m' out where "on_datagram ((new_machine Server cid cfg)\<lparr>current_path_id := path\<rparr>) now path bs = (m', Inr out)"
      "lifecycle m' \<noteq> Lost" "P m' out"
    using assms(5) by blast
  then show ?thesis using datagram_serves [OF assms(1,3,4) r1] by blast
qed

end

end
