(* ===== verification/Engine_Tls.thy ===== *)
theory Engine_Tls
  imports Registry Core_Exchange Server_Calls
begin

text \<open>
  The handshake adapter in front of the runtimes of \<^verbatim>\<open>v3-ffi\<close>: what TLS keeps away from the client's core until
  the server has named itself, how a client and a server engine connect by exchanging their output, what the
  adapter does not do once it is established, and when a server engine aborts the process.
\<close>

section \<open>The gate of the client\<close>

text \<open>A client machine that no peer has reached.\<close>

definition unreached :: "core_machine \<Rightarrow> bool" where
  "unreached m \<longleftrightarrow> watched m \<and> \<not> alive m \<and> rx_part m = ({}, [], [], 0)"

lemma core_step_unreached:
  "unreached m \<Longrightarrow> \<forall>now path bs. i \<noteq> Core.OnDatagram now path bs \<Longrightarrow> unreached (fst (core_step m i))"
  using other_revives [of m i] other_step_quiet [of i m] by (auto simp: unreached_def Core_Lemmas.quiet_def)

lemma fire_all_unreached: "unreached m \<Longrightarrow> unreached (fst (fire_all m now ids))"
proof (induction ids arbitrary: m)
  case (Cons i ids)
  obtain m' out where o: "on_timer m now i = (m', Inr out)" using on_timer_ok by blast
  have "unreached m'" using core_step_unreached [OF Cons.prems, of "OnTimer now i"] o by simp
  then show ?case using Cons.IH [of m'] by (simp add: o case_prod_unfold Let_def)
qed simp

lemma client_fire_core: "cr_core (fst (client_fire r now es out)) = fst (fire_all (cr_core r) now (map snd es))"
  using client_fire_all [of r now es out] by blast

lemma client_step_unreached:
  assumes "unreached (cr_core r)" and "\<forall>now path bs. i \<noteq> ClientDatagram now path bs"
  shows "unreached (cr_core (fst (client_step r i)))"
proof (cases i)
  case (ClientPoll now limit)
  then show ?thesis
    using fire_all_unreached [OF assms(1)] by (simp add: client_poll_timers_def client_fire_core)
next
  case (ClientBegin now)
  then show ?thesis using core_step_unreached [OF assms(1), of "Core.BeginHandshake now"] by (simp add: client_begin_handshake_def)
next
  case (ClientSend p)
  then show ?thesis using core_step_unreached [OF assms(1), of "ApiSend p"] by (simp add: client_send_message_def)
next
  case ClientClose
  then show ?thesis using core_step_unreached [OF assms(1), of ApiClose] by (simp add: client_close_session_def)
next
  case (ClientPropose now p)
  then show ?thesis using core_step_unreached [OF assms(1), of "ApiProposeTimers now p"] by (simp add: client_propose_timers_def)
next
  case (ClientPath p)
  then show ?thesis using core_step_unreached [OF assms(1), of "OnPathEvent (PathChanged p)"] by (simp add: client_on_path_changed_def)
qed (use assms in simp)

fun datagrams_of :: "engine_call \<Rightarrow> bytes set" where
  "datagrams_of (Datagram now path_id p) = {bytes_from_ptr p}"
| "datagrams_of _ = {}"

lemma in_datagrams_of: "d \<in> datagrams_of c \<longleftrightarrow> (\<exists>now path_id p. c = Datagram now path_id p \<and> d = bytes_from_ptr p)"
  by (cases c) auto

text \<open>The engine of a client with TLS: its adapter has run on datagrams that the engine was given, and until the
  adapter is established the core is out of reach.\<close>

definition gated :: "openssl_ops \<Rightarrow> string \<Rightarrow> bytes set \<Rightarrow> engine_handle \<Rightarrow> bool" where
  "gated X name ds h \<longleftrightarrow> (\<exists>r tls calls. eh_kind h = ClientEngine r \<and> eh_tls h = TlsClient tls \<and> client_tls_ok name tls
     \<and> (\<not> ct_established tls \<longrightarrow> unreached (cr_core r))
     \<and> ct_adapter tls = fst (run (openssl_step X) openssl_new calls) \<and> (\<forall>d. Handshake.OnDatagram d \<in> set calls \<longrightarrow> d \<in> ds))"

lemma gatedI:
  assumes "eh_kind h = ClientEngine r" "eh_tls h = TlsClient tls" "client_tls_ok name tls"
    "\<not> ct_established tls \<Longrightarrow> unreached (cr_core r)"
    "ct_adapter tls = fst (run (openssl_step X) openssl_new calls)" "\<And>d. Handshake.OnDatagram d \<in> set calls \<Longrightarrow> d \<in> ds"
  shows "gated X name ds h"
  unfolding gated_def using assms by blast

lemma gated_mono: "gated X name ds h \<Longrightarrow> ds \<subseteq> ds' \<Longrightarrow> gated X name ds' h"
  unfolding gated_def by blast

text \<open>A call on the client's core, other than a datagram while the adapter is not established.\<close>

lemma gated_client_step:
  assumes "gated X name ds h" and "eh_kind h = ClientEngine r" and "eh_kind h' = ClientEngine (fst (client_step r i))"
    and "eh_tls h' = eh_tls h"
    and "(\<exists>tls. eh_tls h = TlsClient tls \<and> ct_established tls) \<or> (\<forall>now path bs. i \<noteq> ClientDatagram now path bs)"
  shows "gated X name ds h'"
proof -
  obtain tls calls where t: "eh_tls h = TlsClient tls" "client_tls_ok name tls"
      "\<not> ct_established tls \<longrightarrow> unreached (cr_core r)"
      "ct_adapter tls = fst (run (openssl_step X) openssl_new calls)" "\<forall>d. Handshake.OnDatagram d \<in> set calls \<longrightarrow> d \<in> ds"
    using assms(1,2) by (auto simp: gated_def)
  show ?thesis
    by (rule gatedI [OF assms(3), of tls]) (use t assms(4,5) client_step_unreached [of r i] in auto)
qed

lemma gated_same: "gated X name ds h \<Longrightarrow> eh_kind h' = eh_kind h \<Longrightarrow> eh_tls h' = eh_tls h \<Longrightarrow> gated X name ds h'"
  by (simp add: gated_def)

text \<open>A step of the adapter while it is not established.\<close>

lemma gated_adapter:
  assumes g: "gated X name ds h" and h: "eh_kind h = ClientEngine r" "eh_tls h = TlsClient tls"
    and step: "openssl_step X (ct_adapter tls) c = (a, res)"
    and c: "(\<exists>cfg. c = StartClient cfg \<and> cfg = ct_cfg tls) \<or> (\<exists>d. c = Handshake.OnDatagram d \<and> d \<in> ds)"
    and ne: "\<not> ct_established tls"
    and tls': "tls' = tls\<lparr>ct_adapter := a, ct_established := oa_established a, ct_core_started := oa_established a\<rparr>"
    and h': "eh_tls h' = TlsClient tls'" "eh_kind h' = ClientEngine r'"
    and r': "unreached (cr_core r) \<Longrightarrow> unreached (cr_core r')"
  shows "gated X name ds h'"
proof -
  obtain calls where t: "client_tls_ok name tls" "unreached (cr_core r)"
      "ct_adapter tls = fst (run (openssl_step X) openssl_new calls)" "\<forall>d. Handshake.OnDatagram d \<in> set calls \<longrightarrow> d \<in> ds"
    using g h ne by (auto simp: gated_def)
  have "client_tls_ok name tls'"
    unfolding tls' by (rule client_tls_ok_step(1) [OF t(1) step]) (use c t(1) ne in \<open>auto simp: client_tls_ok_def\<close>)
  moreover have "ct_adapter tls' = fst (run (openssl_step X) openssl_new (calls @ [c]))"
    using step t(3) by (simp add: tls' run_snoc case_prod_unfold Let_def)
  ultimately show ?thesis
    by (intro gatedI [OF h'(2,1), where calls = "calls @ [c]"]) (use t c r' in auto)
qed

lemma not_established_fields:
  assumes "client_tls_ok name tls" "\<not> ct_established tls" "\<not> oa_established a"
  shows "tls\<lparr>ct_adapter := a, ct_established := oa_established a, ct_core_started := oa_established a\<rparr> = tls\<lparr>ct_adapter := a\<rparr>"
  using assms by (cases tls) (simp add: client_tls_ok_def)
lemma gated_begin:
  assumes g: "gated (ee_openssl E) name ds h"
  shows "gated (ee_openssl E) name ds (fst (engine_begin_handshake E now h))"
proof -
  let ?h = "fst (engine_begin_handshake E now h)" and ?X = "ee_openssl E"
  obtain r tls where h: "eh_kind h = ClientEngine r" "eh_tls h = TlsClient tls" and ok: "client_tls_ok name tls"
    using g by (auto simp: gated_def)
  show ?thesis
  proof (cases "ct_established tls")
    case True
    then show ?thesis
      using gated_client_step [OF g h(1), of ?h "ClientBegin now"] h by (simp add: engine_begin_handshake_def)
  next
    case False
    obtain a res where s: "openssl_step ?X (ct_adapter tls) (StartClient (ct_cfg tls)) = (a, res)" by fastforce
    have ne: "\<not> oa_established a"
      using openssl.by_datagram [of "ct_adapter tls" ?X "StartClient (ct_cfg tls)"] ok False s
      by (auto simp: client_tls_ok_def)
    have "eh_tls ?h = TlsClient (tls\<lparr>ct_adapter := a\<rparr>)" "eh_kind ?h = ClientEngine r"
      using h False s by (simp_all add: engine_begin_handshake_def Let_def split: sum.split)
    then show ?thesis
      by (intro gated_adapter [OF g h s _ False not_established_fields [OF ok False ne, symmetric]]) simp_all
  qed
qed

lemma client_tls_datagram_result:
  assumes ok: "client_tls_ok name tls" and ne: "\<not> ct_established tls" and h: "eh_kind h = ClientEngine r" "eh_tls h = TlsClient tls"
    and s: "openssl_on_datagram (ct_adapter tls) bs = (a, res)"
  shows "eh_tls (fst (client_tls_datagram E now path_id bs r tls h)) =
      TlsClient (tls\<lparr>ct_adapter := a, ct_established := oa_established a, ct_core_started := oa_established a\<rparr>)
    \<and> (\<exists>r'. eh_kind (fst (client_tls_datagram E now path_id bs r tls h)) = ClientEngine r' \<and>
        (r' = r \<or> r' = fst (client_step r (ClientBegin now))))"
proof -
  have s': "openssl_step undefined (ct_adapter tls) (Handshake.OnDatagram bs) = (a, res)" using s by simp
  note step = client_tls_ok_step [OF ok s']
  show ?thesis
  proof (cases res)
    case (Inl e)
    have a: "a = ct_adapter tls" using step(2) Inl by simp
    then have "\<not> oa_established a" using ok ne by (simp add: client_tls_ok_def)
    then show ?thesis using not_established_fields [OF ok ne, of a] s h Inl by (simp add: client_tls_datagram_def)
  next
    case (Inr out)
    have est: "ho_established out = oa_established a" using step(3) [of out] Inr by simp
    show ?thesis
    proof (cases "oa_established a")
      case False
      then show ?thesis using not_established_fields [OF ok ne False] s h Inr est by (simp add: client_tls_datagram_def Let_def)
    next
      case True
      then show ?thesis
        using s h Inr est begin_handshake_client_ok [of r now] ok ne
        by (auto simp: client_tls_datagram_def Let_def client_tls_established_fields client_tls_established_def client_tls_ok_def)
    qed
  qed
qed

lemma gated_datagram:
  assumes g: "gated (ee_openssl E) name ds h" and ds: "bs \<in> ds" and h: "eh_kind h = ClientEngine r"
  shows "gated (ee_openssl E) name ds (fst (client_engine_datagram E now path_id bs r h))"
proof -
  let ?h = "fst (client_engine_datagram E now path_id bs r h)" and ?X = "ee_openssl E"
  obtain tls where t: "eh_tls h = TlsClient tls" and ok: "client_tls_ok name tls"
    using g h by (auto simp: gated_def)
  show ?thesis
  proof (cases "ct_established tls")
    case True
    then have "?h = h\<lparr>eh_output := empty_buffer\<rparr> \<or> ?h = fst (client_result E h (client_runtime_on_datagram r now path_id bs))"
      using t by (simp add: client_engine_datagram_def)
    then show ?thesis
    proof
      assume "?h = h\<lparr>eh_output := empty_buffer\<rparr>"
      then show ?thesis using gated_same [OF g, of ?h] by simp
    next
      assume "?h = fst (client_result E h (client_runtime_on_datagram r now path_id bs))"
      then show ?thesis
        using gated_client_step [OF g h, of ?h "ClientDatagram now path_id bs"] t True by simp
    qed
  next
    case False
    obtain a res where s: "openssl_on_datagram (ct_adapter tls) bs = (a, res)" by fastforce
    have d: "client_engine_datagram E now path_id bs r h = client_tls_datagram E now path_id bs r tls h"
      using t False by (simp add: client_engine_datagram_def)
    obtain r' where r': "eh_kind ?h = ClientEngine r'" "r' = r \<or> r' = fst (client_step r (ClientBegin now))"
      using client_tls_datagram_result [OF ok False h t s, of E now path_id] d by auto
    have "unreached (cr_core r) \<Longrightarrow> unreached (cr_core r')"
      using r'(2) client_step_unreached [of r "ClientBegin now"] by auto
    moreover have "eh_tls ?h = TlsClient (tls\<lparr>ct_adapter := a, ct_established := oa_established a, ct_core_started := oa_established a\<rparr>)"
      using client_tls_datagram_result [OF ok False h t s, of E now path_id] d by auto
    ultimately show ?thesis
      using gated_adapter [OF g h t, of "Handshake.OnDatagram bs" a res _ ?h r'] s ds False r'(1) by simp
  qed
qed

lemma gated_anchors:
  assumes g: "gated X name ds h"
  shows "gated X name ds (fst (change_anchors f h))"
proof -
  obtain r tls calls where h: "eh_kind h = ClientEngine r" "eh_tls h = TlsClient tls" and ok: "client_tls_ok name tls"
      and t: "\<not> ct_established tls \<longrightarrow> unreached (cr_core r)"
      "ct_adapter tls = fst (run (openssl_step X) openssl_new calls)" "\<forall>d. Handshake.OnDatagram d \<in> set calls \<longrightarrow> d \<in> ds"
    using g by (auto simp: gated_def)
  show ?thesis
  proof (cases "ct_established tls \<or> ct_core_started tls")
    case True
    then show ?thesis by (intro gated_same [OF g]) (auto simp: change_anchors_def h)
  next
    case False
    have "client_tls_ok name (tls\<lparr>ct_cfg := (ct_cfg tls)\<lparr>hc_trust := (hc_trust (ct_cfg tls))
        \<lparr>trust_anchor_pems := f (trust_anchor_pems (hc_trust (ct_cfg tls)))\<rparr>\<rparr>\<rparr>)"
      using ok by (auto simp: client_tls_ok_def client_cfg_for_def)
    then show ?thesis using t False h by (auto simp: change_anchors_def intro!: gatedI)
  qed
qed

lemma gated_step:
  assumes g: "gated (ee_openssl E) name ds h" and step: "engine_step E h c = Some (h', rc)"
    and c: "\<And>p. c \<noteq> ConfigureClientTls p" and ds: "datagrams_of c \<subseteq> ds"
  shows "gated (ee_openssl E) name ds h'"
proof -
  obtain r where h: "eh_kind h = ClientEngine r" using g by (auto simp: gated_def)
  note same = gated_same [OF g, of h']
  note own = gated_client_step [OF g h, of h']
  show ?thesis
  proof (cases c)
    case (BeginHandshake now)
    then show ?thesis using gated_begin [OF g, of now] step by simp
  next
    case (Datagram now path_id p)
    then show ?thesis
      using gated_datagram [OF g _ h, of "bytes_from_ptr p" now path_id] step ds h
      by (auto simp: engine_on_datagram_def dest: arg_cong [of _ _ fst])
  next
    case (SendMessage p)
    then show ?thesis using own [of "ClientSend (bytes_from_ptr p)"] step h
      by (auto simp: engine_send_message_def dest!: arg_cong [of _ _ fst])
  next
    case CloseSession
    then show ?thesis using own [of ClientClose] step h by (auto simp: engine_close_session_def dest!: arg_cong [of _ _ fst])
  next
    case (PollTimers now limit)
    then show ?thesis using own [of "ClientPoll now limit"] step h
      by (auto simp: engine_poll_timers_def dest!: arg_cong [of _ _ fst])
  next
    case (ConfigureNat relay stun turn realm username password)
    have "eh_kind (fst (engine_configure_nat E relay stun turn realm username password h)) = eh_kind h"
      by (auto simp: engine_configure_nat_def utf8_arg_def Let_def h split: option.split)
    moreover have "h' = fst (engine_configure_nat E relay stun turn realm username password h)"
      using step ConfigureNat by simp
    ultimately show ?thesis using same by simp
  next
    case (ConfigureServerTls n cert key)
    have "eh_tls (fst (engine_configure_server_tls E n cert key h)) = eh_tls h"
      by (auto simp: engine_configure_server_tls_def utf8_arg_def h split: option.split sum.split)
    then show ?thesis using same configure_tls_kind [of E] step ConfigureServerTls by (metis engine_step.simps(12) fst_conv option.inject)
  next
    case TlsClearAnchors
    then show ?thesis using gated_anchors [OF g] step
      by (auto simp: engine_tls_clear_anchors_def dest!: arg_cong [of _ _ fst])
  next
    case (TlsAddAnchorPem p)
    then show ?thesis using gated_anchors [OF g] same step
      by (auto simp: engine_tls_add_anchor_pem_def Let_def split: if_splits dest!: arg_cong [of _ _ fst])
  qed (use same step h c in \<open>auto simp: engine_server_send_message_def engine_poll_nat_def engine_clear_output_def\<close>)
qed

lemma gated_run:
  "gated (ee_openssl E) name ds h \<Longrightarrow> engine_run E h calls = Some h' \<Longrightarrow> (\<forall>p. ConfigureClientTls p \<notin> set calls) \<Longrightarrow>
   (\<forall>c \<in> set calls. datagrams_of c \<subseteq> ds) \<Longrightarrow> gated (ee_openssl E) name ds h'"
proof (induction calls arbitrary: h)
  case (Cons c calls)
  then obtain h1 rc where "engine_step E h c = Some (h1, rc)" "engine_run E h1 calls = Some h'"
    by (auto split: option.splits)
  then show ?case using Cons gated_step [OF Cons.prems(1), of c h1 rc] by auto
qed simp

lemma new_client_gated:
  assumes "engine_configure_client_tls E (Some nm) (new_handle (ClientEngine (client_new cid cfg))) = (h, 0)"
  shows "gated X (bytes_string nm) ds h"
proof -
  obtain c where c: "build_client_tls_cfg (bytes_string nm) = Inr c"
      "h = (new_handle (ClientEngine (client_new cid cfg)))\<lparr>eh_tls := TlsClient
        \<lparr>ct_adapter = openssl_new, ct_cfg = c, ct_established = False, ct_core_started = False\<rparr>\<rparr>"
    using assms by (auto simp: engine_configure_client_tls_def utf8_arg_def from_utf8_def bytes_from_ptr_def new_handle_def
        set_error_def split: option.splits sum.splits if_splits)
  have "client_tls_ok (bytes_string nm) \<lparr>ct_adapter = openssl_new, ct_cfg = c, ct_established = False, ct_core_started = False\<rparr>"
    using c(1) by (auto simp: build_client_tls_cfg_def client_tls_ok_def client_cfg_for_def openssl_new_def
        sound_state_def split: if_splits)
  moreover have "unreached (cr_core (client_new cid cfg))"
    by (simp add: unreached_def client_new_def new_machine_def watched_def alive_def rx_part_def)
  ultimately show ?thesis
    by (intro gatedI [where calls = "[]"]) (auto simp: c(2) new_handle_def)
qed

text \<open>C21: a new client engine whose first call configures TLS for a server name, and which is not configured again: whatever
  calls follow, if its protocol machine is ever established or reactivating, or has ever accepted a message, then the
  adapter is established under a validated configuration and one of the datagrams given to the engine was a
  server hello carrying exactly that name.\<close>

theorem client_tls_gate:
  assumes "engine_configure_client_tls E (Some nm) (new_handle (ClientEngine (client_new cid cfg))) = (h0, 0)"
    and "engine_run E h0 calls = Some h" and "\<forall>p. ConfigureClientTls p \<notin> set calls" and "eh_kind h = ClientEngine r"
    and "lifecycle (cr_core r) \<in> {Established, Reactivating} \<or> received_ids (cr_core r) \<noteq> {}"
  shows "\<exists>tls now path_id p. eh_tls h = TlsClient tls \<and> ct_established tls \<and> oa_established (ct_adapter tls)
    \<and> Datagram now path_id p \<in> set calls \<and> fst (parse_kv (bytes_from_ptr p)) = ''DTLS_SERVER_HELLO''
    \<and> kv_value ''sni='' (snd (parse_kv (bytes_from_ptr p))) = Some (bytes_string nm)"
proof -
  let ?name = "bytes_string nm" and ?ds = "\<Union>c \<in> set calls. datagrams_of c"
  have "gated (ee_openssl E) ?name ?ds h"
    by (rule gated_run [OF new_client_gated [OF assms(1)] assms(2,3)]) auto
  then obtain tls acalls where t: "eh_tls h = TlsClient tls" "client_tls_ok ?name tls"
      "\<not> ct_established tls \<longrightarrow> unreached (cr_core r)"
      "ct_adapter tls = fst (run (openssl_step (ee_openssl E)) openssl_new acalls)"
      "\<forall>d. Handshake.OnDatagram d \<in> set acalls \<longrightarrow> d \<in> ?ds"
    using assms(4) by (auto simp: gated_def)
  have est: "ct_established tls" using t(3) assms(5) by (auto simp: unreached_def alive_def rx_part_def)
  then have "oa_established (ct_adapter tls)" using t(2) by (simp add: client_tls_ok_def)
  moreover obtain c where c: "oa_cfg (ct_adapter tls) = Some c" "client_cfg_for ?name c"
      "oa_role (ct_adapter tls) = Some ClientRole"
    using t(2) calculation by (cases "oa_cfg (ct_adapter tls)") (auto simp: client_tls_ok_def sound_state_def)
  ultimately obtain d where d: "Handshake.OnDatagram d \<in> set acalls" "fst (parse_kv d) = ''DTLS_SERVER_HELLO''"
      "kv_value ''sni='' (snd (parse_kv d)) = Some ?name"
    using established_client_saw_name [OF t(4) _ c(3,1)] by (auto simp: client_cfg_for_def)
  then obtain cl where "cl \<in> set calls" "d \<in> datagrams_of cl" using t(5) by blast
  then obtain now path_id p where "Datagram now path_id p \<in> set calls" "d = bytes_from_ptr p"
    unfolding in_datagrams_of by blast
  then show ?thesis using t(1) est \<open>oa_established (ct_adapter tls)\<close> d by blast
qed

section \<open>Connecting two engines\<close>

text \<open>The driver's loop: the datagrams in the output of one engine are given to the other, in order, as arriving on
  \<open>path_id\<close>; in a round first the client's output goes to the server, then the server's to the client.\<close>

fun relay :: "engine_env \<Rightarrow> u64 \<Rightarrow> u32 \<Rightarrow> bytes list \<Rightarrow> engine_handle \<Rightarrow> engine_handle option" where
  "relay E now path_id [] h = Some h"
| "relay E now path_id (d # ds) h =
     (case engine_on_datagram E now path_id d h of None \<Rightarrow> None | Some (h, _) \<Rightarrow> relay E now path_id ds h)"

definition outbox :: "engine_handle \<Rightarrow> bytes list" where
  "outbox h = map snd (ob_datagrams (eh_output h))"

fun rounds :: "engine_env \<Rightarrow> u64 \<Rightarrow> u32 \<Rightarrow> u32 \<Rightarrow> nat \<Rightarrow> engine_handle \<times> engine_handle \<Rightarrow> (engine_handle \<times> engine_handle) option" where
  "rounds E now cp sp 0 (c, s) = Some (c, s)"
| "rounds E now cp sp (Suc n) (c, s) =
     (case relay E now sp (outbox c) s of
        None \<Rightarrow> None
      | Some s \<Rightarrow>
         (case relay E now cp (outbox s) c of
            None \<Rightarrow> None
          | Some c \<Rightarrow> rounds E now cp sp n (c, s)))"

lemma decodable_not_dtls: "decode bs = Inr fr \<Longrightarrow> \<not> is_dtls_packet bs"
  by (cases bs) (auto simp: decode_def is_dtls_packet_def WIRE_VERSION_V3_def string_bytes_def Let_def split: if_splits)

lemma frame_not_dtls: "length p \<le> 1000 \<Longrightarrow> small_tlvs ts \<Longrightarrow> \<not> is_dtls_packet (frame_bytes t c p ts)"
  using decodable_not_dtls frame_bytes_ok(2) by blast

lemma hellos_are_dtls:
  "is_dtls_packet (string_bytes (''DTLS_CLIENT_HELLO|sni='' @ v))"
  "is_dtls_packet (string_bytes (''DTLS_CLIENT_HELLO_COOKIE|cookie='' @ v))"
  by (simp_all add: is_dtls_packet_def string_bytes_def)

text \<open>A client engine whose adapter waits for the server.\<close>

definition client_waits :: "handshake_config \<Rightarrow> client_runtime \<Rightarrow> engine_handle \<Rightarrow> bool" where
  "client_waits cfg r h \<longleftrightarrow> eh_kind h = ClientEngine r \<and> (\<exists>tls. eh_tls h = TlsClient tls \<and> ready (ct_adapter tls) ClientRole cfg
     \<and> \<not> ct_established tls \<and> \<not> ct_core_started tls)"

definition client_open :: "client_runtime \<Rightarrow> engine_handle \<Rightarrow> bool" where
  "client_open r h \<longleftrightarrow> eh_kind h = ClientEngine r \<and> (\<exists>tls. eh_tls h = TlsClient tls \<and> ct_established tls)"

lemma client_starts:
  assumes h: "eh_kind h = ClientEngine r" "eh_tls h = TlsClient tls" "\<not> ct_established tls" "\<not> ct_core_started tls"
    and cfg: "build_context (ee_openssl E) ClientRole (ct_cfg tls) = Inr ctx" "ssl_new (ee_openssl E) ctx = None"
  shows "\<exists>h'. engine_begin_handshake E now h = (h', 0) \<and> client_waits (ct_cfg tls) r h'
    \<and> outbox h' = [string_bytes (''DTLS_CLIENT_HELLO|sni='' @ name_of (ct_cfg tls))]"
proof -
  obtain a res where s: "openssl_start_client (ee_openssl E) (ct_adapter tls) (ct_cfg tls) = (a, res)" by fastforce
  have "ready a ClientRole (ct_cfg tls)" "sent res = [string_bytes (''DTLS_CLIENT_HELLO|sni='' @ name_of (ct_cfg tls))]"
    using client_start_sends [OF cfg s] by auto
  then show ?thesis
    using h s by (cases res) (auto simp: engine_begin_handshake_def Let_def client_waits_def outbox_def sent_def o_def)
qed

lemma client_on_verify:
  assumes w: "client_waits cfg r h" and v: "valid_utf8 (string_bytes v)"
  shows "\<exists>h'. engine_on_datagram E now path_id (string_bytes (''DTLS_HELLO_VERIFY|cookie='' @ v)) h = Some (h', 0)
    \<and> client_waits cfg r h' \<and> outbox h' = [string_bytes (''DTLS_CLIENT_HELLO_COOKIE|cookie='' @ v)]"
proof -
  obtain tls where h: "eh_kind h = ClientEngine r" "eh_tls h = TlsClient tls" "\<not> ct_established tls" "\<not> ct_core_started tls"
      "ready (ct_adapter tls) ClientRole cfg" using w by (auto simp: client_waits_def)
  obtain a res where s: "openssl_on_datagram (ct_adapter tls) (string_bytes (''DTLS_HELLO_VERIFY|cookie='' @ v)) = (a, res)"
      "ready a ClientRole cfg" "sent res = [string_bytes (''DTLS_CLIENT_HELLO_COOKIE|cookie='' @ v)]"
    using client_answers_verify [OF h(5) v] by blast
  obtain out where out: "res = Inr out" "outbound_datagrams out = [string_bytes (''DTLS_CLIENT_HELLO_COOKIE|cookie='' @ v)]"
    using s(3) by (cases res) (auto simp: sent_def)
  have "\<not> ho_established out"
    using openssl.reported [of undefined "ct_adapter tls" "Handshake.OnDatagram (string_bytes (''DTLS_HELLO_VERIFY|cookie='' @ v))" out] s out
    by (simp add: ready_def)
  then show ?thesis
    using h s(1,2) out
    by (auto simp: engine_on_datagram_def client_engine_datagram_def client_tls_datagram_def Let_def client_waits_def outbox_def o_def)
qed

lemma client_on_server_hello:
  assumes w: "client_waits cfg r h" and v: "valid_utf8 (string_bytes v)"
    and name: "require_hostname_verification (hc_trust cfg) \<longrightarrow> hc_expected_server_name cfg = Some v"
    and role: "core_role (cr_core r) = Client"
  shows "\<exists>h' r'. engine_on_datagram E now path_id (string_bytes (''DTLS_SERVER_HELLO|sni='' @ v)) h = Some (h', 0)
    \<and> client_open r' h' \<and> cr_core r' = cr_core r \<and> outbox h' = [frame_bytes ClientHello (core_cid (cr_core r)) [] []]"
proof -
  obtain tls where h: "eh_kind h = ClientEngine r" "eh_tls h = TlsClient tls" "\<not> ct_established tls" "\<not> ct_core_started tls"
      "ready (ct_adapter tls) ClientRole cfg" using w by (auto simp: client_waits_def)
  obtain a out where s: "openssl_on_datagram (ct_adapter tls) (string_bytes (''DTLS_SERVER_HELLO|sni='' @ v)) = (a, Inr out)"
      "ho_established out"
    using client_accepts_name [OF h(5) v name] by blast
  have quiet: "outbound_datagrams out = []"
    using s ready_on_datagram [OF h(5)] parse_server_hello [OF v] name
    by (auto simp: client_on_datagram_def established_output_def Let_def str_def split: if_splits)
  obtain r' core_out where b: "client_begin_handshake r now = (r', Inr core_out)" "cr_core r' = cr_core r"
      "map dgram_pair (cro_outbound_datagrams core_out) = [(current_path_id (cr_core r), frame_bytes ClientHello (core_cid (cr_core r)) [] [])]"
    using client_begin_output [OF role, of now] by (elim exE conjE)
  have "client_tls_established E now r (tls\<lparr>ct_adapter := a\<rparr>)
      (h\<lparr>eh_tls := TlsClient (tls\<lparr>ct_adapter := a\<rparr>), eh_output := \<lparr>ob_datagrams = [], ob_events = []\<rparr>\<rparr>) = (h', rc) \<Longrightarrow>
      rc = 0 \<and> client_open r' h' \<and> outbox h' = [frame_bytes ClientHello (core_cid (cr_core r)) [] []]" for h' rc
    using h(1,4) b(1,3) by (auto simp: client_tls_established_def Let_def client_open_def outbox_def)
  then show ?thesis
    using h s quiet b(2)
    by (cases "client_tls_established E now r (tls\<lparr>ct_adapter := a\<rparr>)
      (h\<lparr>eh_tls := TlsClient (tls\<lparr>ct_adapter := a\<rparr>), eh_output := \<lparr>ob_datagrams = [], ob_events = []\<rparr>\<rparr>)")
      (auto simp: engine_on_datagram_def client_engine_datagram_def client_tls_datagram_def Let_def)
qed

text \<open>Past the adapter a client engine is its runtime.\<close>

lemma client_open_passes:
  assumes h: "client_open r h" and d: "\<not> is_dtls_packet bs" and core: "on_datagram (cr_core r) now path_id bs = (m, Inr out)"
  shows "\<exists>h' r'. engine_on_datagram E now path_id bs h = Some (h', 0) \<and> client_open r' h' \<and> cr_core r' = m
    \<and> outbox h' = map dgram_bytes (core_output.outbound_datagrams out)
    \<and> ob_events (eh_output h') = map (client_event_text E \<circ> ClientCore) (events out)"
  using assms
  by (auto simp: engine_on_datagram_def client_engine_datagram_def client_open_def client_result_def client_runtime_on_datagram_def
      client_call_def client_apply_core_output_def normalize_client_output_def outbox_def dgram_pair_def o_def Let_def)

lemma client_on_core_hello:
  assumes h: "client_open r h" and m: "cr_core r = new_machine Client c cfg"
  shows "\<exists>h' r'. engine_on_datagram E now path_id (frame_bytes ServerHello c [] []) h = Some (h', 0)
    \<and> client_open r' h' \<and> in_step Client c [] 0 0 [] (cr_core r')"
proof -
  obtain m' out where "on_datagram (cr_core r) now path_id (frame_bytes ServerHello c [] []) = (m', Inr out)" "in_step Client c [] 0 0 [] m'"
    using client_hello_in_step [of c cfg now path_id] m by auto
  with client_open_passes [OF h _ this(1), of E] show ?thesis by (auto simp: frame_not_dtls)
qed

text \<open>A server engine whose adapter for a path waits for the client; \<open>cookie\<close> is what it has issued.\<close>

definition server_waits ::
    "engine_env \<Rightarrow> u32 \<Rightarrow> handshake_config \<Rightarrow> string option \<Rightarrow> memory_store server_runtime \<Rightarrow> engine_handle \<Rightarrow> bool" where
  "server_waits E path_id cfg cookie r h \<longleftrightarrow> eh_kind h = ServerEngine r \<and> (\<exists>tls session. eh_tls h = TlsServer tls
     \<and> path_session E tls path_id = Some session \<and> ready (sp_adapter session) ServerRole cfg
     \<and> oa_issued_cookie (sp_adapter session) = cookie \<and> \<not> sp_established session)"

definition server_open :: "u32 \<Rightarrow> memory_store server_runtime \<Rightarrow> engine_handle \<Rightarrow> bool" where
  "server_open path_id r h \<longleftrightarrow> eh_kind h = ServerEngine r \<and> (\<exists>tls session. eh_tls h = TlsServer tls
     \<and> bmap_get (stls_sessions_by_path tls) path_id = Some session \<and> sp_established session)"

lemma path_session_set [simp]:
  "path_session E (tls\<lparr>stls_sessions_by_path := bmap_insert path_id s m\<rparr>) path_id = Some s"
  by (simp add: path_session_def)

lemma server_configured_waits:
  assumes h: "eh_kind h = ServerEngine r" "eh_tls h = TlsServer tls" "bmap_get (stls_sessions_by_path tls) path_id = None"
    and cfg: "build_server_tls_cfg E (stls_server_name tls) (stls_cert_path tls) (stls_key_path tls) = Inr cfg"
      "build_context (ee_openssl E) ServerRole cfg = Inr ctx" "ssl_new (ee_openssl E) ctx = None"
  shows "server_waits E path_id cfg None r h"
proof -
  obtain a res where s: "openssl_start_server (ee_openssl E) openssl_new cfg = (a, res)" by fastforce
  then show ?thesis
    using h cfg(1) server_start_ready [OF cfg(2,3) s] by (simp add: server_waits_def path_session_def)
qed

lemma server_tls_step:
  assumes w: "server_waits E path_id cfg cookie r h" and d: "is_dtls_packet bs"
  obtains tls session where "eh_kind h = ServerEngine r" "eh_tls h = TlsServer tls" "\<not> sp_established session"
    "ready (sp_adapter session) ServerRole cfg" "oa_issued_cookie (sp_adapter session) = cookie"
    "\<And>now. engine_on_datagram E now path_id bs h = Some (server_tls_datagram E path_id bs tls session h)"
  using w d that by (auto simp: server_waits_def engine_on_datagram_def server_engine_datagram_def Let_def)

lemma server_tls_datagram_ok:
  assumes "openssl_on_datagram (sp_adapter session) bs = (a, Inr out)"
  shows "\<exists>h'. server_tls_datagram E path_id bs tls session h = (h', 0) \<and> eh_kind h' = eh_kind h
    \<and> outbox h' = Handshake.outbound_datagrams out
    \<and> eh_tls h' = TlsServer (tls\<lparr>stls_sessions_by_path := bmap_insert path_id
        (session\<lparr>sp_adapter := a, sp_established := sp_established session \<or> ho_established out\<rparr>) (stls_sessions_by_path tls)\<rparr>)"
  using assms by (simp add: server_tls_datagram_def set_path_session_def outbox_def Let_def o_def)

lemma server_on_hello:
  assumes w: "server_waits E path_id cfg cookie r h" and v: "valid_utf8 (string_bytes v)"
  shows "\<exists>h'. engine_on_datagram E now path_id (string_bytes (''DTLS_CLIENT_HELLO|sni='' @ v)) h = Some (h', 0)
    \<and> server_waits E path_id cfg (Some ''cookie-v3'') r h'
    \<and> outbox h' = [string_bytes (''DTLS_HELLO_VERIFY|cookie='' @ ''cookie-v3'')]"
proof -
  let ?d = "string_bytes (''DTLS_CLIENT_HELLO|sni='' @ v)"
  obtain tls session where h: "eh_kind h = ServerEngine r" "eh_tls h = TlsServer tls" "\<not> sp_established session"
      "ready (sp_adapter session) ServerRole cfg"
      "engine_on_datagram E now path_id ?d h = Some (server_tls_datagram E path_id ?d tls session h)"
    by (rule server_tls_step [OF w hellos_are_dtls(1)]) blast
  obtain a res where s: "openssl_on_datagram (sp_adapter session) ?d = (a, res)" "ready a ServerRole cfg"
      "oa_issued_cookie a = Some ''cookie-v3''" "sent res = [string_bytes (''DTLS_HELLO_VERIFY|cookie='' @ ''cookie-v3'')]"
    using server_answers_hello [OF h(4) v] by (elim exE conjE)
  obtain out where out: "res = Inr out" "outbound_datagrams out = [string_bytes (''DTLS_HELLO_VERIFY|cookie='' @ ''cookie-v3'')]"
    using s(4) by (cases res) (auto simp: sent_def)
  have "\<not> ho_established out"
    using openssl.reported [of undefined "sp_adapter session" "Handshake.OnDatagram ?d" out] s out by (simp add: ready_def)
  then obtain h' where h': "server_tls_datagram E path_id ?d tls session h = (h', 0)" "eh_kind h' = eh_kind h"
      "outbox h' = outbound_datagrams out" "eh_tls h' = TlsServer (tls\<lparr>stls_sessions_by_path :=
        bmap_insert path_id (session\<lparr>sp_adapter := a, sp_established := False\<rparr>) (stls_sessions_by_path tls)\<rparr>)"
    using server_tls_datagram_ok [of session ?d a out E path_id tls h] s(1) out(1) h(3) by auto
  then have "server_waits E path_id cfg (Some ''cookie-v3'') r h'"
    using h(1) s(2,3) by (simp add: server_waits_def)
  then show ?thesis using h(5) h' out(2) by auto
qed

lemma server_on_cookie:
  assumes w: "server_waits E path_id cfg (Some v) r h" and v: "valid_utf8 (string_bytes v)"
  shows "\<exists>h'. engine_on_datagram E now path_id (string_bytes (''DTLS_CLIENT_HELLO_COOKIE|cookie='' @ v)) h = Some (h', 0)
    \<and> server_open path_id r h' \<and> outbox h' = [string_bytes (''DTLS_SERVER_HELLO|sni='' @ name_of cfg)]"
proof -
  let ?d = "string_bytes (''DTLS_CLIENT_HELLO_COOKIE|cookie='' @ v)"
  obtain tls session where h: "eh_kind h = ServerEngine r" "eh_tls h = TlsServer tls"
      "ready (sp_adapter session) ServerRole cfg" "oa_issued_cookie (sp_adapter session) = Some v"
      "engine_on_datagram E now path_id ?d h = Some (server_tls_datagram E path_id ?d tls session h)"
    by (rule server_tls_step [OF w hellos_are_dtls(2)]) blast
  obtain a res where s: "openssl_on_datagram (sp_adapter session) ?d = (a, res)" "oa_established a"
      "sent res = [string_bytes (''DTLS_SERVER_HELLO|sni='' @ name_of cfg)]"
    using server_accepts_cookie [OF h(3,4) v] by (elim exE conjE)
  obtain out where out: "res = Inr out" "outbound_datagrams out = [string_bytes (''DTLS_SERVER_HELLO|sni='' @ name_of cfg)]"
    using s(3) by (cases res) (auto simp: sent_def)
  have "ho_established out"
    using openssl.reported [of undefined "sp_adapter session" "Handshake.OnDatagram ?d" out] s out by simp
  then obtain h' where h': "server_tls_datagram E path_id ?d tls session h = (h', 0)" "eh_kind h' = eh_kind h"
      "outbox h' = outbound_datagrams out" "eh_tls h' = TlsServer (tls\<lparr>stls_sessions_by_path :=
        bmap_insert path_id (session\<lparr>sp_adapter := a, sp_established := True\<rparr>) (stls_sessions_by_path tls)\<rparr>)"
    using server_tls_datagram_ok [of session ?d a out E path_id tls h] s(1) out(1) by auto
  then have "server_open path_id r h'" using h(1) by (simp add: server_open_def)
  then show ?thesis using h(5) h' out(2) by auto
qed

text \<open>Past the adapter a server engine is its runtime.\<close>

lemma server_open_passes:
  assumes h: "server_open path_id r h" and d: "\<not> is_dtls_packet bs"
    and core: "server_runtime_on_datagram (ee_server E) r now path_id bs = (r', Inr out)"
  shows "\<exists>h'. engine_on_datagram E now path_id bs h = Some (h', 0) \<and> server_open path_id r' h'
    \<and> outbox h' = map dgram_bytes (sro_outbound_datagrams out)
    \<and> ob_events (eh_output h') = map (server_event_text E) (sro_events out)"
proof -
  obtain tls session where t: "eh_kind h = ServerEngine r" "eh_tls h = TlsServer tls"
      "bmap_get (stls_sessions_by_path tls) path_id = Some session" "sp_established session"
    using h by (auto simp: server_open_def)
  then have "path_session E tls path_id = Some session" by (simp add: path_session_def)
  then show ?thesis
    using t d core
    by (auto simp: engine_on_datagram_def server_engine_datagram_def set_path_session_def server_open_def server_result_def
        normalize_server_output_def outbox_def dgram_pair_def Let_def o_def)
qed

text \<open>OpenSSL accepts the material the two sides are configured with.\<close>

definition openssl_accepts :: "openssl_ops \<Rightarrow> bytes \<Rightarrow> bool" where
  "openssl_accepts X pem \<longleftrightarrow> (\<forall>r. ssl_builder_new X r = None) \<and> (\<forall>l. ssl_set_cipher_list X l = None)
     \<and> ssl_store_new X = None \<and> (\<exists>certs. ssl_stack_from_pem X pem = Inr certs \<and> certs \<noteq> [])
     \<and> (\<forall>st c. ssl_add_cert X st c = None) \<and> (\<forall>ctx f. ssl_set_certificate_file X ctx f = None)
     \<and> (\<forall>ctx f. ssl_set_private_key_file X ctx f = None) \<and> (\<forall>ctx. ssl_new X ctx = None)"

definition client_cfg :: "string \<Rightarrow> bytes \<Rightarrow> handshake_config" where
  "client_cfg name pem = \<lparr>hc_profile = ServerAuth, hc_cipher_policy = cipher_policy_default,
     hc_trust = \<lparr>trust_anchor_pems = [pem], require_hostname_verification = True\<rparr>,
     hc_client_identity = None, hc_expected_server_name = Some name\<rparr>"

lemma add_certs_accepted: "(\<forall>st c. ssl_add_cert X st c = None) \<Longrightarrow> \<exists>st'. add_certs X k certs st = Inr st'"
  by (induction certs arbitrary: st) auto

lemma client_context:
  assumes X: "openssl_accepts X pem" and "\<not> trimmed_empty name"
  shows "\<exists>ctx. build_context X ClientRole (client_cfg name pem) = Inr ctx"
proof -
  obtain certs where certs: "ssl_stack_from_pem X pem = Inr certs" "certs \<noteq> []" using X by (auto simp: openssl_accepts_def)
  obtain st where "add_certs X 0 certs [] = Inr st" using add_certs_accepted [of X 0 certs "[]"] X by (auto simp: openssl_accepts_def)
  then show ?thesis
    using assms certs by (simp add: openssl_accepts_def build_context_def validate_cfg_def client_cfg_def
        cipher_policy_default_def str_def trimmed_empty_def set_ciphers_def set_trust_store_def set_identity_def)
qed

lemma server_context:
  assumes "openssl_accepts X pem" and "build_server_tls_cfg E name cert key = Inr cfg"
  shows "\<exists>ctx. build_context X ServerRole cfg = Inr ctx"
  using assms by (auto simp: openssl_accepts_def build_server_tls_cfg_def build_context_def validate_cfg_def
      cipher_policy_default_def set_ciphers_def set_trust_store_def set_identity_def split: if_splits)

lemma client_configured:
  assumes "valid_utf8 nm" and "\<not> trimmed_empty (bytes_string nm)" and "pem \<noteq> []" and "openssl_accepts (ee_openssl E) pem"
  shows "\<exists>h. engine_run E (new_handle (ClientEngine r)) [ConfigureClientTls (Some nm), TlsAddAnchorPem (Some pem), BeginHandshake now] = Some h
    \<and> client_waits (client_cfg (bytes_string nm) pem) r h
    \<and> outbox h = [string_bytes (''DTLS_CLIENT_HELLO|sni='' @ bytes_string nm)]"
proof -
  let ?tls = "\<lparr>ct_adapter = openssl_new, ct_cfg = client_cfg (bytes_string nm) pem, ct_established = False, ct_core_started = False\<rparr>"
  let ?h = "(new_handle (ClientEngine r))\<lparr>eh_tls := TlsClient ?tls\<rparr>"
  obtain ctx where ctx: "build_context (ee_openssl E) ClientRole (client_cfg (bytes_string nm) pem) = Inr ctx"
    using client_context [OF assms(4,2)] by blast
  have "ssl_new (ee_openssl E) ctx = None" using assms(4) by (simp add: openssl_accepts_def)
  then obtain h' where "engine_begin_handshake E now ?h = (h', 0)" "client_waits (client_cfg (bytes_string nm) pem) r h'"
      "outbox h' = [string_bytes (''DTLS_CLIENT_HELLO|sni='' @ bytes_string nm)]"
    using client_starts [of ?h r ?tls E ctx now] ctx by (auto simp: new_handle_def name_of_def client_cfg_def)
  moreover have "engine_tls_add_anchor_pem (Some pem) (fst (engine_configure_client_tls E (Some nm) (new_handle (ClientEngine r))))
      = (?h, 0)"
    using assms by (simp add: engine_configure_client_tls_def utf8_arg_def from_utf8_def bytes_from_ptr_def
        build_client_tls_cfg_def new_handle_def engine_tls_add_anchor_pem_def change_anchors_def client_cfg_def)
  ultimately show ?thesis
    by (cases "engine_configure_client_tls E (Some nm) (new_handle (ClientEngine r))") auto
qed

lemma server_configured:
  assumes "valid_utf8 nm" "valid_utf8 cert" "valid_utf8 key"
    and "build_server_tls_cfg E (bytes_string nm) (bytes_string cert) (bytes_string key) = Inr cfg"
    and "openssl_accepts (ee_openssl E) pem"
  shows "\<exists>h. engine_run E (new_handle (ServerEngine r)) [ConfigureServerTls (Some nm) (Some cert) (Some key)] = Some h
    \<and> server_waits E path_id cfg None r h"
proof -
  let ?tls = "\<lparr>stls_server_name = bytes_string nm, stls_cert_path = bytes_string cert, stls_key_path = bytes_string key,
    stls_sessions_by_path = []\<rparr>"
  let ?h = "(new_handle (ServerEngine r))\<lparr>eh_tls := TlsServer ?tls\<rparr>"
  obtain ctx where ctx: "build_context (ee_openssl E) ServerRole cfg = Inr ctx" using server_context [OF assms(5,4)] by blast
  have "ssl_new (ee_openssl E) ctx = None" using assms(5) by (simp add: openssl_accepts_def)
  then have "server_waits E path_id cfg None r ?h"
    using ctx assms(4) by (intro server_configured_waits [of ?h r ?tls path_id E cfg ctx]) (simp_all add: new_handle_def)
  moreover have "engine_run E (new_handle (ServerEngine r)) [ConfigureServerTls (Some nm) (Some cert) (Some key)] = Some ?h"
    using assms by (simp add: engine_configure_server_tls_def utf8_arg_def from_utf8_def bytes_from_ptr_def new_handle_def)
  ultimately show ?thesis by blast
qed

text \<open>Connecting: what the two engines are in the end.\<close>

lemma engines_meet:
  assumes "valid_utf8 (string_bytes name)" "valid_utf8 (string_bytes cert)" "valid_utf8 (string_bytes key)"
    and "build_server_tls_cfg E name cert key = Inr scfg" and "pem \<noteq> []" and "openssl_accepts (ee_openssl E) pem"
  shows "\<exists>c0 s0 c s r m core.
    engine_run E (new_handle (ClientEngine (client_new cid ccfg)))
      [ConfigureClientTls (Some (string_bytes name)), TlsAddAnchorPem (Some pem), BeginHandshake t] = Some c0
    \<and> engine_run E (new_handle (ServerEngine (server_new sccfg (replicate DEFAULT_SHARD_COUNT []))))
      [ConfigureServerTls (Some (string_bytes name)) (Some (string_bytes cert)) (Some (string_bytes key))] = Some s0
    \<and> rounds E now cp sp 3 (c0, s0) = Some (c, s)
    \<and> client_open r c \<and> in_step Client cid [] 0 0 [] (cr_core r)
    \<and> server_open sp m s \<and> memory_ok (sv_store m) \<and> machine_at (sv_sessions m) cid = Some core \<and> in_step Server cid [] 0 0 [] core"
proof -
  let ?r = "client_new cid ccfg" and ?m = "server_new sccfg (replicate DEFAULT_SHARD_COUNT [])"
  let ?cfg = "client_cfg name pem"
  have name: "\<not> trimmed_empty name" "hc_expected_server_name scfg = Some name"
    using build_server_tls_cfg_name [OF assms(4)] by simp_all
  then have snd: "name_of scfg = name" by (simp add: name_of_def)
  have r: "core_role (cr_core ?r) = Client" "lifecycle (cr_core ?r) = PreHandshake" "core_cid (cr_core ?r) = cid"
    by (simp_all add: client_new_def new_machine_def)
  obtain c0 where c0: "engine_run E (new_handle (ClientEngine ?r))
        [ConfigureClientTls (Some (string_bytes name)), TlsAddAnchorPem (Some pem), BeginHandshake t] = Some c0"
      "client_waits ?cfg ?r c0" "outbox c0 = [string_bytes (''DTLS_CLIENT_HELLO|sni='' @ name)]"
    using client_configured [of "string_bytes name" pem E ?r t] assms(1,5,6) name(1) by auto
  obtain s0 where s0: "engine_run E (new_handle (ServerEngine ?m))
        [ConfigureServerTls (Some (string_bytes name)) (Some (string_bytes cert)) (Some (string_bytes key))] = Some s0"
      "server_waits E sp scfg None ?m s0"
    using server_configured [of "string_bytes name" "string_bytes cert" "string_bytes key" E scfg pem ?m sp] assms by auto
  obtain s1 where s1: "engine_on_datagram E now sp (string_bytes (''DTLS_CLIENT_HELLO|sni='' @ name)) s0 = Some (s1, 0)"
      "server_waits E sp scfg (Some ''cookie-v3'') ?m s1" "outbox s1 = [string_bytes (''DTLS_HELLO_VERIFY|cookie='' @ ''cookie-v3'')]"
    using server_on_hello [OF s0(2) assms(1), of now] by (elim exE conjE)
  obtain c1 where c1: "engine_on_datagram E now cp (string_bytes (''DTLS_HELLO_VERIFY|cookie='' @ ''cookie-v3'')) c0 = Some (c1, 0)"
      "client_waits ?cfg ?r c1" "outbox c1 = [string_bytes (''DTLS_CLIENT_HELLO_COOKIE|cookie='' @ ''cookie-v3'')]"
    using client_on_verify [OF c0(2) cookie_utf8, of E now cp] by (elim exE conjE)
  obtain s2 where s2: "engine_on_datagram E now sp (string_bytes (''DTLS_CLIENT_HELLO_COOKIE|cookie='' @ ''cookie-v3'')) s1 = Some (s2, 0)"
      "server_open sp ?m s2" "outbox s2 = [string_bytes (''DTLS_SERVER_HELLO|sni='' @ name)]"
    using server_on_cookie [OF s1(2) cookie_utf8, of now] unfolding snd by (elim exE conjE)
  obtain c2 r2 where c2: "engine_on_datagram E now cp (string_bytes (''DTLS_SERVER_HELLO|sni='' @ name)) c1 = Some (c2, 0)"
      "client_open r2 c2" "cr_core r2 = cr_core ?r" "outbox c2 = [frame_bytes ClientHello cid [] []]"
    using client_on_server_hello [OF c1(2) assms(1) _ r(1), of E now cp] unfolding r(3)
    by (simp add: client_cfg_def) (elim exE conjE)
  have store: "memory_ok (sv_store ?m)" "seen ?m cid = None"
    using memory_default_ok by (simp_all add: server_new_def server_new_with_nat_policy_def)
  have hello: "decode (frame_bytes ClientHello cid [] []) = Inr (new_frame ClientHello 0 cid [] [])" by (simp add: frame_bytes_ok)
  obtain core out where served: "server_served (ee_server E) memory_ok cid core out
        (server_runtime_on_datagram (ee_server E) ?m now sp (frame_bytes ClientHello cid [] []))"
      "in_step Server cid [] 0 0 [] core" "map dgram_bytes (core_output.outbound_datagrams out) = [frame_bytes ServerHello cid [] []]"
    using memory_server.first_datagram_serves [OF store hello _ hello_keeps, of "ee_elapsed_us E" "ee_base64 E" now sp] by auto
  obtain m o' where m: "server_runtime_on_datagram (ee_server E) ?m now sp (frame_bytes ClientHello cid [] []) = (m, Inr o')"
      "memory_ok (sv_store m)" "machine_at (sv_sessions m) cid = Some core"
      "map dgram_bytes (sro_outbound_datagrams o') = [frame_bytes ServerHello cid [] []]"
    by (rule server_servedD [OF served(1), unfolded served(3)])
  obtain s3 where s3: "engine_on_datagram E now sp (frame_bytes ClientHello cid [] []) s2 = Some (s3, 0)"
      "server_open sp m s3" "outbox s3 = [frame_bytes ServerHello cid [] []]"
    using server_open_passes [OF s2(2) frame_not_dtls m(1)] unfolding m(4) by auto
  obtain c3 r3 where c3: "engine_on_datagram E now cp (frame_bytes ServerHello cid [] []) c2 = Some (c3, 0)"
      "client_open r3 c3" "in_step Client cid [] 0 0 [] (cr_core r3)"
    using client_on_core_hello [OF c2(2), of cid ccfg E now cp] c2(3) by (auto simp: client_new_def)
  have "rounds E now cp sp 3 (c0, s0) = Some (c3, s3)"
    using c0(3) s1(1,3) c1(1,3) s2(1,3) c2(1,4) s3(1,3) c3(1) by (simp add: numeral_3_eq_3)
  then show ?thesis using c0(1) s0(1) c3(2,3) s3(2) m(2,3) served(2) by blast
qed

text \<open>A client engine that trusts a certificate and expects the name \<open>name\<close>, and a server engine configured for
  that name, with OpenSSL accepting what they were given: three rounds of handing each other's output over
  establish both handshake adapters and, behind them, the protocol session on both sides.\<close>

theorem engines_connect:
  assumes "valid_utf8 (string_bytes name)" "valid_utf8 (string_bytes cert)" "valid_utf8 (string_bytes key)"
    and "build_server_tls_cfg E name cert key = Inr scfg" and "pem \<noteq> []" and "openssl_accepts (ee_openssl E) pem"
  shows "\<exists>c0 s0 c s r m session.
    engine_run E (new_handle (ClientEngine (client_new cid ccfg)))
      [ConfigureClientTls (Some (string_bytes name)), TlsAddAnchorPem (Some pem), BeginHandshake t] = Some c0
    \<and> engine_run E (new_handle (ServerEngine (server_new sccfg (replicate DEFAULT_SHARD_COUNT []))))
      [ConfigureServerTls (Some (string_bytes name)) (Some (string_bytes cert)) (Some (string_bytes key))] = Some s0
    \<and> rounds E now cp sp 3 (c0, s0) = Some (c, s)
    \<and> client_open r c \<and> lifecycle (cr_core r) = Established
    \<and> server_open sp m s \<and> bmap_get (sv_sessions m) cid = Some session \<and> lifecycle (sess_core session) = Established"
proof -
  have "lifecycle core = Established" if "in_step r cid us n q fs core" for r us n q fs core
    using that by (rule in_step_established)
  moreover have "\<exists>session. bmap_get (sv_sessions m) cid = Some session \<and> sess_core session = core"
    if "machine_at (sv_sessions m) cid = Some core" for m :: "memory_store server_runtime" and core
    using that by (auto elim: machine_atD)
  ultimately show ?thesis using engines_meet [OF assms, of cid ccfg t sccfg now cp sp] by metis
qed

section \<open>Behind an established adapter\<close>

definition without_tls :: "engine_handle \<Rightarrow> engine_handle" where
  "without_tls h = h\<lparr>eh_tls := TlsDisabled\<rparr>"

text \<open>The calls that go straight to the runtime: those that send, and datagrams once the adapter of their path is
  established, unless they start with \<^verbatim>\<open>DTLS_\<close>.\<close>

fun passes :: "engine_handle \<Rightarrow> engine_call \<Rightarrow> bool" where
  "passes h (BeginHandshake now) = (case eh_tls h of TlsClient tls \<Rightarrow> ct_established tls | _ \<Rightarrow> True)"
| "passes h (Datagram now path_id p) = (\<not> is_dtls_packet (bytes_from_ptr p) \<and>
     (case eh_tls h of
        TlsDisabled \<Rightarrow> True
      | TlsClient tls \<Rightarrow> ct_established tls
      | TlsServer tls \<Rightarrow> (case bmap_get (stls_sessions_by_path tls) path_id of None \<Rightarrow> False | Some s \<Rightarrow> sp_established s)))"
| "passes h (SendMessage p) = True"
| "passes h CloseSession = True"
| "passes h (ServerSendMessage cid p now) = True"
| "passes h (PollTimers now limit) = True"
| "passes h (PollNat now) = True"
| "passes h (ConfigureNat rp stun turn realm username password) = True"
| "passes h ClearOutput = True"
| "passes h _ = False"

lemma without_tls_fields [simp]:
  "eh_kind (without_tls h) = eh_kind h" "eh_tls (without_tls h) = TlsDisabled" "eh_output (without_tls h) = eh_output h"
  "without_tls (h\<lparr>eh_tls := t\<rparr>) = without_tls h" "without_tls (h\<lparr>eh_output := b\<rparr>) = (without_tls h)\<lparr>eh_output := b\<rparr>"
  "without_tls (h\<lparr>eh_kind := k\<rparr>) = (without_tls h)\<lparr>eh_kind := k\<rparr>"
  by (simp_all add: without_tls_def)

lemma set_error_without: "set_error (without_tls h) e = map_prod without_tls id (set_error h e)"
  by (simp add: set_error_def without_tls_def)

lemma client_result_without: "client_result E (without_tls h) res = map_prod without_tls id (client_result E h res)"
  by (auto simp: client_result_def without_tls_def set_error_def split: prod.split sum.split)

lemma server_result_without: "server_result E (without_tls h) res = map_prod without_tls id (server_result E h res)"
  by (auto simp: server_result_def without_tls_def set_error_def split: prod.split sum.split)

lemma set_path_session_without [simp]: "without_tls (set_path_session tls path_id session h) = without_tls h"
  by (simp add: set_path_session_def)

lemma utf8_arg_without:
  assumes "\<And>s. k' s = map_prod without_tls id (k s)"
  shows "utf8_arg E what p (without_tls h) k' = map_prod without_tls id (utf8_arg E what p h k)"
  using assms by (simp add: utf8_arg_def set_error_without split: option.split)

lemma configure_nat_without:
  "engine_configure_nat E rp stun turn realm username password (without_tls h) =
   map_prod without_tls id (engine_configure_nat E rp stun turn realm username password h)"
  unfolding engine_configure_nat_def
  by (intro utf8_arg_without) (simp add: Let_def)

lemma passing_calls_same:
  assumes "passes h c"
  shows "engine_step E (without_tls h) c = map_option (map_prod without_tls id) (engine_step E h c)"
proof (cases c)
  case (BeginHandshake now)
  then show ?thesis
    using assms by (cases "eh_kind h"; cases "eh_tls h") (auto simp: engine_begin_handshake_def client_result_without)
next
  case (Datagram now path_id p)
  let ?bs = "bytes_from_ptr p"
  show ?thesis
  proof (cases "eh_kind h")
    case (ClientEngine r)
    then show ?thesis
      using assms Datagram
      by (cases "eh_tls h") (auto simp: engine_on_datagram_def client_engine_datagram_def client_result_without Let_def)
  next
    case (ServerEngine r)
    show ?thesis
    proof (cases "eh_tls h")
      case (TlsServer tls)
      obtain session where s: "bmap_get (stls_sessions_by_path tls) path_id = Some session" "sp_established session"
          "\<not> is_dtls_packet ?bs"
        using assms Datagram TlsServer by (auto split: option.splits)
      have "server_engine_datagram E now path_id ?bs r h = Some
          (server_result E (set_path_session tls path_id session h) (server_runtime_on_datagram (ee_server E) r now path_id ?bs))"
        using s TlsServer by (simp add: server_engine_datagram_def path_session_def)
      moreover have "server_engine_datagram E now path_id ?bs r (without_tls h) = Some
          (server_result E (without_tls (set_path_session tls path_id session h)) (server_runtime_on_datagram (ee_server E) r now path_id ?bs))"
        by (simp add: server_engine_datagram_def)
      ultimately show ?thesis
        by (simp add: Datagram engine_on_datagram_def ServerEngine server_result_without [of E "set_path_session tls path_id session h"]
            del: set_path_session_without)
    qed (use ServerEngine Datagram in \<open>auto simp: engine_on_datagram_def server_engine_datagram_def server_result_without\<close>)
  qed
next
  case (ConfigureNat rp stun turn realm username password)
  then show ?thesis by (simp add: configure_nat_without)
qed (use assms in \<open>auto simp: engine_send_message_def engine_close_session_def engine_server_send_message_def
      engine_poll_timers_def engine_poll_nat_def engine_clear_output_def client_result_without server_result_without
      split: engine_kind.splits\<close>)

text \<open>The datagrams an established adapter keeps to itself.\<close>

fun filtered :: "engine_handle \<Rightarrow> engine_call \<Rightarrow> bool" where
  "filtered h (Datagram now path_id p) = (is_dtls_packet (bytes_from_ptr p) \<and>
     (case eh_tls h of
        TlsDisabled \<Rightarrow> False
      | TlsClient tls \<Rightarrow> ct_established tls
      | TlsServer tls \<Rightarrow> (case bmap_get (stls_sessions_by_path tls) path_id of None \<Rightarrow> False | Some s \<Rightarrow> sp_established s)))"
| "filtered h _ = False"

text \<open>The output of such a call: empty on a client; on a server the event that announces the handshake, once more.\<close>

fun filtered_output :: "engine_env \<Rightarrow> engine_kind \<Rightarrow> engine_call \<Rightarrow> output_buffer" where
  "filtered_output E (ServerEngine r) (Datagram now path_id p) = \<lparr>ob_datagrams = [],
     ob_events = [ee_json E [(''kind'', JsonText ''server_tls''), (''event'', JsonText ''handshake_established''),
       (''path_id'', JsonNumber (unat path_id))]]\<rparr>"
| "filtered_output E _ _ = empty_buffer"

lemma filtered_step:
  assumes ok: "engine_ok h" and f: "filtered h c"
  shows "\<exists>h'. engine_step E h c = Some (h', 0) \<and> eh_kind h' = eh_kind h \<and> eh_output h' = filtered_output E (eh_kind h) c
    \<and> eh_last_error h' = eh_last_error h"
proof -
  obtain now path_id p where c: "c = Datagram now path_id p" using f by (cases c) auto
  let ?bs = "bytes_from_ptr p"
  show ?thesis
  proof (cases "eh_kind h")
    case (ClientEngine r)
    then obtain tls where "eh_tls h = TlsClient tls" using ok f c by (cases "eh_tls h") (auto simp: engine_ok_def)
    then show ?thesis using f ClientEngine by (simp add: c engine_on_datagram_def client_engine_datagram_def Let_def)
  next
    case (ServerEngine r)
    then obtain tls where t: "eh_tls h = TlsServer tls" using ok f c by (cases "eh_tls h") (auto simp: engine_ok_def)
    then obtain session where s: "bmap_get (stls_sessions_by_path tls) path_id = Some session" "sp_established session"
        "is_dtls_packet ?bs"
      using f c by (auto split: option.splits)
    have "server_path_ok (stls_server_name tls) session"
      using ok ServerEngine t s(1) by (auto simp: engine_ok_def server_tls_ok_def)
    then have "\<exists>cfg. openssl_on_datagram (sp_adapter session) ?bs = (sp_adapter session, Inr (established_output cfg))"
      using s(2) by (auto simp: server_path_ok_def openssl_on_datagram_def adapter_cfg_def)
    then obtain cfg where "openssl_on_datagram (sp_adapter session) ?bs = (sp_adapter session, Inr (established_output cfg))"
      by blast
    then show ?thesis
      using ServerEngine t s by (simp add: c engine_on_datagram_def server_engine_datagram_def path_session_def
          server_tls_datagram_def set_path_session_def established_output_def Let_def)
  qed
qed

text \<open>C24: an established handshake adapter filters the datagrams that start with \<^verbatim>\<open>DTLS_\<close> and does nothing else.  Sending,
  closing and polling, and every datagram that does not start with \<^verbatim>\<open>DTLS_\<close> once the adapter of its path (on a client:
  of any path) is established, have exactly the result, the output and the effect on the runtime that they have on the
  same engine with TLS disabled: frames travel in clear and are accepted from whoever sends them.  A datagram that does
  start with \<^verbatim>\<open>DTLS_\<close> never reaches the runtime of a well-formed engine then: the call returns 0, sends nothing, leaves
  the error text, and its output is empty on a client and the handshake event once more on a server.\<close>

theorem tls_adds_no_protection:
  "(passes h c \<longrightarrow> engine_step E (without_tls h) c = map_option (map_prod without_tls id) (engine_step E h c))
   \<and> (filtered h c \<longrightarrow> engine_ok h \<longrightarrow>
        (\<exists>h'. engine_step E h c = Some (h', 0) \<and> eh_kind h' = eh_kind h \<and> eh_output h' = filtered_output E (eh_kind h) c
           \<and> eh_last_error h' = eh_last_error h))"
  using passing_calls_same filtered_step by blast

text \<open>On an established path the adapter answers nothing.\<close>

lemma established_path_silent:
  assumes ok: "engine_ok s" and opn: "server_open path_id m s" and d: "is_dtls_packet bs"
  shows "\<exists>s'. engine_on_datagram E now path_id bs s = Some (s', 0) \<and> server_open path_id m s' \<and> engine_ok s' \<and> outbox s' = []"
proof -
  obtain tls session where t: "eh_kind s = ServerEngine m" "eh_tls s = TlsServer tls"
      "bmap_get (stls_sessions_by_path tls) path_id = Some session" "sp_established session"
    using opn by (auto simp: server_open_def)
  have p: "server_path_ok (stls_server_name tls) session" using ok t by (auto simp: engine_ok_def server_tls_ok_def)
  then obtain cfg where a: "oa_established (sp_adapter session)" "oa_ctx (sp_adapter session) \<noteq> None"
      "oa_ssl (sp_adapter session) \<noteq> None" "oa_cfg (sp_adapter session) = Some cfg" "oa_role (sp_adapter session) = Some ServerRole"
    using t(4) by (auto simp: server_path_ok_def)
  then have on: "openssl_on_datagram (sp_adapter session) bs = (sp_adapter session, Inr (established_output cfg))"
    by (auto simp: openssl_on_datagram_def adapter_cfg_def)
  have step: "engine_on_datagram E now path_id bs s = Some (server_tls_datagram E path_id bs tls session s)"
    using t d by (simp add: engine_on_datagram_def server_engine_datagram_def path_session_def)
  obtain s' where s': "server_tls_datagram E path_id bs tls session s = (s', 0)" "eh_kind s' = eh_kind s" "outbox s' = []"
      "eh_tls s' = TlsServer (tls\<lparr>stls_sessions_by_path := bmap_insert path_id
        (session\<lparr>sp_adapter := sp_adapter session, sp_established := True\<rparr>) (stls_sessions_by_path tls)\<rparr>)"
    using server_tls_datagram_ok [OF on, of E path_id tls s] t(4) by (auto simp: established_output_def)
  have "server_open path_id m s'" using s'(2,4) t(1) by (simp add: server_open_def)
  moreover have "engine_ok s'"
    using engine_step_ok [OF ok, of E "Datagram now path_id (Some bs)" s' 0] step s'(1) by (simp add: bytes_from_ptr_def)
  ultimately show ?thesis using step s' by auto
qed

lemma silent_relay:
  "engine_ok s \<Longrightarrow> server_open path_id m s \<Longrightarrow> \<forall>d \<in> set ds. is_dtls_packet d \<Longrightarrow> ds \<noteq> [] \<Longrightarrow>
   \<exists>s'. relay E now path_id ds s = Some s' \<and> server_open path_id m s' \<and> engine_ok s' \<and> outbox s' = []"
proof (induction ds arbitrary: s)
  case (Cons d ds)
  obtain s1 where s1: "engine_on_datagram E now path_id d s = Some (s1, 0)" "server_open path_id m s1" "engine_ok s1" "outbox s1 = []"
    using established_path_silent [OF Cons.prems(1,2), of d E now] Cons.prems(3) by auto
  show ?case
  proof (cases "ds = []")
    case True
    then show ?thesis using s1 by simp
  next
    case False
    then show ?thesis using Cons.IH [OF s1(3,2)] Cons.prems(3) s1(1) by simp
  qed
qed simp

text \<open>C32: a client cannot come back on a path whose adapter is established.  A new client engine that starts its
  handshake there, as after a restart, is never answered: however many rounds are made, the server's session and
  adapter stay as they are and the client stays where it was.\<close>

theorem restarted_client_unanswered:
  assumes "engine_ok s" and "server_open sp m s" and "client_waits cfg r c" and "outbox c \<noteq> []"
    and "\<forall>d \<in> set (outbox c). is_dtls_packet d"
  shows "\<exists>s'. rounds E now cp sp n (c, s) = Some (c, s') \<and> server_open sp m s'"
  using assms(1,2)
proof (induction n arbitrary: s)
  case (Suc n)
  obtain s1 where s1: "relay E now sp (outbox c) s = Some s1" "server_open sp m s1" "engine_ok s1" "outbox s1 = []"
    using silent_relay [OF Suc.prems assms(5,4), of E now] by blast
  then show ?case using Suc.IH [OF s1(3,2)] by simp
qed auto

text \<open>Trust anchors are refused only once the core has started, which is when the adapter is established: while the
  handshake is under way a further anchor is accepted, and the adapter that is running never sees it.\<close>

lemma anchors_accepted_during_handshake:
  assumes "client_waits cfg r h" and "pem \<noteq> []"
  shows "\<exists>h' tls tls'. engine_tls_add_anchor_pem (Some pem) h = (h', 0) \<and> eh_tls h = TlsClient tls \<and> eh_tls h' = TlsClient tls'
    \<and> ct_adapter tls' = ct_adapter tls \<and> oa_ctx (ct_adapter tls) \<noteq> None"
  using assms by (auto simp: client_waits_def ready_def engine_tls_add_anchor_pem_def change_anchors_def bytes_from_ptr_def)

text \<open>The result of starting a path's adapter is dropped; when it failed, every hello on that path fails.\<close>

lemma failed_start_is_final:
  assumes "openssl_start_server (ee_openssl E) openssl_new cfg = (a, Inl e)"
  shows "openssl_on_datagram a bs = (a, Inl (Provider ''openssl context not initialized''))"
  using assms by (auto simp: openssl_start_server_def openssl_on_datagram_def openssl_new_def split: sum.splits option.splits)

section \<open>Aborts\<close>

text \<open>C28: a call aborts the process exactly when it is a datagram, on a server engine with TLS, on a path the engine
  has not seen, while the certificate or the key file is not there: the files are checked when TLS is configured,
  and again for every new path, where their absence is a panic.\<close>

theorem aborts_exactly:
  assumes "engine_ok h"
  shows "engine_step E h c = None \<longleftrightarrow> (\<exists>r tls now path_id p. eh_kind h = ServerEngine r \<and> eh_tls h = TlsServer tls
    \<and> c = Datagram now path_id p \<and> bmap_get (stls_sessions_by_path tls) path_id = None
    \<and> (\<not> ee_path_exists E (stls_cert_path tls) \<or> \<not> ee_path_exists E (stls_key_path tls)))"
proof (cases "\<exists>r tls now path_id p. eh_kind h = ServerEngine r \<and> eh_tls h = TlsServer tls \<and> c = Datagram now path_id p")
  case True
  then obtain r tls now path_id p where h: "eh_kind h = ServerEngine r" "eh_tls h = TlsServer tls" "c = Datagram now path_id p"
    by blast
  have "server_tls_ok tls" using assms h by (simp add: engine_ok_def)
  then have "(\<exists>e. build_server_tls_cfg E (stls_server_name tls) (stls_cert_path tls) (stls_key_path tls) = Inl e)
      \<longleftrightarrow> \<not> ee_path_exists E (stls_cert_path tls) \<or> \<not> ee_path_exists E (stls_key_path tls)"
    by (auto simp: server_tls_ok_def build_server_tls_cfg_def)
  then show ?thesis
    using h by (auto simp: engine_on_datagram_def server_engine_datagram_def path_session_def Let_def
        split: option.splits sum.splits)
next
  case False
  then show ?thesis
    by (cases c) (auto simp: engine_on_datagram_def server_engine_datagram_def Let_def split: engine_kind.splits tls_mode.splits)
qed

section \<open>Concrete engines\<close>

lemma sample_utf8: "valid_utf8 (string_bytes ''node'')" "valid_utf8 (string_bytes ''cert'')" "valid_utf8 (string_bytes ''key'')"
  by (simp_all add: string_bytes_def)

lemma sample_named: "\<not> trimmed_empty ''node''" "\<not> trimmed_empty ''cert''" "\<not> trimmed_empty ''key''"
  by (simp_all add: trimmed_empty_def string_bytes_def)

lemma sample_server_cfg: "\<exists>cfg. build_server_tls_cfg sample_env ''node'' ''cert'' ''key'' = Inr cfg"
  by (simp add: build_server_tls_cfg_def sample_named) (simp add: sample_env_def)

lemma sample_accepts: "openssl_accepts (ee_openssl sample_env) [1]"
  by (simp add: openssl_accepts_def accepting_openssl_def sample_env_def)

abbreviation sample_client :: engine_handle where
  "sample_client \<equiv> new_handle (ClientEngine (client_new 7 sample_config))"

abbreviation sample_server :: engine_handle where
  "sample_server \<equiv> new_handle (ServerEngine (server_new sample_config (replicate DEFAULT_SHARD_COUNT [])))"

abbreviation configure_server :: engine_call where
  "configure_server \<equiv> ConfigureServerTls (Some (string_bytes ''node'')) (Some (string_bytes ''cert'')) (Some (string_bytes ''key''))"

definition start_client :: "engine_call list" where
  "start_client = [ConfigureClientTls (Some (string_bytes ''node'')), TlsAddAnchorPem (Some [1]), BeginHandshake 0]"

definition open_server :: "engine_call list" where
  "open_server = [configure_server, Datagram 0 3 (Some (string_bytes (''DTLS_CLIENT_HELLO|sni='' @ ''node''))),
     Datagram 0 3 (Some (string_bytes (''DTLS_CLIENT_HELLO_COOKIE|cookie='' @ ''cookie-v3'')))]"

lemma sample_servers_ok: "engine_ok sample_server"
  by (rule new_engine_ok [of "NewServer 100 2 1000"]) (simp add: sample_config_def)

lemma sample_server_waits:
  obtains s cfg where "engine_run sample_env sample_server [configure_server] = Some s"
    "server_waits sample_env 3 cfg None (server_new sample_config (replicate DEFAULT_SHARD_COUNT [])) s"
proof -
  obtain cfg where cfg: "build_server_tls_cfg sample_env ''node'' ''cert'' ''key'' = Inr cfg" using sample_server_cfg by blast
  let ?r = "server_new sample_config (replicate DEFAULT_SHARD_COUNT [])"
  obtain s where "engine_run sample_env sample_server [configure_server] = Some s" "server_waits sample_env 3 cfg None ?r s"
    using server_configured [of "string_bytes ''node''" "string_bytes ''cert''" "string_bytes ''key''" sample_env cfg "[1]" ?r 3]
      cfg sample_utf8 sample_accepts unfolding string_round_trip by (elim meta_impE exE conjE)
  then show thesis by (rule that)
qed

lemma engine_run_append:
  "engine_run E h (cs @ ds) = (case engine_run E h cs of None \<Rightarrow> None | Some h' \<Rightarrow> engine_run E h' ds)"
  by (induction cs arbitrary: h) (auto split: option.split)

lemma sample_server_open:
  obtains s where "engine_run sample_env sample_server open_server = Some s"
    "server_open 3 (server_new sample_config (replicate DEFAULT_SHARD_COUNT [])) s" "engine_ok s"
proof -
  let ?r = "server_new sample_config (replicate DEFAULT_SHARD_COUNT [])"
  obtain s0 cfg where s0: "engine_run sample_env sample_server [configure_server] = Some s0"
      "server_waits sample_env 3 cfg None ?r s0" by (rule sample_server_waits)
  obtain s1 where s1: "engine_on_datagram sample_env 0 3 (string_bytes (''DTLS_CLIENT_HELLO|sni='' @ ''node'')) s0 = Some (s1, 0)"
      "server_waits sample_env 3 cfg (Some ''cookie-v3'') ?r s1"
    using server_on_hello [OF s0(2) sample_utf8(1), of 0] by (elim exE conjE)
  obtain s2 where s2: "engine_on_datagram sample_env 0 3 (string_bytes (''DTLS_CLIENT_HELLO_COOKIE|cookie='' @ ''cookie-v3'')) s1 = Some (s2, 0)"
      "server_open 3 ?r s2"
    using server_on_cookie [OF s1(2) cookie_utf8, of 0] by (elim exE conjE)
  have split: "open_server = [configure_server] @ [Datagram 0 3 (Some (string_bytes (''DTLS_CLIENT_HELLO|sni='' @ ''node''))),
      Datagram 0 3 (Some (string_bytes (''DTLS_CLIENT_HELLO_COOKIE|cookie='' @ ''cookie-v3'')))]"
    by (simp add: open_server_def)
  have run: "engine_run sample_env sample_server open_server = Some s2"
    unfolding split engine_run_append s0(1) using s1(1) s2(1) by (simp add: bytes_from_ptr_def)
  then show thesis using that s2(2) engine_run_ok [OF sample_servers_ok run] by blast
qed

lemma sample_client_waits:
  obtains c where "engine_run sample_env sample_client start_client = Some c"
    "client_waits (client_cfg ''node'' [1]) (client_new 7 sample_config) c"
    "outbox c = [string_bytes (''DTLS_CLIENT_HELLO|sni='' @ ''node'')]"
  using client_configured [of "string_bytes ''node''" "[1]" sample_env "client_new 7 sample_config" 0]
    sample_utf8 sample_named sample_accepts unfolding string_round_trip start_client_def
  by (elim meta_impE exE conjE) simp_all

theorem engines_connect_witness:
  "\<exists>c0 s0 c s r m session.
    engine_run sample_env sample_client start_client = Some c0 \<and> engine_run sample_env sample_server [configure_server] = Some s0
    \<and> rounds sample_env 1 0 3 3 (c0, s0) = Some (c, s) \<and> client_open r c \<and> lifecycle (cr_core r) = Established
    \<and> server_open 3 m s \<and> bmap_get (sv_sessions m) 7 = Some session \<and> lifecycle (sess_core session) = Established"
proof -
  obtain cfg where "build_server_tls_cfg sample_env ''node'' ''cert'' ''key'' = Inr cfg" using sample_server_cfg by blast
  from engines_connect [OF sample_utf8 this _ sample_accepts, of 7 sample_config 0 sample_config 1 0 3]
  show ?thesis unfolding start_client_def by simp
qed

theorem restarted_client_unanswered_witness:
  "\<exists>s c s' m. engine_run sample_env sample_server open_server = Some s \<and> engine_run sample_env sample_client start_client = Some c
    \<and> rounds sample_env 5 0 3 100 (c, s) = Some (c, s') \<and> server_open 3 m s'"
proof -
  obtain s where s: "engine_run sample_env sample_server open_server = Some s"
      "server_open 3 (server_new sample_config (replicate DEFAULT_SHARD_COUNT [])) s" "engine_ok s"
    by (rule sample_server_open)
  obtain c where c: "engine_run sample_env sample_client start_client = Some c"
      "client_waits (client_cfg ''node'' [1]) (client_new 7 sample_config) c"
      "outbox c = [string_bytes (''DTLS_CLIENT_HELLO|sni='' @ ''node'')]"
    by (rule sample_client_waits)
  have "outbox c \<noteq> []" "\<forall>d \<in> set (outbox c). is_dtls_packet d" by (simp_all only: c(3) list.set ball_simps hellos_are_dtls) simp_all
  then show ?thesis
    using restarted_client_unanswered [OF s(3,2) c(2), of sample_env 5 0 100] s(1) c(1) by blast
qed

theorem tls_adds_no_protection_witness:
  "\<exists>h h'. engine_run sample_env sample_server open_server = Some h
    \<and> engine_step sample_env (without_tls h) (Datagram 5 3 (Some server_hello)) =
      map_option (map_prod without_tls id) (engine_step sample_env h (Datagram 5 3 (Some server_hello)))
    \<and> engine_step sample_env h (Datagram 5 3 (Some (string_bytes ''DTLS_''))) = Some (h', 0) \<and> eh_kind h' = eh_kind h"
proof -
  obtain s where s: "engine_run sample_env sample_server open_server = Some s"
      "server_open 3 (server_new sample_config (replicate DEFAULT_SHARD_COUNT [])) s" "engine_ok s"
    by (rule sample_server_open)
  have "\<not> is_dtls_packet server_hello" by (simp add: server_hello_def frame_not_dtls)
  then have "passes s (Datagram 5 3 (Some server_hello))"
    using s(2) by (auto simp: server_open_def bytes_from_ptr_def)
  moreover have "filtered s (Datagram 5 3 (Some (string_bytes ''DTLS_'')))"
    using s(2) by (auto simp: server_open_def bytes_from_ptr_def is_dtls_packet_def string_bytes_def)
  ultimately show ?thesis
    using tls_adds_no_protection [of s "Datagram 5 3 (Some server_hello)" sample_env]
      tls_adds_no_protection [of s "Datagram 5 3 (Some (string_bytes ''DTLS_''))" sample_env] s(1,3) by blast
qed

theorem aborts_exactly_witness:
  "\<exists>h. engine_run sample_env sample_server [configure_server] = Some h
    \<and> engine_step (sample_env\<lparr>ee_path_exists := \<lambda>_. False\<rparr>) h (Datagram 0 3 None) = None"
proof -
  obtain h where h: "engine_run sample_env sample_server [configure_server] = Some h"
    using sample_server_waits by blast
  then have t: "eh_kind h = ServerEngine (server_new sample_config (replicate DEFAULT_SHARD_COUNT []))"
      "\<exists>tls. eh_tls h = TlsServer tls \<and> stls_sessions_by_path tls = []"
    using sample_server_cfg sample_utf8
    by (auto simp: engine_configure_server_tls_def utf8_arg_def from_utf8_def bytes_from_ptr_def new_handle_def)
  have ok: "engine_ok h" by (rule engine_run_ok [OF sample_servers_ok h])
  show ?thesis using aborts_exactly [OF ok, of "sample_env\<lparr>ee_path_exists := \<lambda>_. False\<rparr>" "Datagram 0 3 None"] t h by auto
qed

theorem client_tls_gate_witness:
  "\<exists>h0 h r. engine_configure_client_tls sample_env (Some (string_bytes ''node'')) sample_client = (h0, 0)
    \<and> engine_run sample_env h0 [TlsAddAnchorPem (Some [1]), BeginHandshake 0,
        Datagram 1 0 (Some (string_bytes (''DTLS_SERVER_HELLO|sni='' @ ''node''))), Datagram 2 0 (Some (frame_bytes ServerHello 7 [] []))] = Some h
    \<and> eh_kind h = ClientEngine r \<and> lifecycle (cr_core r) = Established
    \<and> (\<exists>tls. eh_tls h = TlsClient tls \<and> oa_established (ct_adapter tls))"
proof -
  let ?d = "string_bytes (''DTLS_SERVER_HELLO|sni='' @ ''node'')" and ?f = "frame_bytes ServerHello 7 [] []"
  obtain c where c: "engine_run sample_env sample_client start_client = Some c"
      "client_waits (client_cfg ''node'' [1]) (client_new 7 sample_config) c" by (rule sample_client_waits)
  have role: "core_role (cr_core (client_new 7 sample_config)) = Client" by (simp add: client_new_def new_machine_def)
  obtain c1 r1 where c1: "engine_on_datagram sample_env 1 0 ?d c = Some (c1, 0)" "client_open r1 c1"
      "cr_core r1 = cr_core (client_new 7 sample_config)"
    using client_on_server_hello [OF c(2) sample_utf8(1) _ role, of sample_env 1 0] by (simp add: client_cfg_def) (elim exE conjE)
  obtain c2 r2 where c2: "engine_on_datagram sample_env 2 0 ?f c1 = Some (c2, 0)" "client_open r2 c2" "lifecycle (cr_core r2) = Established"
    using client_on_core_hello [OF c1(2), of 7 sample_config sample_env 2 0] c1(3) in_step_established by (auto simp: client_new_def)
  obtain h0 rc where h0: "engine_configure_client_tls sample_env (Some (string_bytes ''node'')) sample_client = (h0, rc)" by fastforce
  have rc: "rc = 0"
    using h0 sample_utf8 sample_named by (auto simp: engine_configure_client_tls_def utf8_arg_def from_utf8_def
        bytes_from_ptr_def build_client_tls_cfg_def new_handle_def)
  have "engine_run sample_env h0 [TlsAddAnchorPem (Some [1]), BeginHandshake 0] = Some c"
    using c(1) h0 by (simp add: start_client_def)
  then have run: "engine_run sample_env h0 ([TlsAddAnchorPem (Some [1]), BeginHandshake 0] @ [Datagram 1 0 (Some ?d), Datagram 2 0 (Some ?f)]) = Some c2"
    unfolding engine_run_append using c1(1) c2(1) by (simp add: bytes_from_ptr_def)
  have kind: "eh_kind c2 = ClientEngine r2" using c2(2) by (simp add: client_open_def)
  have "\<exists>tls. eh_tls c2 = TlsClient tls \<and> oa_established (ct_adapter tls)"
    using client_tls_gate [OF h0 [unfolded rc] run _ kind] c2(3) by auto
  then show ?thesis using h0 rc run kind c2(3) by auto
qed

end
