(* ===== verification/Jni.thy ===== *)
theory Jni
  imports Registry
begin

text \<open>
  The JNI exports of \<^verbatim>\<open>v3-ffi/src/lib.rs\<close>, wrappers of the C interface for Java: a negative number is
  rejected, an array that cannot be read is an error, and the numbers keep their bits.  What \<^verbatim>\<open>convert_byte_array\<close>
  returned is an argument (\<open>None\<close> is its failure), and \<^verbatim>\<open>set_byte_array_region\<close> is a parameter: the array
  after the call, or \<open>None\<close> when it throws.
\<close>

section \<open>The exports\<close>

type_synonym jlong = "64 word"
type_synonym jint = "32 word"

abbreviation neg :: "'a::len word \<Rightarrow> bool" where
  "neg x \<equiv> sint x < 0"

definition as_jint :: "nat \<Rightarrow> jint" where
  "as_jint n = word_of_nat n"

text \<open>\<^verbatim>\<open>let Some(bytes) = jbyte_array_to_vec(env, data) else { return -1 }\<close>\<close>

definition with_bytes :: "registry \<Rightarrow> bytes option \<Rightarrow> (bytes option \<Rightarrow> (registry \<times> i32) option) \<Rightarrow> (registry \<times> i32) option" where
  "with_bytes g data k = (case data of None \<Rightarrow> Some (g, - 1) | Some bs \<Rightarrow> k (Some bs))"

definition copy_bytes_to_jbyte_array :: "(bytes \<Rightarrow> bytes \<Rightarrow> bytes option) \<Rightarrow> bytes \<Rightarrow> bytes \<Rightarrow> bytes \<times> jint" where
  "copy_bytes_to_jbyte_array set_region out bs =
     (case set_region out bs of Some out' \<Rightarrow> (out', as_jint (length bs)) | None \<Rightarrow> (out, - 1))"

definition jni_abi_version :: jint where
  "jni_abi_version = as_jint (unat v3_ffi_abi_version)"

definition jni_new_client :: "registry \<Rightarrow> jlong \<Rightarrow> jlong \<Rightarrow> jlong \<Rightarrow> jlong \<Rightarrow> registry \<times> jlong" where
  "jni_new_client g cid msr miss disconnect =
     (if neg cid \<or> neg msr \<or> neg miss \<or> neg disconnect then (g, 0) else v3_ffi_new_client g cid msr miss disconnect)"

definition jni_new_server :: "registry \<Rightarrow> jlong \<Rightarrow> jlong \<Rightarrow> jlong \<Rightarrow> registry \<times> jlong" where
  "jni_new_server g msr miss disconnect =
     (if neg msr \<or> neg miss \<or> neg disconnect then (g, 0) else v3_ffi_new_server g msr miss disconnect)"

definition jni_free :: "registry \<Rightarrow> jlong \<Rightarrow> registry" where
  "jni_free g handle = (if \<not> neg handle then v3_ffi_free g handle else g)"

definition jni_begin_handshake :: "engine_env \<Rightarrow> registry \<Rightarrow> jlong \<Rightarrow> jlong \<Rightarrow> (registry \<times> i32) option" where
  "jni_begin_handshake E g handle now =
     (if neg handle \<or> neg now then Some (g, - 1) else v3_ffi_call E g handle (BeginHandshake now))"

definition jni_on_datagram ::
    "engine_env \<Rightarrow> registry \<Rightarrow> jlong \<Rightarrow> jlong \<Rightarrow> jint \<Rightarrow> bytes option \<Rightarrow> (registry \<times> i32) option" where
  "jni_on_datagram E g handle now path_id data =
     (if neg handle \<or> neg now \<or> neg path_id then Some (g, - 1)
      else with_bytes g data (\<lambda>p. v3_ffi_call E g handle (Datagram now path_id p)))"

definition jni_send_message :: "engine_env \<Rightarrow> registry \<Rightarrow> jlong \<Rightarrow> bytes option \<Rightarrow> (registry \<times> i32) option" where
  "jni_send_message E g handle data =
     (if neg handle then Some (g, - 1) else with_bytes g data (\<lambda>p. v3_ffi_call E g handle (SendMessage p)))"

definition jni_close_session :: "engine_env \<Rightarrow> registry \<Rightarrow> jlong \<Rightarrow> (registry \<times> i32) option" where
  "jni_close_session E g handle = (if neg handle then Some (g, - 1) else v3_ffi_call E g handle CloseSession)"

definition jni_configure_nat ::
    "engine_env \<Rightarrow> registry \<Rightarrow> jlong \<Rightarrow> jint \<Rightarrow> bytes option \<Rightarrow> bytes option \<Rightarrow> bytes option \<Rightarrow> bytes option \<Rightarrow> bytes option
      \<Rightarrow> (registry \<times> i32) option" where
  "jni_configure_nat E g handle relay stun_uri turn_uri turn_realm turn_username turn_password =
     (if neg handle then Some (g, - 1)
      else with_bytes g stun_uri (\<lambda>stun. with_bytes g turn_uri (\<lambda>turn. with_bytes g turn_realm (\<lambda>realm.
        with_bytes g turn_username (\<lambda>user. with_bytes g turn_password (\<lambda>pass.
          v3_ffi_call E g handle (ConfigureNat (sint relay) stun turn realm user pass)))))))"

definition jni_configure_client_tls :: "engine_env \<Rightarrow> registry \<Rightarrow> jlong \<Rightarrow> bytes option \<Rightarrow> (registry \<times> i32) option" where
  "jni_configure_client_tls E g handle name =
     (if neg handle then Some (g, - 1) else with_bytes g name (\<lambda>p. v3_ffi_call E g handle (ConfigureClientTls p)))"

definition jni_tls_clear_anchors :: "engine_env \<Rightarrow> registry \<Rightarrow> jlong \<Rightarrow> (registry \<times> i32) option" where
  "jni_tls_clear_anchors E g handle = (if neg handle then Some (g, - 1) else v3_ffi_call E g handle TlsClearAnchors)"

definition jni_tls_add_anchor_pem :: "engine_env \<Rightarrow> registry \<Rightarrow> jlong \<Rightarrow> bytes option \<Rightarrow> (registry \<times> i32) option" where
  "jni_tls_add_anchor_pem E g handle pem_bytes =
     (if neg handle then Some (g, - 1) else with_bytes g pem_bytes (\<lambda>p. v3_ffi_call E g handle (TlsAddAnchorPem p)))"

definition jni_configure_server_tls ::
    "engine_env \<Rightarrow> registry \<Rightarrow> jlong \<Rightarrow> bytes option \<Rightarrow> bytes option \<Rightarrow> bytes option \<Rightarrow> (registry \<times> i32) option" where
  "jni_configure_server_tls E g handle server_name cert_path key_path =
     (if neg handle then Some (g, - 1)
      else with_bytes g server_name (\<lambda>name. with_bytes g cert_path (\<lambda>cert. with_bytes g key_path (\<lambda>key.
        v3_ffi_call E g handle (ConfigureServerTls name cert key)))))"

definition jni_server_send_message ::
    "engine_env \<Rightarrow> registry \<Rightarrow> jlong \<Rightarrow> jlong \<Rightarrow> bytes option \<Rightarrow> jlong \<Rightarrow> (registry \<times> i32) option" where
  "jni_server_send_message E g handle cid data now =
     (if neg handle \<or> neg cid \<or> neg now then Some (g, - 1)
      else with_bytes g data (\<lambda>p. v3_ffi_call E g handle (ServerSendMessage cid p now)))"

definition jni_poll_timers :: "engine_env \<Rightarrow> registry \<Rightarrow> jlong \<Rightarrow> jlong \<Rightarrow> jint \<Rightarrow> (registry \<times> i32) option" where
  "jni_poll_timers E g handle now limit =
     (if neg handle \<or> neg now \<or> neg limit then Some (g, - 1) else v3_ffi_call E g handle (PollTimers now (unat limit)))"

definition jni_poll_nat :: "engine_env \<Rightarrow> registry \<Rightarrow> jlong \<Rightarrow> jlong \<Rightarrow> (registry \<times> i32) option" where
  "jni_poll_nat E g handle now =
     (if neg handle \<or> neg now then Some (g, - 1) else v3_ffi_call E g handle (PollNat now))"

definition jni_clear_output :: "engine_env \<Rightarrow> registry \<Rightarrow> jlong \<Rightarrow> (registry \<times> i32) option" where
  "jni_clear_output E g handle = (if \<not> neg handle then v3_ffi_call E g handle ClearOutput else Some (g, - 1))"

definition jni_out_datagram_count :: "registry \<Rightarrow> jlong \<Rightarrow> jint" where
  "jni_out_datagram_count g handle = (if neg handle then 0 else as_jint (out_datagram_count g handle))"

definition jni_out_datagram_len :: "registry \<Rightarrow> jlong \<Rightarrow> jint \<Rightarrow> jint" where
  "jni_out_datagram_len g handle index =
     (if neg handle \<or> neg index then 0 else as_jint (out_datagram_len g handle (unat index)))"

definition jni_out_datagram_path_id :: "registry \<Rightarrow> jlong \<Rightarrow> jint \<Rightarrow> jint" where
  "jni_out_datagram_path_id g handle index =
     (if neg handle \<or> neg index then 0 else out_datagram_path_id g handle (unat index))"

text \<open>A copy goes through a vector of the length the C interface reports.\<close>

definition copy_through ::
    "(bytes \<Rightarrow> bytes \<Rightarrow> bytes option) \<Rightarrow> nat \<Rightarrow> (bytes option \<Rightarrow> bytes option \<times> nat) \<Rightarrow> bytes \<Rightarrow> bytes \<times> jint" where
  "copy_through set_region len copy out =
     (if len = 0 then (out, 0)
      else
        let (buf, copied) = copy (Some (replicate len 0)) in
        if copied = 0 then (out, 0)
        else copy_bytes_to_jbyte_array set_region out (take copied (case buf of None \<Rightarrow> [] | Some b \<Rightarrow> b)))"

definition jni_out_datagram_copy ::
    "(bytes \<Rightarrow> bytes \<Rightarrow> bytes option) \<Rightarrow> registry \<Rightarrow> jlong \<Rightarrow> jint \<Rightarrow> bytes \<Rightarrow> bytes \<times> jint" where
  "jni_out_datagram_copy set_region g handle index out =
     (if neg handle \<or> neg index then (out, - 1)
      else copy_through set_region (out_datagram_len g handle (unat index)) (out_datagram_copy g handle (unat index)) out)"

definition jni_out_event_count :: "registry \<Rightarrow> jlong \<Rightarrow> jint" where
  "jni_out_event_count g handle = (if neg handle then 0 else as_jint (out_event_count g handle))"

definition jni_out_event_len :: "registry \<Rightarrow> jlong \<Rightarrow> jint \<Rightarrow> jint" where
  "jni_out_event_len g handle index =
     (if neg handle \<or> neg index then 0 else as_jint (out_event_len g handle (unat index)))"

definition jni_out_event_copy ::
    "(bytes \<Rightarrow> bytes \<Rightarrow> bytes option) \<Rightarrow> registry \<Rightarrow> jlong \<Rightarrow> jint \<Rightarrow> bytes \<Rightarrow> bytes \<times> jint" where
  "jni_out_event_copy set_region g handle index out =
     (if neg handle \<or> neg index then (out, - 1)
      else copy_through set_region (out_event_len g handle (unat index)) (out_event_copy g handle (unat index)) out)"

definition jni_last_error_len :: "registry \<Rightarrow> jlong \<Rightarrow> jint" where
  "jni_last_error_len g handle = (if neg handle then 0 else as_jint (last_error_len g handle))"

definition jni_last_error_copy :: "(bytes \<Rightarrow> bytes \<Rightarrow> bytes option) \<Rightarrow> registry \<Rightarrow> jlong \<Rightarrow> bytes \<Rightarrow> bytes \<times> jint" where
  "jni_last_error_copy set_region g handle out =
     (if neg handle then (out, - 1)
      else copy_through set_region (last_error_len g handle) (last_error_copy g handle) out)"

section \<open>Java calls as calls of the C interface\<close>

datatype jni_call =
    JNewClient jlong jlong jlong jlong
  | JNewServer jlong jlong jlong
  | JFree jlong
  | JBeginHandshake jlong jlong
  | JOnDatagram jlong jlong jint "bytes option"
  | JSendMessage jlong "bytes option"
  | JCloseSession jlong
  | JConfigureNat jlong jint "bytes option" "bytes option" "bytes option" "bytes option" "bytes option"
  | JConfigureClientTls jlong "bytes option"
  | JTlsClearAnchors jlong
  | JTlsAddAnchorPem jlong "bytes option"
  | JConfigureServerTls jlong "bytes option" "bytes option" "bytes option"
  | JServerSendMessage jlong jlong "bytes option" jlong
  | JPollTimers jlong jlong jint
  | JPollNat jlong jlong
  | JClearOutput jlong

fun jni_step :: "engine_env \<Rightarrow> registry \<Rightarrow> jni_call \<Rightarrow> registry option" where
  "jni_step E g (JNewClient cid msr miss disconnect) = Some (fst (jni_new_client g cid msr miss disconnect))"
| "jni_step E g (JNewServer msr miss disconnect) = Some (fst (jni_new_server g msr miss disconnect))"
| "jni_step E g (JFree i) = Some (jni_free g i)"
| "jni_step E g (JBeginHandshake i now) = map_option fst (jni_begin_handshake E g i now)"
| "jni_step E g (JOnDatagram i now path_id data) = map_option fst (jni_on_datagram E g i now path_id data)"
| "jni_step E g (JSendMessage i data) = map_option fst (jni_send_message E g i data)"
| "jni_step E g (JCloseSession i) = map_option fst (jni_close_session E g i)"
| "jni_step E g (JConfigureNat i relay stun turn realm user pass) =
     map_option fst (jni_configure_nat E g i relay stun turn realm user pass)"
| "jni_step E g (JConfigureClientTls i name) = map_option fst (jni_configure_client_tls E g i name)"
| "jni_step E g (JTlsClearAnchors i) = map_option fst (jni_tls_clear_anchors E g i)"
| "jni_step E g (JTlsAddAnchorPem i pem) = map_option fst (jni_tls_add_anchor_pem E g i pem)"
| "jni_step E g (JConfigureServerTls i name cert key) = map_option fst (jni_configure_server_tls E g i name cert key)"
| "jni_step E g (JServerSendMessage i cid data now) = map_option fst (jni_server_send_message E g i cid data now)"
| "jni_step E g (JPollTimers i now limit) = map_option fst (jni_poll_timers E g i now limit)"
| "jni_step E g (JPollNat i now) = map_option fst (jni_poll_nat E g i now)"
| "jni_step E g (JClearOutput i) = map_option fst (jni_clear_output E g i)"

fun jni_run :: "engine_env \<Rightarrow> registry \<Rightarrow> jni_call list \<Rightarrow> registry option" where
  "jni_run E g [] = Some g"
| "jni_run E g (c # cs) = (case jni_step E g c of None \<Rightarrow> None | Some g \<Rightarrow> jni_run E g cs)"

text \<open>The numbers and the arrays of a call, and the call of the C interface it stands for.\<close>

fun numbers :: "jni_call \<Rightarrow> int list" where
  "numbers (JNewClient cid msr miss disconnect) = [sint cid, sint msr, sint miss, sint disconnect]"
| "numbers (JNewServer msr miss disconnect) = [sint msr, sint miss, sint disconnect]"
| "numbers (JBeginHandshake i now) = [sint i, sint now]"
| "numbers (JOnDatagram i now path_id data) = [sint i, sint now, sint path_id]"
| "numbers (JServerSendMessage i cid data now) = [sint i, sint cid, sint now]"
| "numbers (JPollTimers i now limit) = [sint i, sint now, sint limit]"
| "numbers (JPollNat i now) = [sint i, sint now]"
| "numbers (JFree i) = [sint i]"
| "numbers (JSendMessage i data) = [sint i]"
| "numbers (JCloseSession i) = [sint i]"
| "numbers (JConfigureNat i relay stun turn realm user pass) = [sint i]"
| "numbers (JConfigureClientTls i name) = [sint i]"
| "numbers (JTlsClearAnchors i) = [sint i]"
| "numbers (JTlsAddAnchorPem i pem) = [sint i]"
| "numbers (JConfigureServerTls i name cert key) = [sint i]"
| "numbers (JClearOutput i) = [sint i]"

fun arrays :: "jni_call \<Rightarrow> bytes option list" where
  "arrays (JOnDatagram i now path_id data) = [data]"
| "arrays (JSendMessage i data) = [data]"
| "arrays (JConfigureNat i relay stun turn realm user pass) = [stun, turn, realm, user, pass]"
| "arrays (JConfigureClientTls i name) = [name]"
| "arrays (JTlsAddAnchorPem i pem) = [pem]"
| "arrays (JConfigureServerTls i name cert key) = [name, cert, key]"
| "arrays (JServerSendMessage i cid data now) = [data]"
| "arrays _ = []"

fun c_call :: "jni_call \<Rightarrow> ffi_call" where
  "c_call (JNewClient cid msr miss disconnect) = NewClient cid msr miss disconnect"
| "c_call (JNewServer msr miss disconnect) = NewServer msr miss disconnect"
| "c_call (JFree i) = FreeHandle i"
| "c_call (JBeginHandshake i now) = Call i (BeginHandshake now)"
| "c_call (JOnDatagram i now path_id data) = Call i (Datagram now path_id data)"
| "c_call (JSendMessage i data) = Call i (SendMessage data)"
| "c_call (JCloseSession i) = Call i CloseSession"
| "c_call (JConfigureNat i relay stun turn realm user pass) = Call i (ConfigureNat (sint relay) stun turn realm user pass)"
| "c_call (JConfigureClientTls i name) = Call i (ConfigureClientTls name)"
| "c_call (JTlsClearAnchors i) = Call i TlsClearAnchors"
| "c_call (JTlsAddAnchorPem i pem) = Call i (TlsAddAnchorPem pem)"
| "c_call (JConfigureServerTls i name cert key) = Call i (ConfigureServerTls name cert key)"
| "c_call (JServerSendMessage i cid data now) = Call i (ServerSendMessage cid data now)"
| "c_call (JPollTimers i now limit) = Call i (PollTimers now (unat limit))"
| "c_call (JPollNat i now) = Call i (PollNat now)"
| "c_call (JClearOutput i) = Call i ClearOutput"

definition accepted :: "jni_call \<Rightarrow> bool" where
  "accepted c \<longleftrightarrow> (\<forall>n \<in> set (numbers c). 0 \<le> n) \<and> None \<notin> set (arrays c)"

lemma with_bytes_simps [simp]: "with_bytes g None k = Some (g, - 1)" "with_bytes g (Some bs) k = k (Some bs)"
  by (simp_all add: with_bytes_def)

lemmas jni_defs = jni_new_client_def jni_new_server_def jni_free_def jni_begin_handshake_def jni_on_datagram_def
  jni_send_message_def jni_close_session_def jni_configure_nat_def jni_configure_client_tls_def jni_tls_clear_anchors_def
  jni_tls_add_anchor_pem_def jni_configure_server_tls_def jni_server_send_message_def jni_poll_timers_def
  jni_poll_nat_def jni_clear_output_def

lemma with_bytes_read [simp]: "None \<noteq> data \<Longrightarrow> with_bytes g data k = k data"
  by (cases data) auto

lemma jni_step_accepted: "accepted c \<Longrightarrow> jni_step E g c = ffi_step E g (c_call c)"
  by (cases c) (auto simp: accepted_def jni_defs linorder_not_less)

lemma jni_step_rejected: "\<not> accepted c \<Longrightarrow> jni_step E g c = Some g"
  by (cases c) (auto simp: accepted_def jni_defs linorder_not_less with_bytes_def split: option.splits)

text \<open>C33: the Java interface is the C interface behind its checks.  After any calls from Java the registry is the one
  that the calls with no negative number and no unreadable array alone make through C; the others change nothing.\<close>

theorem jni_refines_ffi: "jni_run E g calls = ffi_run E g (map c_call (filter accepted calls))"
  by (induction calls arbitrary: g) (auto simp: jni_step_accepted jni_step_rejected split: option.split)

section \<open>Reading from Java\<close>

lemma as_jint_inverse: "n < 2 ^ 31 \<Longrightarrow> sint (as_jint n) = int n"
  unfolding as_jint_def by transfer (simp add: signed_take_bit_int_eq_self)

text \<open>From Java too the output is read back exactly.  For a datagram shorter than 2 GiB the length is the
  datagram's, and copying into an array of that length, or a longer one, stores the datagram at its start,
  leaves the rest of the array and returns the length; an array too short is left as it was, with -1.  Assumed of
  \<^verbatim>\<open>set_byte_array_region\<close>, as the JNI documents it: it stores the region or, when it does not fit, throws.\<close>

theorem jni_reads_datagram:
  assumes region: "\<And>out bs. set_region out bs = (if length bs \<le> length out then Some (bs @ drop (length bs) out) else None)"
    and "list_get (out_datagrams g handle) (unat index) = Some (path_id, d)" and "\<not> neg handle" "\<not> neg index"
    and "d \<noteq> []" and "length d < 2 ^ 31"
  shows "sint (jni_out_datagram_len g handle index) = int (length d)
    \<and> jni_out_datagram_path_id g handle index = path_id
    \<and> jni_out_datagram_copy set_region g handle index out =
      (if length d \<le> length out then (d @ drop (length d) out, jni_out_datagram_len g handle index) else (out, - 1))"
proof -
  have len: "out_datagram_len g handle (unat index) = length d" using assms(2) by (simp add: out_datagram_len_def)
  moreover have "out_datagram_copy g handle (unat index) (Some (replicate (length d) 0)) = (Some d, length d)"
    using assms(2) by (simp add: out_datagram_copy_def copy_out_all)
  ultimately show ?thesis
    using assms(2-6) as_jint_inverse [of "length d"]
    by (simp add: jni_out_datagram_copy_def copy_through_def copy_bytes_to_jbyte_array_def region
        jni_out_datagram_len_def jni_out_datagram_path_id_def out_datagram_path_id_def)
qed

definition java_region :: "bytes \<Rightarrow> bytes \<Rightarrow> bytes option" where
  "java_region out bs = (if length bs \<le> length out then Some (bs @ drop (length bs) out) else None)"

definition one_datagram :: registry where
  "one_datagram = \<lparr>rg_handles = [(1, (new_handle (ClientEngine (client_new 7 sample_config)))
     \<lparr>eh_output := \<lparr>ob_datagrams = [(3, [10, 20])], ob_events = []\<rparr>\<rparr>)], rg_next_handle = 2\<rparr>"

theorem jni_reads_datagram_witness:
  "sint (jni_out_datagram_len one_datagram 1 0) = 2
   \<and> jni_out_datagram_copy java_region one_datagram 1 0 [0, 0, 0] = ([10, 20, 0], jni_out_datagram_len one_datagram 1 0)"
proof -
  have d: "list_get (out_datagrams one_datagram 1) (unat (0 :: jint)) = Some (3, [10, 20])"
    by (simp add: out_datagrams_def one_datagram_def list_get_def bmap_get_def new_handle_def)
  show ?thesis using jni_reads_datagram [OF java_region_def d, of "[0, 0, 0]"] by simp
qed

end
