(* ===== verification/Conversation.thy ===== *)
theory Conversation
  imports Engine_Tls
begin

text \<open>
  Two engines talking: from the handshake through the adapters to messages in both directions, with everything
  in between, the runtimes, the session store and the wire, run as the application runs it: it calls the
  engines, takes the output out of their buffers after every call and hands the datagrams to the other side.
\<close>

section \<open>Driving two engines\<close>

text \<open>Datagrams given to an engine one after the other; what it sends and reports, read after each call.  A call
  that fails or aborts ends the drive.\<close>

fun feed :: "engine_env \<Rightarrow> u64 \<Rightarrow> u32 \<Rightarrow> bytes list \<Rightarrow> engine_handle \<Rightarrow> (engine_handle \<times> bytes list \<times> string list) option" where
  "feed E now path [] h = Some (h, [], [])"
| "feed E now path (d # ds) h =
     (case engine_on_datagram E now path d h of
        None \<Rightarrow> None
      | Some (h1, rc) \<Rightarrow>
          if rc \<noteq> 0 then None
          else map_option (\<lambda>(h2, bs, es). (h2, outbox h1 @ bs, ob_events (eh_output h1) @ es)) (feed E now path ds h1))"

text \<open>Rounds of exchanging what is in flight, until nothing is; the client's events and the server's.\<close>

fun pump :: "engine_env \<Rightarrow> u64 \<Rightarrow> u32 \<Rightarrow> u32 \<Rightarrow> nat \<Rightarrow> bytes list \<Rightarrow> bytes list \<Rightarrow> engine_handle \<times> engine_handle
    \<Rightarrow> (engine_handle \<times> engine_handle \<times> string list \<times> string list) option" where
  "pump E now cp sp 0 to_c to_s (c, s) = (if to_c = [] \<and> to_s = [] then Some (c, s, [], []) else None)"
| "pump E now cp sp (Suc n) to_c to_s (c, s) =
     (case (feed E now cp to_c c, feed E now sp to_s s) of
        (Some (c, from_c, ec), Some (s, from_s, es)) \<Rightarrow>
          map_option (\<lambda>(c, s, ec', es'). (c, s, ec @ ec', es @ es')) (pump E now cp sp n from_s from_c (c, s))
      | _ \<Rightarrow> None)"

datatype utterance = FromClient bytes | FromServer bytes

fun content :: "utterance \<Rightarrow> bytes" where
  "content (FromClient p) = p"
| "content (FromServer p) = p"

fun say :: "engine_env \<Rightarrow> u64 \<Rightarrow> u32 \<Rightarrow> u32 \<Rightarrow> nat \<Rightarrow> u64 \<Rightarrow> utterance \<Rightarrow> engine_handle \<times> engine_handle
    \<Rightarrow> (engine_handle \<times> engine_handle \<times> string list \<times> string list) option" where
  "say E cid cp sp n now (FromClient p) (c, s) =
     (let (c, rc) = engine_send_message E p c in
      if rc \<noteq> 0 then None
      else map_option (\<lambda>(c', s', ec, es). (c', s', ob_events (eh_output c) @ ec, es)) (pump E now cp sp n [] (outbox c) (c, s)))"
| "say E cid cp sp n now (FromServer p) (c, s) =
     (let (s, rc) = engine_server_send_message E cid p now s in
      if rc \<noteq> 0 then None
      else map_option (\<lambda>(c', s', ec, es). (c', s', ec, ob_events (eh_output s) @ es)) (pump E now cp sp n (outbox s) [] (c, s)))"

fun converse :: "engine_env \<Rightarrow> u64 \<Rightarrow> u32 \<Rightarrow> u32 \<Rightarrow> nat \<Rightarrow> (u64 \<times> utterance) list \<Rightarrow> engine_handle \<times> engine_handle
    \<Rightarrow> (engine_handle \<times> engine_handle \<times> string list \<times> string list) option" where
  "converse E cid cp sp n [] (c, s) = Some (c, s, [], [])"
| "converse E cid cp sp n ((now, u) # us) (c, s) =
     (case say E cid cp sp n now u (c, s) of
        None \<Rightarrow> None
      | Some (c, s, ec, es) \<Rightarrow>
          map_option (\<lambda>(c, s, ec', es'). (c, s, ec @ ec', es @ es')) (converse E cid cp sp n us (c, s)))"

section \<open>What the application reads\<close>

text \<open>The texts of the events, spelled out.\<close>

definition client_core_json :: "engine_env \<Rightarrow> event \<Rightarrow> string" where
  "client_core_json E e = ee_json E [(''kind'', JsonText ''client_core''), (''event'', JsonText (ee_debug_event E e))]"

definition client_deliver_json :: "engine_env \<Rightarrow> u64 \<Rightarrow> bytes \<Rightarrow> string" where
  "client_deliver_json E w p = ee_json E [(''kind'', JsonText ''client_deliver''), (''msg_id'', JsonNumber (unat w)),
     (''payload_b64'', JsonText (ee_base64 E p))]"

definition server_core_json :: "engine_env \<Rightarrow> u64 \<Rightarrow> event \<Rightarrow> string" where
  "server_core_json E cid e = ee_json E [(''kind'', JsonText ''server_core''), (''cid'', JsonNumber (unat cid)),
     (''event'', JsonText (ee_debug_event E e))]"

definition server_deliver_json :: "engine_env \<Rightarrow> u64 \<Rightarrow> u64 \<Rightarrow> bytes \<Rightarrow> string" where
  "server_deliver_json E cid w p = ee_json E [(''kind'', JsonText ''server_deliver''), (''cid'', JsonNumber (unat cid)),
     (''msg_id'', JsonNumber (unat w)), (''payload_b64'', JsonText (ee_base64 E p))]"

text \<open>The events of one message with the identifier \<open>w\<close>: on the sending client, on the receiving server, on the
  receiving client; a sending server reads nothing.\<close>

definition client_advertises :: "engine_env \<Rightarrow> u64 \<Rightarrow> string list" where
  "client_advertises E w = [client_core_json E (QueueAdvertised w)]"

definition server_receives :: "engine_env \<Rightarrow> u64 \<Rightarrow> u64 \<Rightarrow> bytes \<Rightarrow> string list" where
  "server_receives E cid w p = [server_core_json E cid (RequestRangeSent w w), server_core_json E cid (MessageDelivered w),
     server_core_json E cid (MessageReceived w p), server_deliver_json E cid w p]"

definition client_receives :: "engine_env \<Rightarrow> u64 \<Rightarrow> bytes \<Rightarrow> string list" where
  "client_receives E w p = [client_core_json E (RequestRangeSent w w), client_core_json E (MessageDelivered w),
     client_deliver_json E w p]"

text \<open>The events of a whole conversation in which the client has sent \<open>i\<close> and the server \<open>j\<close> messages so far.\<close>

fun transcript :: "engine_env \<Rightarrow> u64 \<Rightarrow> nat \<Rightarrow> nat \<Rightarrow> utterance list \<Rightarrow> string list \<times> string list" where
  "transcript E cid i j [] = ([], [])"
| "transcript E cid i j (FromClient p # us) =
     (let w = word_of_nat (i + 1); (ec, es) = transcript E cid (i + 1) j us
      in (client_advertises E w @ ec, server_receives E cid w p @ es))"
| "transcript E cid i j (FromServer p # us) =
     (let w = word_of_nat (j + 1); (ec, es) = transcript E cid i (j + 1) us
      in (client_receives E w p @ ec, es))"

text \<open>The texts the engines make of the events of their machines.\<close>

definition client_texts :: "engine_env \<Rightarrow> event list \<Rightarrow> string list" where
  "client_texts E es = map (client_event_text E \<circ> ClientCore) es"

definition server_texts :: "engine_env \<Rightarrow> u64 \<Rightarrow> event list \<Rightarrow> string list" where
  "server_texts E cid es = map (server_event_text E) (concat (map (translate_event (ee_server E) cid) es))"

definition reception :: "u64 \<Rightarrow> bytes \<Rightarrow> event list" where
  "reception w p = [RequestRangeSent w w, MessageDelivered w, MessageReceived w p]"

lemma texts_spelled_out:
  "client_texts E [QueueAdvertised w] = client_advertises E w"
  "server_texts E cid (reception w p) = server_receives E cid w p"
  "client_texts E (reception w p) = client_receives E w p"
  by (simp_all add: client_texts_def server_texts_def reception_def client_advertises_def server_receives_def client_receives_def
      client_event_text_def server_event_text_def translate_event_def memory_env_def client_core_json_def client_deliver_json_def
      server_core_json_def server_deliver_json_def)

section \<open>An engine as the endpoint of a machine\<close>

text \<open>What feeding an engine has in common on both sides: it holds a machine of the connection, a datagram of the
  connection that keeps the machine established is a step of the machine, and nothing else reaches the buffers.\<close>

locale endpoint =
  fixes cid :: u64 and path :: u32 and E :: engine_env and holds :: "core_machine \<Rightarrow> engine_handle \<Rightarrow> bool"
    and texts :: "event list \<Rightarrow> string list"
  assumes datagram_step: "holds m h \<Longrightarrow> framed cid d \<Longrightarrow> on_datagram m now path d = (m', Inr out) \<Longrightarrow> lifecycle m' = Established \<Longrightarrow>
      \<exists>h'. engine_on_datagram E now path d h = Some (h', 0) \<and> holds m' h'
        \<and> outbox h' = map dgram_bytes (core_output.outbound_datagrams out) \<and> ob_events (eh_output h') = texts (events out)"
    and texts_nil: "texts [] = []" and texts_append: "texts (es @ es') = texts es @ texts es'"
begin

lemma feeds:
  "holds m h \<Longrightarrow> \<forall>d \<in> set ds. framed cid d \<Longrightarrow> core_deliver m now path ds = Some (m', bs, es) \<Longrightarrow>
   \<exists>h'. feed E now path ds h = Some (h', bs, texts es) \<and> holds m' h'"
proof (induction ds arbitrary: m h bs es)
  case (Cons d ds)
  obtain m1 out bs' es' where d: "on_datagram m now path d = (m1, Inr out)" "lifecycle m1 = Established"
      "core_deliver m1 now path ds = Some (m', bs', es')"
      "bs = map dgram_bytes (core_output.outbound_datagrams out) @ bs'" "es = events out @ es'"
    using Cons.prems(3) by (auto split: prod.splits sum.splits option.splits if_splits)
  obtain h1 where h1: "engine_on_datagram E now path d h = Some (h1, 0)" "holds m1 h1"
      "outbox h1 = map dgram_bytes (core_output.outbound_datagrams out)" "ob_events (eh_output h1) = texts (events out)"
    using datagram_step [OF Cons.prems(1) _ d(1,2)] Cons.prems(2) by auto
  obtain h' where "feed E now path ds h1 = Some (h', bs', texts es')" "holds m' h'"
    using Cons.IH [OF h1(2) _ d(3)] Cons.prems(2) by auto
  then show ?case using h1 d(4,5) by (simp add: texts_append)
qed (simp add: texts_nil)

end

text \<open>The client's machine, and the machine of the connection in the server's session table.\<close>

definition client_holds :: "core_machine \<Rightarrow> engine_handle \<Rightarrow> bool" where
  "client_holds m h \<longleftrightarrow> (\<exists>r. client_open r h \<and> cr_core r = m)"

definition server_holds :: "u64 \<Rightarrow> u32 \<Rightarrow> core_machine \<Rightarrow> engine_handle \<Rightarrow> bool" where
  "server_holds cid path m h \<longleftrightarrow>
     (\<exists>r. server_open path r h \<and> memory_ok (sv_store r) \<and> machine_at (sv_sessions r) cid = Some m)"

lemma framed_not_dtls: "framed c d \<Longrightarrow> \<not> is_dtls_packet d"
  using decodable_not_dtls by (auto simp: framed_def)

lemma server_datagram_step:
  assumes "server_holds cid path m h" and "framed cid d" and "on_datagram m now path d = (m', Inr out)" and "lifecycle m' = Established"
  shows "\<exists>h'. engine_on_datagram E now path d h = Some (h', 0) \<and> server_holds cid path m' h'
    \<and> outbox h' = map dgram_bytes (core_output.outbound_datagrams out) \<and> ob_events (eh_output h') = server_texts E cid (events out)"
proof -
  obtain r where r: "server_open path r h" "memory_ok (sv_store r)" "machine_at (sv_sessions r) cid = Some m"
    using assms(1) by (auto simp: server_holds_def)
  obtain fr where fr: "decode d = Inr fr" "frame_cid fr = cid" using assms(2) by (auto simp: framed_def)
  have "lifecycle m' \<noteq> Lost" using assms(4) by simp
  note served = memory_server.known_datagram_serves [OF r(2) fr r(3) assms(3) this, of "ee_elapsed_us E" "ee_base64 E"]
  obtain r' o' where o': "server_runtime_on_datagram (ee_server E) r now path d = (r', Inr o')" "memory_ok (sv_store r')"
      "machine_at (sv_sessions r') cid = Some m'"
      "map dgram_bytes (sro_outbound_datagrams o') = map dgram_bytes (core_output.outbound_datagrams out)"
      "sro_events o' = concat (map (translate_event (ee_server E) cid) (events out))"
    by (rule server_servedD [OF served])
  from server_open_passes [OF r(1) framed_not_dtls [OF assms(2)] o'(1)] o'(2-5) show ?thesis
    by (auto simp: server_holds_def server_texts_def)
qed

interpretation client_end: endpoint cid path E client_holds "client_texts E" for cid path E
proof unfold_locales
  fix m h d now m' out
  assume "client_holds m h" "framed cid d" "on_datagram m now path d = (m', Inr out)"
  then show "\<exists>h'. engine_on_datagram E now path d h = Some (h', 0) \<and> client_holds m' h'
      \<and> outbox h' = map dgram_bytes (core_output.outbound_datagrams out) \<and> ob_events (eh_output h') = client_texts E (events out)"
    using client_open_passes [OF _ framed_not_dtls] by (fastforce simp: client_holds_def client_texts_def)
qed (simp_all add: client_texts_def)

interpretation server_end: endpoint cid path E "server_holds cid path" "server_texts E cid" for cid path E
  by unfold_locales (simp_all only: server_datagram_step, simp_all add: server_texts_def)

lemma client_sends:
  assumes "client_holds m h" and "on_api_send m p = (m', Inr out)"
  shows "\<exists>h'. engine_send_message E p h = (h', 0) \<and> client_holds m' h'
    \<and> outbox h' = map dgram_bytes (core_output.outbound_datagrams out) \<and> ob_events (eh_output h') = client_texts E (events out)"
  using assms
  by (auto simp: client_holds_def client_open_def engine_send_message_def client_send_message_def client_call_def client_result_def
      client_apply_core_output_def normalize_client_output_def outbox_def dgram_pair_def client_texts_def Let_def)

lemma server_sends:
  assumes "server_holds cid path m h" and "on_api_send m p = (m', Inr out)" and "lifecycle m' = Established"
  shows "\<exists>h'. engine_server_send_message E cid p now h = (h', 0) \<and> server_holds cid path m' h'
    \<and> outbox h' = map dgram_bytes (core_output.outbound_datagrams out) \<and> ob_events (eh_output h') = server_texts E cid (events out)"
proof -
  obtain r where r: "server_open path r h" "memory_ok (sv_store r)" "machine_at (sv_sessions r) cid = Some m"
    using assms(1) by (auto simp: server_holds_def)
  have "lifecycle m' \<noteq> Lost" using assms(3) by simp
  note served = memory_server.send_serves [OF r(2,3) assms(2) this, of "ee_elapsed_us E" "ee_base64 E" now]
  obtain r' o' where o': "server_send_message (ee_server E) r cid p now = (r', Inr o')" "memory_ok (sv_store r')"
      "machine_at (sv_sessions r') cid = Some m'"
      "map dgram_bytes (sro_outbound_datagrams o') = map dgram_bytes (core_output.outbound_datagrams out)"
      "sro_events o' = concat (map (translate_event (ee_server E) cid) (events out))"
    by (rule server_servedD [OF served])
  then show ?thesis
    using r(1) by (auto simp: server_holds_def server_open_def engine_server_send_message_def server_result_def
        normalize_server_output_def outbox_def dgram_pair_def server_texts_def o_def)
qed

section \<open>The conversation\<close>

text \<open>Two engines with an established session, \<open>us\<close> sent by the client and \<open>vs\<close> by the server, everything received.\<close>

definition talking :: "u64 \<Rightarrow> u32 \<Rightarrow> bytes list \<Rightarrow> bytes list \<Rightarrow> engine_handle \<times> engine_handle \<Rightarrow> bool" where
  "talking cid sp us vs x \<longleftrightarrow> (\<exists>mc ms. client_holds mc (fst x) \<and> in_step Client cid us (length vs) (length vs) [] mc
     \<and> server_holds cid sp ms (snd x) \<and> in_step Server cid vs (length us) (length us) [] ms)"

lemma pump_idle: "pump E now cp sp n [] [] (c, s) = Some (c, s, [], [])"
  by (induction n) simp_all

lemma enough_rounds: "3 \<le> n \<Longrightarrow> \<exists>k. n = Suc (Suc (Suc k))"
  by presburger

lemma client_says:
  assumes t: "talking cid sp us vs (c, s)" and us: "length us + 1 < 2 ^ 64" and vs: "length vs < 2 ^ 64"
    and p: "length (message_chunks p) \<le> 65535" and n: "3 \<le> n"
  defines "w \<equiv> word_of_nat (length us + 1) :: u64"
  shows "\<exists>c' s'. say E cid cp sp n now (FromClient p) (c, s)
      = Some (c', s', client_advertises E w, server_receives E cid w p) \<and> talking cid sp (us @ [p]) vs (c', s')"
proof -
  obtain mc ms where m: "client_holds mc c" "in_step Client cid us (length vs) (length vs) [] mc"
      "server_holds cid sp ms s" "in_step Server cid vs (length us) (length us) [] ms"
    using t by (auto simp: talking_def)
  obtain a1 out advert b1 request a2 answer b2
    where sent: "on_api_send mc p = (a1, Inr out)" "map dgram_bytes (core_output.outbound_datagrams out) = advert"
      "events out = [QueueAdvertised w]" "lifecycle a1 = Established"
    and got: "core_deliver ms now sp advert = Some (b1, request, [RequestRangeSent w w])"
      "core_deliver a1 now cp request = Some (a2, answer, [])"
      "core_deliver b1 now sp answer = Some (b2, [], [MessageDelivered w, MessageReceived w p])"
    and final: "in_step Client cid (us @ [p]) (length vs) (length vs) [] a2" "in_step Server cid vs (length us + 1) (length us + 1) [] b2"
    and framed: "\<forall>d \<in> set (advert @ request @ answer). framed cid d"
    unfolding w_def by (rule message_exchanged [OF m(2,4) _ us vs p, of now sp cp]) auto
  obtain c1 where c1: "engine_send_message E p c = (c1, 0)" "client_holds a1 c1" "outbox c1 = advert"
      "ob_events (eh_output c1) = client_texts E [QueueAdvertised w]"
    using client_sends [OF m(1) sent(1), of E] sent(2,3) by auto
  obtain s1 where s1: "feed E now sp advert s = Some (s1, request, server_texts E cid [RequestRangeSent w w])" "server_holds cid sp b1 s1"
    using server_end.feeds [OF m(3) _ got(1), of E] framed by auto
  obtain c2 where c2: "feed E now cp request c1 = Some (c2, answer, client_texts E [])" "client_holds a2 c2"
    using client_end.feeds [OF c1(2) _ got(2), of cid E] framed by auto
  obtain s2 where s2: "feed E now sp answer s1 = Some (s2, [], server_texts E cid [MessageDelivered w, MessageReceived w p])"
      "server_holds cid sp b2 s2"
    using server_end.feeds [OF s1(2) _ got(3), of E] framed by auto
  obtain k where k: "n = Suc (Suc (Suc k))" using enough_rounds [OF n] by blast
  have "pump E now cp sp n [] advert (c1, s) = Some (c2, s2, [], server_texts E cid (reception w p))"
    by (simp add: k s1(1) c2(1) s2(1) pump_idle client_end.texts_nil server_end.texts_append [symmetric] reception_def)
  then have "say E cid cp sp n now (FromClient p) (c, s) = Some (c2, s2, client_texts E [QueueAdvertised w], server_texts E cid (reception w p))"
    by (simp add: c1)
  moreover have "talking cid sp (us @ [p]) vs (c2, s2)" using c2(2) s2(2) final by (auto simp: talking_def)
  ultimately show ?thesis unfolding texts_spelled_out by blast
qed

lemma server_says:
  assumes t: "talking cid sp us vs (c, s)" and us: "length us < 2 ^ 64" and vs: "length vs + 1 < 2 ^ 64"
    and p: "length (message_chunks p) \<le> 65535" and n: "3 \<le> n"
  defines "w \<equiv> word_of_nat (length vs + 1) :: u64"
  shows "\<exists>c' s'. say E cid cp sp n now (FromServer p) (c, s) = Some (c', s', client_receives E w p, [])
    \<and> talking cid sp us (vs @ [p]) (c', s')"
proof -
  obtain mc ms where m: "client_holds mc c" "in_step Client cid us (length vs) (length vs) [] mc"
      "server_holds cid sp ms s" "in_step Server cid vs (length us) (length us) [] ms"
    using t by (auto simp: talking_def)
  obtain a1 out advert b1 request a2 answer b2
    where sent: "on_api_send ms p = (a1, Inr out)" "map dgram_bytes (core_output.outbound_datagrams out) = advert"
      "events out = []" "lifecycle a1 = Established"
    and got: "core_deliver mc now cp advert = Some (b1, request, [RequestRangeSent w w])"
      "core_deliver a1 now sp request = Some (a2, answer, [])"
      "core_deliver b1 now cp answer = Some (b2, [], [MessageDelivered w, MessageReceived w p])"
    and final: "in_step Server cid (vs @ [p]) (length us) (length us) [] a2" "in_step Client cid us (length vs + 1) (length vs + 1) [] b2"
    and framed: "\<forall>d \<in> set (advert @ request @ answer). framed cid d"
    unfolding w_def by (rule message_exchanged [OF m(4,2) _ vs us p, of now cp sp]) auto
  obtain s1 where s1: "engine_server_send_message E cid p now s = (s1, 0)" "server_holds cid sp a1 s1" "outbox s1 = advert"
      "ob_events (eh_output s1) = []"
    using server_sends [OF m(3) sent(1,4), of E now] sent(2,3) by (auto simp: server_end.texts_nil)
  obtain c1 where c1: "feed E now cp advert c = Some (c1, request, client_texts E [RequestRangeSent w w])" "client_holds b1 c1"
    using client_end.feeds [OF m(1) _ got(1), of cid E] framed by auto
  obtain s2 where s2: "feed E now sp request s1 = Some (s2, answer, server_texts E cid [])" "server_holds cid sp a2 s2"
    using server_end.feeds [OF s1(2) _ got(2), of E] framed by auto
  obtain c2 where c2: "feed E now cp answer c1 = Some (c2, [], client_texts E [MessageDelivered w, MessageReceived w p])" "client_holds b2 c2"
    using client_end.feeds [OF c1(2) _ got(3), of cid E] framed by auto
  obtain k where k: "n = Suc (Suc (Suc k))" using enough_rounds [OF n] by blast
  have "pump E now cp sp n advert [] (c, s1) = Some (c2, s2, client_texts E (reception w p), [])"
    by (simp add: k c1(1) s2(1) c2(1) pump_idle server_end.texts_nil client_end.texts_append [symmetric] reception_def)
  then have "say E cid cp sp n now (FromServer p) (c, s) = Some (c2, s2, client_texts E (reception w p), [])"
    by (simp add: s1)
  moreover have "talking cid sp us (vs @ [p]) (c2, s2)" using c2(2) s2(2) final by (auto simp: talking_def)
  ultimately show ?thesis unfolding texts_spelled_out by blast
qed

lemma few_chunks: "length p \<le> 988 * k \<Longrightarrow> length (message_chunks p) \<le> k"
proof -
  assume "length p \<le> 988 * k"
  then have "(length p + 987) div 988 < Suc k" by (subst div_less_iff_less_mult) simp_all
  then show ?thesis by (simp add: message_chunks_def length_chunks)
qed

lemma converse_delivers:
  assumes "3 \<le> n"
  shows "talking cid sp us vs (c, s) \<Longrightarrow> length us + length vs + length msgs < 2 ^ 64 - 1 \<Longrightarrow>
    \<forall>x \<in> set msgs. length (content (snd x)) \<le> 988 * 65535 \<Longrightarrow>
    \<exists>c' s' ec es. converse E cid cp sp n msgs (c, s) = Some (c', s', ec, es)
      \<and> transcript E cid (length us) (length vs) (map snd msgs) = (ec, es)"
proof (induction msgs arbitrary: c s us vs)
  case (Cons x msgs)
  obtain now u where x: "x = (now, u)" by fastforce
  note small = few_chunks [of "content u" 65535]
  have bounds: "length us + 1 < 2 ^ 64" "length vs + 1 < 2 ^ 64" "length us < 2 ^ 64" "length vs < 2 ^ 64" using Cons.prems(2) by auto
  show ?case
  proof (cases u)
    case (FromClient p)
    obtain c1 s1 where 1: "say E cid cp sp n now u (c, s) = Some (c1, s1, client_advertises E (word_of_nat (length us + 1)),
        server_receives E cid (word_of_nat (length us + 1)) p)" "talking cid sp (us @ [p]) vs (c1, s1)"
      using client_says [OF Cons.prems(1) bounds(1,4) _ assms, of p E cp now] small Cons.prems(3) by (auto simp: x FromClient)
    from Cons.IH [OF 1(2)] 1(1) Cons.prems(2,3) show ?thesis
      by (auto simp: x FromClient Let_def simp del: of_nat_add of_nat_Suc say.simps split: prod.splits)
  next
    case (FromServer p)
    obtain c1 s1 where 1: "say E cid cp sp n now u (c, s) = Some (c1, s1, client_receives E (word_of_nat (length vs + 1)) p, [])"
        "talking cid sp us (vs @ [p]) (c1, s1)"
      using server_says [OF Cons.prems(1) bounds(3,2) _ assms, of p E cp now] small Cons.prems(3) by (auto simp: x FromServer)
    from Cons.IH [OF 1(2)] 1(1) Cons.prems(2,3) show ?thesis
      by (auto simp: x FromServer Let_def simp del: of_nat_add of_nat_Suc say.simps split: prod.splits)
  qed
qed simp

text \<open>C3: a client engine and a server engine configured for one name, as in \<open>engines_connect\<close>, and any conversation
  between the applications on them, in both directions: after the three rounds of the handshake every call
  succeeds, whatever has been sent is received exactly once, unchanged and in order, and each application reads
  exactly the events of the transcript, each message within three rounds of exchanging the output of the engines.\<close>

theorem conversation_delivered:
  assumes "valid_utf8 (string_bytes name)" "valid_utf8 (string_bytes cert)" "valid_utf8 (string_bytes key)"
    and "build_server_tls_cfg E name cert key = Inr scfg" and "pem \<noteq> []" and "openssl_accepts (ee_openssl E) pem"
    and "length msgs < 2 ^ 64 - 1" and "\<forall>x \<in> set msgs. length (content (snd x)) \<le> 988 * 65535" and "3 \<le> n"
  shows "\<exists>c0 s0 x c s.
    engine_run E (new_handle (ClientEngine (client_new cid ccfg)))
      [ConfigureClientTls (Some (string_bytes name)), TlsAddAnchorPem (Some pem), BeginHandshake t] = Some c0
    \<and> engine_run E (new_handle (ServerEngine (server_new sccfg (replicate DEFAULT_SHARD_COUNT []))))
      [ConfigureServerTls (Some (string_bytes name)) (Some (string_bytes cert)) (Some (string_bytes key))] = Some s0
    \<and> rounds E now cp sp 3 (c0, s0) = Some x
    \<and> converse E cid cp sp n msgs x = Some (c, s, transcript E cid 0 0 (map snd msgs))"
proof -
  obtain c0 s0 c s r m core where met:
      "engine_run E (new_handle (ClientEngine (client_new cid ccfg)))
        [ConfigureClientTls (Some (string_bytes name)), TlsAddAnchorPem (Some pem), BeginHandshake t] = Some c0"
      "engine_run E (new_handle (ServerEngine (server_new sccfg (replicate DEFAULT_SHARD_COUNT []))))
        [ConfigureServerTls (Some (string_bytes name)) (Some (string_bytes cert)) (Some (string_bytes key))] = Some s0"
      "rounds E now cp sp 3 (c0, s0) = Some (c, s)"
    and ends: "client_open r c" "in_step Client cid [] 0 0 [] (cr_core r)" "server_open sp m s" "memory_ok (sv_store m)"
      "machine_at (sv_sessions m) cid = Some core" "in_step Server cid [] 0 0 [] core"
    using engines_meet [OF assms(1-6), of cid ccfg t sccfg now cp sp] by blast
  have "talking cid sp [] [] (c, s)"
    using ends by (auto simp: talking_def client_holds_def server_holds_def)
  from converse_delivers [OF assms(9) this, of msgs E cp] assms(7,8) met show ?thesis by fastforce
qed

theorem conversation_delivered_witness:
  "\<exists>c0 s0 x c s. engine_run sample_env sample_client start_client = Some c0
    \<and> engine_run sample_env sample_server [configure_server] = Some s0 \<and> rounds sample_env 1 0 3 3 (c0, s0) = Some x
    \<and> converse sample_env 7 0 3 3 [(2, FromClient [1, 2]), (3, FromServer (replicate 2000 5)), (4, FromClient [])] x
      = Some (c, s, transcript sample_env 7 0 0 [FromClient [1, 2], FromServer (replicate 2000 5), FromClient []])"
proof -
  obtain cfg where "build_server_tls_cfg sample_env ''node'' ''cert'' ''key'' = Inr cfg" using sample_server_cfg by blast
  from conversation_delivered [OF sample_utf8 this _ sample_accepts,
      of "[(2, FromClient [1, 2]), (3, FromServer (replicate 2000 5)), (4, FromClient [])]" 3 7 sample_config 0 sample_config 1 0 3]
  show ?thesis unfolding start_client_def by simp
qed

end
