(* ===== verification/Packet_Trace.thy ===== *)
theory Packet_Trace
  imports Engine_Tls "HOL-Library.Char_ord" "HOL-Library.List_Lexorder"
begin

text \<open>
  The packet trace of \<^verbatim>\<open>v3-ffi/src/lib.rs\<close>: when an environment variable asks for it, every datagram an engine is
  given and (nearly) every one it returns is a line on standard error, with a note that says whether the same
  packet has been seen before.  The state is two statics of the process: whether the trace is on, decided at the
  first packet, and the packets seen.
\<close>

section \<open>Switching the trace on\<close>

text \<open>The environment (\<open>None\<close> for a variable that is not set or not Unicode), the standard library's
  \<^verbatim>\<open>DefaultHasher\<close>, whose algorithm is unspecified, and the texts of the decoder's errors.\<close>

record trace_env =
  te_var :: "string \<Rightarrow> string option"
  te_hash :: "bytes \<Rightarrow> u64"
  te_wire_error_text :: "wire_error \<Rightarrow> string"

type_synonym sightings = "(string, u128 \<times> u32) bmap"

record packet_trace =
  pt_enabled :: "bool option"
  pt_dedup :: sightings

definition packet_trace_new :: packet_trace where
  "packet_trace_new = \<lparr>pt_enabled = None, pt_dedup = []\<rparr>"

definition parse_bool_env :: "trace_env \<Rightarrow> string \<Rightarrow> bool option" where
  "parse_bool_env X name =
     map_option (\<lambda>v. to_ascii_lowercase (trim v) \<in> {''1'', ''true'', ''yes'', ''on''}) (te_var X name)"

definition or_else :: "'a option \<Rightarrow> 'a option \<Rightarrow> 'a option" where
  "or_else a b = (case a of None \<Rightarrow> b | Some x \<Rightarrow> Some x)"

definition proto_log_enabled :: "trace_env \<Rightarrow> packet_trace \<Rightarrow> packet_trace \<times> bool" where
  "proto_log_enabled X st =
     (case pt_enabled st of
        Some b \<Rightarrow> (st, b)
      | None \<Rightarrow>
          let b = (case or_else (or_else (parse_bool_env X ''TODERO_V3_PROTO_ENABLED'') (parse_bool_env X ''TODERO_V3_PROTO_DEBUG''))
                (parse_bool_env X ''V3PROTO_ENABLED'') of None \<Rightarrow> False | Some b \<Rightarrow> b)
          in (st\<lparr>pt_enabled := Some b\<rparr>, b))"

section \<open>Repeated packets\<close>

definition packet_hash64 :: "trace_env \<Rightarrow> bytes \<Rightarrow> u64" where
  "packet_hash64 X bs = te_hash X bs"

text \<open>\<^verbatim>\<open>{:016x}\<close> prints sixteen hexadecimal digits.\<close>

definition hex_digit :: "nat \<Rightarrow> char" where
  "hex_digit n = char_of (if n < 10 then 48 + n else 87 + n)"

definition hex16 :: "u64 \<Rightarrow> string" where
  "hex16 w = map (\<lambda>i. hex_digit (unat w div 16 ^ i mod 16)) (rev [0..<16])"

definition dedup_key :: "trace_env \<Rightarrow> string \<Rightarrow> string \<Rightarrow> u32 \<Rightarrow> string \<Rightarrow> u64 \<Rightarrow> bytes \<Rightarrow> string" where
  "dedup_key X side dir path_id kind cid bs =
     side @ ''|'' @ dir @ ''|'' @ decimal (unat path_id) @ ''|'' @ kind @ ''|'' @ decimal (unat cid) @ ''|''
       @ hex16 (packet_hash64 X bs)"

definition dup_note :: "u32 \<Rightarrow> u128 \<Rightarrow> string" where
  "dup_note n delta =
     ''dup=true dup_count='' @ decimal (unat n) @ '' dup_delta_ms='' @ decimal (unat delta)"

text \<open>The body of \<^verbatim>\<open>dedup_note\<close> once the key is there; the last step is \<^verbatim>\<open>HashMap::retain\<close>.\<close>

definition dedup_count :: "string \<Rightarrow> u128 \<Rightarrow> sightings \<Rightarrow> sightings \<times> string" where
  "dedup_count key ts m =
     (case bmap_get m key of
        Some (last_ts, n) \<Rightarrow>
          let n = saturating_add n 1
          in (bmap_insert key (ts, n) m, dup_note n (saturating_sub ts last_ts))
      | None \<Rightarrow> (bmap_insert key (ts, 1) m, ''dup=false''))"

definition dedup_retain :: "u128 \<Rightarrow> sightings \<Rightarrow> sightings" where
  "dedup_retain ts m =
     (if 20000 < length m then filter (\<lambda>(_, last_ts, _). saturating_sub ts 60000 \<le> last_ts) m else m)"

definition dedup_entry :: "string \<Rightarrow> u128 \<Rightarrow> sightings \<Rightarrow> sightings \<times> string" where
  "dedup_entry key ts m = (let (m, out) = dedup_count key ts m in (dedup_retain ts m, out))"

definition dedup_note ::
    "trace_env \<Rightarrow> string \<Rightarrow> string \<Rightarrow> u32 \<Rightarrow> string \<Rightarrow> u64 \<Rightarrow> bytes \<Rightarrow> u128 \<Rightarrow> packet_trace \<Rightarrow> packet_trace \<times> string" where
  "dedup_note X side dir path_id kind cid bs ts st =
     (let (m, out) = dedup_entry (dedup_key X side dir path_id kind cid bs) ts (pt_dedup st)
      in (st\<lparr>pt_dedup := m\<rparr>, out))"

section \<open>The lines\<close>

text \<open>The derived \<^verbatim>\<open>Debug\<close> of \<^verbatim>\<open>MessageType\<close>.\<close>

fun message_type_debug :: "message_type \<Rightarrow> string" where
  "message_type_debug ClientHello = ''ClientHello''"
| "message_type_debug ServerHello = ''ServerHello''"
| "message_type_debug HelloAck = ''HelloAck''"
| "message_type_debug Msr = ''Msr''"
| "message_type_debug RequestRange = ''RequestRange''"
| "message_type_debug Data = ''Data''"
| "message_type_debug Fragment = ''Fragment''"
| "message_type_debug Error = ''Error''"
| "message_type_debug Close = ''Close''"

definition line_head :: "u128 \<Rightarrow> string \<Rightarrow> string \<Rightarrow> u32 \<Rightarrow> string \<Rightarrow> string" where
  "line_head ts side dir path_id kind =
     ''[V3PROTO] ts_ms='' @ decimal (unat ts) @ '' side='' @ side @ '' dir='' @ dir @ '' path='' @ decimal (unat path_id)
       @ '' type='' @ kind"

record packet =
  pk_side :: string
  pk_dir :: string
  pk_path :: u32
  pk_bytes :: bytes

text \<open>What is written to standard error; \<open>ts\<close> is what \<^verbatim>\<open>now_ms\<close> reads from the clock.\<close>

definition log_proto_packet :: "trace_env \<Rightarrow> u128 \<Rightarrow> packet \<Rightarrow> packet_trace \<Rightarrow> packet_trace \<times> string list" where
  "log_proto_packet X ts p st =
     (let (st, on) = proto_log_enabled X st;
          side = pk_side p; dir = pk_dir p; path_id = pk_path p; bs = pk_bytes p
      in if \<not> on then (st, [])
         else if is_dtls_packet bs then
           let (st, note) = dedup_note X side dir path_id ''DTLS'' 0 bs ts st
           in (st, [line_head ts side dir path_id ''DTLS'' @ '' len='' @ decimal (length bs) @ '' '' @ note])
         else
           case decode bs of
             Inr frame \<Rightarrow>
               let kind = message_type_debug (frame_type frame);
                   (st, note) = dedup_note X side dir path_id kind (frame_cid frame) bs ts st
               in (st, [line_head ts side dir path_id kind @ '' cid='' @ decimal (unat (frame_cid frame))
                    @ '' payload_len='' @ decimal (length (frame_payload frame)) @ '' tlv_count='' @ decimal (length (frame_tlvs frame))
                    @ '' '' @ note])
           | Inl err \<Rightarrow>
               let (st, note) = dedup_note X side dir path_id ''UNKNOWN'' 0 bs ts st
               in (st, [line_head ts side dir path_id ''UNKNOWN'' @ '' len='' @ decimal (length bs) @ '' err=''
                    @ te_wire_error_text X err @ '' '' @ note]))"

section \<open>What an engine traces\<close>

definition sent_packets :: "string \<Rightarrow> (u32 \<times> bytes) list \<Rightarrow> packet list" where
  "sent_packets side ds = map (\<lambda>(path_id, bs). \<lparr>pk_side = side, pk_dir = ''send'', pk_path = path_id, pk_bytes = bs\<rparr>) ds"

text \<open>Both \<^verbatim>\<open>normalize\<close> functions log what they put into the buffer; a failed call of a runtime puts nothing there.\<close>

definition client_sent :: "client_result \<Rightarrow> packet list" where
  "client_sent res =
     (case snd res of Inl _ \<Rightarrow> [] | Inr out \<Rightarrow> sent_packets ''client'' (map dgram_pair (cro_outbound_datagrams out)))"

definition server_sent :: "memory_store server_result \<Rightarrow> packet list" where
  "server_sent res =
     (case snd res of Inl _ \<Rightarrow> [] | Inr out \<Rightarrow> sent_packets ''server'' (map dgram_pair (sro_outbound_datagrams out)))"

definition adapter_sent :: "string \<Rightarrow> u32 \<Rightarrow> crypto_error + handshake_output \<Rightarrow> packet list" where
  "adapter_sent side path_id res =
     (case res of Inl _ \<Rightarrow> [] | Inr out \<Rightarrow> sent_packets side (map (Pair path_id) (Handshake.outbound_datagrams out)))"

definition datagram_packets :: "engine_env \<Rightarrow> u64 \<Rightarrow> u32 \<Rightarrow> bytes \<Rightarrow> engine_handle \<Rightarrow> packet list" where
  "datagram_packets E now path_id bs h =
     (case eh_kind h of
        ClientEngine r \<Rightarrow>
          \<lparr>pk_side = ''client'', pk_dir = ''recv'', pk_path = path_id, pk_bytes = bs\<rparr> #
          (let core = client_sent (client_runtime_on_datagram r now path_id bs) in
           case eh_tls h of
             TlsClient tls \<Rightarrow>
               if \<not> ct_established tls then adapter_sent ''client'' path_id (snd (openssl_on_datagram (ct_adapter tls) bs))
               else if is_dtls_packet bs then [] else core
           | _ \<Rightarrow> core)
      | ServerEngine r \<Rightarrow>
          \<lparr>pk_side = ''server'', pk_dir = ''recv'', pk_path = path_id, pk_bytes = bs\<rparr> #
          (let core = server_sent (server_runtime_on_datagram (ee_server E) r now path_id bs) in
           case eh_tls h of
             TlsServer tls \<Rightarrow>
              (case path_session E tls path_id of
                 None \<Rightarrow> []
               | Some session \<Rightarrow>
                   if is_dtls_packet bs then adapter_sent ''server'' path_id (snd (openssl_on_datagram (sp_adapter session) bs))
                   else if \<not> sp_established session then [] else core)
           | _ \<Rightarrow> core))"

fun call_packets :: "engine_env \<Rightarrow> engine_handle \<Rightarrow> engine_call \<Rightarrow> packet list" where
  "call_packets E h (BeginHandshake now) =
     (case eh_kind h of
        ServerEngine _ \<Rightarrow> []
      | ClientEngine r \<Rightarrow>
         (case eh_tls h of
            TlsClient tls \<Rightarrow> if \<not> ct_established tls then [] else client_sent (client_begin_handshake r now)
          | _ \<Rightarrow> client_sent (client_begin_handshake r now)))"
| "call_packets E h (Datagram now path_id p) = datagram_packets E now path_id (bytes_from_ptr p) h"
| "call_packets E h (SendMessage p) =
     (case eh_kind h of ClientEngine r \<Rightarrow> client_sent (client_send_message r (bytes_from_ptr p)) | ServerEngine _ \<Rightarrow> [])"
| "call_packets E h CloseSession =
     (case eh_kind h of ClientEngine r \<Rightarrow> client_sent (client_close_session r) | ServerEngine _ \<Rightarrow> [])"
| "call_packets E h (ServerSendMessage cid p now) =
     (case eh_kind h of
        ClientEngine _ \<Rightarrow> []
      | ServerEngine r \<Rightarrow> server_sent (server_send_message (ee_server E) r cid (bytes_from_ptr p) now))"
| "call_packets E h (PollTimers now limit) =
     (case eh_kind h of
        ClientEngine r \<Rightarrow> client_sent (client_poll_timers r now limit)
      | ServerEngine r \<Rightarrow> server_sent (server_poll_timers (ee_server E) r now limit))"
| "call_packets E h _ = []"

fun log_packets :: "trace_env \<Rightarrow> (u128 \<times> packet) list \<Rightarrow> packet_trace \<Rightarrow> packet_trace \<times> string list" where
  "log_packets X [] st = (st, [])"
| "log_packets X ((ts, p) # ps) st =
     (let (st, ls) = log_proto_packet X ts p st; (st, ls') = log_packets X ps st in (st, ls @ ls'))"

section \<open>The notes are right\<close>

text \<open>The specification: a packet's earlier sightings, of the whole history.\<close>

definition seen_at :: "(string \<times> u128) list \<Rightarrow> string \<Rightarrow> u128 list" where
  "seen_at hist key = map snd (filter (\<lambda>s. fst s = key) hist)"

lemma seen_at_simps [simp]:
  "seen_at [] key = []" "seen_at (hist @ [(k, ts)]) key = seen_at hist key @ (if k = key then [ts] else [])"
  by (simp_all add: seen_at_def)

definition dedup_run :: "(string \<times> u128) list \<Rightarrow> sightings" where
  "dedup_run hist = fold (\<lambda>(key, ts) m. fst (dedup_entry key ts m)) hist []"

lemma dedup_run_simps [simp]:
  "dedup_run [] = []" "dedup_run (hist @ [(key, ts)]) = fst (dedup_entry key ts (dedup_run hist))"
  by (simp_all add: dedup_run_def)

text \<open>The number \<^verbatim>\<open>count\<close> holds after a number of sightings.\<close>

definition count_of :: "nat \<Rightarrow> u32" where
  "count_of n = word_of_nat (min n (2 ^ 32 - 1))"

lemma unat_count_of: "unat (count_of n) = min n (2 ^ 32 - 1)"
  by (simp add: count_of_def unat_of_nat min_def)

lemma count_of_Suc [simp]: "saturating_add (count_of n) 1 = count_of (Suc n)"
  unfolding word_unat_eq_iff by (simp add: sat_simps unat_count_of)

lemma count_of_1: "count_of (Suc 0) = 1"
  unfolding word_unat_eq_iff by (simp add: unat_count_of)

text \<open>What the map holds after a history: exact last times, and nothing is forgotten within a minute, or at all while
  there are no more than 20000 different packets.\<close>

definition dedup_ok :: "(string \<times> u128) list \<Rightarrow> sightings \<Rightarrow> bool" where
  "dedup_ok hist m \<longleftrightarrow> bmap_ok m \<and> set (bmap_keys m) \<subseteq> fst ` set hist
     \<and> (\<forall>key t n. bmap_get m key = Some (t, n) \<longrightarrow> t = last (seen_at hist key) \<and> (\<exists>j. 1 \<le> j \<and> n = count_of j))
     \<and> (\<forall>key. seen_at hist key \<noteq> [] \<longrightarrow> saturating_sub (snd (last hist)) 60000 \<le> last (seen_at hist key) \<longrightarrow> bmap_get m key \<noteq> None)
     \<and> (card (fst ` set hist) \<le> 20000 \<longrightarrow> (\<forall>key. bmap_get m key =
          (if seen_at hist key = [] then None else Some (last (seen_at hist key), count_of (length (seen_at hist key))))))"

lemma seen_at_Nil: "seen_at hist key = [] \<longleftrightarrow> key \<notin> fst ` set hist"
  by (auto simp: seen_at_def filter_empty_conv)

lemma bmap_get_retain:
  assumes "bmap_ok m"
  shows "bmap_get (dedup_retain ts m) key =
    (case bmap_get m key of None \<Rightarrow> None
     | Some (t, n) \<Rightarrow> if length m \<le> 20000 \<or> saturating_sub ts 60000 \<le> t then Some (t, n) else None)"
proof -
  have "map_of (filter P m) key = (case map_of m key of None \<Rightarrow> None | Some v \<Rightarrow> if P (key, v) then Some v else None)" for P
    using bmap_ok_distinct [OF assms] unfolding bmap_keys_def
    by (induction m) (auto split: option.split dest!: map_of_SomeD simp: image_iff, force+)
  then show ?thesis by (auto simp: dedup_retain_def bmap_get_def split: option.split)
qed

lemma bmap_ok_filter: "bmap_ok m \<Longrightarrow> bmap_ok (filter P m)"
  by (induction m) (auto simp: bmap_ok_def bmap_keys_def)

lemma sub_mono: "a \<le> b \<Longrightarrow> saturating_sub a c \<le> saturating_sub b c" for a b c :: "'a::len word"
  by (simp add: word_le_nat_alt sat_simps)

lemma dedup_ok_step:
  assumes ok: "dedup_ok hist m" and time: "hist \<noteq> [] \<Longrightarrow> snd (last hist) \<le> ts"
  shows "dedup_ok (hist @ [(key, ts)]) (fst (dedup_entry key ts m))"
proof -
  let ?h = "hist @ [(key, ts)]" and ?small = "\<lambda>h. card (fst ` set h) \<le> 20000"
  have b: "bmap_ok m" and keys: "set (bmap_keys m) \<subseteq> fst ` set hist"
    and times: "bmap_get m k = Some (t, n) \<Longrightarrow> t = last (seen_at hist k) \<and> (\<exists>j. 1 \<le> j \<and> n = count_of j)"
    and recent: "seen_at hist k \<noteq> [] \<Longrightarrow> saturating_sub (snd (last hist)) 60000 \<le> last (seen_at hist k) \<Longrightarrow> bmap_get m k \<noteq> None"
    and exact: "?small hist \<Longrightarrow> bmap_get m k =
      (if seen_at hist k = [] then None else Some (last (seen_at hist k), count_of (length (seen_at hist k))))" for k t n
    using ok unfolding dedup_ok_def by blast+
  obtain n where n: "fst (dedup_count key ts m) = bmap_insert key (ts, n) m" "\<exists>j. 1 \<le> j \<and> n = count_of j"
      "?small hist \<longrightarrow> n = count_of (Suc (length (seen_at hist key)))"
  proof (cases "bmap_get m key")
    case None
    have "\<exists>j \<ge> 1. (1 :: u32) = count_of j" by (rule exI [of _ "Suc 0"]) (simp add: count_of_1)
    moreover have "(1 :: u32) = count_of (Suc (length (seen_at hist key)))" if "?small hist"
      using exact [OF that, of key] None by (simp add: count_of_1 split: if_splits)
    ultimately show thesis using that [of 1] None by (simp add: dedup_count_def)
  next
    case (Some e)
    obtain t c where e: "e = (t, c)" by (cases e)
    obtain j where j: "1 \<le> j" "c = count_of j" using times [of key t c] Some e by auto
    then have "\<exists>j \<ge> 1. saturating_add c 1 = count_of j" by (intro exI [of _ "Suc j"]) simp
    moreover have "saturating_add c 1 = count_of (Suc (length (seen_at hist key)))" if "?small hist"
      using exact [OF that, of key] Some e by (simp flip: count_of_Suc split: if_splits)
    ultimately show thesis using that [of "saturating_add c 1"] Some e by (simp add: dedup_count_def Let_def)
  qed
  let ?m = "bmap_insert key (ts, n) m"
  have m: "fst (dedup_entry key ts m) = dedup_retain ts ?m" by (simp add: dedup_entry_def n(1) [symmetric] case_prod_unfold Let_def)
  note get = bmap_get_retain [of ?m ts, OF bmap_ok_insert [OF b]]
  have keys': "set (bmap_keys ?m) \<subseteq> fst ` set ?h" using keys by auto
  have small: "?small hist" if "?small ?h" using that by (auto simp: card_insert_if split: if_splits)
  have fits: "length ?m \<le> 20000" if "?small ?h"
    using bmap_length_card [OF bmap_ok_insert [OF b]] card_mono [OF _ keys'] that by simp
  show ?thesis
    unfolding dedup_ok_def m
  proof (intro conjI allI impI)
    show "bmap_ok (dedup_retain ts ?m)" using b by (auto simp: dedup_retain_def bmap_ok_filter)
    show "set (bmap_keys (dedup_retain ts ?m)) \<subseteq> fst ` set ?h"
      using keys' by (auto simp: dedup_retain_def bmap_keys_def)
  next
    fix k t c assume "bmap_get (dedup_retain ts ?m) k = Some (t, c)"
    then have "bmap_get ?m k = Some (t, c)" by (auto simp: get split: option.splits if_splits)
    then show "t = last (seen_at ?h k)" "\<exists>j. 1 \<le> j \<and> c = count_of j" using n(2) times [of k t c] by (auto split: if_splits)
  next
    fix k assume k: "seen_at ?h k \<noteq> []" "saturating_sub (snd (last ?h)) 60000 \<le> last (seen_at ?h k)"
    show "bmap_get (dedup_retain ts ?m) k \<noteq> None"
    proof (cases "k = key")
      case True
      have "saturating_sub ts 60000 \<le> ts" by (simp add: word_le_nat_alt sat_simps)
      then show ?thesis using True by (simp add: get)
    next
      case False
      then have s: "seen_at hist k \<noteq> []" "saturating_sub ts 60000 \<le> last (seen_at hist k)" using k by auto
      have "hist \<noteq> []" using s(1) by auto
      then have "saturating_sub (snd (last hist)) 60000 \<le> last (seen_at hist k)"
        using sub_mono [OF time, of 60000] s(2) by (meson order_trans)
      then obtain t c where tc: "bmap_get m k = Some (t, c)" using recent [OF s(1)] by auto
      then show ?thesis using False s(2) times [of k t c] by (auto simp: get)
    qed
  next
    fix k assume sm: "?small ?h"
    show "bmap_get (dedup_retain ts ?m) k =
        (if seen_at ?h k = [] then None else Some (last (seen_at ?h k), count_of (length (seen_at ?h k))))"
    proof -
      have g: "bmap_get (dedup_retain ts ?m) k = bmap_get ?m k" using fits [OF sm] by (simp add: get split: option.split)
      show ?thesis unfolding g using exact [OF small [OF sm], of k] n(3) small [OF sm] by simp
    qed
  qed
qed

lemma dedup_run_ok: "sorted (map snd hist) \<Longrightarrow> dedup_ok hist (dedup_run hist)"
proof (induction hist rule: rev_induct)
  case Nil
  then show ?case by (simp add: dedup_ok_def bmap_keys_def)
next
  case (snoc s hist)
  obtain key ts where s: "s = (key, ts)" by fastforce
  have "snd (last hist) \<le> ts" if "hist \<noteq> []" using snoc.prems that by (simp add: s sorted_append)
  with snoc show ?case by (auto simp: s sorted_append intro: dedup_ok_step)
qed

text \<open>C39: the note of a packet, after any packets logged at times that do not decrease: a packet never seen is no
  duplicate, one last seen within a minute is a duplicate, with the exact time since; and while there have been no
  more than 20000 different packets nothing is ever forgotten and the count is the exact number of sightings, up
  to the largest \<^verbatim>\<open>u32\<close>.\<close>

theorem dedup_exact:
  assumes "sorted (map snd hist @ [ts])"
  shows "let past = seen_at hist key; out = snd (dedup_entry key ts (dedup_run hist)) in
    (past = [] \<longrightarrow> out = ''dup=false'')
    \<and> (past \<noteq> [] \<and> unat ts \<le> unat (last past) + 60000 \<longrightarrow> (\<exists>n > 1. out = dup_note n (ts - last past)))
    \<and> (past \<noteq> [] \<and> card (fst ` set hist) \<le> 20000 \<longrightarrow> out = dup_note (count_of (Suc (length past))) (ts - last past))"
proof -
  let ?m = "dedup_run hist" and ?past = "seen_at hist key"
  have ok: "dedup_ok hist ?m" using assms by (intro dedup_run_ok) (simp add: sorted_append)
  have out: "snd (dedup_entry key ts ?m) = (case bmap_get ?m key of None \<Rightarrow> ''dup=false''
      | Some (t, n) \<Rightarrow> dup_note (saturating_add n 1) (saturating_sub ts t))"
    by (auto simp: dedup_entry_def dedup_count_def case_prod_unfold Let_def split: option.split)
  have past: "last ?past \<le> ts" "snd (last hist) \<le> ts" if "?past \<noteq> []"
  proof -
    have "last ?past \<in> snd ` set hist" using last_in_set [OF that] by (auto simp: seen_at_def)
    then show "last ?past \<le> ts" using assms by (auto simp: sorted_append)
    have "hist \<noteq> []" using that by auto
    then show "snd (last hist) \<le> ts" using assms by (simp add: sorted_append)
  qed
  have "bmap_get ?m key = None" if "?past = []"
    using ok that unfolding dedup_ok_def seen_at_Nil set_bmap_keys by blast
  moreover have "\<exists>n > 1. snd (dedup_entry key ts ?m) = dup_note n (ts - last ?past)"
    if "?past \<noteq> []" "unat ts \<le> unat (last ?past) + 60000"
  proof -
    have "saturating_sub ts 60000 \<le> last ?past" using that(2) by (simp add: word_le_nat_alt sat_simps)
    then have "saturating_sub (snd (last hist)) 60000 \<le> last ?past" using sub_mono [OF past(2) [OF that(1)]] order_trans by blast
    then have "bmap_get ?m key \<noteq> None" using ok that(1) unfolding dedup_ok_def by blast
    then obtain t c where tc: "bmap_get ?m key = Some (t, c)" by auto
    then obtain j where j: "t = last ?past" "1 \<le> j" "c = count_of j" using ok unfolding dedup_ok_def by blast
    then have "1 < count_of (Suc j)" by (simp add: word_less_nat_alt unat_count_of)
    moreover have "snd (dedup_entry key ts ?m) = dup_note (count_of (Suc j)) (ts - last ?past)"
      using past(1) [OF that(1)] by (simp add: out tc j(1,3) saturating_sub_def)
    ultimately show ?thesis by blast
  qed
  moreover have "snd (dedup_entry key ts ?m) = dup_note (count_of (Suc (length ?past))) (ts - last ?past)"
    if "?past \<noteq> []" "card (fst ` set hist) \<le> 20000"
  proof -
    have "bmap_get ?m key = (if ?past = [] then None else Some (last ?past, count_of (length ?past)))"
      using ok that(2) unfolding dedup_ok_def by blast
    then have "bmap_get ?m key = Some (last ?past, count_of (length ?past))" using that(1) by simp
    then show ?thesis using past(1) [OF that(1)] by (simp add: out saturating_sub_def)
  qed
  ultimately show ?thesis by (simp add: out Let_def)
qed

theorem dedup_exact_witness:
  "snd (dedup_entry ''a'' 1200 (dedup_run [(''a'', 1000), (''b'', 1100), (''a'', 1150)])) = dup_note 3 50"
  using dedup_exact [of "[(''a'', 1000), (''b'', 1100), (''a'', 1150)]" 1200 "''a''"]
  by (simp add: seen_at_def count_of_def card_insert_if Let_def del: dedup_run_simps)

text \<open>The limit of 20000 is none: what is younger than a minute stays, and once there is more of it than that every
  packet searches all of it.\<close>

lemma young_all_kept:
  assumes "\<forall>(t, _) \<in> snd ` set m. saturating_sub ts 60000 \<le> t"
  shows "dedup_retain ts m = m"
  using assms by (auto simp: dedup_retain_def filter_id_conv)

section \<open>The trace is complete, but for two exceptions\<close>

definition sends_of :: "packet list \<Rightarrow> (u32 \<times> bytes) list" where
  "sends_of ps = map (\<lambda>p. (pk_path p, pk_bytes p)) (filter (\<lambda>p. pk_dir p = ''send'') ps)"

lemma sends_of_simps [simp]:
  "sends_of [] = []" "sends_of (p # ps) = (if pk_dir p = ''send'' then [(pk_path p, pk_bytes p)] else []) @ sends_of ps"
  by (simp_all add: sends_of_def)

lemma sends_of_sent [simp]: "sends_of (sent_packets side ds) = ds"
  by (induction ds) (auto simp: sends_of_def sent_packets_def)

text \<open>The two calls that send without a line: starting the client's adapter, and the datagram that establishes it and
  so starts the core.\<close>

definition starts_adapter :: "engine_handle \<Rightarrow> engine_call \<Rightarrow> bool" where
  "starts_adapter h c \<longleftrightarrow> (\<exists>now tls. c = BeginHandshake now \<and> eh_tls h = TlsClient tls \<and> \<not> ct_established tls)"

definition starts_core :: "engine_handle \<Rightarrow> engine_handle \<Rightarrow> engine_call \<Rightarrow> bool" where
  "starts_core h h' c \<longleftrightarrow> (\<exists>now path_id p tls tls'. c = Datagram now path_id p \<and> eh_tls h = TlsClient tls
     \<and> \<not> ct_core_started tls \<and> eh_tls h' = TlsClient tls' \<and> ct_core_started tls')"

fun sends :: "engine_handle \<Rightarrow> engine_call \<Rightarrow> bool" where
  "sends h (BeginHandshake _) = (case eh_kind h of ClientEngine _ \<Rightarrow> True | ServerEngine _ \<Rightarrow> False)"
| "sends h (Datagram _ _ _) = True"
| "sends h (SendMessage _) = True"
| "sends h CloseSession = True"
| "sends h (ServerSendMessage _ _ _) = True"
| "sends h (PollTimers _ _) = True"
| "sends h (PollNat _) = True"
| "sends h _ = False"

lemma client_result_sent:
  "client_result E h res = (h', 0) \<Longrightarrow> ob_datagrams (eh_output h') = sends_of (client_sent res)"
  by (auto simp: client_result_def client_sent_def set_error_def normalize_client_output_def split: prod.splits sum.splits)

lemma server_result_sent:
  "server_result E h res = (h', 0) \<Longrightarrow> ob_datagrams (eh_output h') = sends_of (server_sent res)"
  by (auto simp: server_result_def server_sent_def set_error_def normalize_server_output_def split: prod.splits sum.splits)

lemma client_tls_sent:
  assumes h: "eh_tls h = TlsClient tls" and o: "client_tls_datagram E now path_id bs r tls h = (h', 0)"
  shows "\<exists>untraced. ob_datagrams (eh_output h') = sends_of (adapter_sent ''client'' path_id (snd (openssl_on_datagram (ct_adapter tls) bs))) @ untraced
    \<and> (untraced \<noteq> [] \<longrightarrow> starts_core h h' (Datagram now path_id p))"
proof -
  obtain a out where a: "openssl_on_datagram (ct_adapter tls) bs = (a, Inr out)"
    using o by (cases "openssl_on_datagram (ct_adapter tls) bs"; cases "snd (openssl_on_datagram (ct_adapter tls) bs)")
      (auto simp: client_tls_datagram_def set_error_def Let_def)
  obtain r1 res where b: "client_begin_handshake r now = (r1, res)" by fastforce
  show ?thesis
    using o h by (cases res) (auto simp: client_tls_datagram_def a b client_tls_established_def adapter_sent_def starts_core_def
        set_error_def Let_def split: if_splits)
qed

lemma server_tls_sent:
  assumes "server_tls_datagram E path_id bs tls session h = (h', 0)"
  shows "ob_datagrams (eh_output h') = sends_of (adapter_sent ''server'' path_id (snd (openssl_on_datagram (sp_adapter session) bs)))"
  using assms by (cases "openssl_on_datagram (sp_adapter session) bs"; cases "snd (openssl_on_datagram (sp_adapter session) bs)")
    (auto simp: server_tls_datagram_def adapter_sent_def set_error_def Let_def)

lemma datagram_sent:
  assumes "engine_on_datagram E now path_id bs h = Some (h', 0)"
  shows "\<exists>untraced. ob_datagrams (eh_output h') = sends_of (datagram_packets E now path_id bs h) @ untraced
    \<and> (untraced \<noteq> [] \<longrightarrow> starts_core h h' (Datagram now path_id p))"
proof (cases "eh_kind h")
  case (ClientEngine r)
  then show ?thesis
    using assms client_result_sent client_tls_sent
    by (cases "eh_tls h") (auto simp: engine_on_datagram_def client_engine_datagram_def datagram_packets_def empty_buffer_def Let_def split: if_splits)
next
  case (ServerEngine r)
  then show ?thesis
    using assms server_result_sent server_tls_sent
    by (cases "eh_tls h") (auto simp: engine_on_datagram_def server_engine_datagram_def datagram_packets_def empty_buffer_def Let_def
        split: if_splits option.splits)
qed

text \<open>C40: whatever a successful call sends is traced, in order, except for what starting the client's adapter sends, and
  for the client hello of the core, which the datagram that establishes the adapter sends.\<close>

theorem trace_complete:
  assumes "engine_step E h c = Some (h', 0)" and "sends h c"
  shows "\<exists>untraced. ob_datagrams (eh_output h') = sends_of (call_packets E h c) @ untraced
    \<and> (untraced \<noteq> [] \<longrightarrow> starts_adapter h c \<or> starts_core h h' c)"
proof (cases c)
  case (BeginHandshake now)
  then obtain r where r: "eh_kind h = ClientEngine r" using assms(2) by (cases "eh_kind h") auto
  show ?thesis
  proof (cases "starts_adapter h c")
    case True
    then show ?thesis using r by (auto simp: BeginHandshake starts_adapter_def)
  next
    case False
    then have "engine_begin_handshake E now h = client_result E h (client_begin_handshake r now)"
      "call_packets E h c = client_sent (client_begin_handshake r now)"
      using r by (auto simp: BeginHandshake starts_adapter_def engine_begin_handshake_def split: tls_mode.split)
    then show ?thesis using client_result_sent assms(1) by (simp add: BeginHandshake)
  qed
next
  case (Datagram now path_id p)
  then show ?thesis using datagram_sent [of E now path_id "bytes_from_ptr p" h h' p] assms(1) by auto
next
  case (SendMessage p)
  then show ?thesis using assms client_result_sent
    by (cases "eh_kind h") (fastforce simp: engine_send_message_def)+
next
  case CloseSession
  then show ?thesis using assms client_result_sent
    by (cases "eh_kind h") (fastforce simp: engine_close_session_def)+
next
  case (ServerSendMessage cid p now)
  then show ?thesis using assms server_result_sent
    by (cases "eh_kind h") (fastforce simp: engine_server_send_message_def)+
next
  case (PollTimers now limit)
  then have "ob_datagrams (eh_output h') = sends_of (call_packets E h c)"
    using assms(1) client_result_sent [of E h _ h'] server_result_sent [of E h _ h']
    by (cases "eh_kind h") (simp_all add: engine_poll_timers_def)
  then show ?thesis by simp
next
  case (PollNat now)
  then show ?thesis using assms
    by (auto simp: engine_poll_nat_def normalize_client_output_def normalize_server_output_def split: engine_kind.splits)
qed (use assms(2) in simp_all)

theorem trace_complete_witness:
  "\<exists>h'. engine_step sample_env sample_client (BeginHandshake 0) = Some (h', 0)
    \<and> ob_datagrams (eh_output h') = sends_of (call_packets sample_env sample_client (BeginHandshake 0))
    \<and> map snd (ob_datagrams (eh_output h')) = [frame_bytes ClientHello 7 [] []]"
proof -
  let ?r = "client_new 7 sample_config"
  have role: "core_role (cr_core ?r) = Client" "core_cid (cr_core ?r) = 7" by (simp_all add: client_new_def new_machine_def)
  obtain r' out where b: "client_begin_handshake ?r 0 = (r', Inr out)"
      "map dgram_pair (cro_outbound_datagrams out) = [(current_path_id (cr_core ?r), frame_bytes ClientHello 7 [] [])]"
    using client_begin_output [OF role(1), of 0] unfolding role(2) by (elim exE conjE)
  then obtain h' where h': "engine_begin_handshake sample_env 0 sample_client = (h', 0)"
      "ob_datagrams (eh_output h') = [(current_path_id (cr_core ?r), frame_bytes ClientHello 7 [] [])]"
    by (auto simp: engine_begin_handshake_def new_handle_def client_result_def normalize_client_output_def)
  then have st: "engine_step sample_env sample_client (BeginHandshake 0) = Some (h', 0)" by simp
  have *: "sends sample_client (BeginHandshake 0)" "\<not> starts_adapter sample_client (BeginHandshake 0)"
    "\<not> starts_core sample_client h' (BeginHandshake 0)"
    by (simp_all add: new_handle_def starts_adapter_def starts_core_def)
  have "ob_datagrams (eh_output h') = sends_of (call_packets sample_env sample_client (BeginHandshake 0))"
    using trace_complete [OF st *(1)] *(2,3) by (auto simp del: call_packets.simps)
  then show ?thesis using st h'(2) by (metis list.simps(8,9) snd_conv)
qed

end
