(* ===== verification/Orchestrator_Api.thy ===== *)
theory Orchestrator_Api
  imports Prelude
begin

text \<open>
  The data exchanged with the orchestrator, \<^verbatim>\<open>v3-orchestrator-api/src/lib.rs\<close>, and the one constant of
  \<^verbatim>\<open>v3-transport-udp/src/lib.rs\<close>.  The types have derived serialisation only; \<open>'v\<close> stands for
  \<^verbatim>\<open>serde_json::Value\<close>.
\<close>

record trace_context =
  tc_trace_id :: "string option"

text \<open>\<^verbatim>\<open>#[derive(Default)]\<close>, which \<^verbatim>\<open>#[serde(default)]\<close> puts where a request has no trace.\<close>

definition trace_context_default :: trace_context where
  "trace_context_default = \<lparr>tc_trace_id = None\<rparr>"

record register_endpoint_request =
  re_endpoint_id :: string
  re_vhost :: string
  re_ttl_ms :: u64
  re_trace :: trace_context

record ack_response =
  ack_ok :: bool

record 'v publish_candidates_request =
  pc_endpoint_id :: string
  pc_vhost :: string
  pc_generation :: u64
  pc_ttl_ms :: u64
  pc_payload :: 'v
  pc_trace :: trace_context

record discover_candidates_request =
  dc_endpoint_id :: string
  dc_vhost :: string
  dc_trace :: trace_context

record 'v discover_candidates_response =
  dr_found :: bool
  dr_payload :: "'v option"

record turn_credentials_request =
  tr_vhost :: string
  tr_purpose :: string
  tr_ttl_seconds :: u64
  tr_trace :: trace_context

record turn_credentials_response =
  ts_username :: string
  ts_credential :: string
  ts_ttl_seconds :: u64
  ts_realm :: string
  ts_not_before_epoch :: u64
  ts_not_after_epoch :: u64
  ts_rotation_epoch :: u64
  ts_scope :: string

record 'v path_selected_request =
  ps_source_endpoint_id :: string
  ps_target_endpoint_id :: string
  ps_vhost :: string
  ps_selected :: 'v
  ps_trace :: trace_context

record retry_budget =
  rb_max_retries :: u32
  rb_base_backoff_ms :: u64
  rb_jitter_ratio_bps :: u16

record outage_behavior_contract =
  ob_cached_candidate_fallback :: bool
  ob_retry_budget :: retry_budget
  ob_safe_failure_mode :: string

definition transport_udp_crate_name :: string where
  "transport_udp_crate_name = ''v3-transport-udp''"

end
