(* ===== verification/Test_Prelude.thy ===== *)
theory Test_Prelude
  imports Prelude
begin

text \<open>
  What the unit tests of the source are made of: \<^verbatim>\<open>expect\<close>, \<^verbatim>\<open>expect_err\<close> and \<^verbatim>\<open>contains\<close>.  The theories
  \<open>Core_Tests\<close>, \<open>Nat_Tests\<close>, \<open>Crypto_Tests\<close>, \<open>Runtime_Tests\<close>, \<open>Store_Tests\<close> and \<open>Engine_Tests\<close> hold the unit
  tests of the crates as predicates on the model, and that the model passes them: what the authors of the program
  expect on these inputs is what the definitions compute.
\<close>

text \<open>\<^verbatim>\<open>.expect(..)\<close>: the call must succeed; the rest of the test goes on with the new state and the result.\<close>

definition expect :: "'s \<times> ('e + 'a) \<Rightarrow> ('s \<Rightarrow> 'a \<Rightarrow> bool) \<Rightarrow> bool" where
  "expect r k = (case r of (s, Inl _) \<Rightarrow> False | (s, Inr a) \<Rightarrow> k s a)"

definition expect_ok :: "'e + 'a \<Rightarrow> ('a \<Rightarrow> bool) \<Rightarrow> bool" where
  "expect_ok r k = (case r of Inl _ \<Rightarrow> False | Inr a \<Rightarrow> k a)"

definition expect_err :: "'s \<times> ('e + 'a) \<Rightarrow> ('s \<Rightarrow> 'e \<Rightarrow> bool) \<Rightarrow> bool" where
  "expect_err r k = (case r of (s, Inl e) \<Rightarrow> k s e | (s, Inr _) \<Rightarrow> False)"

definition expect_some :: "'a option \<Rightarrow> ('a \<Rightarrow> bool) \<Rightarrow> bool" where
  "expect_some r k = (case r of None \<Rightarrow> False | Some a \<Rightarrow> k a)"

text \<open>\<^verbatim>\<open>str::contains\<close>.\<close>

definition contains :: "string \<Rightarrow> string \<Rightarrow> bool" where
  "contains s pat = (split_once pat s \<noteq> None)"

lemma expect_simps [simp]:
  "expect (s, Inr a) k = k s a" "expect (s, Inl e) k = False"
  "expect_ok (Inr b) k' = k' b" "expect_ok (Inl e') k' = False"
  "expect_err (s, Inl e'') l = l s e''" "expect_err (s, Inr c) l = False"
  "expect_some (Some d) l' = l' d" "expect_some None l' = False"
  by (simp_all add: expect_def expect_ok_def expect_err_def expect_some_def)

lemma expect_cong:
  "r = r' \<Longrightarrow> expect r k = expect r' k" "q = q' \<Longrightarrow> expect_ok q k' = expect_ok q' k'"
  "p = p' \<Longrightarrow> expect_err p l = expect_err p' l" "u = u' \<Longrightarrow> expect_some u l' = expect_some u' l'"
  by simp_all

lemma contains_append: "contains (pre @ pat @ post) pat"
proof (induction pre)
  case Nil
  have "take (length pat) (pat @ post) = pat" by simp
  then show ?case by (cases "pat @ post") (auto simp: contains_def simp del: take_append)
next
  case (Cons c pre)
  then show ?case by (auto simp: contains_def)
qed

end
