(* ===== verification/Core_Tests.thy ===== *)
theory Core_Tests
  imports Core_Exchange Test_Prelude
begin

unbundle bit_operations_syntax

text \<open>
  The unit tests of \<^verbatim>\<open>v3-wire\<close> and \<^verbatim>\<open>v3-core\<close>, as predicates on the model, in the order of the source, and that the
  model passes them.
\<close>

section \<open>Tests\<close>

subsection \<open>The wire format\<close>

definition roundtrip :: "wire_frame \<Rightarrow> bool" where
  "roundtrip frame = expect_ok (encode frame) (\<lambda>encoded. expect_ok (decode encoded) (\<lambda>decoded. decoded = frame))"

definition roundtrip_msr_frame :: bool where
  "roundtrip_msr_frame = roundtrip (new_frame Msr 3 0x0102030405060708 [1, 2, 3, 4]
     [\<lparr>tlv_kind = 1, tlv_value = [0x10, 0x11]\<rparr>, \<lparr>tlv_kind = 2, tlv_value = [0x20]\<rparr>])"

definition hex_char :: "u8 \<Rightarrow> char" where
  "hex_char v = (if v \<le> 9 then char_of (48 + unat v) else if v \<le> 15 then char_of (97 + (unat v - 10)) else CHR ''?'')"

definition hex_encode :: "bytes \<Rightarrow> string" where
  "hex_encode bs = concat (map (\<lambda>b. [hex_char (drop_bit 4 b AND 0x0f), hex_char (b AND 0x0f)]) bs)"

definition golden_vector_client_hello :: bool where
  "golden_vector_client_hello =
     expect_ok (encode (new_frame ClientHello 0 0x1111222233334444 [0xaa, 0xbb] [\<lparr>tlv_kind = 9, tlv_value = [1, 2, 3]\<rparr>]))
       (\<lambda>got. hex_encode got = ''030100111122223333444400020006aabb090003010203'')"

definition negotiation_vector_server_hello_with_capabilities :: bool where
  "negotiation_vector_server_hello_with_capabilities = roundtrip (new_frame ServerHello 1 0xababcdcd01020304 [1]
     [\<lparr>tlv_kind = 0x30, tlv_value = [7]\<rparr>, \<lparr>tlv_kind = 0x31, tlv_value = [0, 0, 0x3a, 0x98]\<rparr>])"

definition negotiation_vector_unknown_tlv_is_preserved :: bool where
  "negotiation_vector_unknown_tlv_is_preserved =
     expect_ok (encode (new_frame HelloAck 0 1 [] [\<lparr>tlv_kind = 0xfe, tlv_value = [0xde, 0xad, 0xbe, 0xef]\<rparr>])) (\<lambda>encoded.
     expect_ok (decode encoded) (\<lambda>decoded.
       length (frame_tlvs decoded) = 1 \<and> tlv_kind (frame_tlvs decoded ! 0) = 0xfe
       \<and> tlv_value (frame_tlvs decoded ! 0) = [0xde, 0xad, 0xbe, 0xef]))"

definition decode_rejects_invalid_version :: bool where
  "decode_rejects_invalid_version =
     (decode ((replicate HEADER_LEN 0)[0 := 1]) = Inl (UnsupportedVersion 1))"

definition decode_rejects_truncated_tlv :: bool where
  "decode_rejects_truncated_tlv =
     expect_ok (encode (new_frame Data 0 7 [1] [\<lparr>tlv_kind = 1, tlv_value = [2, 3, 4]\<rparr>])) (\<lambda>bytes.
       case decode (butlast bytes) of Inl (LengthMismatch _ _) \<Rightarrow> True | _ \<Rightarrow> False)"

definition decode_rejects_unknown_message_type :: bool where
  "decode_rejects_unknown_message_type =
     (decode ((replicate HEADER_LEN 0)[0 := WIRE_VERSION_V3, 1 := 0xfe]) = Inl (UnknownMessageType 0xfe))"

subsection \<open>The protocol machine\<close>

abbreviation sent_bytes :: "core_output \<Rightarrow> nat \<Rightarrow> bytes" where
  "sent_bytes out i \<equiv> dgram_bytes (outbound_datagrams out ! i)"

definition default_cfg :: core_config where
  "default_cfg = \<lparr>msr_interval_ms = 100, miss_window_count = 2, disconnect_window_ms = 1000\<rparr>"

definition basic_connect_and_steady_state :: bool where
  "basic_connect_and_steady_state =
     (let client = new_machine Client 42 default_cfg; server = new_machine Server 42 default_cfg in
      expect (begin_handshake client 0) (\<lambda>client start.
        HandshakeStarted \<in> set (events start) \<and> length (outbound_datagrams start) = 1 \<and>
      expect (on_datagram server 1 7 (sent_bytes start 0)) (\<lambda>server server_step.
        lifecycle server = Established \<and> HandshakeEstablished \<in> set (events server_step) \<and>
      expect (on_datagram client 2 7 (sent_bytes server_step 0)) (\<lambda>client client_step.
        lifecycle client = Established \<and> HandshakeEstablished \<in> set (events client_step)))))"

definition missed_msr_triggers_probe_then_reactivation :: bool where
  "missed_msr_triggers_probe_then_reactivation =
     (let client = (new_machine Client 7 default_cfg)
            \<lparr>lifecycle := Established, last_server_msr_at_ms := Some 0, disconnect_deadline_ms := Some 5000\<rparr> in
      expect (on_timer client 250 ClientProbe) (\<lambda>client probe.
        lifecycle client = Reactivating \<and> ReactivationProbeSent \<in> set (events probe) \<and>
      expect_ok (encode_frame Msr 7 (encode_msr_payload 0 0)) (\<lambda>msr.
      expect (on_datagram client 260 3 msr) (\<lambda>client after.
        lifecycle client = Established \<and> Reactivated \<in> set (events after)))))"

definition disconnect_convergence_marks_lost :: bool where
  "disconnect_convergence_marks_lost =
     (let client = (new_machine Client 9 default_cfg)\<lparr>lifecycle := Established, disconnect_deadline_ms := Some 1000\<rparr> in
      expect (on_timer client 1001 Disconnect) (\<lambda>client out.
        lifecycle client = Lost \<and> Disconnected \<in> set (events out)))"

text \<open>Both sides of a session, established without a handshake.\<close>

abbreviation established_pair :: "u64 \<Rightarrow> (core_machine \<Rightarrow> core_machine \<Rightarrow> bool) \<Rightarrow> bool" where
  "established_pair cid k \<equiv> k ((new_machine Client cid default_cfg)\<lparr>lifecycle := Established\<rparr>)
     ((new_machine Server cid default_cfg)\<lparr>lifecycle := Established\<rparr>)"

definition pull_flow_handles_repeated_request_and_ordered_delivery :: bool where
  "pull_flow_handles_repeated_request_and_ordered_delivery = established_pair 99 (\<lambda>client server.
      expect (on_api_send client (string_bytes ''hello'')) (\<lambda>client enqueue.
      expect (on_datagram server 10 1 (sent_bytes enqueue 0)) (\<lambda>server req1.
        RequestRangeSent 1 1 \<in> set (events req1) \<and>
      expect (on_datagram server 11 1 (sent_bytes enqueue 0)) (\<lambda>server req2.
        outbound_datagrams req2 = [] \<and>
      expect (on_datagram client 12 1 (sent_bytes req1 0)) (\<lambda>client data_out.
        length (outbound_datagrams data_out) = 1 \<and>
      expect (on_datagram server 13 1 (sent_bytes data_out 0)) (\<lambda>server delivered.
        last_ordered_rx server = 1 \<and> MessageDelivered 1 \<in> set (events delivered)))))))"

definition test_proposal :: timer_proposal where
  "test_proposal = \<lparr>proposal_msr_interval_ms = 2000, proposal_miss_window_count = 3, proposal_disconnect_window_ms = 20000\<rparr>"

definition timer_renegotiation_commits_on_ack :: bool where
  "timer_renegotiation_commits_on_ack = established_pair 101 (\<lambda>client server.
      expect (on_api_propose_timers client 1000 test_proposal) (\<lambda>client propose.
        (\<exists>e \<in> set (events propose). case e of TimerRenegotiationProposed _ \<Rightarrow> True | _ \<Rightarrow> False) \<and>
      expect (on_datagram server 1001 9 (sent_bytes propose 0)) (\<lambda>server server_seen.
        (\<exists>e \<in> set (events server_seen). case e of TimerRenegotiationCommitted _ \<Rightarrow> True | _ \<Rightarrow> False) \<and>
      expect (on_datagram client 1002 9 (sent_bytes server_seen 0)) (\<lambda>client client_ack.
        (\<exists>e \<in> set (events client_ack). case e of TimerRenegotiationCommitted _ \<Rightarrow> True | _ \<Rightarrow> False) \<and>
        msr_interval_ms (core_cfg client) = 2000 \<and> miss_window_count (core_cfg client) = 3))))"

definition timer_renegotiation_rejects_large_miss_window_step :: bool where
  "timer_renegotiation_rejects_large_miss_window_step = established_pair 202 (\<lambda>client server.
      let value = to_be_bytes 4 (1 :: u32) @ to_be_bytes 8 (2000 :: u64) @ to_be_bytes 8 (10 :: u64) @ to_be_bytes 8 (20000 :: u64) in
      expect_ok (encode (new_frame Msr 0 202 (encode_msr_payload 0 0) [\<lparr>tlv_kind = TLV_TIMER_PROPOSAL, tlv_value = value\<rparr>])) (\<lambda>frame.
      expect (on_datagram server 10 1 frame) (\<lambda>server out.
        TimerRenegotiationRejected 1 \<in> set (events out))))"

definition timer_renegotiation_rolls_back_on_timeout :: bool where
  "timer_renegotiation_rolls_back_on_timeout =
     (let client = (new_machine Client 303 default_cfg)\<lparr>lifecycle := Established\<rparr> in
      expect (on_api_propose_timers client 1000 test_proposal) (\<lambda>client propose.
        (\<exists>a \<in> set (timer_actions propose). case a of Schedule i _ \<Rightarrow> i = RenegotiationTimeout) \<and>
      expect (on_timer client 1500 RenegotiationTimeout) (\<lambda>client timed_out.
        (\<exists>e \<in> set (events timed_out). case e of TimerRenegotiationRolledBack _ \<Rightarrow> True | _ \<Rightarrow> False) \<and>
        msr_interval_ms (core_cfg client) = 100)))"

definition pull_flow_tolerates_duplicate_and_reordered_data :: bool where
  "pull_flow_tolerates_duplicate_and_reordered_data = established_pair 404 (\<lambda>client server.
      expect (on_api_send client (string_bytes ''m1'')) (\<lambda>client adv1.
      expect (on_api_send client (string_bytes ''m2'')) (\<lambda>client adv2.
      expect (on_datagram server 10 1 (sent_bytes adv2 0)) (\<lambda>server req.
        RequestRangeSent 1 2 \<in> set (events req) \<and>
      expect (on_datagram client 11 1 (sent_bytes req 0)) (\<lambda>client data.
        length (outbound_datagrams data) = 2 \<and>
      expect (on_datagram server 12 1 (sent_bytes data 1)) (\<lambda>server recv2.
        last_ordered_rx server = 0 \<and> events recv2 = [] \<and>
      expect (on_datagram server 13 1 (sent_bytes data 1)) (\<lambda>server dup.
        last_ordered_rx server = 0 \<and>
      expect (on_datagram server 14 1 (sent_bytes data 0)) (\<lambda>server recv1.
        last_ordered_rx server = 2 \<and>
        length (filter (\<lambda>e. case e of MessageDelivered _ \<Rightarrow> True | _ \<Rightarrow> False) (events recv1)) = 2))))))))"

definition server_push_anytime_reaches_client_via_urgent_msr_and_pull :: bool where
  "server_push_anytime_reaches_client_via_urgent_msr_and_pull = established_pair 505 (\<lambda>client server.
      expect (on_api_send server (string_bytes ''from-server'')) (\<lambda>server push.
        length (outbound_datagrams push) = 1 \<and>
      expect (on_datagram client 10 1 (sent_bytes push 0)) (\<lambda>client req.
        RequestRangeSent 1 1 \<in> set (events req) \<and> length (outbound_datagrams req) = 1 \<and>
      expect (on_datagram server 11 1 (sent_bytes req 0)) (\<lambda>server data.
        length (outbound_datagrams data) = 1 \<and>
      expect (on_datagram client 12 1 (sent_bytes data 0)) (\<lambda>client delivered.
        MessageDelivered 1 \<in> set (events delivered) \<and>
        MessageReceived 1 (string_bytes ''from-server'') \<in> set (events delivered))))))"

definition client_close_api_emits_close_and_server_drops_session :: bool where
  "client_close_api_emits_close_and_server_drops_session = established_pair 808 (\<lambda>client server.
      expect (on_api_close client) (\<lambda>client close.
        lifecycle client = Lost \<and> Disconnected \<in> set (events close) \<and> length (outbound_datagrams close) = 1 \<and>
      expect_ok (decode (sent_bytes close 0)) (\<lambda>frame.
        frame_type frame = Close \<and>
      expect (on_datagram server 10 1 (sent_bytes close 0)) (\<lambda>server srv.
        lifecycle server = Lost \<and> Disconnected \<in> set (events srv)))))"

definition is_msr :: "outbound_datagram \<Rightarrow> bool" where
  "is_msr d = (case decode (dgram_bytes d) of Inl _ \<Rightarrow> False | Inr f \<Rightarrow> frame_type f = Msr)"

definition client_sends_periodic_keepalive_msr_every_four_server_msrs :: bool where
  "client_sends_periodic_keepalive_msr_every_four_server_msrs =
     (let client = (new_machine Client 606 default_cfg)\<lparr>lifecycle := Established\<rparr> in
      expect_ok (encode_frame Msr 606 (encode_msr_payload 0 0)) (\<lambda>server_msr.
      expect (on_datagram client 1 1 server_msr) (\<lambda>client out. (\<forall>d \<in> set (outbound_datagrams out). \<not> is_msr d) \<and>
      expect (on_datagram client 2 1 server_msr) (\<lambda>client out. (\<forall>d \<in> set (outbound_datagrams out). \<not> is_msr d) \<and>
      expect (on_datagram client 3 1 server_msr) (\<lambda>client out. (\<forall>d \<in> set (outbound_datagrams out). \<not> is_msr d) \<and>
      expect (on_datagram client 4 1 server_msr) (\<lambda>client out. \<exists>d \<in> set (outbound_datagrams out). is_msr d))))))"

fun ticks_until_disconnect :: "u64 list \<Rightarrow> core_machine \<Rightarrow> bool" where
  "ticks_until_disconnect [] server = False"
| "ticks_until_disconnect (tick # ts) server =
     expect (on_timer server (tick * msr_interval_ms default_cfg) ServerMsr) (\<lambda>server out.
       if Disconnected \<in> set (events out) then lifecycle server = Lost else ticks_until_disconnect ts server)"

definition server_disconnects_after_consecutive_msr_without_client_keepalive :: bool where
  "server_disconnects_after_consecutive_msr_without_client_keepalive =
     ticks_until_disconnect [1, 2, 3, 4, 5, 6, 7, 8, 9, 10]
       ((new_machine Server 707 default_cfg)\<lparr>lifecycle := Established, current_path_id := 1\<rparr>)"

definition request_range_and_data_frames_carry_msr_piggyback_tlv :: bool where
  "request_range_and_data_frames_carry_msr_piggyback_tlv = established_pair 8081 (\<lambda>client server.
      expect (on_api_send client (string_bytes ''hello'')) (\<lambda>client enqueue.
      expect (on_datagram server 10 1 (sent_bytes enqueue 0)) (\<lambda>server req.
        length (outbound_datagrams req) = 1 \<and>
      expect_ok (decode (sent_bytes req 0)) (\<lambda>req_frame.
        frame_type req_frame = RequestRange \<and> (\<exists>t \<in> set (frame_tlvs req_frame). tlv_kind t = TLV_MSR_SIGNAL) \<and>
      expect (on_datagram client 11 1 (sent_bytes req 0)) (\<lambda>client data.
        outbound_datagrams data \<noteq> [] \<and>
      expect_ok (decode (sent_bytes data 0)) (\<lambda>data_frame.
        frame_type data_frame \<in> {Data, Fragment} \<and> (\<exists>t \<in> set (frame_tlvs data_frame). tlv_kind t = TLV_MSR_SIGNAL)))))))"

definition piggyback_msr_tlv_on_data_triggers_pull_request_without_control_msr_frame :: bool where
  "piggyback_msr_tlv_on_data_triggers_pull_request_without_control_msr_frame =
     (let client = (new_machine Client 8082 default_cfg)\<lparr>lifecycle := Established\<rparr>;
          data_payload = to_be_bytes 8 (99 :: u64) @ string_bytes ''x'' in
      expect_ok (encode (new_frame Data 0 8082 data_payload [encode_msr_signal_tlv 0 1])) (\<lambda>frame.
      expect (on_datagram client 20 1 frame) (\<lambda>client out.
        RequestRangeSent 1 1 \<in> set (events out))))"

section \<open>The model passes them\<close>

lemma roundtrip_any:
  assumes "frame_ok f"
  shows "expect_ok (encode f) (\<lambda>encoded. expect_ok (decode encoded) k) = k f"
proof -
  obtain bs where bs: "encode f = Inr bs" using wire.enc_defined [OF assms] by (cases "encode f") simp_all
  then show ?thesis using decode_encode [OF bs] assms by (simp add: frame_ok_def)
qed

lemma small_frame:
  "length p < 65536 \<Longrightarrow> length ts \<le> 64 \<Longrightarrow> \<forall>t \<in> set ts. length (tlv_value t) \<le> 2048 \<Longrightarrow> tlv_block_len ts < 65536 \<Longrightarrow>
     frame_ok (new_frame t fl c p ts)"
  by (simp add: frame_ok_def encodable_def wire_consts new_frame_def list_all_iff)

lemma field_indices: "[0..<8] = [0, 1, 2, 3, 4, 5, 6, 7]" "[0..<2] = [0, 1]"
  by (simp_all add: upt_rec)

lemma fifteen_zeros: "replicate 15 0 = [0, 0, 0, 0, 0, 0, 0, 0, 0, 0, 0, 0, 0, 0, 0]"
  by (simp add: eval_nat_numeral)

lemmas wire_test_defs = encode_def validate_frame_def new_frame_def wire_consts to_be_bytes_def field_indices fifteen_zeros Let_def

lemma roundtrip_msr_frame_passes: "roundtrip_msr_frame"
  by (simp add: roundtrip_msr_frame_def roundtrip_def roundtrip_any small_frame tlv_block_len_def)

lemma negotiation_vector_server_hello_with_capabilities_passes: "negotiation_vector_server_hello_with_capabilities"
  by (simp add: negotiation_vector_server_hello_with_capabilities_def roundtrip_def roundtrip_any small_frame tlv_block_len_def)

lemma negotiation_vector_unknown_tlv_is_preserved_passes: "negotiation_vector_unknown_tlv_is_preserved"
  by (simp add: negotiation_vector_unknown_tlv_is_preserved_def roundtrip_any small_frame tlv_block_len_def)

lemma golden_vector_client_hello_passes: "golden_vector_client_hello"
  by (simp add: golden_vector_client_hello_def wire_test_defs hex_encode_def hex_char_def) (simp add: char_of_def bit_Suc_0_iff)

lemma decode_rejects_invalid_version_passes: "decode_rejects_invalid_version"
  by (simp add: decode_rejects_invalid_version_def fifteen_zeros decode_def from_u8_def wire_consts Let_def)

lemma decode_rejects_unknown_message_type_passes: "decode_rejects_unknown_message_type"
  by (simp add: decode_rejects_unknown_message_type_def fifteen_zeros decode_def from_u8_def wire_consts Let_def)

lemma decode_rejects_truncated_tlv_passes: "decode_rejects_truncated_tlv"
  by (simp add: decode_rejects_truncated_tlv_def wire_test_defs decode_def from_u8_def from_be_bytes_def be_value_def)

lemma encoded_frame:
  "length p \<le> 1000 \<Longrightarrow> small_tlvs ts \<Longrightarrow> encode (new_frame t 0 c p ts) = Inr (frame_bytes t c p ts)"
  "length p \<le> 1000 \<Longrightarrow> encode_frame t c p = Inr (frame_bytes t c p [])"
  using frame_bytes_ok(1) [of p ts t c] frame_bytes_ok(1) [of p "[]" t c]
  by (auto simp: encode_frame_alt encode_frame_with_tlvs_def split: sum.splits)

lemma proposal_value:
  "\<lparr>tlv_kind = 0x30, tlv_value = to_be_bytes 4 i @ to_be_bytes 8 a @ to_be_bytes 8 b @ to_be_bytes 8 c\<rparr> =
     encode_timer_proposal_tlv i \<lparr>proposal_msr_interval_ms = a, proposal_miss_window_count = b, proposal_disconnect_window_ms = c\<rparr>"
  by (simp add: encode_timer_proposal_tlv_def TLV_TIMER_PROPOSAL_def)

lemma tlv_kinds:
  "tlv_kind (encode_timer_proposal_tlv i pr) = 0x30" "tlv_kind (encode_timer_ack_tlv i b) = 0x31" "tlv_kind (encode_msr_signal_tlv a n) = 0x32"
  "TLV_TIMER_PROPOSAL = 0x30" "TLV_TIMER_ACK = 0x31" "TLV_MSR_SIGNAL = 0x32"
  by (simp_all add: encode_timer_proposal_tlv_def encode_timer_ack_tlv_def encode_msr_signal_tlv_def TLV_TIMER_PROPOSAL_def
      TLV_TIMER_ACK_def TLV_MSR_SIGNAL_def)

lemma four_not_one: "\<not> (4 :: u32) \<le> 1"
  by (simp add: word_le_nat_alt)

lemma one_message: "[Suc 0..<2] = [Suc 0]"
  by (simp add: upt_rec)

lemma test_payload: "to_be_bytes 8 i @ p = data_payload i p"
  by (simp add: data_payload_def)

lemmas test_defs = encoded_frame send_def frame_bytes_ok proposal_value tlv_kinds string_bytes_def is_msr_def one_message four_not_one CLIENT_KEEPALIVE_EVERY_SERVER_MSR_def
  SERVER_MAX_CONSECUTIVE_SERVER_MSR_WITHOUT_CLIENT_MSR_def saturating_add_def saturating_mul_def
  saturating_sub_def validate_timer_proposal_def to_config_def handle_proposal_tlv_def handle_ack_tlv_def Let_def default_cfg_def test_proposal_def begin_handshake_def on_api_send_def on_api_close_def
  on_api_propose_timers_def on_timer_def on_timer_server_msr_def on_timer_client_probe_def on_timer_disconnect_def
  on_timer_renegotiation_def handle_msr_def handle_msr_signal_def handle_request_range_def range_inclusive_def
  send_one_message_alt max_pending_id_def bmap_keys_def touch_disconnect_deadline_def

lemma basic_connect_and_steady_state_passes: "basic_connect_and_steady_state"
  by (simp add: basic_connect_and_steady_state_def test_defs core_defs cong: expect_cong)

lemma missed_msr_triggers_probe_then_reactivation_passes: "missed_msr_triggers_probe_then_reactivation"
  by (simp add: missed_msr_triggers_probe_then_reactivation_def test_defs core_defs cong: expect_cong)

lemma disconnect_convergence_marks_lost_passes: "disconnect_convergence_marks_lost"
  by (simp add: disconnect_convergence_marks_lost_def test_defs core_defs cong: expect_cong)

lemma pull_flow_handles_repeated_request_and_ordered_delivery_passes: "pull_flow_handles_repeated_request_and_ordered_delivery"
  by (simp add: pull_flow_handles_repeated_request_and_ordered_delivery_def test_defs core_defs cong: expect_cong)

lemma timer_renegotiation_commits_on_ack_passes: "timer_renegotiation_commits_on_ack"
  by (simp add: timer_renegotiation_commits_on_ack_def test_defs core_defs cong: expect_cong)

lemma timer_renegotiation_rejects_large_miss_window_step_passes: "timer_renegotiation_rejects_large_miss_window_step"
  by (simp add: timer_renegotiation_rejects_large_miss_window_step_def test_defs core_defs cong: expect_cong)

lemma timer_renegotiation_rolls_back_on_timeout_passes: "timer_renegotiation_rolls_back_on_timeout"
  by (simp add: timer_renegotiation_rolls_back_on_timeout_def test_defs core_defs cong: expect_cong)

lemma pull_flow_tolerates_duplicate_and_reordered_data_passes: "pull_flow_tolerates_duplicate_and_reordered_data"
  by (simp add: pull_flow_tolerates_duplicate_and_reordered_data_def test_defs core_defs cong: expect_cong)

lemma server_push_anytime_reaches_client_via_urgent_msr_and_pull_passes: "server_push_anytime_reaches_client_via_urgent_msr_and_pull"
  by (simp add: server_push_anytime_reaches_client_via_urgent_msr_and_pull_def test_defs core_defs cong: expect_cong)

lemma client_close_api_emits_close_and_server_drops_session_passes: "client_close_api_emits_close_and_server_drops_session"
  by (simp add: client_close_api_emits_close_and_server_drops_session_def test_defs core_defs cong: expect_cong)

lemma client_sends_periodic_keepalive_msr_every_four_server_msrs_passes: "client_sends_periodic_keepalive_msr_every_four_server_msrs"
  by (simp add: client_sends_periodic_keepalive_msr_every_four_server_msrs_def test_defs core_defs cong: expect_cong)

lemma server_disconnects_after_consecutive_msr_without_client_keepalive_passes: "server_disconnects_after_consecutive_msr_without_client_keepalive"
  by (simp add: server_disconnects_after_consecutive_msr_without_client_keepalive_def test_defs core_defs cong: expect_cong)

lemma request_range_and_data_frames_carry_msr_piggyback_tlv_passes: "request_range_and_data_frames_carry_msr_piggyback_tlv"
  by (simp add: request_range_and_data_frames_carry_msr_piggyback_tlv_def test_defs core_defs cong: expect_cong)

lemma piggyback_msr_tlv_on_data_triggers_pull_request_without_control_msr_frame_passes: "piggyback_msr_tlv_on_data_triggers_pull_request_without_control_msr_frame"
  by (simp add: piggyback_msr_tlv_on_data_triggers_pull_request_without_control_msr_frame_def test_payload test_defs core_defs cong: expect_cong)

end
