(* ===== verification/Nat_Tests.thy ===== *)
theory Nat_Tests
  imports Stun_Turn Test_Prelude
begin

unbundle bit_operations_syntax

text \<open>
  The unit tests of \<^verbatim>\<open>v3-nat\<close>, as predicates on the model, in the order of the source, and that the model passes them.
\<close>

section \<open>Tests\<close>

definition host :: "u8 \<times> u8 \<times> u8 \<times> u8 \<Rightarrow> u16 \<Rightarrow> u32 \<Rightarrow> ice_candidate" where
  "host ip port priority = (case ip of (a, b, c, d) \<Rightarrow>
     \<lparr>ic_foundation = ''f'', ic_component = 1, ic_transport = ''udp'', ic_priority = priority, ic_address = V4 a b c d,
      ic_port = port, ic_typ = Host, ic_related_address = None, ic_related_port = None\<rparr>)"

text \<open>The loop over the checks still to make; it ends by itself, the fuel is not used up.\<close>

fun check_all_pairs :: "nat \<Rightarrow> ice_checklist \<Rightarrow> ice_checklist option" where
  "check_all_pairs 0 l = None"
| "check_all_pairs (Suc fuel) l =
     (case next_check l of
        (l, None) \<Rightarrow> Some l
      | (l, Some (li, ri)) \<Rightarrow>
          let ok = (li = 0 \<and> ri = 1) \<or> (li = 1 \<and> ri = 0) in check_all_pairs fuel (mark_check_result l li ri ok))"

definition checklist_nominates_best_succeeded_pair :: bool where
  "checklist_nominates_best_succeeded_pair =
     (let local = [host (10, 0, 0, 1) 5000 100, host (10, 0, 0, 1) 5001 200];
          remote = [host (10, 0, 0, 2) 6000 90, host (10, 0, 0, 2) 6001 250] in
      expect_some (check_all_pairs 5 (checklist_new local remote)) (\<lambda>l.
      expect_some (snd (nominate_best l)) (\<lambda>p. nominated p \<and> pair_state p = Succeeded)))"

definition consent_manager_transitions_to_path_lost :: bool where
  "consent_manager_transitions_to_path_lost =
     (let consent = consent_new 0 \<lparr>interval_ms = 100, max_missed = 2\<rparr>;
          (consent, a) = consent_on_tick consent 100;
          (consent, b) = consent_on_tick consent 200;
          (consent, c) = consent_on_tick consent 300
      in a = SendKeepalive \<and> b = SendKeepalive \<and> c = PathLost
         \<and> missed_count (cm_state (consent_on_response consent 301)) = 0)"

definition stun_binding_success_parsing_ipv4 :: bool where
  "stun_binding_success_parsing_ipv4 =
     (let tx = [1, 2, 3, 4, 5, 6, 7, 8, 9, 10, 11, 12];
          ip = [1, 2, 3, 4] :: bytes;
          port = 3478 :: u16;
          xport = port XOR ucast (drop_bit 16 STUN_MAGIC_COOKIE);
          cookie = to_be_bytes 4 STUN_MAGIC_COOKIE;
          xip = [ip ! 0 XOR cookie ! 0, ip ! 1 XOR cookie ! 1, ip ! 2 XOR cookie ! 2, ip ! 3 XOR cookie ! 3];
          resp = [1, 1] @ to_be_bytes 2 (12 :: u16) @ to_be_bytes 4 STUN_MAGIC_COOKIE @ tx
            @ to_be_bytes 2 (0x0020 :: u16) @ to_be_bytes 2 (8 :: u16) @ [0, 1] @ to_be_bytes 2 xport @ xip
      in length (stun_build_binding_request tx) = 20
         \<and> stun_parse_binding_success resp = Some (Inr ((V4 1 2 3 4, port), tx)))"

text \<open>The failures before the manager gives up, again with fuel that is not used up.\<close>

fun failures_until_failed :: "nat \<Rightarrow> nat \<Rightarrow> turn_manager \<Rightarrow> (nat \<times> turn_manager) option" where
  "failures_until_failed 0 n turn = None"
| "failures_until_failed (Suc fuel) n turn =
     (case turn_on_event turn 2000 TransportFailure of (turn, action) \<Rightarrow>
        if action = MarkFailed then Some (n, turn) else failures_until_failed fuel (n + 1) turn)"

definition turn_manager_allocate_refresh_and_retries :: bool where
  "turn_manager_allocate_refresh_and_retries =
     (let (turn, a) = start_allocate (turn_new turn_config_default);
          (turn, b) = turn_on_event turn 1000 Unauthorized;
          (turn, c) = turn_on_event turn 1500 (AllocationOk 600);
          refresh_at = 1500 + (600 - 60) * 1000
      in a = SendAllocate \<and> b = SendAllocateWithAuth \<and> c = SendCreatePermission \<and> tm_state turn = Allocated
         \<and> turn_on_tick turn refresh_at = SendRefresh
         \<and> expect_some (failures_until_failed 10 0 turn) (\<lambda>(n, turn). n \<ge> 5 \<and> tm_state turn = TurnFailed))"

definition turn_manager_handles_stale_nonce_as_reauth :: bool where
  "turn_manager_handles_stale_nonce_as_reauth =
     (snd (turn_on_event (fst (start_allocate (turn_new turn_config_default))) 10 StaleNonce) = SendAllocateWithAuth)"

definition turn_refresh_tuned_to_disconnect_window :: bool where
  "turn_refresh_tuned_to_disconnect_window =
     (let tuned = tune_turn_refresh_for_disconnect_window turn_config_default 90000
      in permission_refresh_ms tuned \<le> 81000 \<and> channel_refresh_ms tuned \<le> 81000)"

definition relay_only_policy_filters_candidates :: bool where
  "relay_only_policy_filters_candidates =
     (let local = [host (10, 0, 0, 1) 5000 100, (host (203, 0, 113, 10) 5001 200)\<lparr>ic_typ := Relay\<rparr>];
          remote = [host (10, 0, 0, 2) 6000 100, (host (203, 0, 113, 20) 6001 200)\<lparr>ic_typ := Relay\<rparr>];
          (ll, rr) = select_path_candidates local remote RelayOnly
      in length ll = 1 \<and> length rr = 1 \<and> ic_typ (ll ! 0) = Relay \<and> ic_typ (rr ! 0) = Relay \<and> relay_path_mtu Relay = 1200)"

definition host_candidate_gathering_from_bound_sockets :: bool where
  "host_candidate_gathering_from_bound_sockets =
     (let gathered = gather_host_candidates [(V4 10 0 0 1, 5000), (V4 192 168 1 2, 5001)] 1 ''udp''
      in length gathered = 2 \<and> ic_typ (gathered ! 0) = Host \<and> ic_transport (gathered ! 0) = ''udp'')"

section \<open>The model passes them\<close>

lemma two_bytes: "[0..<2] = [0, 1]" "[0..<4] = [0, 1, 2, 3]"
  by (simp_all add: upt_rec)

lemma fuel: "(5 :: nat) = Suc (Suc (Suc (Suc (Suc 0))))" "(10 :: nat) = Suc (Suc (Suc (Suc (Suc (Suc (Suc (Suc (Suc (Suc 0)))))))))"
  by simp_all

lemmas checklist_defs = host_def Let_def checklist_new_def form_pairs_def compatible_def pair_of_def pair_priority_def
  next_check_def mark_check_result_def nominate_best_def fuel

lemma checklist_nominates_best_succeeded_pair_passes: "checklist_nominates_best_succeeded_pair"
  by (simp add: checklist_nominates_best_succeeded_pair_def checklist_defs)

lemma consent_manager_transitions_to_path_lost_passes: "consent_manager_transitions_to_path_lost"
  by (simp add: consent_manager_transitions_to_path_lost_def consent_new_def consent_on_tick_def consent_on_response_def
      saturating_add_def)

lemma stun_binding_success_parsing_ipv4_passes: "stun_binding_success_parsing_ipv4"
  by (simp add: stun_binding_success_parsing_ipv4_def cookie_bytes stun_parse_binding_success_def stun_attrs.simps
    stun_build_binding_request_def Let_def two_bytes from_be_bytes_def be_value_def to_be_bytes_def xor_mapped_address_def STUN_MAGIC_COOKIE_def)

lemma turn_manager_allocate_refresh_and_retries_passes: "turn_manager_allocate_refresh_and_retries"
  by (simp add: turn_manager_allocate_refresh_and_retries_def start_allocate_def turn_new_def turn_config_default_def
      turn_on_tick_def due_def refresh_at_def saturating_sub_def saturating_add_def saturating_mul_def fuel)

lemma turn_manager_handles_stale_nonce_as_reauth_passes: "turn_manager_handles_stale_nonce_as_reauth"
  by (simp add: turn_manager_handles_stale_nonce_as_reauth_def start_allocate_def)

lemma turn_refresh_tuned_to_disconnect_window_passes: "turn_refresh_tuned_to_disconnect_window"
  by (simp add: turn_refresh_tuned_to_disconnect_window_def tune_turn_refresh_for_disconnect_window_def Let_def
      turn_config_default_def saturating_sub_def)

lemma relay_only_policy_filters_candidates_passes: "relay_only_policy_filters_candidates"
  by (simp add: relay_only_policy_filters_candidates_def select_path_candidates_def allowed_def host_def)

lemma host_candidate_gathering_from_bound_sockets_passes: "host_candidate_gathering_from_bound_sockets"
  by (simp add: host_candidate_gathering_from_bound_sockets_def gather_host_candidates_def)

end
