(* ===== verification/Crypto_Tests.thy ===== *)
theory Crypto_Tests
  imports Handshake Test_Prelude
begin

unbundle bit_operations_syntax

text \<open>
  The unit tests of \<^verbatim>\<open>v3-crypto\<close>, as predicates on the model, in the order of the source, and that the model passes
  them.  HMAC and OpenSSL are parameters; a test that calls them passes when they do what it takes for granted: the
  key is accepted and the tags of different messages differ, OpenSSL accepts the test's context.
\<close>

section \<open>Tests\<close>

text \<open>The texts of errors.\<close>

fun crypto_error_display :: "crypto_error \<Rightarrow> string" where
  "crypto_error_display (InvalidConfig e) = ''invalid handshake configuration: '' @ e"
| "crypto_error_display (AuthFailed e) = ''peer authentication failed: '' @ e"
| "crypto_error_display (Provider e) = ''handshake provider failure: '' @ e"

definition replay_window_rejects_duplicates_and_too_old :: bool where
  "replay_window_rejects_duplicates_and_too_old =
     (let (win, a) = accept (replay_new 8) 10;
          (win, b) = accept win 11;
          (win, c) = accept win 9;
          (win, duplicate) = accept win 10;
          (win, forward) = accept win 18;
          (win, too_old) = accept win 9
      in a \<and> b \<and> c \<and> \<not> duplicate \<and> forward \<and> \<not> too_old)"

definition anti_amplification_limits_before_auth :: bool where
  "anti_amplification_limits_before_auth =
     (let gate = on_receive (gate_new 3) 100;
          (gate, a) = on_send gate 150;
          (gate, b) = on_send gate 150;
          (gate, c) = on_send gate 1;
          (gate, d) = on_send (mark_authenticated gate) 10000
      in a \<and> b \<and> \<not> c \<and> d)"

definition crypto_crate_name :: string where
  "crypto_crate_name = ''v3-crypto''"

definition crate_name_constant_is_set :: bool where
  "crate_name_constant_is_set = (crypto_crate_name = ''v3-crypto'')"

definition frame_auth_hook_signs_and_rejects_replay :: "hmac_ops \<Rightarrow> bool" where
  "frame_auth_hook_signs_and_rejects_replay H =
     (let auth = frame_auth_new (replicate 32 3) 32; payload = string_bytes ''hello'' in
      expect_ok (sign H auth 1 55 9 payload) (\<lambda>tag.
      expect (verify H auth 1 55 9 payload tag) (\<lambda>auth _.
      expect_err (verify H auth 1 55 9 payload tag) (\<lambda>auth replay_err.
        contains (crypto_error_display replay_err) ''replay rejected''))))"

definition frame_auth_hook_rejects_tamper :: "hmac_ops \<Rightarrow> bool" where
  "frame_auth_hook_rejects_tamper H =
     (let auth = frame_auth_new (replicate 32 4) 32; payload = string_bytes ''hello'' in
      expect_ok (sign H auth 2 99 3 payload) (\<lambda>tag.
      expect_err (verify H auth 2 99 3 payload (tag[0 := tag ! 0 XOR 0xAA])) (\<lambda>auth err.
        contains (crypto_error_display err) ''frame auth tag mismatch'')))"

definition spoofed_reactivation_payload_is_rejected_by_frame_auth :: "hmac_ops \<Rightarrow> bool" where
  "spoofed_reactivation_payload_is_rejected_by_frame_auth H =
     (let verifier = frame_auth_new (replicate 32 8) 64;
          legitimate_payload = string_bytes ''reactivate:cid=42:path=7'';
          spoofed_payload = string_bytes ''reactivate:cid=42:path=99'' in
      expect_ok (sign H verifier 10 42 7 legitimate_payload) (\<lambda>legitimate_tag.
      expect (verify H verifier 10 42 7 legitimate_payload legitimate_tag) (\<lambda>verifier _.
      expect_err (verify H verifier 11 42 7 spoofed_payload legitimate_tag) (\<lambda>verifier err.
        contains (crypto_error_display err) ''frame auth tag mismatch''))))"

definition cert :: "string \<Rightarrow> string \<Rightarrow> u64 \<Rightarrow> u64 \<Rightarrow> cert_metadata" where
  "cert i fp not_before not_after =
     \<lparr>cert_id = i, fingerprint_sha256_hex = concat (replicate 32 fp), not_before_ms = not_before, not_after_ms = not_after\<rparr>"

definition cert_rotation_plan_requires_overlap :: bool where
  "cert_rotation_plan_requires_overlap =
     (let now = 1000000000;
          old = cert ''old'' ''aa'' (saturating_sub now (30 * DAY_MS)) (now + 10 * DAY_MS);
          new = cert ''new'' ''bb'' now (now + 90 * DAY_MS);
          plan = plan_rotation now old new (7 * DAY_MS);
          too_late_new = cert ''new2'' ''cc'' (now + 11 * DAY_MS) (now + 90 * DAY_MS);
          bad = plan_rotation now old too_late_new (7 * DAY_MS)
      in can_rotate_without_downtime plan \<and> \<not> can_rotate_without_downtime bad)"

definition cert_expiry_alarm_levels_follow_thresholds :: bool where
  "cert_expiry_alarm_levels_follow_thresholds =
     (let now = 500000;
          c = cert ''c1'' ''dd'' (saturating_sub now (10 * DAY_MS)) (now + 40 * DAY_MS)
      in expiry_alarm_level now c = AlarmNone
         \<and> expiry_alarm_level now (c\<lparr>not_after_ms := now + 20 * DAY_MS\<rparr>) = Warning30d
         \<and> expiry_alarm_level now (c\<lparr>not_after_ms := now + 10 * DAY_MS\<rparr>) = High14d
         \<and> expiry_alarm_level now (c\<lparr>not_after_ms := now + 3 * DAY_MS\<rparr>) = Critical7d
         \<and> expiry_alarm_level now (c\<lparr>not_after_ms := saturating_sub now 1\<rparr>) = Expired)"

definition to_ascii_uppercase :: "string \<Rightarrow> string" where
  "to_ascii_uppercase s = map (\<lambda>c. let n = (of_char c :: nat) in if 97 \<le> n \<and> n \<le> 122 then char_of (n - 32) else c) s"

definition revocation_list_blocks_known_fingerprints :: bool where
  "revocation_list_blocks_known_fingerprints =
     (let fp = concat (replicate 32 ''ab'')
      in \<not> is_revoked [] fp \<and> is_revoked (revoke_fingerprint [] fp) (to_ascii_uppercase fp))"

definition mtls_policy_hook_requires_client_identity_only_when_configured :: bool where
  "mtls_policy_hook_requires_client_identity_only_when_configured =
     (\<not> requires_client_cert MtlsDisabled \<and> \<not> requires_client_cert MtlsOptional \<and> requires_client_cert MtlsRequired)"

definition test_config :: "bool \<Rightarrow> bytes list \<Rightarrow> handshake_config" where
  "test_config weak anchors =
     \<lparr>hc_profile = ServerAuth, hc_cipher_policy = cipher_policy_default\<lparr>allow_weak_suites := weak\<rparr>,
      hc_trust = trust_config_default\<lparr>trust_anchor_pems := anchors\<rparr>, hc_client_identity = None,
      hc_expected_server_name = Some ''api.example.com''\<rparr>"

abbreviation datagrams :: "handshake_output \<Rightarrow> bytes list" where
  "datagrams out \<equiv> outbound_datagrams out"

definition dtls_adapter_enforces_policy_and_establishes :: bool where
  "dtls_adapter_enforces_policy_and_establishes =
     expect_err (dtls_start_client dtls_new (test_config True [])) (\<lambda>adapter _.
     expect (dtls_start_client adapter (test_config False [])) (\<lambda>adapter out.
       length (datagrams out) = 1 \<and> \<not> ho_established out \<and>
     expect (dtls_on_datagram adapter (string_bytes ''DTLS_SERVER_HELLO'')) (\<lambda>adapter out.
       ho_established out \<and> ho_peer_identity out \<noteq> None)))"

definition downgrade_capability_forgery_is_rejected_by_policy :: bool where
  "downgrade_capability_forgery_is_rejected_by_policy =
     expect_err (dtls_start_client dtls_new (test_config True [])) (\<lambda>adapter err.
       contains (crypto_error_display err) ''weak cipher suites'')"

definition openssl_adapter_builds_context_and_progresses_handshake :: "openssl_ops \<Rightarrow> bytes \<Rightarrow> bool" where
  "openssl_adapter_builds_context_and_progresses_handshake X root_anchor_pem =
     (let cfg = test_config False [root_anchor_pem] in
      expect (openssl_start_client X openssl_new cfg) (\<lambda>client c0.
        length (datagrams c0) = 1 \<and>
      expect (openssl_start_server X openssl_new cfg) (\<lambda>server _.
      expect (openssl_on_datagram server (datagrams c0 ! 0)) (\<lambda>server s1.
        length (datagrams s1) = 1 \<and>
      expect (openssl_on_datagram client (datagrams s1 ! 0)) (\<lambda>client c1.
        length (datagrams c1) = 1 \<and>
      expect (openssl_on_datagram server (datagrams c1 ! 0)) (\<lambda>server s2.
        ho_established s2 \<and> length (datagrams s2) = 1 \<and>
      expect (openssl_on_datagram client (datagrams s2 ! 0)) (\<lambda>client out.
        ho_established out \<and> ho_peer_identity out \<noteq> None)))))))"

definition openssl_adapter_retransmits_on_timeout :: "openssl_ops \<Rightarrow> bytes \<Rightarrow> bool" where
  "openssl_adapter_retransmits_on_timeout X root_anchor_pem =
     expect (openssl_start_client X openssl_new (test_config False [root_anchor_pem])) (\<lambda>client c0.
       length (datagrams c0) = 1 \<and>
     expect (openssl_on_timeout client 500) (\<lambda>client t0.
       datagrams t0 = [] \<and>
     expect (openssl_on_timeout client 1000) (\<lambda>client t1.
       length (datagrams t1) = 1 \<and> datagrams t1 ! 0 = datagrams c0 ! 0)))"

section \<open>The model passes them\<close>

lemma replay_window_rejects_duplicates_and_too_old_passes: "replay_window_rejects_duplicates_and_too_old"
  by (simp add: replay_window_rejects_duplicates_and_too_old_def accept_def replay_new_def clamp_def Let_def)

lemma anti_amplification_limits_before_auth_passes: "anti_amplification_limits_before_auth"
  by (simp add: anti_amplification_limits_before_auth_def on_receive_def gate_new_def on_send_def can_send_def
      mark_authenticated_def saturating_add_def saturating_mul_def)

lemma crate_name_constant_is_set_passes: "crate_name_constant_is_set"
  by (simp add: crate_name_constant_is_set_def crypto_crate_name_def)

lemmas frame_auth_defs = sign_def verify_def sign_inner_def frame_auth_new_def accept_def replay_new_def clamp_def

lemma replay_text: "contains (crypto_error_display (AuthFailed (''replay rejected for sequence='' @ n))) ''replay rejected''"
  using contains_append [of "''peer authentication failed: ''" "''replay rejected''" "'' for sequence='' @ n"] by simp

lemma mismatch_text: "contains (crypto_error_display (AuthFailed ''frame auth tag mismatch'')) ''frame auth tag mismatch''"
  by (simp add: contains_def)

lemma frame_auth_hook_signs_and_rejects_replay_passes:
  "hmac_init H (replicate 32 3) = None \<Longrightarrow> frame_auth_hook_signs_and_rejects_replay H"
  using replay_text
  by (simp add: frame_auth_hook_signs_and_rejects_replay_def frame_auth_defs del: crypto_error_display.simps)

lemma flipped: "xs \<noteq> [] \<Longrightarrow> xs[0 := xs ! 0 XOR 0xAA] \<noteq> (xs :: bytes)"
proof (cases xs)
  case (Cons x ys)
  have "x XOR 0xAA \<noteq> x"
  proof
    assume "x XOR 0xAA = x"
    then have "x XOR (x XOR 0xAA) = x XOR x" by simp
    then show False by (simp add: xor.assoc [symmetric])
  qed
  then show ?thesis by (simp add: Cons)
qed simp

lemma frame_auth_hook_rejects_tamper_passes:
  assumes "hmac_init H (replicate 32 4) = None" and "\<forall>m. hmac_tag H (replicate 32 4) m \<noteq> []"
  shows "frame_auth_hook_rejects_tamper H"
  using assms flipped mismatch_text
  by (simp add: frame_auth_hook_rejects_tamper_def frame_auth_defs del: crypto_error_display.simps)

lemma spoofed_reactivation_payload_is_rejected_by_frame_auth_passes:
  assumes "hmac_init H (replicate 32 8) = None"
    and "hmac_tag H (replicate 32 8) (mac_input 10 42 7 (string_bytes ''reactivate:cid=42:path=7''))
      \<noteq> hmac_tag H (replicate 32 8) (mac_input 11 42 7 (string_bytes ''reactivate:cid=42:path=99''))"
  shows "spoofed_reactivation_payload_is_rejected_by_frame_auth H"
  using assms mismatch_text
  by (simp add: spoofed_reactivation_payload_is_rejected_by_frame_auth_def frame_auth_defs
    del: crypto_error_display.simps)

lemma cert_rotation_plan_requires_overlap_passes: "cert_rotation_plan_requires_overlap"
  by (simp add: cert_rotation_plan_requires_overlap_def plan_rotation_def cert_def DAY_MS_def saturating_sub_def Let_def)

lemma cert_expiry_alarm_levels_follow_thresholds_passes: "cert_expiry_alarm_levels_follow_thresholds"
  by (simp add: cert_expiry_alarm_levels_follow_thresholds_def expiry_alarm_level_def cert_def DAY_MS_def saturating_sub_def Let_def)

lemma revocation_list_blocks_known_fingerprints_passes: "revocation_list_blocks_known_fingerprints"
  by (simp add: revocation_list_blocks_known_fingerprints_def is_revoked_def revoke_fingerprint_def to_ascii_lowercase_def
      to_ascii_uppercase_def map_concat ascii_lower_def Let_def char_of_def bit_Suc_0_iff)

lemma mtls_policy_hook_requires_client_identity_only_when_configured_passes:
  "mtls_policy_hook_requires_client_identity_only_when_configured"
  by (simp add: mtls_policy_hook_requires_client_identity_only_when_configured_def requires_client_cert_def)

lemmas config_defs = test_config_def validate_cfg_def cipher_policy_default_def trust_config_default_def str_def string_bytes_def

lemma dtls_adapter_enforces_policy_and_establishes_passes: "dtls_adapter_enforces_policy_and_establishes"
  by (simp add: dtls_adapter_enforces_policy_and_establishes_def config_defs dtls_new_def dtls_defs)

lemma downgrade_capability_forgery_is_rejected_by_policy_passes: "downgrade_capability_forgery_is_rejected_by_policy"
  by (simp add: downgrade_capability_forgery_is_rejected_by_policy_def config_defs dtls_new_def dtls_defs contains_def)

text \<open>OpenSSL accepts what the tests ask for.\<close>

definition accepts_test_context :: "openssl_ops \<Rightarrow> bytes \<Rightarrow> bool" where
  "accepts_test_context X pem \<longleftrightarrow> (\<forall>r. ssl_builder_new X r = None) \<and> (\<forall>l. ssl_set_cipher_list X l = None) \<and> ssl_store_new X = None
     \<and> (\<exists>c. ssl_stack_from_pem X pem = Inr [c] \<and> ssl_add_cert X [] c = None) \<and> (\<forall>ctx. ssl_new X ctx = None)"

lemma test_context: "accepts_test_context X pem \<Longrightarrow> \<exists>ctx. build_context X r (test_config False [pem]) = Inr ctx \<and> ssl_new X ctx = None"
  by (auto simp: accepts_test_context_def build_context_def config_defs set_ciphers_def set_trust_store_def set_identity_def)

lemma openssl_adapter_builds_context_and_progresses_handshake_passes:
  assumes "accepts_test_context X pem"
  shows "openssl_adapter_builds_context_and_progresses_handshake X pem"
proof -
  obtain ctx sctx where "build_context X ClientRole (test_config False [pem]) = Inr ctx" "ssl_new X ctx = None"
      "build_context X ServerRole (test_config False [pem]) = Inr sctx" "ssl_new X sctx = None"
    using test_context [OF assms] by blast
  moreover have "hc_expected_server_name (test_config False [pem]) = Some ''api.example.com''"
    by (simp add: test_config_def)
  moreover have "valid_utf8 (string_bytes ''api.example.com'')" by (simp add: string_bytes_def)
  ultimately show ?thesis
    using parse_client_hello [of "''api.example.com''"] parse_hello_verify [OF cookie_utf8] parse_client_cookie [OF cookie_utf8]
      parse_server_hello [of "''api.example.com''"]
    by (simp add: openssl_adapter_builds_context_and_progresses_handshake_def openssl_start_defs openssl_new_def
        queue_flight_def quiet_def openssl_on_datagram_def adapter_cfg_def server_on_datagram_def client_on_datagram_def
        server_output_def established_output_def str_def Let_def case_prod_unfold)
qed

lemma openssl_adapter_retransmits_on_timeout_passes:
  assumes "accepts_test_context X pem"
  shows "openssl_adapter_retransmits_on_timeout X pem"
proof -
  obtain ctx where "build_context X ClientRole (test_config False [pem]) = Inr ctx" "ssl_new X ctx = None"
    using test_context [OF assms] by blast
  then show ?thesis
    by (simp add: openssl_adapter_retransmits_on_timeout_def openssl_start_client_def openssl_new_def queue_flight_def
        openssl_on_timeout_def quiet_def saturating_add_def Let_def)
qed

end
