(* ===== verification/Store_Tests.thy ===== *)
theory Store_Tests
  imports Store_Redis Test_Prelude "HOL-Library.Multiset"
begin

unbundle bit_operations_syntax

text \<open>
  The unit tests of \<^verbatim>\<open>v3-store\<close>, as predicates on the model, in the order of the source, and that the model passes
  them.  Threads are the order in which their operations get the lock; a temporary directory is a pair of files
  that are not there; \<^verbatim>\<open>serde_json\<close>, the iteration order of a hash map and Redis are arguments.
\<close>

section \<open>Tests\<close>

definition sample_record :: "u64 \<Rightarrow> string \<Rightarrow> session_record" where
  "sample_record cid peer =
     \<lparr>sr_cid = cid, sr_peer_id = peer, sr_negotiated_msr_interval_ms = 15000, sr_disconnect_window_ms = 90000,
      sr_last_ordered_rx = 10, sr_last_ordered_tx = 12\<rparr>"

subsection \<open>The in-memory store\<close>

text \<open>The writers, in the order in which they get the lock, and what each gets back.\<close>

fun writers :: "nat list \<Rightarrow> memory_store \<Rightarrow> (store_error + versioned_record) list" where
  "writers [] store = []"
| "writers (i # order) store =
     (let (store, r) = memory_compare_and_swap store 42 (Some 1) (sample_record 42 (''peer-'' @ decimal i)) 10000 (10000 + 1)
      in r # writers order store)"

definition cas_collision_allows_single_winner :: "nat list \<Rightarrow> bool" where
  "cas_collision_allows_single_winner order =
     expect_ok memory_default (\<lambda>store.
     expect (memory_compare_and_swap store 42 None (sample_record 42 ''init'') 10000 10000) (\<lambda>store created.
       vr_version created = 1 \<and>
       (let replies = writers order store in
        list_all (\<lambda>r. case r of Inr v \<Rightarrow> vr_version v = 2 | Inl (CasConflict _ _) \<Rightarrow> True | Inl _ \<Rightarrow> False) replies
        \<and> length (filter (\<lambda>r. case r of Inr _ \<Rightarrow> True | Inl _ \<Rightarrow> False) replies) = 1
        \<and> length (filter (\<lambda>r. case r of Inr _ \<Rightarrow> False | Inl _ \<Rightarrow> True) replies) = 7)))"

definition test_cids :: "u64 list" where
  "test_cids = map word_of_nat [1..<65]"

fun upsert_all :: "u64 list \<Rightarrow> memory_store \<Rightarrow> (memory_store \<Rightarrow> bool) \<Rightarrow> bool" where
  "upsert_all [] store k = k store"
| "upsert_all (cid # cids) store k =
     expect (memory_upsert store cid (sample_record cid ''peer'') 5 1000) (\<lambda>store _. upsert_all cids store k)"

fun load_all :: "u64 list \<Rightarrow> memory_store \<Rightarrow> memory_store" where
  "load_all [] store = store"
| "load_all (cid # cids) store = load_all cids (fst (memory_load store cid (1000 + 2)))"

fun none_left :: "u64 list \<Rightarrow> memory_store \<Rightarrow> bool" where
  "none_left [] store = True"
| "none_left (cid # cids) store =
     expect (memory_load store cid (1000 + 10)) (\<lambda>store loaded. loaded = None \<and> none_left cids store)"

definition expiry_under_contention_and_scan_cleanup :: "u64 list \<Rightarrow> (memory_store \<Rightarrow> u64 list list) \<Rightarrow> bool" where
  "expiry_under_contention_and_scan_cleanup loads ords =
     expect_ok memory_default (\<lambda>store. upsert_all test_cids store (\<lambda>store.
       let store = load_all loads store in
       expect (memory_scan_expired (ords store) store (1000 + 10) 1000) (\<lambda>store removed.
         length removed = 64 \<and> none_left test_cids store)))"

subsection \<open>Records\<close>

definition serialization_roundtrip_is_stable_for_schema_v1 :: "serde_ops \<Rightarrow> bool" where
  "serialization_roundtrip_is_stable_for_schema_v1 J =
     (let record = sample_record 7 ''peer-a'' in
      expect_ok (encode_session_record J record) (\<lambda>bytes.
      expect_ok (decode_session_record J bytes) (\<lambda>decoded. decoded = record)))"

definition decode_rejects_unsupported_schema_version :: "serde_ops \<Rightarrow> bytes \<Rightarrow> bool" where
  "decode_rejects_unsupported_schema_version J bytes =
     (decode_session_record J bytes = Inl (UnsupportedSchemaVersion (SESSION_SCHEMA_VERSION + 1)))"

subsection \<open>The disk store\<close>

definition reopen :: "serde_ops \<Rightarrow> disk_store \<Rightarrow> (disk_store \<Rightarrow> bool) \<Rightarrow> bool" where
  "reopen J store k = expect_ok (disk_new J no_faults (Some (ds_log store)) (ds_snapshot store)) k"

definition disk_backend_append_log_and_recovery :: "serde_ops \<Rightarrow> bool" where
  "disk_backend_append_log_and_recovery J =
     expect_ok (disk_new J no_faults None None) (\<lambda>store.
     expect (disk_upsert J no_faults store 7001 (sample_record 7001 ''disk-peer'') 5000 100) (\<lambda>store written.
       vr_version written = 1 \<and>
     expect (disk_load J no_faults store 7001 101) (\<lambda>store loaded.
       loaded \<noteq> None \<and>
     reopen J store (\<lambda>recovered.
     expect (disk_load J no_faults recovered 7001 102) (\<lambda>recovered loaded. loaded \<noteq> None)))))"

definition disk_backend_compaction_keeps_state_and_clears_log :: "serde_ops \<Rightarrow> ((u64, entry) bmap \<Rightarrow> u64 list) \<Rightarrow> bool" where
  "disk_backend_compaction_keeps_state_and_clears_log J order =
     expect_ok (disk_new J no_faults None None) (\<lambda>store.
     expect (disk_upsert J no_faults store 1 (sample_record 1 ''a'') 5000 1000) (\<lambda>store _.
     expect (disk_upsert J no_faults store 2 (sample_record 2 ''b'') 5000 1000) (\<lambda>store _.
       ds_log store \<noteq> [] \<and>
     expect (disk_compact J no_faults (order (ds_entries store)) store) (\<lambda>store _.
       ds_log store = [] \<and>
     reopen J store (\<lambda>reopened.
     expect (disk_load J no_faults reopened 1 1001) (\<lambda>reopened loaded1. loaded1 \<noteq> None \<and>
     expect (disk_load J no_faults reopened 2 1001) (\<lambda>reopened loaded2. loaded2 \<noteq> None)))))))"

text \<open>The first byte that is not a line feed, with its lowest bit flipped.\<close>

fun flip_first :: "bytes \<Rightarrow> bytes" where
  "flip_first [] = []"
| "flip_first (b # bs) = (if b \<noteq> 10 then (b XOR 1) # bs else b # flip_first bs)"

definition disk_backend_detects_checksum_corruption :: "serde_ops \<Rightarrow> bool" where
  "disk_backend_detects_checksum_corruption J =
     expect_ok (disk_new J no_faults None None) (\<lambda>store.
     expect (disk_upsert J no_faults store 9 (sample_record 9 ''x'') 5000 10) (\<lambda>store _.
       disk_new J no_faults (Some (flip_first (ds_log store))) (ds_snapshot store) \<in> {Inl ChecksumMismatch, Inl CorruptLogEntry}))"

definition disk_backend_supports_schema_migration_from_v0 :: "serde_ops \<Rightarrow> bytes \<Rightarrow> bool" where
  "disk_backend_supports_schema_migration_from_v0 J legacy =
     (let op = DiskUpsert 55 1 50000 legacy in
      expect_ok (op_to_vec J op) (\<lambda>op_bytes.
      expect_ok (entry_to_vec J \<lparr>log_op = op, log_checksum = hash_bytes J op_bytes\<rparr>) (\<lambda>line.
      expect_ok (disk_new J no_faults (Some (concat [line, [10]])) None) (\<lambda>store.
      expect (disk_load J no_faults store 55 40000) (\<lambda>store loaded. loaded \<noteq> None)))))"

subsection \<open>The Redis store\<close>

text \<open>The calls of the test with the server's clock at the caller's times; \<open>run_it\<close> is \<^verbatim>\<open>should_run_redis_tests\<close>.\<close>

definition redis_store_cas_and_ttl_behaves_like_contract ::
    "bool \<Rightarrow> 'd redis_ops \<Rightarrow> serde_ops \<Rightarrow> string \<Rightarrow> 'd \<Rightarrow> bool" where
  "redis_store_cas_and_ttl_behaves_like_contract run_it R J prefix d =
     (if \<not> run_it then True
      else expect_ok (redis_new no_redis_faults prefix) (\<lambda>store.
        case snd (run (redis_step R J store) d
            [(50000, CompareAndSwap 501 None (sample_record 501 ''r1'') 10000),
             (50000 + 1, CompareAndSwap 501 (Some 1) (sample_record 501 ''r2'') 10000),
             (50000 + 2, CompareAndSwap 501 (Some 1) (sample_record 501 ''r3'') 10000),
             (50000 + 3, Load 501), (50000 + 20000, Load 501)]) of
          [Written created, Written updated, Failed (CasConflict _ _), Loaded loaded, Loaded expired] \<Rightarrow>
            vr_version created = 1 \<and> vr_version updated = 2 \<and> loaded \<noteq> None \<and> expired = None
        | _ \<Rightarrow> False))"

section \<open>The model passes them\<close>

lemma cas_collision_allows_single_winner_passes:
  assumes "mset order = mset [0..<8]"
  shows "cas_collision_allows_single_winner order"
proof -
  have "size (mset order) = size (mset [0..<8])" by (simp only: assms)
  then have "length order = 8" by simp
  then obtain a b c d e f g h where "order = [a, b, c, d, e, f, g, h]"
    by (auto simp: eval_nat_numeral length_Suc_conv)
  then show ?thesis
    by (simp add: cas_collision_allows_single_winner_def memory_default_def memory_new_def DEFAULT_SHARD_COUNT_def
        memory_compare_and_swap_def shard_index_def effective_entry_def saturating_add_def to_versioned_def bmap_get_def Let_def cong: expect_cong)
qed

text \<open>A store that holds the sessions \<open>D\<close>, all of which expire at the same time.\<close>

definition holds :: "u64 set \<Rightarrow> u64 \<Rightarrow> memory_store \<Rightarrow> bool" where
  "holds D x store \<longleftrightarrow> memory_ok store
     \<and> (\<forall>c. if c \<in> D then \<exists>e. memory_entries store c = Some e \<and> entry_expires_at_ms e = x else memory_entries store c = None)"

lemma holdsD:
  assumes "holds D x store"
  shows "memory_ok store" and "c \<in> D \<Longrightarrow> \<exists>e. memory_entries store c = Some e \<and> entry_expires_at_ms e = x"
    and "c \<notin> D \<Longrightarrow> memory_entries store c = None"
  using assms unfolding holds_def by metis+

lemma upserted:
  assumes "holds D 1005 store"
  shows "\<exists>store' v. memory_upsert store cid rec 5 1000 = (store', Inr v) \<and> holds (insert cid D) 1005 store'"
proof -
  have ok: "memory_ok store" using assms by (simp add: holds_def)
  obtain m cur where e: "effective_entry (store ! shard_index store cid) cid 1000 = (m, cur)" by fastforce
  define x where "x = \<lparr>entry_version = saturating_add (case cur of None \<Rightarrow> 0 | Some e \<Rightarrow> entry_version e) 1, entry_record = rec,
      entry_expires_at_ms = saturating_add 1000 5\<rparr>"
  have "entry_expires_at_ms x = 1005" by (simp add: x_def saturating_add_def)
  then have "holds (insert cid D) 1005 (store[shard_index store cid := bmap_insert cid x m])"
    using assms memory_written [OF ok e, of x] by (simp add: holds_def)
  then show ?thesis by (simp add: memory_upsert_def e x_def Let_def)
qed

lemma all_upserted:
  "holds D 1005 store \<Longrightarrow> (\<And>s. holds (set cids \<union> D) 1005 s \<Longrightarrow> k s) \<Longrightarrow> upsert_all cids store k"
proof (induction cids arbitrary: D store)
  case (Cons cid cids)
  obtain store' v where u: "memory_upsert store cid (sample_record cid ''peer'') 5 1000 = (store', Inr v)"
      "holds (insert cid D) 1005 store'"
    using upserted [OF Cons.prems(1)] by blast
  have "upsert_all cids store' k" by (rule Cons.IH [OF u(2)]) (use Cons.prems(2) in simp)
  then show ?case by (simp add: u(1))
qed simp

lemma loaded_keeps:
  assumes "holds D x store" and "now < x"
  shows "holds D x (fst (memory_load store cid now))"
proof -
  obtain m cur where e: "effective_entry (store ! shard_index store cid) cid now = (m, cur)" by fastforce
  have ok: "memory_ok store" using assms(1) by (simp add: holds_def)
  have live: "live now (memory_entries store) cid = memory_entries store cid"
    using holdsD(2,3) [OF assms(1), of cid] assms(2) by (cases "cid \<in> D") (auto simp: live_def)
  show ?thesis using assms(1) memory_dropped [OF ok e] by (simp add: memory_load_def e live holds_def)
qed

lemma all_loaded: "holds D 1005 store \<Longrightarrow> holds D 1005 (load_all cids store)"
  by (induction cids arbitrary: store) (simp_all add: loaded_keeps)

lemma none_loaded: "holds {} x store \<Longrightarrow> none_left cids store"
proof (induction cids arbitrary: store)
  case (Cons cid cids)
  obtain m cur where e: "effective_entry (store ! shard_index store cid) cid 1010 = (m, cur)" by fastforce
  have live: "live 1010 (memory_entries store) cid = None" using Cons.prems by (simp add: holds_def live_def)
  have "holds {} x (store[shard_index store cid := m])"
    using Cons.prems memory_dropped [OF _ e] by (simp add: holds_def live)
  then show ?case using Cons.IH effective_entry_live(1) [OF e] by (simp add: memory_load_def e live)
qed simp

lemma scanned_ok:
  assumes ok: "memory_ok s" and ords: "orders_ok ords s" and scan: "memory_scan_expired ords s now limit = (s', Inr removed)"
  shows "memory_ok s'"
proof (cases "limit = 0")
  case False
  with scan have "scan_shards now limit ords s = (s', removed)" by (auto simp: memory_scan_expired_def split: prod.splits)
  then obtain kss where len: "length s' = length s"
      and sc: "\<And>i. i < length s \<Longrightarrow> shard_scanned now (length removed < limit) (s ! i, kss ! i) (s' ! i)"
    by (rule memory_scan_shards [OF ok ords]) blast
  have removed: "\<exists>ks. s' ! i = remove_keys ks (s ! i)" if "i < length s" for i using sc [OF that] by (auto simp: shard_scanned_def)
  show ?thesis
    unfolding memory_ok_def len
  proof (intro conjI allI impI ballI)
    show "s' \<noteq> []" using ok len by (auto simp: memory_ok_def)
    fix i assume i: "i < length s"
    obtain ks where ks: "s' ! i = remove_keys ks (s ! i)" using removed [OF i] by blast
    show "bmap_ok (s' ! i)" using ok i by (simp add: ks memory_ok_def bmap_ok_remove_keys)
    fix k assume "k \<in> set (bmap_keys (s' ! i))"
    then have "k \<in> set (bmap_keys (s ! i))" by (auto simp: ks set_bmap_keys split: if_splits)
    then show "shard_index s' k = i" using ok i len by (simp add: memory_ok_def shard_index_def)
  qed
qed (use ok scan in \<open>simp add: memory_scan_expired_def\<close>)

lemma distinct_test_cids: "distinct test_cids" "length test_cids = 64"
proof -
  have "inj_on (word_of_nat :: nat \<Rightarrow> u64) {1..<65}"
    by (rule inj_on_inverseI [of _ unat]) (simp add: unat_of_nat)
  then show "distinct test_cids" by (simp add: test_cids_def distinct_map)
qed (simp add: test_cids_def)

lemma expiry_under_contention_and_scan_cleanup_passes:
  assumes "\<forall>s. orders_ok (ords s) s"
  shows "expiry_under_contention_and_scan_cleanup loads ords"
proof -
  obtain store where new: "memory_default = Inr store" by (simp add: memory_default_def memory_new_def DEFAULT_SHARD_COUNT_def)
  have "holds {} 1005 store" using memory_new_ok new by (simp add: memory_default_def holds_def)
  moreover have "let store = load_all loads s in expect (memory_scan_expired (ords store) store (1000 + 10) 1000) (\<lambda>store removed.
         length removed = 64 \<and> none_left test_cids store)" if "holds (set test_cids \<union> {}) 1005 s" for s
  proof -
    let ?s = "load_all loads s" and ?D = "set test_cids"
    have h: "holds ?D 1005 ?s" using all_loaded that by simp
    then have ok: "memory_ok ?s" by (simp add: holds_def)
    obtain s' removed where scan: "memory_scan_expired (ords ?s) ?s 1010 1000 = (s', Inr removed)"
      by (simp add: memory_scan_expired_def split_beta)
    note exact = scan_expired_exact [OF ok assms [rule_format] scan]
    have held: "cid \<in> ?D \<longleftrightarrow> memory_entries ?s cid \<noteq> None" for cid
      using holdsD(2,3) [OF h, of cid] by (cases "cid \<in> ?D") auto
    have r: "distinct removed" "set removed \<subseteq> ?D"
        "\<And>cid. memory_entries s' cid = (if cid \<in> set removed then None else memory_entries ?s cid)"
        "length removed < 1000 \<Longrightarrow> \<forall>cid e. memory_entries s' cid = Some e \<longrightarrow> 1010 < entry_expires_at_ms e"
      using exact held by auto
    have D: "card ?D = 64" using distinct_test_cids by (simp add: distinct_card)
    have "length removed \<le> 64" using card_mono [OF _ r(2)] D r(1) by (simp add: distinct_card)
    then have left: "\<forall>cid e. memory_entries s' cid = Some e \<longrightarrow> 1010 < entry_expires_at_ms e" using r(4) by simp
    have "?D \<subseteq> set removed"
    proof
      fix cid assume "cid \<in> ?D"
      then obtain e where e: "memory_entries ?s cid = Some e" "entry_expires_at_ms e = 1005" using holdsD(2) [OF h] by blast
      show "cid \<in> set removed"
      proof (rule ccontr)
        assume "cid \<notin> set removed"
        then have "memory_entries s' cid = Some e" using r(3) e(1) by simp
        then show False using left e(2) by fastforce
      qed
    qed
    then have eq: "set removed = ?D" using r(2) by blast
    then have "length removed = 64" using D r(1) distinct_card by metis
    moreover have "holds {} 1005 s'" using scanned_ok [OF ok assms [rule_format] scan] r(3) h eq by (simp add: holds_def)
    ultimately show ?thesis by (simp add: scan none_loaded Let_def)
  qed
  ultimately have "upsert_all test_cids store (\<lambda>store. let store = load_all loads store in
      expect (memory_scan_expired (ords store) store (1000 + 10) 1000) (\<lambda>store removed. length removed = 64 \<and> none_left test_cids store))"
    by (rule all_upserted)
  then show ?thesis by (simp add: expiry_under_contention_and_scan_cleanup_def new)
qed

lemma serialization_roundtrip_is_stable_for_schema_v1_passes:
  assumes "serde_ok J"
  shows "serialization_roundtrip_is_stable_for_schema_v1 J"
  by (rule serde_record [OF assms, of "sample_record 7 ''peer-a''"]) (simp add: serialization_roundtrip_is_stable_for_schema_v1_def)

text \<open>\<open>bytes\<close> is \<^verbatim>\<open>{"schema_version": SESSION_SCHEMA_VERSION + 1, "record": ..}\<close>.\<close>

lemma decode_rejects_unsupported_schema_version_passes:
  assumes "stored_from_slice J bytes = Inr \<lparr>ss_schema_version = SESSION_SCHEMA_VERSION + 1, ss_record = sample_record 1 ''x''\<rparr>"
  shows "decode_rejects_unsupported_schema_version J bytes"
  using assms by (simp add: decode_rejects_unsupported_schema_version_def decode_session_record_def SESSION_SCHEMA_VERSION_def)

lemma appended_log: "append_op J env op s = (s', Inr r) \<Longrightarrow> ds_log s' \<noteq> []"
  by (auto simp: append_op_def Let_def split: sum.splits if_splits)

lemma disk_upserted:
  assumes "disk_ok J s"
  obtains s' where "disk_upsert J no_faults s cid rec ttl now = (s', Inr (to_versioned (next_entry (live now (disk_entries s) cid) rec ttl now)))"
    and "disk_ok J s'" and "disk_entries s' = (disk_entries s)(cid \<mapsto> next_entry (live now (disk_entries s) cid) rec ttl now)"
    and "ds_log s' \<noteq> []"
proof -
  let ?e = "next_entry (live now (disk_entries s) cid) rec ttl now"
  obtain s' where s': "finish_write J no_faults (disk_write_locked J s cid (live now (disk_entries s) cid) rec ttl now) = (s', Inr (to_versioned ?e))"
      "disk_ok J s'" "ds_entries s' = bmap_insert cid ?e (ds_entries s)"
    using disk_write [OF assms] by blast
  have "ds_log s' \<noteq> []"
    using s'(1) appended_log by (fastforce simp: finish_write_def and_then_def split: prod.splits sum.splits)
  then show thesis
    using that s' disk_entries_insert [OF s'(3)] by (simp add: disk_upsert_def disk_upsert_locked_def disk_live_eq)
qed

lemma disk_loaded: "disk_entries s cid = Some e \<Longrightarrow> now < entry_expires_at_ms e \<Longrightarrow> disk_load J env s cid now = (s, Inr (Some (to_versioned e)))"
  by (simp add: disk_load_def disk_entries_def)

lemma reopened: "disk_ok J s \<Longrightarrow> reopen J s k = k s"
  by (simp add: reopen_def disk_ok_def)

lemma opened:
  assumes "serde_ok J"
  obtains s where "disk_new J no_faults None None = Inr s" and "disk_ok J s" and "disk_entries s = Map.empty" and "ds_log s = []"
    and "ds_snapshot s = None"
proof -
  have "disk_new J no_faults None None = Inr \<lparr>ds_entries = [], ds_log = [], ds_snapshot = None\<rparr>"
    by (simp add: disk_new_def replay_log_def)
  then show thesis using that disk_fresh [OF assms] by simp
qed

lemma test_entry: "entry_expires_at_ms (next_entry cur rec ttl now) = saturating_add now ttl" "vr_version (to_versioned (next_entry None rec ttl now)) = 1"
  by (simp_all add: next_entry_def to_versioned_def saturating_add_def)

lemma compacted:
  assumes "disk_ok J s" and "enumerates ks (ds_entries s)"
  obtains s' where "disk_compact J no_faults ks s = (s', Inr ())" and "disk_ok J s'" and "disk_entries s' = disk_entries s"
    and "ds_log s' = []"
proof -
  have ok: "serde_ok J" "bmap_ok (ds_entries s)" using assms(1) by (simp_all add: disk_ok_def)
  obtain items bs where "snapshot_items J (ds_entries s) ks = Inr items"
      "snapshot_to_vec J \<lparr>snap_schema_version = SESSION_SCHEMA_VERSION, snap_entries = items\<rparr> = Inr bs"
    by (rule snapshot_round_trip [OF ok assms(2)])
  then have "disk_compact J no_faults ks s = (s\<lparr>ds_snapshot := Some bs, ds_log := []\<rparr>, Inr ())"
    by (simp add: disk_compact_def write_snapshot_def)
  then show thesis using that disk_compact_ok [OF assms, of no_faults] by (simp add: disk_entries_def)
qed

lemma disk_backend_append_log_and_recovery_passes:
  assumes "serde_ok J"
  shows "disk_backend_append_log_and_recovery J"
proof -
  obtain s where s: "disk_new J no_faults None None = Inr s" "disk_ok J s" "disk_entries s = Map.empty"
    by (rule opened [OF assms])
  obtain t where t: "disk_upsert J no_faults s 7001 (sample_record 7001 ''disk-peer'') 5000 100 =
        (t, Inr (to_versioned (next_entry None (sample_record 7001 ''disk-peer'') 5000 100)))" "disk_ok J t"
      "disk_entries t 7001 = Some (next_entry None (sample_record 7001 ''disk-peer'') 5000 100)"
    by (rule disk_upserted [OF s(2), of 7001 "sample_record 7001 ''disk-peer''" 5000 100]) (simp add: s(3) live_def)
  show ?thesis
    by (simp add: disk_backend_append_log_and_recovery_def s(1) t(1) reopened [OF t(2)] disk_loaded [OF t(3)] test_entry
        saturating_add_def)
qed

lemma disk_backend_compaction_keeps_state_and_clears_log_passes:
  assumes "serde_ok J" and "\<forall>m. enumerates (order m) m"
  shows "disk_backend_compaction_keeps_state_and_clears_log J order"
proof -
  let ?a = "next_entry None (sample_record 1 ''a'') 5000 1000" and ?b = "next_entry None (sample_record 2 ''b'') 5000 1000"
  obtain s where s: "disk_new J no_faults None None = Inr s" "disk_ok J s" "disk_entries s = Map.empty"
    by (rule opened [OF assms(1)])
  obtain t where t: "disk_upsert J no_faults s 1 (sample_record 1 ''a'') 5000 1000 = (t, Inr (to_versioned ?a))" "disk_ok J t"
      "disk_entries t = [1 \<mapsto> ?a]"
    by (rule disk_upserted [OF s(2), of 1 "sample_record 1 ''a''" 5000 1000]) (simp add: s(3) live_def)
  obtain u where u: "disk_upsert J no_faults t 2 (sample_record 2 ''b'') 5000 1000 = (u, Inr (to_versioned ?b))" "disk_ok J u"
      "disk_entries u = [1 \<mapsto> ?a, 2 \<mapsto> ?b]" "ds_log u \<noteq> []"
    by (rule disk_upserted [OF t(2), of 2 "sample_record 2 ''b''" 5000 1000]) (simp add: t(3) live_def)
  obtain v where v: "disk_compact J no_faults (order (ds_entries u)) u = (v, Inr ())" "disk_ok J v" "disk_entries v = disk_entries u"
      "ds_log v = []"
    by (rule compacted [OF u(2) assms(2) [rule_format]])
  have "disk_entries v 1 = Some ?a" "disk_entries v 2 = Some ?b" by (simp_all add: v(3) u(3))
  then have l: "disk_load J no_faults v 1 1001 = (v, Inr (Some (to_versioned ?a)))"
      "disk_load J no_faults v 2 1001 = (v, Inr (Some (to_versioned ?b)))"
    using disk_loaded by (simp_all add: test_entry saturating_add_def)
  show ?thesis
    by (simp add: disk_backend_compaction_keeps_state_and_clears_log_def s(1) t(1) u(1,4) v(1,4) reopened [OF v(2)] l)
qed

lemma written_line:
  assumes "serde_ok J" and "\<forall>e bs. entry_to_vec J e = Inr bs \<longrightarrow> (\<exists>r. bs = 123 # r)"
    and "disk_upsert J no_faults s cid rec ttl now = (t, Inr v)" and "ds_log s = []" and "ds_snapshot s = None"
  obtains r where "ds_log t = 123 # r @ [10]" and "ds_snapshot t = None" and "valid_utf8 (122 # r)" and "10 \<notin> set r"
    and "last (123 # r) \<noteq> 13"
proof -
  obtain s1 op where "append_op J no_faults op s1 = (t, Inr ())" "ds_log s1 = []" "ds_snapshot s1 = None"
    using assms(3-5)
    by (auto simp: disk_upsert_def disk_upsert_locked_def disk_write_locked_def finish_write_def and_then_def Let_def
        split: sum.splits prod.splits)
  moreover obtain ob where "op_to_vec J op = Inr ob" using assms(1) unfolding serde_ok_def by blast
  moreover obtain line where "entry_to_vec J \<lparr>log_op = op, log_checksum = hash_bytes J ob\<rparr> = Inr line" "valid_utf8 line"
      "10 \<notin> set line" "last line \<noteq> 13"
    using assms(1) unfolding serde_ok_def by blast
  moreover obtain r where "line = 123 # r" using assms(2) calculation by blast
  ultimately show thesis using that by (auto simp: append_op_def)
qed

lemma disk_backend_detects_checksum_corruption_passes:
  assumes "serde_ok J" and "\<forall>e bs. entry_to_vec J e = Inr bs \<longrightarrow> (\<exists>r. bs = 123 # r)"
    and "\<forall>r. \<exists>x. entry_from_str J (122 # r) = Inl x"
  shows "disk_backend_detects_checksum_corruption J"
proof -
  obtain s where s: "disk_new J no_faults None None = Inr s" "disk_ok J s" "ds_log s = []" "ds_snapshot s = None"
    by (rule opened [OF assms(1)])
  let ?v = "to_versioned (next_entry (live 10 (disk_entries s) 9) (sample_record 9 ''x'') 5000 10)"
  obtain t where t: "disk_upsert J no_faults s 9 (sample_record 9 ''x'') 5000 10 = (t, Inr ?v)"
    by (rule disk_upserted [OF s(2), of 9 "sample_record 9 ''x''" 5000 10])
  obtain r where r: "ds_log t = 123 # r @ [10]" "ds_snapshot t = None" "valid_utf8 (122 # r)" "10 \<notin> set r" "last (123 # r) \<noteq> 13"
    by (rule written_line [OF assms(1,2) t s(3,4)])
  have "read_lines ((122 # r) @ [10]) = [122 # r]"
    using read_lines_one [of "122 # r" "[]"] r(4,5) by (auto split: if_splits)
  moreover obtain x where "entry_from_str J (122 # r) = Inl x" using assms(3) by blast
  ultimately have "disk_new J no_faults (Some (122 # r @ [10])) None = Inl CorruptLogEntry"
    using r(3) by (simp add: disk_new_def replay_log_def replay_line_def split: list.split)
  then show ?thesis by (simp add: disk_backend_detects_checksum_corruption_def s(1) t r(1,2))
qed

lemma disk_backend_supports_schema_migration_from_v0_passes:
  assumes "serde_ok J" and "value_schema J legacy = Inr None" and "legacy_from_value J legacy = Inr (sample_record 55 ''legacy'')"
  shows "disk_backend_supports_schema_migration_from_v0 J legacy"
proof -
  let ?op = "DiskUpsert 55 1 50000 legacy"
  obtain op_bytes where op: "op_to_vec J ?op = Inr op_bytes" using assms(1) unfolding serde_ok_def by blast
  let ?e = "\<lparr>log_op = ?op, log_checksum = hash_bytes J op_bytes\<rparr>"
  obtain line where line: "entry_to_vec J ?e = Inr line" "entry_from_str J line = Inr ?e"
      "valid_utf8 line" "\<not> blank_line line" "10 \<notin> set line" "last line \<noteq> 13"
    using assms(1) unfolding serde_ok_def by blast
  have "read_lines (line @ [10]) = [line]" using read_lines_one [OF line(5), of "[]"] line(6) by simp
  then show ?thesis
    by (simp add: disk_backend_supports_schema_migration_from_v0_def op line disk_new_def replay_log_def replay_line_def
        apply_op_def decode_session_record_migrating_def SESSION_SCHEMA_VERSION_def assms(2,3) disk_load_def bmap_get_def Let_def)
qed

lemma redis_store_cas_and_ttl_behaves_like_contract_passes:
  assumes "redis_lawful R clock deadline (expiry_index_key \<lparr>rs_key_prefix = prefix\<rparr>)" and "serde_ok J"
    and "\<forall>cid. \<not> rd_exists R d (session_key \<lparr>rs_key_prefix = prefix\<rparr> cid)"
  shows "redis_store_cas_and_ttl_behaves_like_contract run_it R J prefix d"
proof -
  let ?S = "\<lparr>rs_key_prefix = prefix\<rparr>"
  let ?ops = "[(50000, CompareAndSwap 501 None (sample_record 501 ''r1'') 10000),
             (50000 + 1, CompareAndSwap 501 (Some 1) (sample_record 501 ''r2'') 10000),
             (50000 + 2, CompareAndSwap 501 (Some 1) (sample_record 501 ''r3'') 10000),
             (50000 + 3, Load 501), (50000 + 20000, Load 501)]"
  have "snd (run (redis_step R J ?S) d ?ops) = spec_run Map.empty ?ops"
  proof (rule redis.run_within)
    show "redis_ok R clock deadline J ?S 0 d" using assms by (simp add: redis_ok_def)
    show "agrees 0 (redis_entries R J ?S d) Map.empty" using assms(3) by (simp add: agrees_def live_def redis_entries_def)
    show "\<forall>i < length ?ops. 0 + i < 2 ^ 53 \<and> exact_times (?ops ! i)" by (simp add: nth_Cons')
  qed simp_all
  then show ?thesis
    by (simp add: redis_store_cas_and_ttl_behaves_like_contract_def redis_new_def no_redis_faults_def live_def next_entry_def
        to_versioned_def saturating_add_def Let_def)
qed

end
