(* ===== verification/Runtime_Tests.thy ===== *)
theory Runtime_Tests
  imports Client_Runtime Server_Store Core_Tests
begin

text \<open>
  The unit tests of \<^verbatim>\<open>v3-client-runtime\<close> and \<^verbatim>\<open>v3-server-runtime\<close>, as predicates on the model, in the order of the
  source, and that the model passes them.  The JSON payload, the time a call of the store takes and the base64
  encoder are arguments of the tests.
\<close>

section \<open>Tests\<close>

subsection \<open>The client\<close>

text \<open>The function \<^verbatim>\<open>cfg\<close> of both crates is \<^verbatim>\<open>default_cfg\<close> of the core's tests.\<close>

definition begun_runtime :: "u64 \<Rightarrow> u64 \<Rightarrow> (client_runtime \<Rightarrow> bool) \<Rightarrow> bool" where
  "begun_runtime start now k =
     expect (client_begin_handshake (client_new 77 default_cfg) start) (\<lambda>runtime _.
     expect_ok (encode (new_frame ServerHello 0 77 [] [])) (\<lambda>server_hello.
     expect (client_runtime_on_datagram runtime now 9 server_hello) (\<lambda>runtime _. k runtime)))"

definition client_probe_timer_is_driven_by_runtime_scheduler :: bool where
  "client_probe_timer_is_driven_by_runtime_scheduler = begun_runtime 0 1 (\<lambda>runtime.
     expect (client_poll_timers runtime 250 8) (\<lambda>runtime out.
       ClientCore ReactivationProbeSent \<in> set (cro_events out) \<and> lifecycle (cr_core runtime) = Reactivating))"

definition candidate :: "string \<Rightarrow> u32 \<Rightarrow> ip_addr \<Rightarrow> u16 \<Rightarrow> candidate_type \<Rightarrow> ice_candidate" where
  "candidate foundation priority ip port typ =
     \<lparr>ic_foundation = foundation, ic_component = 1, ic_transport = ''udp'', ic_priority = priority, ic_address = ip,
      ic_port = port, ic_typ = typ, ic_related_address = None, ic_related_port = None\<rparr>"

definition client_runtime_ice_nomination_updates_path :: bool where
  "client_runtime_ice_nomination_updates_path =
     (let runtime = client_set_relay_policy (client_new 77 default_cfg) RelayOnly;
          runtime = client_set_local_candidates runtime
            [candidate ''a'' 100 (V4 10 0 0 1) 5000 Host, candidate ''b'' 200 (V4 203 0 113 10) 6000 Relay];
          runtime = client_set_remote_candidates runtime [candidate ''c'' 200 (V4 203 0 113 20) 7000 Relay] in
      expect (client_run_ice_nomination runtime) (\<lambda>runtime out. cro_events out = []))"

definition remote_candidates_loaded_from_discovery_payload :: "'v json_ops \<Rightarrow> 'v \<Rightarrow> bool" where
  "remote_candidates_loaded_from_discovery_payload J payload =
     expect (client_load_remote_candidates J (client_new 77 default_cfg) payload) (\<lambda>runtime count. count = 1)"

text \<open>What the accessors read in \<^verbatim>\<open>{"candidates": [{"address":"203.0.113.10","port":6000,"type":"relay","priority":220}]}\<close>.\<close>

definition discovery_payload :: "'v json_ops \<Rightarrow> 'v \<Rightarrow> bool" where
  "discovery_payload J payload \<longleftrightarrow>
     (\<exists>array c address port typ priority.
        json_get J payload = [''candidates'' \<mapsto> array] \<and> json_array J array = Some [c]
        \<and> json_get J c = [''address'' \<mapsto> address, ''port'' \<mapsto> port, ''type'' \<mapsto> typ, ''priority'' \<mapsto> priority]
        \<and> json_str J address = Some ''203.0.113.10'' \<and> json_u64 J port = Some 6000 \<and> json_str J typ = Some ''relay''
        \<and> json_u64 J priority = Some 220)"

definition metrics_capture_core_and_nat_events :: bool where
  "metrics_capture_core_and_nat_events = begun_runtime 0 1 (\<lambda>runtime.
     expect (client_poll_timers runtime 250 8) (\<lambda>runtime _.
       let (runtime, _) = client_on_nat_tick runtime 260; m = cr_metrics runtime
       in cm_handshake_started m \<ge> 1 \<and> cm_handshake_established m \<ge> 1 \<and> cm_reactivation_probe_sent m \<ge> 1
          \<and> cm_msr_sent m \<ge> 1))"

definition dedupes_probe_timer_when_handshake_and_server_hello_share_timestamp :: bool where
  "dedupes_probe_timer_when_handshake_and_server_hello_share_timestamp = begun_runtime 1000 1000 (\<lambda>runtime.
     expect (client_poll_timers runtime 1250 16) (\<lambda>runtime out.
       length (filter (\<lambda>e. e = ClientCore ReactivationProbeSent) (cro_events out)) = 1))"

subsection \<open>The server\<close>

definition with_runtime ::
    "(memory_store \<Rightarrow> u64 \<times> store_op \<Rightarrow> u64) \<Rightarrow> (bytes \<Rightarrow> string) \<Rightarrow> (memory_store server_env \<Rightarrow> memory_store server_runtime \<Rightarrow> bool) \<Rightarrow> bool" where
  "with_runtime el b64 k = expect_ok memory_default (\<lambda>store. k (memory_env el b64) (server_new default_cfg store))"

definition client_hello :: "u64 \<Rightarrow> (bytes \<Rightarrow> bool) \<Rightarrow> bool" where
  "client_hello cid k = expect_ok (encode (new_frame ClientHello 0 cid [] [])) k"

definition relay_candidate :: "ip_addr \<Rightarrow> u16 \<Rightarrow> ice_candidate" where
  "relay_candidate ip port = candidate ''r'' 200 ip port Relay"

definition server_runtime_routes_sessions_by_cid_and_persists ::
    "(memory_store \<Rightarrow> u64 \<times> store_op \<Rightarrow> u64) \<Rightarrow> (bytes \<Rightarrow> string) \<Rightarrow> bool" where
  "server_runtime_routes_sessions_by_cid_and_persists el b64 = with_runtime el b64 (\<lambda>E runtime.
     client_hello 100 (\<lambda>hello1. expect (server_runtime_on_datagram E runtime 1 3 hello1) (\<lambda>runtime out1.
     client_hello 200 (\<lambda>hello2. expect (server_runtime_on_datagram E runtime 2 5 hello2) (\<lambda>runtime out2.
       active_sessions runtime = 2 \<and> length (sro_outbound_datagrams out1) = 1 \<and> length (sro_outbound_datagrams out2) = 1 \<and>
     expect (memory_load (sv_store runtime) 100 3) (\<lambda>store loaded1. loaded1 \<noteq> None \<and>
     expect (memory_load store 200 3) (\<lambda>store loaded2. loaded2 \<noteq> None)))))))"

definition parse_error_does_not_crash_runtime ::
    "(memory_store \<Rightarrow> u64 \<times> store_op \<Rightarrow> u64) \<Rightarrow> (bytes \<Rightarrow> string) \<Rightarrow> bool" where
  "parse_error_does_not_crash_runtime el b64 = with_runtime el b64 (\<lambda>E runtime.
     expect (server_runtime_on_datagram E runtime 1 1 [1, 2]) (\<lambda>runtime out.
       sro_events out = [RuntimeParseError] \<and> sro_outbound_datagrams out = [] \<and> sm_parse_errors (sv_metrics runtime) = 1))"

definition ice_nomination_binds_vhost_to_selected_path ::
    "(memory_store \<Rightarrow> u64 \<times> store_op \<Rightarrow> u64) \<Rightarrow> (bytes \<Rightarrow> string) \<Rightarrow> bool" where
  "ice_nomination_binds_vhost_to_selected_path el b64 = with_runtime el b64 (\<lambda>E runtime.
     client_hello 777 (\<lambda>hello. expect (server_runtime_on_datagram E runtime 1 10 hello) (\<lambda>runtime _.
     expect (server_on_ice_candidates runtime 777 ''vh.local'' [relay_candidate (V4 203 0 113 1) 5000]
         [relay_candidate (V4 203 0 113 2) 6000]) (\<lambda>runtime out. sro_events out = []))))"

definition server_runtime_can_gather_host_candidates ::
    "(memory_store \<Rightarrow> u64 \<times> store_op \<Rightarrow> u64) \<Rightarrow> (bytes \<Rightarrow> string) \<Rightarrow> bool" where
  "server_runtime_can_gather_host_candidates el b64 = with_runtime el b64 (\<lambda>E runtime.
     let gathered = gather_local_candidates runtime [(V4 10 0 0 1, 5000)] 1
     in length gathered = 1 \<and> ic_typ (gathered ! 0) = Host)"

definition metrics_capture_core_nat_and_store_activity ::
    "(memory_store \<Rightarrow> u64 \<times> store_op \<Rightarrow> u64) \<Rightarrow> (bytes \<Rightarrow> string) \<Rightarrow> bool" where
  "metrics_capture_core_nat_and_store_activity el b64 = with_runtime el b64 (\<lambda>E runtime.
     client_hello 500 (\<lambda>hello. expect (server_runtime_on_datagram E runtime 1 3 hello) (\<lambda>runtime _.
     expect (server_on_ice_candidates runtime 500 ''vh.local'' [relay_candidate (V4 203 0 113 1) 5000]
         [relay_candidate (V4 203 0 113 2) 6000]) (\<lambda>runtime _.
     expect (server_poll_timers E runtime 200 8) (\<lambda>runtime _.
       let m = sv_metrics (fst (server_on_nat_tick runtime 10000))
       in sm_handshake_established m \<ge> 1 \<and> sm_msr_sent m \<ge> 1 \<and> sm_store_load_calls m \<ge> 1 \<and> sm_store_upsert_calls m \<ge> 1
          \<and> sm_ice_candidate_selected m = 0 \<and> sm_peak_sessions m \<ge> 1)))))"

section \<open>The model passes them\<close>

lemmas client_test_defs = begun_runtime_def client_begin_handshake_def client_runtime_on_datagram_def client_poll_timers_def
  client_new_def client_call_def client_apply_core_output_def client_metrics_default_def client_on_nat_tick_def
  timers_push_new_def timers_take_def slot_def client_observe_event_def client_observe_datagram_def

lemma client_probe_timer_is_driven_by_runtime_scheduler_passes: "client_probe_timer_is_driven_by_runtime_scheduler"
  by (simp add: client_probe_timer_is_driven_by_runtime_scheduler_def client_test_defs test_defs core_defs cong: expect_cong)

lemma client_runtime_ice_nomination_updates_path_passes: "client_runtime_ice_nomination_updates_path"
  by (simp add: client_runtime_ice_nomination_updates_path_def client_run_ice_nomination_def Let_def)

lemma remote_candidates_loaded_from_discovery_payload_passes:
  assumes "discovery_payload J payload" and "parse_ip J ''203.0.113.10'' = Some (V4 203 0 113 10)"
  shows "remote_candidates_loaded_from_discovery_payload J payload"
  using assms
  by (auto simp: discovery_payload_def remote_candidates_loaded_from_discovery_payload_def client_load_remote_candidates_def
      json_field_def parse_candidate_def)

lemma metrics_capture_core_and_nat_events_passes: "metrics_capture_core_and_nat_events"
  by (simp add: metrics_capture_core_and_nat_events_def client_test_defs test_defs core_defs cong: expect_cong)

lemma dedupes_probe_timer_when_handshake_and_server_hello_share_timestamp_passes:
  "dedupes_probe_timer_when_handshake_and_server_hello_share_timestamp"
  by (simp add: dedupes_probe_timer_when_handshake_and_server_hello_share_timestamp_def client_test_defs test_defs core_defs
      cong: expect_cong)

lemma parse_error_does_not_crash_runtime_passes: "parse_error_does_not_crash_runtime el b64"
  by (simp add: parse_error_does_not_crash_runtime_def with_runtime_def memory_default_def memory_new_def DEFAULT_SHARD_COUNT_def
      server_runtime_on_datagram_def decode_def wire_consts server_new_def server_new_with_nat_policy_def bump_def
      server_metrics_default_def incr_def saturating_add_def)

lemma server_runtime_can_gather_host_candidates_passes: "server_runtime_can_gather_host_candidates el b64"
  by (simp add: server_runtime_can_gather_host_candidates_def with_runtime_def memory_default_def memory_new_def
      DEFAULT_SHARD_COUNT_def gather_local_candidates_def gather_host_candidates_def)

lemmas server_test_defs = with_runtime_def client_hello_def memory_default_def memory_new_def DEFAULT_SHARD_COUNT_def
  memory_env_def server_new_def server_new_with_nat_policy_def server_runtime_on_datagram_def ensure_session_loaded_def
  memory_load_def memory_upsert_def effective_entry_def shard_index_def initial_session_def on_path_event_def session_call_def
  server_apply_core_output_def settle_session_def persist_session_def update_peak_sessions_metric_def bump_def incr_def
  server_metrics_default_def server_observe_datagrams_def server_observe_datagram_def timers_push_def timers_take_def slot_def
  route_datagram_def vhost_events_def session_snapshot_def server_observe_event_def bmap_contains_def server_poll_timers_def
  server_on_nat_tick_def server_on_ice_candidates_def active_sessions_def

lemma server_runtime_routes_sessions_by_cid_and_persists_passes: "server_runtime_routes_sessions_by_cid_and_persists el b64"
  by (simp add: server_runtime_routes_sessions_by_cid_and_persists_def server_test_defs test_defs core_defs cong: expect_cong)

lemma ice_nomination_binds_vhost_to_selected_path_passes: "ice_nomination_binds_vhost_to_selected_path el b64"
  by (simp add: ice_nomination_binds_vhost_to_selected_path_def server_test_defs test_defs core_defs cong: expect_cong)

lemma metrics_capture_core_nat_and_store_activity_passes: "metrics_capture_core_nat_and_store_activity el b64"
  by (simp add: metrics_capture_core_nat_and_store_activity_def server_test_defs test_defs core_defs cong: expect_cong)

end
