(* ===== verification/Engine_Tests.thy ===== *)
theory Engine_Tests
  imports Registry Runtime_Tests
begin

text \<open>
  The unit tests of \<^verbatim>\<open>v3-ffi\<close> up to the first core handshake, as predicates on the model, in the order of the source,
  and that the model passes them.  Freeing the handles at their end checks nothing and is left out.
\<close>

section \<open>Tests\<close>

text \<open>\<^verbatim>\<open>assert_eq!(v3_ffi_..(..), 0)\<close>; a call that aborts fails the test.\<close>

definition returns_zero :: "(registry \<times> i32) option \<Rightarrow> (registry \<Rightarrow> bool) \<Rightarrow> bool" where
  "returns_zero r k = (case r of None \<Rightarrow> False | Some (g, rc) \<Rightarrow> rc = 0 \<and> k g)"

text \<open>A copy into a zeroed buffer of the reported length.\<close>

definition copied_datagram :: "registry \<Rightarrow> u64 \<Rightarrow> nat \<Rightarrow> bytes option \<times> nat" where
  "copied_datagram g h i = out_datagram_copy g h i (Some (replicate (out_datagram_len g h i) 0))"

definition abi_version_is_stable :: bool where
  "abi_version_is_stable = (v3_ffi_abi_version = 1)"

definition client_handle_lifecycle_and_output_copy :: "engine_env \<Rightarrow> bool" where
  "client_handle_lifecycle_and_output_copy E =
     (let (g, h) = v3_ffi_new_client registry_default 55 100 2 1000 in
      h > 0 \<and>
      returns_zero (v3_ffi_call E g h (BeginHandshake 0)) (\<lambda>g.
        out_datagram_count g h = 1 \<and>
        (let len = out_datagram_len g h 0; (buf, copied) = copied_datagram g h 0
         in copied = len \<and> expect_ok (decode (bytes_from_ptr buf)) (\<lambda>decoded. frame_type decoded = ClientHello))))"

definition server_handle_accepts_datagram :: "engine_env \<Rightarrow> bool" where
  "server_handle_accepts_datagram E =
     (let (g, server) = v3_ffi_new_server registry_default 100 2 1000;
          (g, client) = v3_ffi_new_client g 99 100 2 1000 in
      returns_zero (v3_ffi_call E g client (BeginHandshake 0)) (\<lambda>g.
        let (buf, _) = copied_datagram g client 0 in
        returns_zero (v3_ffi_call E g server (Datagram 1 7 buf)) (\<lambda>g. out_datagram_count g server \<ge> 1)))"

section \<open>The model passes them\<close>

lemma returns_zero_simps [simp]: "returns_zero (Some (g, rc)) k \<longleftrightarrow> rc = 0 \<and> k g" "returns_zero None k = False"
  by (simp_all add: returns_zero_def)

lemma returns_zero_cong: "r = r' \<Longrightarrow> returns_zero r k = returns_zero r' k"
  by simp

lemma abi_version_is_stable_passes: "abi_version_is_stable"
  by (simp add: abi_version_is_stable_def v3_ffi_abi_version_def)

lemmas engine_test_defs = ffi_defs bmap_get_def engine_begin_handshake_def client_result_def client_begin_handshake_def client_call_def
  client_apply_core_output_def normalize_client_output_def copied_datagram_def out_datagram_count_def out_datagrams_def
  out_datagram_len_def out_datagram_copy_def copy_out_def list_get_def dgram_pair_def bytes_from_ptr_def client_new_def

lemma frame_not_empty: "length p \<le> 1000 \<Longrightarrow> small_tlvs ts \<Longrightarrow> frame_bytes t c p ts \<noteq> []"
  using frame_bytes_ok(2) [of p ts t c] by (auto simp: decode_def wire_consts)

lemma client_handle_lifecycle_and_output_copy_passes: "client_handle_lifecycle_and_output_copy E"
  by (simp add: client_handle_lifecycle_and_output_copy_def engine_test_defs test_defs core_defs frame_not_empty cong: returns_zero_cong)

lemma server_handle_accepts_datagram_passes: "server_handle_accepts_datagram E"
  by (simp add: server_handle_accepts_datagram_def engine_test_defs engine_on_datagram_def server_engine_datagram_def server_result_def
      normalize_server_output_def server_test_defs test_defs core_defs frame_not_empty cong: returns_zero_cong)

end
