(* ===== verification/Spec2Isabelle.thy ===== *)
theory Spec2Isabelle
  imports Core_Transfer Core_Lifecycle Server_Store Store_Redis Client_Runtime Handshake Engine_Tls Jni Conversation Packet_Trace
    Orchestrator_Api Core_Tests Nat_Tests Crypto_Tests Store_Tests Engine_Tests
begin

text \<open>
  A model of the native library of the Todero protocol, version 3, and the theorems that make it correct.

  \<^bold>\<open>The program.\<close>  A client and a server exchange UDP datagrams.  \<^verbatim>\<open>v3-wire\<close> frames them.  \<^verbatim>\<open>v3-core\<close> is the
  protocol state machine of one session: handshake, pull-based transfer of messages (a side advertises its queue
  in an MSR frame, the other requests a range and gets data frames or fragments), liveness timers and their
  renegotiation.  \<^verbatim>\<open>v3-client-runtime\<close> drives one machine with a timer table; \<^verbatim>\<open>v3-server-runtime\<close> drives one
  machine per connection identifier and keeps a record of each in a store of \<^verbatim>\<open>v3-store\<close>.  \<^verbatim>\<open>v3-crypto\<close> holds the
  handshake adapters, frame authentication and certificate rules, \<^verbatim>\<open>v3-nat\<close> candidates, connectivity checks, STUN
  and TURN.  \<^verbatim>\<open>v3-ffi\<close> puts a handshake adapter in front of a runtime, keeps the engines in a registry of handles
  and exports them to C and to Java.

  \<^bold>\<open>Theories and source.\<close>
  \<^item> \<open>Prelude\<close>: words and bytes, saturating arithmetic, maps as association lists sorted by key (\<open>bmap\<close>, for
    \<^verbatim>\<open>BTreeMap\<close> and \<^verbatim>\<open>HashMap\<close>), UTF-8, runs of a step function; the locales \<open>codec\<close>, \<open>exact_codec\<close>,
    \<open>step_invariant\<close> and \<open>trace_invariant\<close>, which the components interpret.
  \<^item> \<open>Wire\<close>: \<^verbatim>\<open>v3-wire/src/lib.rs\<close>.  The codec is exact (\<open>wire_exact\<close>), and the decoder over reads that may panic
    never does.
  \<^item> \<open>Core_Codec\<close>, \<open>Core\<close>: \<^verbatim>\<open>v3-core/src/lib.rs\<close>; \<^verbatim>\<open>CoreMachine\<close> is the record \<open>core_machine\<close>, each method a
    function to the new machine and an error or an output.  \<open>Core_Lemmas\<close> and \<open>Core_Effects\<close> break a call into
    elementary effects, an inductive step relation; \<open>Core_Lifecycle\<close> proves the session's invariants by induction
    on it, \<open>Core_Receive\<close> the receiver's, \<open>Core_Transfer\<close> the transfer between two machines: what arrives is right under
    loss, duplication and reordering, and an answer that arrives in full yields the message, payload included.
    \<open>Core_Timers\<close>: the timers the machine needs are always asked for.
  \<^item> \<open>Timers\<close>: the timer tables of the runtimes.  \<open>Client_Runtime\<close>: \<^verbatim>\<open>v3-client-runtime/src/lib.rs\<close>.
    \<open>Server_Runtime\<close>: \<^verbatim>\<open>v3-server-runtime/src/lib.rs\<close>, over any store; \<open>Server_Store\<close>: over a store that keeps
    the contract of the locale \<open>runtime_store\<close>, which the in-memory and the disk store do: what is in the store after
    a call, and what a restarted server finds of a session that was not lost.
  \<^item> \<open>Store\<close>, \<open>Store_Disk\<close>, \<open>Store_Durability\<close>, \<open>Store_Redis\<close>: \<^verbatim>\<open>v3-store/src/lib.rs\<close>.  The abstract store is a map
    of versioned entries with expiry; the locale \<open>session_store\<close> states that a store answers like it, and is the
    special case without bounds of \<open>bounded_store\<close>.  The in-memory and the disk store keep the first; the Redis
    store keeps the second, up to \<open>2 ^ 53\<close> operations and milliseconds, above which the numbers of its Lua scripts
    are not exact.  \<open>Store_Durability\<close>: the files reproduce the disk store as long as the appends of its operations
    succeed, whatever happens to compactions; and how a torn append and two races break that.
  \<^item> \<open>Crypto\<close>, \<open>Handshake\<close>: \<^verbatim>\<open>v3-crypto/src/lib.rs\<close>; the locale \<open>handshake_provider\<close> is the trait
    \<^verbatim>\<open>HandshakeProvider\<close>, interpreted by both adapters.
  \<^item> \<open>Ice\<close>, \<open>Stun_Turn\<close>: \<^verbatim>\<open>v3-nat/src/lib.rs\<close>.
  \<^item> \<open>Engine\<close>: \<^verbatim>\<open>v3-ffi/src/lib.rs\<close>, each exported function on an engine (\<open>engine_step\<close>) and on the registry
    (\<open>ffi_step\<close>), and the calls that read the output.  \<open>Registry\<close>: a handle is an engine of its own and its
    identifier is given out once, every engine is well-formed, what failing calls leave, and that the output is read
    back exactly, within the caller's buffer.  \<open>Engine_Tls\<close>: what the
    adapter keeps from the core, that two engines connect, and what the adapter does not do.  \<open>Jni\<close>: the Java
    exports as calls of the C interface.  \<open>Packet_Trace\<close>: the trace on standard error, what its notes say and which
    packets it leaves out.
  \<^item> \<open>Core_Exchange\<close>, \<open>Server_Calls\<close>, \<open>Conversation\<close>: the composition.  \<open>Core_Exchange\<close> states what each call of one
    message between two established machines returns, \<open>Server_Calls\<close> that a call on a server runtime is a step of
    the machine of its session; the locale \<open>endpoint\<close> lifts machines to engines, on both sides, and
    \<open>conversation_delivered\<close> runs any conversation between two engines from the handshake on.
  \<^item> \<open>Orchestrator_Api\<close>: the data types of \<^verbatim>\<open>v3-orchestrator-api/src/lib.rs\<close> and the constant of \<^verbatim>\<open>v3-transport-udp\<close>.
  \<^item> \<open>Test_Prelude\<close>, \<open>Core_Tests\<close>, \<open>Nat_Tests\<close>, \<open>Crypto_Tests\<close>, \<open>Runtime_Tests\<close>, \<open>Store_Tests\<close>, \<open>Engine_Tests\<close>: the unit
    tests of the crates, under their own names, as predicates on the model, and lemmas \<open>.._passes\<close>: what the tests
    expect of the program is what the definitions compute.

  \<^bold>\<open>Effects and errors.\<close>  A call that changes state returns the new state, also when it fails: writes made before
  an error persist, as they do through \<^verbatim>\<open>&mut self\<close>.  \<open>Inl\<close> is an error, \<open>Inr\<close> a result; \<open>None\<close> stands for a panic
  where the code can panic.  Integers keep their width; sums that overflow wrap, as in a release build.  Operations
  under a lock are one step; where a lock is released between two halves (the disk store's appends and its
  \<^verbatim>\<open>compact\<close>) the halves are separate operations.

  \<^bold>\<open>Parameters.\<close>  HMAC-SHA256, the Redis commands and Lua's numbers (\<open>redis_ops\<close>), the calls into OpenSSL
  (\<open>openssl_ops\<close>), \<^verbatim>\<open>serde_json\<close>, base64, the hasher,
  wall-clock time, environment variables, \<^verbatim>\<open>HashMap\<close> iteration order, file calls that may fail, \<^verbatim>\<open>Path::exists\<close>, the derived \<^verbatim>\<open>Debug\<close> and
  \<^verbatim>\<open>Display\<close> texts (\<open>engine_env\<close>) and the JNI array functions are arguments.  What is assumed of them is a named
  hypothesis of the theorem, and the theorem's witness instantiates it.

  \<^bold>\<open>Loops.\<close>  Every loop is a structural recursion or a \<open>function\<close> with a measure; no fuel is used in a model,
  only in two loops of the unit tests, where it is not used up.
  \<open>flush_loop\<close> bounds the flush loop's turns to show that the bound \<open>length (received_buffer m) + 1\<close> is never
  reached early.  \<open>rounds\<close> in \<open>Engine_Tls\<close> counts exchanges of two engines; three are enough to connect.  \<open>pump\<close> in
  \<open>Conversation\<close> exchanges what is in flight; three rounds are enough for a message, and what is left after the last
  would be a failure.

  \<^bold>\<open>Not modelled.\<close>  The mutexes of the registry and of the packet table, which make every exported call one step;
  the clock and the hasher, which are parameters; derived serialisation.  Scripts, workflows, packaging and the
  projects under \<^verbatim>\<open>tests\<close> and \<^verbatim>\<open>android-aar\<close> hold no protocol logic.  Of the unit tests, those of \<^verbatim>\<open>v3-ffi\<close> that pump two
  engines are left out, since their loop delivers the same datagrams over and over (\<open>Conversation\<close> shows what they
  are after), and the Redis scan test, which rests on the order in which Redis lists a sorted set.
\<close>

end
